(* ===== verification/Prelude.thy ===== *)
theory Prelude
  imports Main "HOL-Library.AList" "HOL-Library.Multiset"
begin

text \<open>
  The prelude of the development: the values of the language (JSON-like values, objects as
  insertion-ordered association lists), its truthiness, the string tests the validators use, the
  "first throw wins" composition of checks, and the generic lemmas on objects that every component
  shares.

  Conventions. An absent property and a property that holds \<open>undefined\<close> are both \<open>None\<close>.
  An object is an association list; reading is \<open>oget\<close>, writing \<open>oset\<close> (which keeps
  the position of an existing key and appends a new one, as an object does for keys that do not look
  like an array index), \<open>odel\<close> is \<open>delete\<close> and \<open>omerge a b\<close> the spread
  \<open>{...a, ...b}\<close>. Objects are modelled without a prototype chain. A \<open>char\<close> is a
  UTF-16 code unit below 256; the one larger unit the source writes, the ellipsis, is the code 0x85.
\<close>

named_theorems obj_simps \<open>reading an object after an update\<close>
named_theorems check_simps \<open>running a list of checks\<close>

section \<open>Values\<close>

datatype jval =
    JNull
  | JBool bool
  | JNum int          \<comment> \<open>a number that is an integer\<close>
  | JFrac int int     \<comment> \<open>a finite number that is no integer: numerator and denominator\<close>
  | JStr string
  | JArr "jval list"
  | JObj "(string \<times> jval) list"

type_synonym obj = "(string \<times> jval) list"
type_synonym works = "(string \<times> obj) list"     \<comment> \<open>\<open>view.work\<close>: items by id\<close>

definition oget :: "(string \<times> 'v) list \<Rightarrow> string \<Rightarrow> 'v option" where
  "oget ob k = map_of ob k"

definition oset :: "string \<Rightarrow> 'v \<Rightarrow> (string \<times> 'v) list \<Rightarrow> (string \<times> 'v) list" where
  "oset k v ob = AList.update k v ob"

definition odel :: "string \<Rightarrow> (string \<times> 'v) list \<Rightarrow> (string \<times> 'v) list" where
  "odel k ob = AList.delete k ob"

definition omerge :: "(string \<times> 'v) list \<Rightarrow> (string \<times> 'v) list \<Rightarrow> (string \<times> 'v) list" where
  "omerge a b = map (\<lambda>(k, v). (k, case map_of b k of Some w \<Rightarrow> w | None \<Rightarrow> v)) a
     @ filter (\<lambda>(k, _). map_of a k = None) b"

text \<open>\<open>if (v !== undefined) ob[k] = v\<close>, the guarded write the fold uses throughout.\<close>

definition oset_opt :: "string \<Rightarrow> 'v option \<Rightarrow> (string \<times> 'v) list \<Rightarrow> (string \<times> 'v) list" where
  "oset_opt k vo ob = (case vo of None \<Rightarrow> ob | Some v \<Rightarrow> oset k v ob)"

definition okeys :: "(string \<times> 'v) list \<Rightarrow> string list" where
  "okeys ob = map fst ob"

definition ohas :: "(string \<times> 'v) list \<Rightarrow> string \<Rightarrow> bool" where
  "ohas ob k = (oget ob k \<noteq> None)"

text \<open>A key that was never created reads as the empty container (\<open>x ?? {}\<close>, \<open>x ??= {}\<close>).\<close>

definition lazyd :: "'a list option \<Rightarrow> 'a list" where
  "lazyd x = (case x of None \<Rightarrow> [] | Some y \<Rightarrow> y)"

lemma oget_Nil [simp]: "oget [] k = None"
  by (simp add: oget_def)

lemma oget_Cons [simp]: "oget ((k', v) # ob) k = (if k = k' then Some v else oget ob k)"
  by (auto simp: oget_def)

lemma oget_oset [simp, obj_simps]: "oget (oset k v ob) k' = (if k = k' then Some v else oget ob k')"
  by (simp add: oget_def oset_def update_conv')

lemma oget_odel [simp, obj_simps]: "oget (odel k ob) k' = (if k = k' then None else oget ob k')"
  by (simp add: oget_def odel_def delete_conv')

lemma oget_oset_opt [simp, obj_simps]:
  "oget (oset_opt k vo ob) k' = (if k = k' \<and> vo \<noteq> None then vo else oget ob k')"
  by (cases vo) (auto simp: oset_opt_def)

lemma map_of_map_snd:
  "map_of (map (\<lambda>(k, v). (k, f k v)) xs) k = map_option (f k) (map_of xs k)"
  by (induction xs) auto

lemma map_of_filter_key:
  "map_of (filter (\<lambda>(k, _). P k) xs) k = (if P k then map_of xs k else None)"
  by (induction xs) auto

lemma oget_omerge [simp, obj_simps]:
  "oget (omerge a b) k = (case oget b k of Some v \<Rightarrow> Some v | None \<Rightarrow> oget a k)"
proof -
  have *: "map_of (map (\<lambda>(k, v). (k, case map_of b k of Some w \<Rightarrow> w | None \<Rightarrow> v)) a) k =
        map_option (\<lambda>v. case map_of b k of Some w \<Rightarrow> w | None \<Rightarrow> v) (map_of a k)"
    by (rule map_of_map_snd)
  have **: "map_of (filter (\<lambda>(k, _). map_of a k = None) b) k =
        (if map_of a k = None then map_of b k else None)"
    by (rule map_of_filter_key)
  show ?thesis
    unfolding oget_def omerge_def map_of_append map_add_def * **
    by (cases "map_of a k"; cases "map_of b k") auto
qed

lemma set_okeys_oset [simp]: "set (okeys (oset k v ob)) = insert k (set (okeys ob))"
  by (simp add: okeys_def oset_def dom_update)

lemma distinct_okeys_oset [simp]: "distinct (okeys ob) \<Longrightarrow> distinct (okeys (oset k v ob))"
  by (simp add: okeys_def oset_def distinct_update)

lemma okeys_oset: "okeys (oset k v ob) = (if k \<in> set (okeys ob) then okeys ob else okeys ob @ [k])"
  by (simp add: okeys_def oset_def update_keys)

lemma oget_None_iff: "oget ob k = None \<longleftrightarrow> k \<notin> set (okeys ob)"
  by (simp add: oget_def okeys_def map_of_eq_None_iff)

lemma oget_Some_key: "oget ob k = Some v \<Longrightarrow> k \<in> set (okeys ob)"
  by (metis oget_None_iff option.distinct(1))

lemma ohas_iff [simp]: "ohas ob k \<longleftrightarrow> k \<in> set (okeys ob)"
  by (simp add: ohas_def oget_None_iff)

lemma lazyd_simps [simp]: "lazyd None = []" "lazyd (Some y) = y"
  by (simp_all add: lazyd_def)


section \<open>typeof, truthiness, strings\<close>

fun truthy :: "jval option \<Rightarrow> bool" where
  "truthy None = False"
| "truthy (Some JNull) = False"
| "truthy (Some (JBool b)) = b"
| "truthy (Some (JNum n)) = (n \<noteq> 0)"
| "truthy (Some (JStr s)) = (s \<noteq> [])"
| "truthy (Some _) = True"

text \<open>\<open>x === undefined || x === null\<close>, the absence test of the optional fields.\<close>

fun nullish :: "jval option \<Rightarrow> bool" where
  "nullish None = True"
| "nullish (Some JNull) = True"
| "nullish (Some _) = False"

fun as_str :: "jval option \<Rightarrow> string option" where
  "as_str (Some (JStr s)) = Some s"
| "as_str _ = None"

text \<open>
  The property key a value is coerced to where the source indexes an object with it: a one-element
  array is its element. The other values name no property the source declares.
\<close>

fun key_of_val :: "jval \<Rightarrow> string option" where
  "key_of_val (JStr s) = Some s"
| "key_of_val (JArr [x]) = key_of_val x"
| "key_of_val _ = None"

definition key_of :: "jval option \<Rightarrow> string option" where
  "key_of v = Option.bind v key_of_val"

fun as_arr :: "jval option \<Rightarrow> jval list option" where
  "as_arr (Some (JArr xs)) = Some xs"
| "as_arr _ = None"

fun as_obj :: "jval option \<Rightarrow> obj option" where
  "as_obj (Some (JObj ob)) = Some ob"
| "as_obj _ = None"

text \<open>\<open>Array.isArray(x) ? x : []\<close>, keeping the entries that are strings.\<close>

definition str_entries :: "jval option \<Rightarrow> string list" where
  "str_entries v = (case as_arr v of None \<Rightarrow> [] | Some xs \<Rightarrow> List.map_filter (\<lambda>x. as_str (Some x)) xs)"

definition is_ws :: "char \<Rightarrow> bool" where
  "is_ws c = (c \<in> {CHR 0x20, CHR 0x09, CHR 0x0A, CHR 0x0B, CHR 0x0C, CHR 0x0D, CHR 0xA0})"

definition trim :: "string \<Rightarrow> string" where
  "trim s = rev (dropWhile is_ws (rev (dropWhile is_ws s)))"

text \<open>\<open>typeof v === 'string' && v.trim()\<close>: a string with a character that is no white space.\<close>

definition nonblank :: "jval option \<Rightarrow> bool" where
  "nonblank v = (case as_str v of None \<Rightarrow> False | Some s \<Rightarrow> trim s \<noteq> [])"

text \<open>\<open>typeof v === 'string' && v\<close>: a string that is not empty.\<close>

definition nonempty_str :: "jval option \<Rightarrow> bool" where
  "nonempty_str v = (case as_str v of None \<Rightarrow> False | Some s \<Rightarrow> s \<noteq> [])"

lemma key_of_simps [simp]: "key_of None = None" "key_of (Some v) = key_of_val v"
  by (simp_all add: key_of_def)

lemma trim_Nil_iff: "trim s = [] \<longleftrightarrow> list_all is_ws s"
proof -
  have "trim s = [] \<longleftrightarrow> (\<forall>c \<in> set (dropWhile is_ws s). is_ws c)"
    by (simp add: trim_def dropWhile_eq_Nil_conv)
  also have "\<dots> \<longleftrightarrow> (\<forall>c \<in> set s. is_ws c)"
    by (induction s) auto
  finally show ?thesis by (simp add: list_all_iff)
qed

lemma length_trim_le: "length (trim s) \<le> length s"
  unfolding trim_def length_rev
  by (metis length_dropWhile_le length_rev order_trans)

lemma nonblankD: "nonblank v \<Longrightarrow> \<exists>s. v = Some (JStr s) \<and> trim s \<noteq> []"
  by (cases v rule: as_str.cases) (auto simp: nonblank_def)

lemma nonblank_JStr [simp]: "nonblank (Some (JStr s)) = (trim s \<noteq> [])"
  by (simp add: nonblank_def)

lemma nonblank_None [simp]: "\<not> nonblank None"
  by (simp add: nonblank_def)

lemma nonempty_strD: "nonempty_str v \<Longrightarrow> \<exists>s. v = Some (JStr s) \<and> s \<noteq> []"
  by (cases v rule: as_str.cases) (auto simp: nonempty_str_def)

text \<open>\<open>s.split(c)\<close> for a single character: never empty, \<open>''.split('/')\<close> is \<open>['']\<close>.\<close>

fun split_on :: "char \<Rightarrow> string \<Rightarrow> string list" where
  "split_on c [] = [[]]"
| "split_on c (x # xs) =
     (if x = c then [] # split_on c xs
      else case split_on c xs of [] \<Rightarrow> [[x]] | s # ss \<Rightarrow> (x # s) # ss)"

lemma split_on_not_Nil [simp]: "split_on c s \<noteq> []"
  by (cases s) (auto split: list.split)

text \<open>\<open>String(n)\<close> for a natural number.\<close>

fun digits :: "nat \<Rightarrow> string" where
  "digits n = (if n < 10 then [char_of (48 + n)] else digits (n div 10) @ [char_of (48 + n mod 10)])"

declare digits.simps [simp del]

section \<open>Checks: the first throw wins\<close>

text \<open>
  A validator is a sequence of guards, each of which throws or falls through: a list of
  \<open>error option\<close>, of which the first \<open>Some\<close> is the error that is thrown and
  \<open>None\<close> the normal return.
\<close>

fun first_err :: "'e option list \<Rightarrow> 'e option" where
  "first_err [] = None"
| "first_err (Some e # _) = Some e"
| "first_err (None # cs) = first_err cs"

definition req :: "bool \<Rightarrow> 'e \<Rightarrow> 'e option" where
  "req b e = (if b then None else Some e)"

definition whenc :: "bool \<Rightarrow> 'e option \<Rightarrow> 'e option" where
  "whenc b c = (if b then c else None)"

definition e_bind :: "'e + 'a \<Rightarrow> ('a \<Rightarrow> 'e + 'b) \<Rightarrow> 'e + 'b" where
  "e_bind r f = (case r of Inl e \<Rightarrow> Inl e | Inr x \<Rightarrow> f x)"

text \<open>Run the checks, then go on.\<close>

definition guarded :: "'e option \<Rightarrow> 'e + 'a \<Rightarrow> 'e + 'a" where
  "guarded c r = (case c of Some e \<Rightarrow> Inl e | None \<Rightarrow> r)"

lemma first_err_None [check_simps]: "first_err cs = None \<longleftrightarrow> (\<forall>c \<in> set cs. c = None)"
  by (induction cs rule: first_err.induct) auto

lemma first_err_append: "first_err (xs @ ys) = (case first_err xs of None \<Rightarrow> first_err ys | Some e \<Rightarrow> Some e)"
  by (induction xs rule: first_err.induct) auto

lemma first_err_SomeD: "first_err cs = Some e \<Longrightarrow> Some e \<in> set cs"
  by (induction cs rule: first_err.induct) auto

lemma req_None [check_simps]: "req b e = None \<longleftrightarrow> b"
  by (simp add: req_def)

lemma req_Some [check_simps]: "req b e = Some e' \<longleftrightarrow> \<not> b \<and> e' = e"
  by (auto simp: req_def)

lemma whenc_None [check_simps]: "whenc b c = None \<longleftrightarrow> (b \<longrightarrow> c = None)"
  by (simp add: whenc_def)

lemma whenc_Some [check_simps]: "whenc b c = Some e \<longleftrightarrow> b \<and> c = Some e"
  by (simp add: whenc_def)

lemma e_bind_simps [simp]: "e_bind (Inl e) f = Inl e" "e_bind (Inr x) f = f x"
  by (simp_all add: e_bind_def)

lemma e_bind_Inr: "e_bind r f = Inr y \<longleftrightarrow> (\<exists>x. r = Inr x \<and> f x = Inr y)"
  by (cases r) simp_all

lemma e_bind_Inl: "e_bind r f = Inl e \<longleftrightarrow> r = Inl e \<or> (\<exists>x. r = Inr x \<and> f x = Inl e)"
  by (cases r) simp_all

lemma guarded_Inr [check_simps]: "guarded c r = Inr y \<longleftrightarrow> c = None \<and> r = Inr y"
  by (cases c) (simp_all add: guarded_def)

lemma guarded_Inl [check_simps]: "guarded c r = Inl e \<longleftrightarrow> c = Some e \<or> c = None \<and> r = Inl e"
  by (cases c) (auto simp: guarded_def)

section \<open>Array.prototype.sort with a comparator\<close>

text \<open>
  The sort of the language is stable. For a consistent comparator the result is determined by
  being sorted, a permutation and stable, which the locale proves of this insertion sort.
\<close>

fun js_insert :: "('a \<Rightarrow> 'a \<Rightarrow> int) \<Rightarrow> 'a \<Rightarrow> 'a list \<Rightarrow> 'a list" where
  "js_insert cmp x [] = [x]"
| "js_insert cmp x (y # ys) = (if cmp x y \<le> 0 then x # y # ys else y # js_insert cmp x ys)"

definition js_sort :: "('a \<Rightarrow> 'a \<Rightarrow> int) \<Rightarrow> 'a list \<Rightarrow> 'a list" where
  "js_sort cmp xs = foldr (js_insert cmp) xs []"

lemma js_sort_simps [simp]:
  "js_sort cmp [] = []" "js_sort cmp (x # xs) = js_insert cmp x (js_sort cmp xs)"
  by (simp_all add: js_sort_def)

lemma mset_js_insert [simp]: "mset (js_insert cmp x ys) = add_mset x (mset ys)"
  by (induction ys) auto

lemma mset_js_sort [simp]: "mset (js_sort cmp xs) = mset xs"
  by (induction xs) auto

lemma set_js_sort [simp]: "set (js_sort cmp xs) = set xs"
  by (metis mset_js_sort set_mset_mset)

lemma length_js_sort [simp]: "length (js_sort cmp xs) = length xs"
  by (metis mset_js_sort size_mset)

lemma distinct_js_sort [simp]: "distinct (js_sort cmp xs) = distinct xs"
  by (metis mset_js_sort mset_eq_imp_distinct_iff)

lemma filter_js_insert:
  assumes "\<forall>a b. P a \<longrightarrow> P b \<longrightarrow> cmp a b = 0"
  shows "filter P (js_insert cmp x ys) = filter P (x # ys)"
  using assms by (induction ys) force+

locale js_comparator =
  fixes cmp :: "'a \<Rightarrow> 'a \<Rightarrow> int"
  assumes cmp_flip: "cmp x y > 0 \<longleftrightarrow> cmp y x < 0"
    and cmp_trans: "cmp x y \<le> 0 \<Longrightarrow> cmp y z \<le> 0 \<Longrightarrow> cmp x z \<le> 0"
begin

lemma cmp_total: "cmp x y \<le> 0 \<or> cmp y x \<le> 0"
  using cmp_flip by (metis linorder_not_le order.strict_iff_not order_refl)

lemma sorted_js_insert:
  "sorted_wrt (\<lambda>a b. cmp a b \<le> 0) ys \<Longrightarrow> sorted_wrt (\<lambda>a b. cmp a b \<le> 0) (js_insert cmp x ys)"
proof (induction ys)
  case Nil
  then show ?case by simp
next
  case (Cons y ys)
  have set_ins: "set (js_insert cmp x ys) = insert x (set ys)"
    by (metis mset_js_insert set_mset_add_mset_insert set_mset_mset)
  show ?case
  proof (cases "cmp x y \<le> 0")
    case True
    with Cons.prems show ?thesis by (auto intro: cmp_trans)
  next
    case False
    then have "cmp y x \<le> 0" using cmp_total by blast
    with Cons False set_ins show ?thesis by auto
  qed
qed

lemma sorted_js_sort: "sorted_wrt (\<lambda>a b. cmp a b \<le> 0) (js_sort cmp xs)"
  by (induction xs) (auto intro: sorted_js_insert)

text \<open>Stability: a class of tied elements keeps its order.\<close>

lemma stable_js_sort:
  assumes "\<forall>a b. P a \<longrightarrow> P b \<longrightarrow> cmp a b = 0"
  shows "filter P (js_sort cmp xs) = filter P xs"
  using assms by (induction xs) (simp_all add: filter_js_insert)

lemma js_sort_nonempty: "xs \<noteq> [] \<Longrightarrow> js_sort cmp xs \<noteq> []"
  by (metis length_0_conv length_js_sort)

lemma hd_js_sort_least:
  assumes "x \<in> set xs"
  shows "cmp (hd (js_sort cmp xs)) x \<le> 0"
proof (cases "js_sort cmp xs")
  case Nil
  with assms show ?thesis by (metis empty_iff list.set(1) set_js_sort)
next
  case (Cons y ys)
  then have "x = y \<or> x \<in> set ys" using assms by (metis set_ConsD set_js_sort)
  moreover have "cmp y y \<le> 0" using cmp_total by blast
  moreover have "\<forall>z \<in> set ys. cmp y z \<le> 0" using sorted_js_sort[of xs] Cons by simp
  ultimately show ?thesis using Cons by auto
qed

end

end
