(* ===== verification/Workflow_Steps.thy ===== *)
theory Workflow_Steps
  imports Prelude
begin

text \<open>
  \<open>src/workflow/steps.mjs\<close>: the read helpers over a normalised Workflow, which own every
  question about steps, phases, aliases, skills and legal step moves. A Workflow that is absent
  (\<open>wf?.\<close> in the source) is \<open>None\<close>.
\<close>

record wf_operation =
  op_id :: string
  op_primary :: bool
  op_taskSpec :: string
  op_role :: "string option"
  op_skills :: "string list"

record wf_step =
  st_id :: string
  st_phase :: "string option"
  st_skill :: "string option"
  st_operations :: "wf_operation list"

record workflow =
  wf_id :: string
  wf_steps :: "wf_step list"
  wf_transitions :: "(string \<times> string) list"
  wf_aliases :: "(string \<times> string) list"
  wf_statusSkills :: "(string \<times> (string \<times> string option)) list"

definition steps_of :: "workflow option \<Rightarrow> wf_step list" where
  "steps_of flow = (case flow of None \<Rightarrow> [] | Some w \<Rightarrow> wf_steps w)"

text \<open>The Unit fields a step's unit template declares, in the order the object literal writes them.\<close>

definition unitFieldsOfTemplate :: "obj \<Rightarrow> obj" where
  "unitFieldsOfTemplate t =
     (let keep_truthy = (\<lambda>k ob. if truthy (oget t k) then oset_opt k (oget t k) ob else ob);
          keep_defined = (\<lambda>k ob. oset_opt k (oget t k) ob)
      in keep_defined ''skills'' (keep_defined ''verify'' (keep_defined ''timeoutMs''
          (keep_truthy ''seats'' (keep_truthy ''persona'' (keep_truthy ''prefer''
            ((if truthy (oget t ''blind'') then oset ''blind'' (JBool True) else id)
             ((if truthy (oget t ''anonymizeInputs'') then oset ''anonymizeInputs'' (JBool True) else id)
              (oset ''writes'' (if truthy (oget t ''writes'') then the (oget t ''writes'') else JArr [])
               (keep_defined ''rigor''
                (oset ''pattern'' (if truthy (oget t ''pattern'') then the (oget t ''pattern'') else JStr ''solo'')
                 (keep_defined ''capability'' []))))))))))))"

definition stepById :: "workflow option \<Rightarrow> string \<Rightarrow> wf_step option" where
  "stepById flow stepId = List.find (\<lambda>s. st_id s = stepId) (steps_of flow)"

definition walkableSteps :: "workflow option \<Rightarrow> string list" where
  "walkableSteps flow = map st_id (filter (\<lambda>s. st_phase s \<noteq> None) (steps_of flow))"

definition entryStep :: "workflow option \<Rightarrow> string option" where
  "entryStep flow = (case walkableSteps flow of [] \<Rightarrow> None | s # _ \<Rightarrow> Some s)"

definition wfStepForPhase :: "workflow option \<Rightarrow> string \<Rightarrow> string option" where
  "wfStepForPhase flow phase = map_option st_id (List.find (\<lambda>s. st_phase s = Some phase) (steps_of flow))"

definition stepsForPhases :: "workflow option \<Rightarrow> string list \<Rightarrow> string list" where
  "stepsForPhases flow phases =
     map st_id (filter (\<lambda>s. case st_phase s of None \<Rightarrow> False | Some p \<Rightarrow> p \<in> set phases) (steps_of flow))"

text \<open>\<open>resolveStepAlias\<close> on a name that is a string, and on any value.\<close>

definition resolveAliasName :: "workflow option \<Rightarrow> string \<Rightarrow> string" where
  "resolveAliasName flow name =
     (if stepById flow name \<noteq> None then name
      else case Option.bind flow (\<lambda>w. oget (wf_aliases w) name) of None \<Rightarrow> name | Some s \<Rightarrow> s)"

fun resolveStepAlias :: "workflow option \<Rightarrow> jval option \<Rightarrow> jval option" where
  "resolveStepAlias flow (Some (JStr name)) = Some (JStr (resolveAliasName flow name))"
| "resolveStepAlias flow v = v"

definition wfIsLegalStepMove :: "workflow option \<Rightarrow> jval option \<Rightarrow> jval option \<Rightarrow> bool" where
  "wfIsLegalStepMove flow from to =
     (\<exists>t \<in> set (case flow of None \<Rightarrow> [] | Some w \<Rightarrow> wf_transitions w).
        Some (JStr (fst t)) = from \<and> Some (JStr (snd t)) = to)"

definition statusSkill :: "workflow option \<Rightarrow> string \<Rightarrow> (string \<times> string option) option" where
  "statusSkill flow k = Option.bind flow (\<lambda>w. oget (wf_statusSkills w) k)"

definition wfSkillForStep :: "workflow option \<Rightarrow> string \<Rightarrow> string option" where
  "wfSkillForStep flow stepOrStatus =
     (case Option.bind (stepById flow stepOrStatus) st_skill of
        Some sk \<Rightarrow> Some sk
      | None \<Rightarrow> map_option fst (statusSkill flow stepOrStatus))"

definition taskSpecForStep :: "workflow option \<Rightarrow> string \<Rightarrow> string option" where
  "taskSpecForStep flow stepOrStatus =
     (case stepById flow stepOrStatus of
        Some s \<Rightarrow>
          (case List.find op_primary (st_operations s) of
             Some p \<Rightarrow> Some (op_taskSpec p)
           | None \<Rightarrow> (case st_operations s of [] \<Rightarrow> None | p # _ \<Rightarrow> Some (op_taskSpec p)))
      | None \<Rightarrow> Option.bind (statusSkill flow stepOrStatus) snd)"

definition wfOperationsForStep :: "workflow option \<Rightarrow> string \<Rightarrow> string \<Rightarrow> wf_operation list" where
  "wfOperationsForStep flow stepId defaultRole =
     (case stepById flow stepId of
        None \<Rightarrow> []
      | Some s \<Rightarrow>
          if st_operations s \<noteq> [] then st_operations s
          else case st_skill s of
                 None \<Rightarrow> []
               | Some sk \<Rightarrow> if sk = [] then []
                    else [\<lparr>op_id = st_id s, op_primary = True, op_taskSpec = st_id s,
                            op_role = Some defaultRole, op_skills = [sk]\<rparr>])"

section \<open>Facts about lookups\<close>

lemma stepById_Some: "stepById flow k = Some s \<Longrightarrow> s \<in> set (steps_of flow) \<and> st_id s = k"
  by (auto simp: stepById_def find_Some_iff)

lemma stepById_None: "stepById flow k = None \<longleftrightarrow> k \<notin> st_id ` set (steps_of flow)"
  by (auto simp: stepById_def find_None_iff)

lemma wfStepForPhase_Some:
  "wfStepForPhase flow ph = Some k \<Longrightarrow> \<exists>s \<in> set (steps_of flow). st_id s = k \<and> st_phase s = Some ph"
  by (auto simp: wfStepForPhase_def find_Some_iff)

lemma wfStepForPhase_None:
  "wfStepForPhase flow ph = None \<longleftrightarrow> (\<forall>s \<in> set (steps_of flow). st_phase s \<noteq> Some ph)"
  by (auto simp: wfStepForPhase_def find_None_iff)

lemma walkable_iff:
  "k \<in> set (walkableSteps flow) \<longleftrightarrow> (\<exists>s \<in> set (steps_of flow). st_id s = k \<and> st_phase s \<noteq> None)"
  by (auto simp: walkableSteps_def)

lemma wfStepForPhase_walkable: "wfStepForPhase flow ph = Some k \<Longrightarrow> k \<in> set (walkableSteps flow)"
  by (auto simp: walkable_iff dest!: wfStepForPhase_Some)

lemma resolveAliasName_step [simp]: "k \<in> st_id ` set (steps_of flow) \<Longrightarrow> resolveAliasName flow k = k"
  using stepById_None[of flow k] by (simp add: resolveAliasName_def)

text \<open>An alias table that maps into declared steps, which is what the definition validator admits.\<close>

definition aliases_closed :: "workflow option \<Rightarrow> bool" where
  "aliases_closed flow = (case flow of None \<Rightarrow> True
     | Some w \<Rightarrow> \<forall>p \<in> set (wf_aliases w). snd p \<in> st_id ` set (wf_steps w))"

lemma resolveAliasName_idem:
  assumes "aliases_closed flow"
  shows "resolveAliasName flow (resolveAliasName flow k) = resolveAliasName flow k"
proof (cases "stepById flow k = None")
  case True
  show ?thesis
  proof (cases "Option.bind flow (\<lambda>w. oget (wf_aliases w) k)")
    case None
    with True show ?thesis by (simp add: resolveAliasName_def)
  next
    case (Some s)
    then obtain w where w: "flow = Some w" and al: "oget (wf_aliases w) k = Some s"
      by (auto simp: bind_eq_Some_conv)
    from al have "(k, s) \<in> set (wf_aliases w)" by (simp add: oget_def map_of_SomeD)
    with assms w have "s \<in> st_id ` set (steps_of flow)"
      by (fastforce simp: aliases_closed_def steps_of_def)
    with True Some show ?thesis by (simp add: resolveAliasName_def stepById_None)
  qed
next
  case False
  then show ?thesis by (auto simp: resolveAliasName_def)
qed

lemma resolveStepAlias_idem:
  "aliases_closed flow \<Longrightarrow> resolveStepAlias flow (resolveStepAlias flow v) = resolveStepAlias flow v"
  by (cases "(flow, v)" rule: resolveStepAlias.cases) (auto simp: resolveAliasName_idem)

end
