(* ===== verification/Domain_Registry.thy ===== *)
theory Domain_Registry
  imports Workflow_Steps
begin

text \<open>
  \<open>src/state/domain-registry.mjs\<close>: what a Work item of a domain needs that is not a sequence
  of steps (status labels, park reasons, classification, role graph), and the resolution of a Work
  item's domain and kind to a Workflow. \<open>DOMAINS\<close> is loaded from disk when the module is
  imported, so every operation takes the registry as its first argument; the three fixture domains
  the module declares and the coding domain's compiled data are values of it.
\<close>

record role_edge =
  re_from :: string
  re_to :: string
  re_reason :: string
  re_mode :: string

record role_graph =
  rg_roles :: "string list"
  rg_defaultRole :: "string option"
  rg_callstackCap :: "int option"
  rg_edges :: "(string \<times> role_edge list) list"

record domain =
  dm_workflows :: "(string \<times> workflow) list"
  dm_defaultWorkflow :: string
  dm_workflowFor :: "(string \<times> string) list"
  dm_worktreeBacked :: bool
  dm_roleGraph :: "role_graph option"
  dm_statusLabels :: "(string \<times> string) list"
  dm_parkReason :: "(string \<times> string) list"
  dm_classification :: "(string \<times> string list) list"
  dm_fieldSchema :: "(string \<times> string) list option"

type_synonym registry = "(string \<times> domain) list"

definition DEFAULT_DOMAIN :: string where
  "DEFAULT_DOMAIN = ''coding''"

definition mkStep :: "string \<Rightarrow> string \<Rightarrow> wf_step" where
  "mkStep i ph = \<lparr>st_id = i, st_phase = Some ph, st_skill = None, st_operations = []\<rparr>"

text \<open>\<open>fixtureWorkflow\<close>: a one-workflow fixture domain from a compact step list.\<close>

definition fixtureWorkflow ::
  "string \<Rightarrow> (string \<times> string) list \<Rightarrow> (string \<times> string) list
    \<Rightarrow> (string \<times> (string \<times> string option)) list \<Rightarrow> workflow" where
  "fixtureWorkflow i steps moves skills =
     \<lparr>wf_id = i, wf_steps = map (\<lambda>(s, ph). mkStep s ph) steps, wf_transitions = moves,
      wf_aliases = [], wf_statusSkills = skills\<rparr>"

definition synthetic_domain :: domain where
  "synthetic_domain =
     \<lparr>dm_workflows = [(''main'', fixtureWorkflow ''synthetic/main'' [(''assembling'', ''execute'')] [] [])],
      dm_defaultWorkflow = ''main'', dm_workflowFor = [], dm_worktreeBacked = False,
      dm_roleGraph = None, dm_statusLabels = [], dm_parkReason = [], dm_classification = [],
      dm_fieldSchema = None\<rparr>"

definition triage_domain :: domain where
  "triage_domain =
     \<lparr>dm_workflows = [(''main'', fixtureWorkflow ''triage/main''
        [(''triage'', ''clarify''), (''shaping'', ''plan''), (''assembling'', ''execute'')]
        [(''triage'', ''assembling''), (''triage'', ''shaping''), (''shaping'', ''assembling'')] [])],
      dm_defaultWorkflow = ''main'', dm_workflowFor = [], dm_worktreeBacked = False,
      dm_roleGraph = None, dm_statusLabels = [], dm_parkReason = [], dm_classification = [],
      dm_fieldSchema = None\<rparr>"

definition marketing_domain :: domain where
  "marketing_domain =
     \<lparr>dm_workflows = [(''main'', fixtureWorkflow ''fixture-marketing/main''
        [(''clarify'', ''clarify''), (''decompose'', ''plan''), (''executing'', ''execute'')]
        [(''clarify'', ''executing''), (''clarify'', ''decompose''), (''decompose'', ''executing'')]
        [(''retrospective'', (''fgos-fixture-retro'', None))])],
      dm_defaultWorkflow = ''main'', dm_workflowFor = [], dm_worktreeBacked = False,
      dm_roleGraph = None,
      dm_statusLabels = [(''todo'', ''todo''), (''doing'', ''in-progress''), (''blocked'', ''canceled''),
        (''awaiting-human'', ''in-progress''), (''awaiting-approval'', ''review''), (''wontfix'', ''canceled'')],
      dm_parkReason = [], dm_classification = [],
      dm_fieldSchema = Some [(''campaign'', ''string''), (''budget'', ''number'')]\<rparr>"

text \<open>
  The coding domain as \<open>domains/coding/compiled.json\<close> declares it, with the steps' ids,
  phases and skills and the operations of each step (id, role, skills; the dispatch and policy hints of an
  operation are not read by the modelled code); the roles a step may call are its edges.
\<close>

definition mkEdge :: "string \<Rightarrow> string \<Rightarrow> string \<Rightarrow> string \<Rightarrow> role_edge" where
  "mkEdge f t r m = \<lparr>re_from = f, re_to = t, re_reason = r, re_mode = m\<rparr>"

definition coding_roleGraph :: role_graph where
  "coding_roleGraph =
     \<lparr>rg_roles = [''implementer'', ''researcher'', ''reviewer'', ''helper'', ''advisor''],
      rg_defaultRole = Some ''implementer'', rg_callstackCap = Some 3,
      rg_edges =
       [(''discovery'', [mkEdge ''implementer'' ''researcher'' ''consult'' ''sync'']),
        (''exploring'', [mkEdge ''implementer'' ''advisor'' ''advise'' ''async'',
                         mkEdge ''implementer'' ''researcher'' ''consult'' ''sync'']),
        (''planning'', [mkEdge ''implementer'' ''researcher'' ''consult'' ''sync'',
                        mkEdge ''implementer'' ''advisor'' ''advise'' ''async'',
                        mkEdge ''implementer'' ''reviewer'' ''review'' ''async'']),
        (''executing'', [mkEdge ''implementer'' ''researcher'' ''consult'' ''sync'',
                         mkEdge ''implementer'' ''helper'' ''assist'' ''sync'',
                         mkEdge ''implementer'' ''reviewer'' ''review'' ''async'',
                         mkEdge ''implementer'' ''advisor'' ''advise'' ''async'',
                         mkEdge ''reviewer'' ''researcher'' ''consult'' ''sync'',
                         mkEdge ''reviewer'' ''advisor'' ''advise'' ''async''])]\<rparr>"

definition coding_op :: "string \<Rightarrow> bool \<Rightarrow> string \<Rightarrow> string \<Rightarrow> wf_operation" where
  "coding_op i primary role sk =
     \<lparr>op_id = i, op_primary = primary, op_taskSpec = i, op_role = Some role, op_skills = [sk]\<rparr>"

definition coding_step :: "string \<Rightarrow> string \<Rightarrow> string \<Rightarrow> wf_operation list \<Rightarrow> wf_step" where
  "coding_step i ph sk ops = \<lparr>st_id = i, st_phase = Some ph, st_skill = Some sk, st_operations = ops\<rparr>"

definition coding_workflow :: workflow where
  "coding_workflow =
     \<lparr>wf_id = ''coding/feature'',
      wf_steps =
       [coding_step ''discovery'' ''discover'' ''fgos-coding-discovering''
          [coding_op ''judge-ambiguity'' True ''implementer'' ''fgos-coding-discovering'',
           coding_op ''resolve-question'' False ''researcher'' ''fgos-researching''],
        coding_step ''exploring'' ''discover'' ''fgos-coding-exploring''
          [coding_op ''lock-decisions'' True ''implementer'' ''fgos-coding-exploring'',
           coding_op ''answer-question'' False ''advisor'' ''fgos-coding-exploring'',
           coding_op ''resolve-question'' False ''researcher'' ''fgos-researching''],
        coding_step ''planning'' ''plan'' ''fgos-coding-planning''
          [coding_op ''shape-plan'' True ''implementer'' ''fgos-coding-planning'',
           coding_op ''validate-plan'' False ''reviewer'' ''fgos-coding-validating'',
           coding_op ''scout-blast-radius'' False ''researcher'' ''fgos-researching'',
           coding_op ''resolve-question'' False ''researcher'' ''fgos-researching''],
        coding_step ''executing'' ''execute'' ''fgos-coding-implement''
          [coding_op ''implement-item'' True ''implementer'' ''fgos-coding-implement'',
           coding_op ''review-item'' False ''reviewer'' ''fgos-coding-validating'',
           coding_op ''fix-verify-red'' False ''implementer'' ''fgos-coding-implement'',
           coding_op ''scoped-subtask'' False ''helper'' ''fgos-coding-implement'',
           coding_op ''scout-blast-radius'' False ''researcher'' ''fgos-researching'',
           coding_op ''resolve-question'' False ''researcher'' ''fgos-researching'']],
      wf_transitions = [(''discovery'', ''exploring''), (''discovery'', ''planning''),
                        (''exploring'', ''planning''), (''planning'', ''executing'')],
      wf_aliases = [(''decompose'', ''planning'')],
      wf_statusSkills = [(''retrospective'', (''fgos-coding-knowledge'', Some ''compound-learn''))]\<rparr>"

definition coding_domain :: domain where
  "coding_domain =
     \<lparr>dm_workflows = [(''feature'', coding_workflow)],
      dm_defaultWorkflow = ''feature'', dm_workflowFor = [], dm_worktreeBacked = True,
      dm_roleGraph = Some coding_roleGraph,
      dm_statusLabels = [(''backlog'', ''backlog''), (''todo'', ''todo''), (''doing'', ''in-progress''),
        (''blocked'', ''in-progress''), (''awaiting-human'', ''in-progress''),
        (''awaiting-approval'', ''review''), (''wontfix'', ''canceled'')],
      dm_parkReason = [(''blocked'', ''system-error''), (''awaiting-human'', ''human-question''),
        (''awaiting-approval'', ''natural-finish'')],
      dm_classification = [(''kind'', [''bug'', ''chore'', ''design'', ''docs'', ''feature'', ''task'']),
        (''risk'', [''light'', ''standard'', ''heavy''])],
      dm_fieldSchema = None\<rparr>"

definition DOMAINS :: registry where
  "DOMAINS = [(''coding'', coding_domain), (''synthetic'', synthetic_domain),
     (''triage'', triage_domain), (''fixture-marketing'', marketing_domain)]"

section \<open>Resolution\<close>

definition resolveDomainName :: "registry \<Rightarrow> jval option \<Rightarrow> string" where
  "resolveDomainName ds name =
     (if nullish name then DEFAULT_DOMAIN
      else case key_of name of
             Some s \<Rightarrow> if ohas ds s then s else DEFAULT_DOMAIN
           | None \<Rightarrow> DEFAULT_DOMAIN)"

definition getDomain :: "registry \<Rightarrow> jval option \<Rightarrow> domain option" where
  "getDomain ds name = oget ds (resolveDomainName ds name)"

definition resolveWorkflow :: "domain option \<Rightarrow> jval option \<Rightarrow> workflow option" where
  "resolveWorkflow dm kind =
     (case dm of
        None \<Rightarrow> None
      | Some d \<Rightarrow>
          let named = Option.bind (key_of kind) (oget (dm_workflowFor d));
              name = (case named of None \<Rightarrow> dm_defaultWorkflow d
                      | Some n \<Rightarrow> if n = [] then dm_defaultWorkflow d else n)
          in case oget (dm_workflows d) name of
               Some w \<Rightarrow> Some w
             | None \<Rightarrow> oget (dm_workflows d) (dm_defaultWorkflow d))"

definition domainSteps :: "domain option \<Rightarrow> jval option \<Rightarrow> string list" where
  "domainSteps d kind = walkableSteps (resolveWorkflow d kind)"

definition stepForPhase :: "domain option \<Rightarrow> string \<Rightarrow> jval option \<Rightarrow> string option" where
  "stepForPhase d phase kind = wfStepForPhase (resolveWorkflow d kind) phase"

definition discoverableSteps :: "domain option \<Rightarrow> jval option \<Rightarrow> string list" where
  "discoverableSteps d kind = stepsForPhases (resolveWorkflow d kind) [''clarify'', ''discover'']"

definition effectiveStep :: "obj \<Rightarrow> domain option \<Rightarrow> jval option" where
  "effectiveStep item d =
     (let flow = resolveWorkflow d (oget item ''kind'')
      in if oget item ''workflowStep'' \<noteq> None
         then resolveStepAlias flow (oget item ''workflowStep'')
         else map_option JStr (wfStepForPhase flow ''execute''))"

definition isLegalStepMove :: "domain option \<Rightarrow> jval option \<Rightarrow> jval option \<Rightarrow> jval option \<Rightarrow> bool" where
  "isLegalStepMove d kind from to = wfIsLegalStepMove (resolveWorkflow d kind) from to"

definition skillForStep :: "domain option \<Rightarrow> string \<Rightarrow> jval option \<Rightarrow> string option" where
  "skillForStep d stepOrStatus kind = wfSkillForStep (resolveWorkflow d kind) stepOrStatus"

definition bundleForStep ::
  "domain option \<Rightarrow> string \<Rightarrow> jval option \<Rightarrow> string option \<times> string option" where
  "bundleForStep d stepOrStatus kind =
     (let flow = resolveWorkflow d kind
      in (wfSkillForStep flow stepOrStatus, taskSpecForStep flow stepOrStatus))"

definition roleGraphFor :: "domain option \<Rightarrow> role_graph option" where
  "roleGraphFor d = Option.bind d dm_roleGraph"

definition operationsForStep :: "domain option \<Rightarrow> string \<Rightarrow> jval option \<Rightarrow> wf_operation list" where
  "operationsForStep d step kind =
     (if step = [] then []
      else wfOperationsForStep (resolveWorkflow d kind) step
        (case Option.bind (roleGraphFor d) rg_defaultRole of
           Some r \<Rightarrow> if r = [] then ''implementer'' else r
         | None \<Rightarrow> ''implementer''))"

definition legalCallEdges :: "domain option \<Rightarrow> jval option \<Rightarrow> string option \<Rightarrow> role_edge list" where
  "legalCallEdges d step fromRole =
     (case Option.bind (roleGraphFor d) (\<lambda>g. Option.bind (key_of step) (oget (rg_edges g))) of
        None \<Rightarrow> []
      | Some es \<Rightarrow> filter (\<lambda>e. Some (re_from e) = fromRole) es)"

definition statusCategoryFor :: "domain option \<Rightarrow> string \<Rightarrow> string option" where
  "statusCategoryFor d status = Option.bind d (\<lambda>x. oget (dm_statusLabels x) status)"

definition parkReasonForStatus :: "domain option \<Rightarrow> string \<Rightarrow> string option" where
  "parkReasonForStatus d status = Option.bind d (\<lambda>x. oget (dm_parkReason x) status)"

definition classificationVocabulary :: "domain option \<Rightarrow> string \<Rightarrow> string list option" where
  "classificationVocabulary d field = Option.bind d (\<lambda>x. oget (dm_classification x) field)"

lemmas domain_data_defs =
  DOMAINS_def coding_domain_def coding_workflow_def coding_step_def coding_op_def synthetic_domain_def
  triage_domain_def marketing_domain_def fixtureWorkflow_def mkStep_def coding_roleGraph_def mkEdge_def

lemmas resolution_defs =
  getDomain_def resolveDomainName_def DEFAULT_DOMAIN_def resolveWorkflow_def stepForPhase_def
  effectiveStep_def isLegalStepMove_def wfIsLegalStepMove_def domainSteps_def walkableSteps_def
  steps_of_def stepById_def wfStepForPhase_def resolveAliasName_def roleGraphFor_def Let_def

section \<open>Facts\<close>

text \<open>A registry that holds the default domain resolves every name: an unknown one folds to it.\<close>

lemma getDomain_total:
  assumes "ohas ds DEFAULT_DOMAIN"
  shows "\<exists>d. getDomain ds name = Some d"
proof -
  have "ohas ds (resolveDomainName ds name)"
    using assms by (auto simp: resolveDomainName_def split: option.splits)
  then show ?thesis by (simp add: getDomain_def) (metis not_Some_eq oget_None_iff)
qed

lemma legalCallEdges_from: "e \<in> set (legalCallEdges d step fr) \<Longrightarrow> fr = Some (re_from e)"
  by (auto simp: legalCallEdges_def split: option.splits)

lemma effectiveStep_idem:
  assumes "aliases_closed (resolveWorkflow d (oget item ''kind''))"
  shows "effectiveStep (oset_opt ''workflowStep'' (effectiveStep item d) item) d = effectiveStep item d"
proof -
  let ?flow = "resolveWorkflow d (oget item ''kind'')"
  show ?thesis
  proof (cases "oget item ''workflowStep''")
    case None
    show ?thesis
    proof (cases "wfStepForPhase ?flow ''execute''")
      case None
      with \<open>oget item ''workflowStep'' = None\<close> show ?thesis
        by (simp add: effectiveStep_def Let_def oset_opt_def)
    next
      case (Some k)
      then have "k \<in> st_id ` set (steps_of ?flow)" by (auto dest: wfStepForPhase_Some)
      with None Some show ?thesis by (simp add: effectiveStep_def Let_def)
    qed
  next
    case (Some v)
    with assms have idem: "resolveStepAlias ?flow (resolveStepAlias ?flow (Some v)) = resolveStepAlias ?flow (Some v)"
      by (simp add: resolveStepAlias_idem)
    have "resolveStepAlias ?flow (Some v) \<noteq> None" by (cases v) simp_all
    with Some idem show ?thesis by (simp add: effectiveStep_def Let_def)
  qed
qed

end
