(* ===== verification/Work_Schema.thy ===== *)
theory Work_Schema
  imports Domain_Registry
begin

text \<open>
  \<open>src/state/work.mjs\<close>: the schema of a work item and its validators. A validator returns
  \<open>None\<close> where the source returns true and \<open>Some e\<close> where it throws; the constructors of
  \<open>work_error\<close> tell the throw sites apart, with the field they name.
\<close>

datatype work_error =
    Not_an_object
  | Bad_id
  | Id_too_long nat
  | Blank string
  | Not_array string
  | Bad_entry string
  | Self_reference string
  | Not_declared string
  | Not_one_of string
  | Bad_value string
  | Retired string
  | No_role_graph
  | Wrong_type string string
  | Unknown_target string string
  | Dependency_cycle "string list"
  | Graph_cycle "string list"

definition STATUSES :: "string list" where
  "STATUSES = [''backlog'', ''todo'', ''doing'', ''blocked'', ''awaiting-approval'', ''delivered'',
     ''retrospective'', ''cleanup'', ''done'', ''awaiting-human'', ''wontfix'']"

definition FINAL_STATUSES :: "string list" where
  "FINAL_STATUSES = [''awaiting-approval'', ''blocked'', ''delivered'', ''retrospective'', ''cleanup'', ''done'']"

definition STATUS_CATEGORIES :: "string list" where
  "STATUS_CATEGORIES = [''backlog'', ''todo'', ''in-progress'', ''review'', ''completed'', ''canceled'']"

definition SIZES :: "string list" where
  "SIZES = [''light'', ''standard'', ''heavy'']"

definition RIGOR_VALUES :: "string list" where
  "RIGOR_VALUES = [''low'', ''standard'', ''high'', ''critical'']"

definition URGENCY_LEVELS :: "string list" where
  "URGENCY_LEVELS = [''low'', ''medium'', ''high'', ''critical'']"

definition GOAL_TIERS :: "string list" where
  "GOAL_TIERS = [''mvp'', ''milestone'']"

definition SCHEMA_VERSION :: int where
  "SCHEMA_VERSION = 3"

definition WORK_DEFAULTS :: obj where
  "WORK_DEFAULTS = [(''size'', JStr ''standard'')]"

section \<open>Identifiers and titles\<close>

definition lower_letter :: "char \<Rightarrow> bool" where
  "lower_letter c = (c \<in> set ''abcdefghijklmnopqrstuvwxyz'')"

definition digit :: "char \<Rightarrow> bool" where
  "digit c = (c \<in> set ''0123456789'')"

text \<open>The pattern of ids, as the automaton that recognises it: \<open>dash\<close> says a hyphen was just read.\<close>

fun kebab_rest :: "bool \<Rightarrow> string \<Rightarrow> bool" where
  "kebab_rest dash [] = (\<not> dash)"
| "kebab_rest dash (c # cs) =
     (if c = CHR ''-'' then \<not> dash \<and> kebab_rest True cs
      else (lower_letter c \<or> digit c) \<and> kebab_rest False cs)"

fun ID_PATTERN :: "string \<Rightarrow> bool" where
  "ID_PATTERN [] = False"
| "ID_PATTERN (c # cs) = (lower_letter c \<and> kebab_rest False cs)"

definition MAX_ID_LENGTH :: nat where
  "MAX_ID_LENGTH = 30"

definition MAX_TITLE_LENGTH :: nat where
  "MAX_TITLE_LENGTH = 100"

definition ellipsis :: char where
  "ellipsis = CHR 0x85"

text \<open>\<open>lastIndexOf(' ')\<close>: the text before the last space, when there is a space.\<close>

definition before_last_space :: "string \<Rightarrow> string option" where
  "before_last_space s =
     (if CHR '' '' \<in> set s
      then Some (rev (tl (dropWhile (\<lambda>c. c \<noteq> CHR '' '') (rev s)))) else None)"

definition truncate_text :: "string \<Rightarrow> string" where
  "truncate_text t =
     (if length t \<le> MAX_TITLE_LENGTH then t
      else let cut = take (MAX_TITLE_LENGTH - 1) t
           in trim (case before_last_space cut of
                      Some s \<Rightarrow> if s \<noteq> [] then s else cut
                    | None \<Rightarrow> cut) @ [ellipsis])"

fun truncateTitle :: "jval option \<Rightarrow> jval option" where
  "truncateTitle (Some (JStr t)) = Some (JStr (truncate_text t))"
| "truncateTitle v = v"

section \<open>The shape of one item\<close>

definition requireNonEmptyString :: "obj \<Rightarrow> string \<Rightarrow> work_error option" where
  "requireNonEmptyString w f = req (nonblank (oget w f)) (Blank f)"

definition requireArray :: "obj \<Rightarrow> string \<Rightarrow> work_error option" where
  "requireArray w f = req (as_arr (oget w f) \<noteq> None) (Not_array f)"

definition one_of :: "jval option \<Rightarrow> string list \<Rightarrow> bool" where
  "one_of v vocab = (case as_str v of None \<Rightarrow> False | Some s \<Rightarrow> s \<in> set vocab)"

definition requireDeclaredClassification :: "registry \<Rightarrow> obj \<Rightarrow> string \<Rightarrow> work_error option" where
  "requireDeclaredClassification ds w f =
     (case classificationVocabulary (getDomain ds (oget w ''domain'')) f of
        None \<Rightarrow> None
      | Some allowed \<Rightarrow> req (one_of (oget w f) allowed) (Not_declared f))"

definition touched :: "string list option \<Rightarrow> string \<Rightarrow> bool" where
  "touched fs f = (case fs of None \<Rightarrow> True | Some s \<Rightarrow> f \<in> set s)"

definition present :: "obj \<Rightarrow> string \<Rightarrow> bool" where
  "present w f = (\<not> nullish (oget w f))"

definition check_id :: "obj \<Rightarrow> work_error option" where
  "check_id w = (case as_str (oget w ''id'') of
       None \<Rightarrow> Some Bad_id
     | Some i \<Rightarrow> first_err [req (ID_PATTERN i) Bad_id,
                           req (length i \<le> MAX_ID_LENGTH) (Id_too_long (length i))])"

definition check_kind :: "registry \<Rightarrow> obj \<Rightarrow> work_error option" where
  "check_kind ds w = first_err [requireNonEmptyString w ''kind'', requireDeclaredClassification ds w ''kind'']"

definition check_status :: "obj \<Rightarrow> work_error option" where
  "check_status w = first_err [requireNonEmptyString w ''status'',
     req (one_of (oget w ''status'') STATUSES) (Not_one_of ''status'')]"

definition check_deps :: "obj \<Rightarrow> work_error option" where
  "check_deps w = (case as_arr (oget w ''deps'') of
       None \<Rightarrow> Some (Not_array ''deps'')
     | Some ds \<Rightarrow> first_err (map (\<lambda>d. req (nonempty_str (Some d)) (Bad_entry ''deps'')) ds))"

text \<open>
  The shape \<open>mergeAfter\<close>, \<open>duplicates\<close> and \<open>targets\<close> share: absent, or an array whose
  entries are non-empty strings other than the item's own id, checked entry by entry.
\<close>

definition check_id_list :: "string \<Rightarrow> obj \<Rightarrow> work_error option" where
  "check_id_list f w = whenc (present w f)
     (case as_arr (oget w f) of
        None \<Rightarrow> Some (Not_array f)
      | Some xs \<Rightarrow> first_err (concat (map (\<lambda>x.
          [req (nonempty_str (Some x)) (Bad_entry f),
           req (Some x \<noteq> oget w ''id'') (Self_reference f)]) xs)))"

definition check_supersededBy :: "obj \<Rightarrow> work_error option" where
  "check_supersededBy w = whenc (present w ''supersededBy'') (first_err
     [req (nonempty_str (oget w ''supersededBy'')) (Bad_value ''supersededBy''),
      req (oget w ''supersededBy'' \<noteq> oget w ''id'') (Self_reference ''supersededBy'')])"

text \<open>The shape \<open>parent\<close> and \<open>discoveredFrom\<close> share: an id that is not the item's own.\<close>

definition check_lineage :: "string \<Rightarrow> obj \<Rightarrow> work_error option" where
  "check_lineage f w = whenc (present w f) (first_err
     [req (nonblank (oget w f)) (Blank f), req (oget w f \<noteq> oget w ''id'') (Self_reference f)])"

definition check_risk :: "registry \<Rightarrow> obj \<Rightarrow> work_error option" where
  "check_risk ds w = first_err [requireNonEmptyString w ''risk'', requireDeclaredClassification ds w ''risk'']"

definition check_learn :: "obj \<Rightarrow> work_error option" where
  "check_learn w = whenc (present w ''learn'') (req (as_str (oget w ''learn'') \<noteq> None) (Bad_value ''learn''))"

text \<open>A field that, when it is not undefined, holds a word of a closed vocabulary.\<close>

definition check_vocab :: "string \<Rightarrow> string list \<Rightarrow> obj \<Rightarrow> work_error option" where
  "check_vocab f vocab w =
     whenc (oget w f \<noteq> None) (req (one_of (oget w f) vocab) (Not_one_of f))"

definition check_tier :: "obj \<Rightarrow> work_error option" where
  "check_tier w = req (oget w ''tier'' = None) (Retired ''tier'')"

definition check_domain :: "registry \<Rightarrow> obj \<Rightarrow> work_error option" where
  "check_domain ds w = whenc (oget w ''domain'' \<noteq> None)
     (req (case key_of (oget w ''domain'') of None \<Rightarrow> False | Some d \<Rightarrow> ohas ds d) (Not_one_of ''domain''))"

fun is_integer :: "jval option \<Rightarrow> bool" where
  "is_integer (Some (JNum _)) = True"
| "is_integer _ = False"

fun nonneg_integer :: "jval option \<Rightarrow> bool" where
  "nonneg_integer (Some (JNum n)) = (0 \<le> n)"
| "nonneg_integer _ = False"

fun nonneg_number :: "jval option \<Rightarrow> bool" where
  "nonneg_number (Some (JNum n)) = (0 \<le> n)"
| "nonneg_number (Some (JFrac a b)) = (0 \<le> a * b)"
| "nonneg_number _ = False"

definition check_number :: "(jval option \<Rightarrow> bool) \<Rightarrow> string \<Rightarrow> obj \<Rightarrow> work_error option" where
  "check_number ok f w = whenc (oget w f \<noteq> None) (req (ok (oget w f)) (Bad_value f))"

definition check_stage :: "obj \<Rightarrow> work_error option" where
  "check_stage w = req (oget w ''stage'' = None) (Retired ''stage'')"

text \<open>\<open>DOMAINS[work.domain ?? DEFAULT_DOMAIN]\<close>, which an unrecognised name leaves undefined.\<close>

definition ownDomain :: "obj \<Rightarrow> string option" where
  "ownDomain w = (if nullish (oget w ''domain'') then Some DEFAULT_DOMAIN else key_of (oget w ''domain''))"

definition item_domain :: "registry \<Rightarrow> obj \<Rightarrow> domain option" where
  "item_domain ds w = Option.bind (ownDomain w) (oget ds)"

definition check_workflowStep :: "registry \<Rightarrow> obj \<Rightarrow> work_error option" where
  "check_workflowStep ds w = whenc (oget w ''workflowStep'' \<noteq> None)
     (req (one_of (oget w ''workflowStep'') (domainSteps (item_domain ds w) (oget w ''kind'')))
        (Not_one_of ''workflowStep''))"

definition check_workflowRunId :: "obj \<Rightarrow> work_error option" where
  "check_workflowRunId w =
     whenc (oget w ''workflowRunId'' \<noteq> None) (requireNonEmptyString w ''workflowRunId'')"

definition check_holder :: "registry \<Rightarrow> obj \<Rightarrow> work_error option" where
  "check_holder ds w = whenc (oget w ''holder'' \<noteq> None)
     (case roleGraphFor (item_domain ds w) of
        None \<Rightarrow> Some No_role_graph
      | Some g \<Rightarrow> req (one_of (oget w ''holder'') (rg_roles g)) (Not_one_of ''holder''))"

definition check_footprint :: "obj \<Rightarrow> work_error option" where
  "check_footprint w = whenc (present w ''footprint'')
     (case as_arr (oget w ''footprint'') of
        None \<Rightarrow> Some (Not_array ''footprint'')
      | Some xs \<Rightarrow> first_err (map (\<lambda>x. req (nonblank (Some x)) (Bad_entry ''footprint'')) xs))"

definition check_clause :: "jval \<Rightarrow> work_error option" where
  "check_clause c = (case as_obj (Some c) of
       None \<Rightarrow> Some (Bad_entry ''acceptance'')
     | Some cl \<Rightarrow> first_err
         [req (nonblank (oget cl ''text'')) (Bad_entry ''acceptance''),
          whenc (present cl ''evidence'') (req (nonblank (oget cl ''evidence'')) (Bad_entry ''acceptance''))])"

definition check_acceptance :: "obj \<Rightarrow> work_error option" where
  "check_acceptance w = whenc (present w ''acceptance'')
     (case as_arr (oget w ''acceptance'') of
        None \<Rightarrow> Some (Not_array ''acceptance'')
      | Some xs \<Rightarrow> first_err (map check_clause xs))"

text \<open>\<open>description\<close>, \<open>docsRef\<close> and \<open>action\<close>: absent, or a string that is not blank.\<close>

definition check_prose :: "string \<Rightarrow> obj \<Rightarrow> work_error option" where
  "check_prose f w = whenc (present w f) (requireNonEmptyString w f)"

definition check_domainFields :: "obj \<Rightarrow> work_error option" where
  "check_domainFields w = whenc (present w ''domainFields'')
     (case as_obj (oget w ''domainFields'') of
        None \<Rightarrow> Some (Bad_value ''domainFields'')
      | Some fs \<Rightarrow> first_err (map (\<lambda>(_, v). req (as_obj (Some v) \<noteq> None) (Bad_value ''domainFields'')) fs))"

definition check_self_dep :: "obj \<Rightarrow> work_error option" where
  "check_self_dep w = req (\<not> (case (as_arr (oget w ''deps''), oget w ''id'') of
       (Some ds, Some i) \<Rightarrow> i \<in> set ds | _ \<Rightarrow> False)) (Self_reference ''deps'')"

text \<open>
  The checks of \<open>validateWorkShape\<close> in the order of the source, each with the field that gates
  it; the retired \<open>stage\<close> is checked whatever the caller touched.
\<close>

type_synonym check_table = "(string \<times> (obj \<Rightarrow> work_error option)) list"

definition shape_table :: "registry \<Rightarrow> check_table" where
  "shape_table ds =
    [(''id'', check_id), (''title'', \<lambda>w. requireNonEmptyString w ''title''), (''kind'', check_kind ds),
     (''status'', check_status), (''deps'', check_deps), (''mergeAfter'', check_id_list ''mergeAfter''),
     (''supersededBy'', check_supersededBy), (''duplicates'', check_id_list ''duplicates''),
     (''risk'', check_risk ds), (''refs'', \<lambda>w. requireArray w ''refs''),
     (''verify'', \<lambda>w. requireNonEmptyString w ''verify''), (''learn'', check_learn),
     (''size'', check_vocab ''size'' SIZES), (''rigor'', check_vocab ''rigor'' RIGOR_VALUES),
     (''tier'', check_tier), (''domain'', check_domain ds),
     (''priority'', check_number nonneg_integer ''priority''),
     (''intent'', check_number is_integer ''intent''),
     (''urgent'', check_vocab ''urgent'' URGENCY_LEVELS),
     (''impact'', check_number nonneg_number ''impact''),
     (''effort'', check_number nonneg_number ''effort'')]"

definition shape_table_late :: "registry \<Rightarrow> check_table" where
  "shape_table_late ds =
    [(''workflowStep'', check_workflowStep ds), (''workflowRunId'', check_workflowRunId),
     (''holder'', check_holder ds), (''parent'', check_lineage ''parent''),
     (''discoveredFrom'', check_lineage ''discoveredFrom''), (''footprint'', check_footprint),
     (''acceptance'', check_acceptance), (''description'', check_prose ''description''),
     (''docsRef'', check_prose ''docsRef''), (''action'', check_prose ''action''),
     (''goalTier'', check_vocab ''goalTier'' GOAL_TIERS), (''targets'', check_id_list ''targets''),
     (''domainFields'', check_domainFields), (''deps'', check_self_dep)]"

definition run_checks :: "string list option \<Rightarrow> check_table \<Rightarrow> obj \<Rightarrow> work_error option" where
  "run_checks fs tbl w = first_err (map (\<lambda>(f, c). whenc (touched fs f) (c w)) tbl)"

definition shape_errors :: "registry \<Rightarrow> obj \<Rightarrow> string list option \<Rightarrow> work_error option" where
  "shape_errors ds w fs = first_err
     [run_checks fs (shape_table ds) w, check_stage w, run_checks fs (shape_table_late ds) w]"

definition validateWorkShape :: "registry \<Rightarrow> jval option \<Rightarrow> string list option \<Rightarrow> work_error option" where
  "validateWorkShape ds v fs = (case as_obj v of
       None \<Rightarrow> Some Not_an_object
     | Some w \<Rightarrow> shape_errors ds w fs)"

section \<open>Cross-item checks\<close>

fun js_typeof :: "jval \<Rightarrow> string" where
  "js_typeof (JBool _) = ''boolean''"
| "js_typeof (JNum _) = ''number''"
| "js_typeof (JFrac _ _) = ''number''"
| "js_typeof (JStr _) = ''string''"
| "js_typeof _ = ''object''"

definition validateDomainFields :: "obj \<Rightarrow> domain option \<Rightarrow> work_error option" where
  "validateDomainFields w d = (case Option.bind d dm_fieldSchema of
       None \<Rightarrow> None
     | Some schema \<Rightarrow>
         (case Option.bind (ownDomain w) (\<lambda>n. Option.bind (as_obj (oget w ''domainFields'')) (\<lambda>o'. oget o' n)) of
            None \<Rightarrow> None
          | Some own \<Rightarrow> first_err (map (\<lambda>(k, ty). case Option.bind (as_obj (Some own)) (\<lambda>o'. oget o' k) of
                None \<Rightarrow> None
              | Some v \<Rightarrow> req (js_typeof v = ty) (Wrong_type k ty)) schema)))"

definition known_targets :: "string \<Rightarrow> jval option \<Rightarrow> string list \<Rightarrow> work_error option" where
  "known_targets f v known = (case as_arr v of
       None \<Rightarrow> None
     | Some xs \<Rightarrow> first_err (map (\<lambda>x. case as_str (Some x) of
           None \<Rightarrow> Some (Unknown_target f [])
         | Some s \<Rightarrow> req (s \<in> set known) (Unknown_target f s)) xs))"

definition validateDeps :: "obj \<Rightarrow> string list \<Rightarrow> work_error option" where
  "validateDeps w known = known_targets ''deps'' (oget w ''deps'') known"

definition validateMergeAfter :: "obj \<Rightarrow> string list \<Rightarrow> work_error option" where
  "validateMergeAfter w known = known_targets ''mergeAfter'' (oget w ''mergeAfter'') known"

definition validateSupersededBy :: "obj \<Rightarrow> string list \<Rightarrow> work_error option" where
  "validateSupersededBy w known = (case as_str (oget w ''supersededBy'') of
       None \<Rightarrow> None
     | Some s \<Rightarrow> req (s \<in> set known) (Unknown_target ''supersededBy'' s))"

definition validateDuplicates :: "obj \<Rightarrow> string list \<Rightarrow> work_error option" where
  "validateDuplicates w known = known_targets ''duplicates'' (oget w ''duplicates'') known"

definition validateWork ::
  "registry \<Rightarrow> jval option \<Rightarrow> string list option \<Rightarrow> string list option \<Rightarrow> work_error option" where
  "validateWork ds v existing fs = first_err
     [validateWorkShape ds v fs,
      (case (as_obj v, existing) of
         (Some w, Some known) \<Rightarrow> first_err
           [whenc (touched fs ''deps'') (validateDeps w known),
            whenc (touched fs ''mergeAfter'') (validateMergeAfter w known),
            whenc (touched fs ''supersededBy'') (validateSupersededBy w known),
            whenc (touched fs ''duplicates'') (validateDuplicates w known)]
       | _ \<Rightarrow> None)]"


section \<open>Titles\<close>

lemma length_before_last_space: "before_last_space t = Some r \<Longrightarrow> length r < length t"
proof -
  assume r: "before_last_space t = Some r"
  let ?d = "dropWhile (\<lambda>c. c \<noteq> CHR '' '') (rev t)"
  from r have mem: "CHR '' '' \<in> set (rev t)" and req': "r = rev (tl ?d)"
    by (auto simp: before_last_space_def split: if_splits)
  from mem have "?d \<noteq> []" by (auto simp: dropWhile_eq_Nil_conv)
  moreover have "length ?d \<le> length t" by (metis length_dropWhile_le length_rev)
  ultimately show ?thesis using req' by (cases ?d) auto
qed

lemma truncate_text_bound: "length (truncate_text t) \<le> MAX_TITLE_LENGTH"
proof (cases "length t \<le> MAX_TITLE_LENGTH")
  case True
  then show ?thesis by (simp add: truncate_text_def)
next
  case False
  let ?cut = "take (MAX_TITLE_LENGTH - 1) t"
  let ?body = "case before_last_space ?cut of Some s \<Rightarrow> if s \<noteq> [] then s else ?cut | None \<Rightarrow> ?cut"
  have "length ?body \<le> length ?cut"
    using length_before_last_space[of ?cut] by (auto split: option.splits dest: less_imp_le)
  moreover have "length ?cut \<le> MAX_TITLE_LENGTH - 1" by simp
  ultimately have "length (trim ?body) \<le> MAX_TITLE_LENGTH - 1"
    using length_trim_le[of ?body] by linarith
  then have "length (trim ?body @ [ellipsis]) \<le> MAX_TITLE_LENGTH"
    by (simp add: MAX_TITLE_LENGTH_def)
  with False show ?thesis by (simp only: truncate_text_def Let_def if_False)
qed

lemma truncate_text_short: "length t \<le> MAX_TITLE_LENGTH \<Longrightarrow> truncate_text t = t"
  by (simp add: truncate_text_def)

lemma truncateTitle_idem_aux: "truncateTitle (truncateTitle v) = truncateTitle v"
  by (cases v rule: truncateTitle.cases) (auto simp: truncate_text_short truncate_text_bound)

section \<open>Reading a valid item\<close>

lemma shape_errors_None:
  "shape_errors ds w fs = None \<longleftrightarrow>
     (\<forall>f c. (f, c) \<in> set (shape_table ds) \<union> set (shape_table_late ds) \<longrightarrow> touched fs f \<longrightarrow> c w = None)
     \<and> oget w ''stage'' = None"
  by (fastforce simp: shape_errors_def run_checks_def check_stage_def check_simps)

lemma touched_None [simp]: "touched None f"
  by (simp add: touched_def)

lemma touched_Some [simp]: "touched (Some fs) f \<longleftrightarrow> f \<in> set fs"
  by (simp add: touched_def)

lemma shape_check:
  assumes "shape_errors ds w None = None"
    and "(f, c) \<in> set (shape_table ds) \<union> set (shape_table_late ds)"
  shows "c w = None"
  using assms by (auto simp: shape_errors_None)

lemma as_str_Some_iff: "as_str v = Some s \<longleftrightarrow> v = Some (JStr s)"
  by (cases v rule: as_str.cases) auto

lemma as_arr_Some_iff: "as_arr v = Some xs \<longleftrightarrow> v = Some (JArr xs)"
  by (cases v rule: as_arr.cases) auto

lemma as_obj_Some_iff: "as_obj v = Some ob \<longleftrightarrow> v = Some (JObj ob)"
  by (cases v rule: as_obj.cases) auto

lemma one_of_iff: "one_of v vocab \<longleftrightarrow> (\<exists>s \<in> set vocab. v = Some (JStr s))"
  by (auto simp: one_of_def as_str_Some_iff split: option.splits)

lemma valid_id:
  assumes "shape_errors ds w None = None"
  shows "\<exists>i. oget w ''id'' = Some (JStr i) \<and> ID_PATTERN i \<and> length i \<le> MAX_ID_LENGTH"
proof -
  have "check_id w = None" using assms by (rule shape_check [where f = "''id''"]) (simp add: shape_table_def)
  then show ?thesis by (auto simp: check_id_def check_simps as_str_Some_iff split: option.splits)
qed

lemma valid_status:
  assumes "shape_errors ds w None = None"
  shows "\<exists>s \<in> set STATUSES. oget w ''status'' = Some (JStr s)"
proof -
  have "check_status w = None" using assms by (rule shape_check [where f = "''status''"]) (simp add: shape_table_def)
  then show ?thesis by (auto simp: check_status_def check_simps one_of_iff)
qed

lemma valid_deps:
  assumes "shape_errors ds w None = None"
  shows "\<exists>xs. oget w ''deps'' = Some (JArr xs) \<and> (\<forall>x \<in> set xs. \<exists>s. x = JStr s \<and> s \<noteq> [])
      \<and> (\<forall>i. oget w ''id'' = Some i \<longrightarrow> i \<notin> set xs)"
proof -
  have c1: "check_deps w = None" using assms by (rule shape_check [where f = "''deps''"]) (simp add: shape_table_def)
  have c2: "check_self_dep w = None" using assms by (rule shape_check [where f = "''deps''"]) (simp add: shape_table_late_def)
  from c1 obtain xs where xs: "oget w ''deps'' = Some (JArr xs)"
    and all: "\<forall>x \<in> set xs. nonempty_str (Some x)"
    by (auto simp: check_deps_def check_simps as_arr_Some_iff split: option.splits)
  from c2 xs have "\<forall>i. oget w ''id'' = Some i \<longrightarrow> i \<notin> set xs"
    by (auto simp: check_self_dep_def check_simps)
  moreover have "\<forall>x \<in> set xs. \<exists>s. x = JStr s \<and> s \<noteq> []"
    using all by (metis nonempty_strD option.inject)
  ultimately show ?thesis using xs by blast
qed

lemma valid_parent:
  assumes "shape_errors ds w None = None" and "truthy (oget w ''parent'')"
  shows "\<exists>p. oget w ''parent'' = Some (JStr p) \<and> trim p \<noteq> [] \<and> oget w ''id'' \<noteq> Some (JStr p)"
proof -
  have "check_lineage ''parent'' w = None"
    using assms(1) by (rule shape_check [where f = "''parent''"]) (simp add: shape_table_late_def)
  moreover have "present w ''parent''"
    using assms(2) by (cases "oget w ''parent''" rule: nullish.cases) (auto simp: present_def)
  ultimately show ?thesis by (auto simp: check_lineage_def check_simps dest!: nonblankD)
qed

lemma valid_workflowStep:
  assumes "shape_errors ds w None = None" and "oget w ''workflowStep'' \<noteq> None"
  shows "\<exists>s \<in> set (domainSteps (item_domain ds w) (oget w ''kind'')). oget w ''workflowStep'' = Some (JStr s)"
proof -
  have "check_workflowStep ds w = None"
    using assms(1) by (rule shape_check [where f = "''workflowStep''"]) (simp add: shape_table_late_def)
  with assms(2) show ?thesis by (auto simp: check_workflowStep_def check_simps one_of_iff)
qed

section \<open>Edits re-check only what they touch\<close>

text \<open>A check reads only the fields of \<open>F\<close>.\<close>

definition reads_only :: "string set \<Rightarrow> (obj \<Rightarrow> 'c) \<Rightarrow> bool" where
  "reads_only F c = (\<forall>w m. (\<forall>f \<in> F. oget w f = oget m f) \<longrightarrow> c w = c m)"

lemma reads_onlyD: "reads_only F c \<Longrightarrow> (\<And>f. f \<in> F \<Longrightarrow> oget w f = oget m f) \<Longrightarrow> c w = c m"
  by (simp add: reads_only_def)

lemmas check_defs =
  check_id_def requireNonEmptyString_def check_kind_def check_status_def check_deps_def
  check_id_list_def check_supersededBy_def check_risk_def requireArray_def check_learn_def
  check_vocab_def check_tier_def check_domain_def check_number_def check_workflowStep_def
  check_workflowRunId_def check_holder_def check_lineage_def check_footprint_def
  check_acceptance_def check_prose_def check_domainFields_def check_self_dep_def
  requireDeclaredClassification_def present_def item_domain_def ownDomain_def

lemma table_reads:
  "(f, c) \<in> set (shape_table ds) \<Longrightarrow> reads_only {f, ''id'', ''domain''} c"
  by (auto simp: shape_table_def reads_only_def check_defs) (simp cong: option.case_cong)+

lemma field_reads:
  "reads_only {f, ''id'', ''domain''} (check_lineage f)"
  "reads_only {f, ''id'', ''domain''} (check_prose f)"
  "reads_only {f, ''id'', ''domain''} (check_vocab f vocab)"
  "reads_only {f, ''id'', ''domain''} (check_id_list f)"
  "reads_only {''workflowRunId'', ''id'', ''domain''} check_workflowRunId"
  "reads_only {''holder'', ''id'', ''domain''} (check_holder ds)"
  "reads_only {''footprint'', ''id'', ''domain''} check_footprint"
  "reads_only {''acceptance'', ''id'', ''domain''} check_acceptance"
  "reads_only {''domainFields'', ''id'', ''domain''} check_domainFields"
  "reads_only {''deps'', ''id'', ''domain''} check_self_dep"
  by (simp_all add: reads_only_def check_defs cong: option.case_cong)

lemma table_late_reads:
  "(f, c) \<in> set (shape_table_late ds) \<Longrightarrow> f \<noteq> ''workflowStep'' \<Longrightarrow> reads_only {f, ''id'', ''domain''} c"
  by (auto simp: shape_table_late_def intro: field_reads)

lemma workflowStep_reads:
  "reads_only {''workflowStep'', ''domain'', ''kind''} (check_workflowStep ds)"
  by (auto simp: reads_only_def check_defs cong: option.case_cong)


text \<open>
  An edit re-runs only the checks of the fields it touches, yet the edited item passes all of them:
  the others read fields the patch leaves alone. The patch may not carry the identity, the domain or
  the step; it may change the kind only of an item that records no step, because the kind selects
  the Workflow the recorded step is judged against.
\<close>

lemma edit_keeps_shape:
  assumes valid: "shape_errors ds w None = None"
    and patched: "shape_errors ds (omerge w p) (Some (okeys p)) = None"
    and fixed: "set (okeys p) \<inter> {''id'', ''domain'', ''workflowStep''} = {}"
    and kind: "''kind'' \<in> set (okeys p) \<longrightarrow> oget w ''workflowStep'' = None"
  shows "shape_errors ds (omerge w p) None = None"
proof -
  have same: "oget (omerge w p) f = oget w f" if "f \<notin> set (okeys p)" for f
    using that by (simp add: oget_None_iff split: option.split)
       (metis not_Some_eq oget_None_iff)
  have base: "oget (omerge w p) ''id'' = oget w ''id''" "oget (omerge w p) ''domain'' = oget w ''domain''"
    "oget (omerge w p) ''workflowStep'' = oget w ''workflowStep''"
    using fixed same by blast+
  have "c (omerge w p) = None"
    if tab: "(f, c) \<in> set (shape_table ds) \<union> set (shape_table_late ds)" for f c
  proof (cases "f \<in> set (okeys p)")
    case True
    with patched tab show ?thesis by (auto simp: shape_errors_None)
  next
    case False
    have ok: "c w = None" using valid tab by (auto simp: shape_errors_None)
    show ?thesis
    proof (cases "(f, c) \<in> set (shape_table ds) \<or> f \<noteq> ''workflowStep''")
      case True
      with tab have "reads_only {f, ''id'', ''domain''} c" by (auto dest: table_reads table_late_reads)
      then have "c (omerge w p) = c w"
        by (rule reads_onlyD) (use same[OF False] base in auto)
      with ok show ?thesis by simp
    next
      case False
      with tab have c: "c = check_workflowStep ds" by (auto simp: shape_table_late_def)
      show ?thesis
      proof (cases "oget w ''workflowStep''")
        case None
        with base c show ?thesis by (simp add: check_workflowStep_def check_simps)
      next
        case (Some v)
        with kind have "oget (omerge w p) ''kind'' = oget w ''kind''" by (intro same) auto
        with base have "c (omerge w p) = c w"
          unfolding c by (intro reads_onlyD [OF workflowStep_reads]) auto
        with ok show ?thesis by simp
      qed
    qed
  qed
  moreover have "oget (omerge w p) ''stage'' = None"
    using patched by (simp add: shape_errors_None)
  ultimately show ?thesis by (auto simp: shape_errors_None)
qed

end
