(* ===== verification/Knowledge_Registry.thy ===== *)
theory Knowledge_Registry
  imports Work_Schema
begin

text \<open>
  \<open>src/state/knowledge-registry.mjs\<close>: the reducer of the knowledge registry. A topic owns
  documents; a document occupies the slot of its topic and role while it is live (neither retired
  nor superseded). Every event either throws (\<open>Inl\<close>) or returns the next registry. Identifiers,
  paths and roles are read as strings; the timestamp is the event's own \<open>ts\<close>, which the store
  always stamps.
\<close>

record topic =
  tp_id :: string
  tp_slug :: string
  tp_title :: jval
  tp_entities :: "jval list"
  tp_status :: string
  tp_lineage :: "obj option"
  tp_created :: jval
  tp_updated :: jval

record kdoc =
  kd_id :: string
  kd_topic :: string
  kd_role :: string
  kd_framework :: string
  kd_mode :: string
  kd_life :: string
  kd_path :: string
  kd_aliases :: "jval list"
  kd_captures :: "jval list"
  kd_supersededBy :: "string option"
  kd_created :: jval
  kd_updated :: jval

record kstate =
  k_topics :: "(string \<times> topic) list"
  k_docs :: "(string \<times> kdoc) list"

datatype know_error =
    K_missing_field
  | K_unsafe_slug string
  | K_unsafe_path
  | K_topic_exists
  | K_topic_unknown string
  | K_topic_retired
  | K_topic_not_active
  | K_bad_framework
  | K_bad_mode
  | K_role_is_mode
  | K_doc_exists
  | K_doc_unknown
  | K_identity_change
  | K_bad_lifecycle
  | K_wrong_state string
  | K_slot_taken string
  | K_path_taken string
  | K_active_exists string
  | K_cardinality
  | K_few_successors
  | K_successor_is_source
  | K_successor_twice
  | K_role_twice
  | K_stranded "string list"
  | K_source_is_target
  | K_source_twice
  | K_merge_collision string string
  | K_superseded_by_itself
  | K_dead_successor
  | K_successor_topic

definition VALID_DOC_LIFECYCLE :: "string list" where
  "VALID_DOC_LIFECYCLE = [''reserved'', ''provisional'', ''active'', ''superseded'', ''retired'']"

definition VALID_FRAMEWORKS :: "string list" where
  "VALID_FRAMEWORKS = [''diataxis'']"

definition DIATAXIS_MODES :: "string list" where
  "DIATAXIS_MODES = [''tutorial'', ''how-to'', ''reference'', ''explanation'']"

definition isLiveDocLifecycle :: "string \<Rightarrow> bool" where
  "isLiveDocLifecycle l = (l \<noteq> ''retired'' \<and> l \<noteq> ''superseded'')"

section \<open>Guards\<close>

definition alnum :: "char \<Rightarrow> bool" where
  "alnum c = (lower_letter c \<or> digit c \<or> c \<in> set ''ABCDEFGHIJKLMNOPQRSTUVWXYZ'')"

fun safe_slug :: "string \<Rightarrow> bool" where
  "safe_slug [] = False"
| "safe_slug (c # cs) = (alnum c \<and> list_all (\<lambda>d. alnum d \<or> d \<in> set ''._-'') cs)"

definition assertSafeSlug :: "string option \<Rightarrow> string \<Rightarrow> know_error option" where
  "assertSafeSlug v label = req (case v of None \<Rightarrow> False | Some s \<Rightarrow> safe_slug s) (K_unsafe_slug label)"

definition safe_doc_path :: "string \<Rightarrow> bool" where
  "safe_doc_path v =
     (v \<noteq> [] \<and> CHR 0x5C \<notin> set v
      \<and> \<not> (hd v = CHR ''/'' \<or> (length v > 1 \<and> alnum (hd v) \<and> \<not> digit (hd v) \<and> v ! 1 = CHR '':''))
      \<and> take 5 v = ''docs/''
      \<and> list_all (\<lambda>seg. seg \<notin> {''.'', ''..'', ''''}) (split_on CHR ''/'' v))"

definition assertSafeDocPath :: "string \<Rightarrow> know_error option" where
  "assertSafeDocPath v = req (safe_doc_path v) K_unsafe_path"

definition assertFrameworkModeRoleValid ::
  "string option \<Rightarrow> string option \<Rightarrow> string \<Rightarrow> know_error option" where
  "assertFrameworkModeRoleValid framework mode role = first_err
     [req (case framework of None \<Rightarrow> False | Some f \<Rightarrow> f \<in> set VALID_FRAMEWORKS) K_bad_framework,
      whenc (framework = Some ''diataxis'') (first_err
        [req (case mode of None \<Rightarrow> False | Some m \<Rightarrow> m \<in> set DIATAXIS_MODES) K_bad_mode,
         req (role \<notin> set DIATAXIS_MODES) K_role_is_mode])]"

definition docs_of :: "kstate \<Rightarrow> kdoc list" where
  "docs_of k = map snd (k_docs k)"

definition getActiveDocs :: "kstate \<Rightarrow> string \<Rightarrow> string \<Rightarrow> kdoc list" where
  "getActiveDocs k t r = filter (\<lambda>d. kd_topic d = t \<and> kd_role d = r \<and> kd_life d = ''active'') (docs_of k)"

definition assertActiveDocCardinality :: "kstate \<Rightarrow> string \<Rightarrow> string \<Rightarrow> know_error option" where
  "assertActiveDocCardinality k t r = req (length (getActiveDocs k t r) \<le> 1) K_cardinality"

definition assertCurrentPathUnique :: "kstate \<Rightarrow> string \<Rightarrow> string \<Rightarrow> know_error option" where
  "assertCurrentPathUnique k i path = first_err (map (\<lambda>d.
     req (\<not> (kd_id d \<noteq> i \<and> kd_path d = path \<and> kd_life d \<noteq> ''retired'')) (K_path_taken (kd_id d))) (docs_of k))"

definition assertDocSlotAvailable :: "kstate \<Rightarrow> string \<Rightarrow> string \<Rightarrow> string \<Rightarrow> know_error option" where
  "assertDocSlotAvailable k i t r = first_err (map (\<lambda>d.
     req (\<not> (kd_id d \<noteq> i \<and> kd_topic d = t \<and> kd_role d = r \<and> kd_life d \<noteq> ''retired''
             \<and> kd_life d \<noteq> ''superseded'')) (K_slot_taken (kd_id d))) (docs_of k))"

definition assertTopicWritable :: "kstate \<Rightarrow> string \<Rightarrow> know_error option" where
  "assertTopicWritable k t = req (case oget (k_topics k) t of None \<Rightarrow> True
     | Some tp \<Rightarrow> tp_status tp \<noteq> ''retired'') K_topic_retired"

text \<open>A string property, and a truthy one.\<close>

definition pstr :: "obj \<Rightarrow> string \<Rightarrow> string option" where
  "pstr p f = as_str (oget p f)"

definition ptruthy :: "obj \<Rightarrow> string \<Rightarrow> string option" where
  "ptruthy p f = (case pstr p f of Some s \<Rightarrow> if s = [] then None else Some s | None \<Rightarrow> None)"

text \<open>\<open>v ?? dflt\<close> for a value that must be a string.\<close>

definition str_or :: "jval option \<Rightarrow> string \<Rightarrow> string option" where
  "str_or v dflt = (if nullish v then Some dflt else as_str v)"

definition resolveDocId :: "kstate \<Rightarrow> obj \<Rightarrow> string option" where
  "resolveDocId k p = (case ptruthy p ''docId'' of
       Some i \<Rightarrow> Some i
     | None \<Rightarrow> (case (ptruthy p ''topicId'', ptruthy p ''role'') of
         (Some t, Some r) \<Rightarrow>
           let matches = filter (\<lambda>d. kd_topic d = t \<and> kd_role d = r) (docs_of k)
           in (case List.find (\<lambda>d. isLiveDocLifecycle (kd_life d)) matches of
                 Some d \<Rightarrow> Some (kd_id d)
               | None \<Rightarrow> (case matches of [] \<Rightarrow> None | d # _ \<Rightarrow> Some (kd_id d)))
       | _ \<Rightarrow> None))"

text \<open>The document a payload names, with its key.\<close>

definition named_doc :: "kstate \<Rightarrow> obj \<Rightarrow> (string \<times> kdoc) option" where
  "named_doc k p = Option.bind (resolveDocId k p) (\<lambda>i. map_option (Pair i) (oget (k_docs k) i))"

definition put_doc :: "string \<Rightarrow> kdoc \<Rightarrow> kstate \<Rightarrow> kstate" where
  "put_doc i d k = k\<lparr>k_docs := oset i d (k_docs k)\<rparr>"

definition put_topic :: "string \<Rightarrow> topic \<Rightarrow> kstate \<Rightarrow> kstate" where
  "put_topic i t k = k\<lparr>k_topics := oset i t (k_topics k)\<rparr>"

definition jarr_or :: "jval option \<Rightarrow> jval list \<Rightarrow> jval list" where
  "jarr_or v dflt = (case as_arr v of Some xs \<Rightarrow> xs | None \<Rightarrow> dflt)"

section \<open>Topic events\<close>

definition topic_register :: "kstate \<Rightarrow> obj \<Rightarrow> jval \<Rightarrow> know_error + kstate" where
  "topic_register k p ts = (case (ptruthy p ''topicId'', ptruthy p ''purposeSlug'') of
       (Some t, Some slug) \<Rightarrow> guarded (first_err
          [assertSafeSlug (Some t) ''topicId'', assertSafeSlug (Some slug) ''purposeSlug'',
           req (oget (k_topics k) t = None) K_topic_exists])
         (Inr (put_topic t
           \<lparr>tp_id = t, tp_slug = slug,
            tp_title = (if nullish (oget p ''purposeTitle'') then JStr slug else the (oget p ''purposeTitle'')),
            tp_entities = jarr_or (oget p ''entities'') [], tp_status = ''active'', tp_lineage = None,
            tp_created = ts, tp_updated = ts\<rparr> k))
     | _ \<Rightarrow> Inl K_missing_field)"

definition topic_rename :: "kstate \<Rightarrow> obj \<Rightarrow> jval \<Rightarrow> know_error + kstate" where
  "topic_rename k p ts = (case Option.bind (pstr p ''topicId'') (\<lambda>t. map_option (Pair t) (oget (k_topics k) t)) of
       None \<Rightarrow> Inl (K_topic_unknown (case pstr p ''topicId'' of Some t \<Rightarrow> t | None \<Rightarrow> []))
     | Some (t, tp) \<Rightarrow>
         guarded (whenc (truthy (oget p ''newPurposeSlug''))
            (assertSafeSlug (pstr p ''newPurposeSlug'') ''newPurposeSlug''))
          (Inr (put_topic t (tp\<lparr>
             tp_lineage := Some (oset ''renamedFrom'' (JStr (tp_slug tp)) (lazyd (tp_lineage tp))),
             tp_slug := (case ptruthy p ''newPurposeSlug'' of Some s \<Rightarrow> s | None \<Rightarrow> tp_slug tp),
             tp_title := (if truthy (oget p ''newPurposeTitle'') then the (oget p ''newPurposeTitle'') else tp_title tp),
             tp_updated := ts\<rparr>) k)))"

text \<open>A successor of a split as the source reads it: its id and slug, and the roles it takes over.\<close>

definition succ_id :: "jval \<Rightarrow> string option" where
  "succ_id nt = Option.bind (as_obj (Some nt)) (\<lambda>o'. ptruthy o' ''topicId'')"

definition succ_field :: "jval \<Rightarrow> string \<Rightarrow> jval option" where
  "succ_field nt f = Option.bind (as_obj (Some nt)) (\<lambda>o'. oget o' f)"

definition succ_slug :: "jval \<Rightarrow> string option" where
  "succ_slug nt = Option.bind (as_obj (Some nt)) (\<lambda>o'. ptruthy o' ''purposeSlug'')"

definition succ_roles :: "jval \<Rightarrow> jval list" where
  "succ_roles nt = jarr_or (succ_field nt ''rolesToMove'') []"

text \<open>The whole list of successors is validated before anything changes.\<close>

fun check_successors :: "kstate \<Rightarrow> string \<Rightarrow> string list \<Rightarrow> jval list \<Rightarrow> know_error option" where
  "check_successors k t seen [] = None"
| "check_successors k t seen (nt # nts) = (case (succ_id nt, succ_slug nt) of
       (Some n, Some slug) \<Rightarrow> first_err
         [assertSafeSlug (Some n) ''successor topicId'', assertSafeSlug (Some slug) ''successor purposeSlug'',
          req (n \<noteq> t) K_successor_is_source, req (n \<notin> set seen) K_successor_twice,
          req (oget (k_topics k) n = None) K_topic_exists,
          check_successors k t (n # seen) nts]
     | _ \<Rightarrow> Some K_missing_field)"

fun check_roles :: "jval list \<Rightarrow> jval list \<Rightarrow> know_error option" where
  "check_roles seen [] = None"
| "check_roles seen (r # rs) = (if r \<in> set seen then Some K_role_twice else check_roles (r # seen) rs)"

definition moved_roles :: "jval list \<Rightarrow> jval list" where
  "moved_roles nts = concat (map succ_roles nts)"

text \<open>One successor: its topic is created and the source's documents of its roles move to it.\<close>

definition split_one :: "string \<Rightarrow> topic \<Rightarrow> string list \<Rightarrow> jval \<Rightarrow> jval \<Rightarrow> kstate \<Rightarrow> kstate" where
  "split_one t old oldDocs ts nt k =
     (let n = the (succ_id nt); slug = the (succ_slug nt)
      in k\<lparr>k_topics := oset n
             \<lparr>tp_id = n, tp_slug = slug,
              tp_title = (if nullish (succ_field nt ''purposeTitle'') then JStr slug
                          else the (succ_field nt ''purposeTitle'')),
              tp_entities = jarr_or (succ_field nt ''entities'') (tp_entities old), tp_status = ''active'',
              tp_lineage = Some [(''splitFrom'', JStr t)], tp_created = ts, tp_updated = ts\<rparr> (k_topics k),
           k_docs := map (\<lambda>(i, d). (i, if i \<in> set oldDocs \<and> JStr (kd_role d) \<in> set (succ_roles nt)
                                     then d\<lparr>kd_topic := n, kd_updated := ts\<rparr> else d)) (k_docs k)\<rparr>)"

definition topic_split :: "kstate \<Rightarrow> obj \<Rightarrow> jval \<Rightarrow> know_error + kstate" where
  "topic_split k p ts = (case Option.bind (pstr p ''topicId'') (\<lambda>t. map_option (Pair t) (oget (k_topics k) t)) of
       None \<Rightarrow> Inl (K_topic_unknown (case pstr p ''topicId'' of Some t \<Rightarrow> t | None \<Rightarrow> []))
     | Some (t, old) \<Rightarrow>
         if tp_status old \<noteq> ''active'' then Inl K_topic_not_active
         else (case as_arr (oget p ''newTopics'') of
             None \<Rightarrow> Inl K_few_successors
           | Some nts \<Rightarrow>
               let live = filter (\<lambda>d. kd_topic d = t \<and> isLiveDocLifecycle (kd_life d)) (docs_of k);
                   stranded = filter (\<lambda>d. JStr (kd_role d) \<notin> set (moved_roles nts)) live;
                   oldDocs = map fst (filter (\<lambda>(i, d). kd_topic d = t) (k_docs k))
               in guarded (first_err
                    [req (2 \<le> length nts) K_few_successors,
                     check_successors k t [] nts,
                     check_roles [] (moved_roles nts),
                     req (stranded = []) (K_stranded (map kd_id stranded))])
                  (Inr (fold (split_one t old oldDocs ts) nts
                     (put_topic t (old\<lparr>tp_status := ''retired'', tp_updated := ts\<rparr>) k)))))"

fun check_sources :: "kstate \<Rightarrow> string \<Rightarrow> string list \<Rightarrow> string list \<Rightarrow> know_error option" where
  "check_sources k target seen [] = None"
| "check_sources k target seen (s # ss) = first_err
     [req (s \<noteq> target) K_source_is_target, req (s \<notin> set seen) K_source_twice,
      (case oget (k_topics k) s of None \<Rightarrow> Some (K_topic_unknown s)
       | Some tp \<Rightarrow> req (tp_status tp = ''active'') K_topic_not_active),
      check_sources k target (s # seen) ss]"

text \<open>\<open>roleOccupants\<close>: two live documents of one role would meet under the target.\<close>

fun check_occupants :: "(string \<times> string) list \<Rightarrow> kdoc list \<Rightarrow> know_error option" where
  "check_occupants occ [] = None"
| "check_occupants occ (d # ds) = (case oget occ (kd_role d) of
       Some prior \<Rightarrow> if prior \<noteq> [] \<and> prior \<noteq> kd_id d then Some (K_merge_collision prior (kd_id d))
                     else check_occupants (oset (kd_role d) (kd_id d) occ) ds
     | None \<Rightarrow> check_occupants (oset (kd_role d) (kd_id d) occ) ds)"

definition merge_source :: "string \<Rightarrow> jval \<Rightarrow> string \<Rightarrow> kstate \<Rightarrow> kstate" where
  "merge_source target ts s k =
     k\<lparr>k_topics := (case oget (k_topics k) s of None \<Rightarrow> k_topics k
          | Some tp \<Rightarrow> oset s (tp\<lparr>tp_status := ''retired'', tp_updated := ts\<rparr>) (k_topics k)),
       k_docs := map (\<lambda>(i, d). (i, if kd_topic d = s then d\<lparr>kd_topic := target, kd_updated := ts\<rparr> else d))
          (k_docs k)\<rparr>"

definition topic_merge :: "kstate \<Rightarrow> obj \<Rightarrow> jval \<Rightarrow> know_error + kstate" where
  "topic_merge k p ts = (case (as_arr (oget p ''sourceTopicIds''), ptruthy p ''targetTopicId'') of
       (Some raw, Some target) \<Rightarrow>
         (case oget (k_topics k) target of
            None \<Rightarrow> Inl (K_topic_unknown target)
          | Some tt \<Rightarrow>
              let ss = str_entries (Some (JArr raw));
                  involved = filter (\<lambda>d. \<not> (kd_life d = ''retired'' \<or> kd_life d = ''superseded'')
                       \<and> (kd_topic d = target \<or> kd_topic d \<in> set ss)) (docs_of k);
                  lin = lazyd (tp_lineage tt)
              in guarded (first_err
                   [req (tp_status tt = ''active'') K_topic_not_active,
                    req (list_all (\<lambda>x. as_str (Some x) \<noteq> None) raw) (K_topic_unknown []),
                    check_sources k target [] ss,
                    check_occupants [] involved])
                 (Inr (fold (merge_source target ts) ss
                    (put_topic target (tt\<lparr>tp_lineage := Some (oset ''mergedFrom''
                         (JArr (jarr_or (oget lin ''mergedFrom'') [] @ map JStr ss)) lin),
                       tp_updated := ts\<rparr>) k))))
     | _ \<Rightarrow> Inl K_missing_field)"

definition topic_retire :: "kstate \<Rightarrow> obj \<Rightarrow> jval \<Rightarrow> know_error + kstate" where
  "topic_retire k p ts = (case Option.bind (pstr p ''topicId'') (\<lambda>t. map_option (Pair t) (oget (k_topics k) t)) of
       None \<Rightarrow> Inl (K_topic_unknown (case pstr p ''topicId'' of Some t \<Rightarrow> t | None \<Rightarrow> []))
     | Some (t, tp) \<Rightarrow> Inr (put_topic t (tp\<lparr>tp_status := ''retired'', tp_updated := ts\<rparr>) k))"

section \<open>Document events\<close>

definition doc_reserve :: "kstate \<Rightarrow> obj \<Rightarrow> jval \<Rightarrow> know_error + kstate" where
  "doc_reserve k p ts = (case (ptruthy p ''topicId'', ptruthy p ''role'', ptruthy p ''currentPath'') of
       (Some t, Some r, Some path) \<Rightarrow>
         (case (str_or (oget p ''framework'') ''diataxis'', str_or (oget p ''mode'') ''explanation'',
                str_or (oget p ''docId'') (t @ '':'' @ r)) of
            (fw, md, Some i) \<Rightarrow> guarded (first_err
              [req (oget (k_topics k) t \<noteq> None) (K_topic_unknown t),
               assertSafeSlug (Some r) ''role'', assertSafeDocPath path, assertTopicWritable k t,
               assertFrameworkModeRoleValid fw md r,
               req (oget (k_docs k) i = None) K_doc_exists,
               assertDocSlotAvailable k i t r, assertCurrentPathUnique k i path])
             (Inr (put_doc i
               \<lparr>kd_id = i, kd_topic = t, kd_role = r, kd_framework = the fw, kd_mode = the md,
                kd_life = ''reserved'', kd_path = path, kd_aliases = [], kd_captures = [],
                kd_supersededBy = None, kd_created = ts, kd_updated = ts\<rparr> k))
          | _ \<Rightarrow> Inl K_missing_field)
     | _ \<Rightarrow> Inl K_missing_field)"

text \<open>
  The lifecycle a registration gives: an existing document keeps its own, except for the one bridge
  from reserved to provisional; a new one takes the requested one.
\<close>

definition register_lifecycle :: "kdoc option \<Rightarrow> obj \<Rightarrow> know_error + string" where
  "register_lifecycle existing p = (case existing of
       Some e \<Rightarrow>
         if oget p ''docLifecycle'' = None \<or> pstr p ''docLifecycle'' = Some (kd_life e) then Inr (kd_life e)
         else if kd_life e = ''reserved'' \<and> pstr p ''docLifecycle'' = Some ''provisional'' then Inr ''provisional''
         else Inl K_bad_lifecycle
     | None \<Rightarrow> (case str_or (oget p ''docLifecycle'') ''provisional'' of
           Some l \<Rightarrow> if l = ''draft'' \<or> l \<notin> set VALID_DOC_LIFECYCLE then Inl K_bad_lifecycle else Inr l
         | None \<Rightarrow> Inl K_bad_lifecycle))"

text \<open>Another document already active in the slot.\<close>

definition assertNoOtherActive :: "kstate \<Rightarrow> string \<Rightarrow> string \<Rightarrow> string \<Rightarrow> know_error option" where
  "assertNoOtherActive k i t r = (case getActiveDocs k t r of [] \<Rightarrow> None
     | d # _ \<Rightarrow> req (kd_id d = i) (K_active_exists (kd_path d)))"

definition register_doc ::
  "string \<Rightarrow> string \<Rightarrow> string \<Rightarrow> string \<Rightarrow> kdoc option \<Rightarrow> string \<Rightarrow> string \<Rightarrow> string \<Rightarrow> obj \<Rightarrow> jval \<Rightarrow> kdoc" where
  "register_doc i t r path existing fw md life p ts =
     \<lparr>kd_id = i, kd_topic = t, kd_role = r, kd_framework = fw, kd_mode = md, kd_life = life, kd_path = path,
      kd_aliases = jarr_or (oget p ''aliases'') (case existing of Some e \<Rightarrow> kd_aliases e | None \<Rightarrow> []),
      kd_captures = jarr_or (oget p ''sourceCaptureIds'') (case existing of Some e \<Rightarrow> kd_captures e | None \<Rightarrow> []),
      kd_supersededBy = None,
      kd_created = (case existing of Some e \<Rightarrow> kd_created e | None \<Rightarrow> ts), kd_updated = ts\<rparr>"

definition register_at ::
  "kstate \<Rightarrow> obj \<Rightarrow> jval \<Rightarrow> string \<Rightarrow> string \<Rightarrow> string \<Rightarrow> string \<Rightarrow> know_error + kstate" where
  "register_at k p ts t r path i =
     (let existing = oget (k_docs k) i;
          fw = str_or (oget p ''framework'') (case existing of Some e \<Rightarrow> kd_framework e | None \<Rightarrow> ''diataxis'');
          md = str_or (oget p ''mode'') (case existing of Some e \<Rightarrow> kd_mode e | None \<Rightarrow> ''explanation'')
      in guarded (first_err
          [req (oget (k_topics k) t \<noteq> None) (K_topic_unknown t),
           assertSafeSlug (Some r) ''role'', assertSafeDocPath path, assertTopicWritable k t,
           (case existing of None \<Rightarrow> None
            | Some e \<Rightarrow> req (kd_topic e = t \<and> kd_role e = r \<and> kd_path e = path) K_identity_change)])
         (e_bind (register_lifecycle existing p) (\<lambda>life. guarded (first_err
           [assertFrameworkModeRoleValid fw md r,
            whenc (life = ''active'') (assertNoOtherActive k i t r),
            assertDocSlotAvailable k i t r, assertCurrentPathUnique k i path])
           (let k' = put_doc i (register_doc i t r path existing (the fw) (the md) life p ts) k
            in guarded (assertActiveDocCardinality k' t r) (Inr k')))))"

definition doc_register :: "kstate \<Rightarrow> obj \<Rightarrow> jval \<Rightarrow> know_error + kstate" where
  "doc_register k p ts = (case (ptruthy p ''topicId'', ptruthy p ''role'', ptruthy p ''currentPath'') of
       (Some t, Some r, Some path) \<Rightarrow>
         (case str_or (oget p ''docId'') (t @ '':'' @ r) of
            Some i \<Rightarrow> register_at k p ts t r path i
          | None \<Rightarrow> Inl K_missing_field)
     | _ \<Rightarrow> Inl K_missing_field)"

text \<open>The lookup the remaining document events start with.\<close>

definition with_doc ::
  "kstate \<Rightarrow> obj \<Rightarrow> (string \<Rightarrow> kdoc \<Rightarrow> know_error + kstate) \<Rightarrow> know_error + kstate" where
  "with_doc k p f = (case named_doc k p of None \<Rightarrow> Inl K_doc_unknown | Some (i, d) \<Rightarrow> f i d)"

definition doc_mark_rendered :: "kstate \<Rightarrow> obj \<Rightarrow> jval \<Rightarrow> know_error + kstate" where
  "doc_mark_rendered k p ts = with_doc k p (\<lambda>i d. guarded (first_err
     [assertTopicWritable k (kd_topic d), req (kd_life d = ''reserved'') (K_wrong_state (kd_life d))])
     (Inr (put_doc i (d\<lparr>kd_life := ''provisional'', kd_updated := ts\<rparr>) k)))"

definition doc_promote :: "kstate \<Rightarrow> obj \<Rightarrow> jval \<Rightarrow> know_error + kstate" where
  "doc_promote k p ts = with_doc k p (\<lambda>i d. guarded (first_err
     [assertTopicWritable k (kd_topic d),
      req (kd_life d \<noteq> ''reserved'') (K_wrong_state (kd_life d)),
      req (kd_life d = ''provisional'') (K_wrong_state (kd_life d)),
      assertNoOtherActive k i (kd_topic d) (kd_role d)])
     (let k' = put_doc i (d\<lparr>kd_life := ''active'', kd_updated := ts\<rparr>) k
      in guarded (assertActiveDocCardinality k' (kd_topic d) (kd_role d)) (Inr k')))"

definition doc_demote :: "kstate \<Rightarrow> obj \<Rightarrow> jval \<Rightarrow> know_error + kstate" where
  "doc_demote k p ts = with_doc k p (\<lambda>i d. guarded (first_err
     [assertTopicWritable k (kd_topic d), req (kd_life d = ''active'') (K_wrong_state (kd_life d))])
     (Inr (put_doc i (d\<lparr>kd_life := ''provisional'', kd_updated := ts\<rparr>) k)))"

definition doc_supersede :: "kstate \<Rightarrow> obj \<Rightarrow> jval \<Rightarrow> know_error + kstate" where
  "doc_supersede k p ts = with_doc k p (\<lambda>i d. (case ptruthy p ''supersededBy'' of
       None \<Rightarrow> Inr (put_doc i (d\<lparr>kd_life := ''superseded'', kd_updated := ts\<rparr>) k)
     | Some by' \<Rightarrow>
         if by' = i then Inl K_superseded_by_itself
         else (case oget (k_docs k) by' of
             None \<Rightarrow> Inl K_doc_unknown
           | Some succ \<Rightarrow> guarded (first_err
               [req (isLiveDocLifecycle (kd_life succ)) K_dead_successor,
                req (case oget (k_topics k) (kd_topic succ) of None \<Rightarrow> False
                     | Some tp \<Rightarrow> tp_status tp = ''active'') K_successor_topic])
               (Inr (put_doc i (d\<lparr>kd_supersededBy := Some by', kd_life := ''superseded'',
                                 kd_updated := ts\<rparr>) k)))))"

definition doc_retire :: "kstate \<Rightarrow> obj \<Rightarrow> jval \<Rightarrow> know_error + kstate" where
  "doc_retire k p ts = with_doc k p (\<lambda>i d.
     Inr (put_doc i (d\<lparr>kd_life := ''retired'', kd_updated := ts\<rparr>) k))"

definition doc_attest :: "kstate \<Rightarrow> obj \<Rightarrow> jval \<Rightarrow> know_error + kstate" where
  "doc_attest k p ts = with_doc k p (\<lambda>i d. guarded (first_err
     [req (\<not> (kd_life d = ''retired'' \<or> kd_life d = ''superseded'')) (K_wrong_state (kd_life d)),
      assertTopicWritable k (kd_topic d),
      req (nonblank (oget p ''captureId'')) K_missing_field])
     (Inr (let cap = the (oget p ''captureId'')
           in put_doc i (d\<lparr>kd_captures := (if cap \<in> set (kd_captures d) then kd_captures d
                                          else kd_captures d @ [cap]), kd_updated := ts\<rparr>) k)))"

definition doc_path_move :: "kstate \<Rightarrow> obj \<Rightarrow> jval \<Rightarrow> know_error + kstate" where
  "doc_path_move k p ts = with_doc k p (\<lambda>i d. (case ptruthy p ''newPath'' of
       None \<Rightarrow> Inl K_missing_field
     | Some path \<Rightarrow> guarded (first_err [assertSafeDocPath path, assertCurrentPathUnique k i path])
         (Inr (put_doc i (d\<lparr>
            kd_aliases := (if kd_path d \<noteq> [] \<and> kd_path d \<noteq> path \<and> JStr (kd_path d) \<notin> set (kd_aliases d)
                           then kd_aliases d @ [JStr (kd_path d)] else kd_aliases d),
            kd_path := path, kd_updated := ts\<rparr>) k))))"

section \<open>The reducer and the fold\<close>

definition applyKnowledgeEvent :: "kstate \<Rightarrow> string \<Rightarrow> obj \<Rightarrow> jval \<Rightarrow> know_error + kstate" where
  "applyKnowledgeEvent k ty p ts =
     (if ty = ''topic.register'' then topic_register k p ts
      else if ty = ''topic.rename'' then topic_rename k p ts
      else if ty = ''topic.split'' then topic_split k p ts
      else if ty = ''topic.merge'' then topic_merge k p ts
      else if ty = ''topic.retire'' then topic_retire k p ts
      else if ty = ''doc.reserve'' then doc_reserve k p ts
      else if ty = ''doc.register'' then doc_register k p ts
      else if ty = ''doc.mark-rendered'' then doc_mark_rendered k p ts
      else if ty = ''doc.promote'' then doc_promote k p ts
      else if ty = ''doc.demote'' then doc_demote k p ts
      else if ty = ''doc.supersede'' then doc_supersede k p ts
      else if ty = ''doc.retire'' then doc_retire k p ts
      else if ty = ''doc.attest'' then doc_attest k p ts
      else if ty = ''doc.path-move'' then doc_path_move k p ts
      else Inr k)"

record kevent =
  ke_type :: string
  ke_payload :: obj
  ke_ts :: jval

definition knowledge_type :: "string \<Rightarrow> bool" where
  "knowledge_type ty = (take 6 ty = ''topic.'' \<or> take 4 ty = ''doc.'')"

fun foldKnowledgeEvents :: "kstate \<Rightarrow> kevent list \<Rightarrow> know_error + kstate" where
  "foldKnowledgeEvents k [] = Inr k"
| "foldKnowledgeEvents k (e # es) =
     (if knowledge_type (ke_type e)
      then e_bind (applyKnowledgeEvent k (ke_type e) (ke_payload e) (ke_ts e)) (\<lambda>k'. foldKnowledgeEvents k' es)
      else foldKnowledgeEvents k es)"

definition empty_registry :: kstate where
  "empty_registry = \<lparr>k_topics = [], k_docs = []\<rparr>"

end
