(* ===== verification/Replay.thy ===== *)
theory Replay
  imports Knowledge_Registry "HOL-Library.List_Lexorder" "HOL-Library.Char_ord"
begin

text \<open>
  \<open>src/state/replay.mjs\<close>: the fold of the event log into the view every reader works on. One
  definition per event type, the precondition check in front of them (a guarded event whose condition
  no longer holds is recorded as a conflict, or stops the fold when its writer had seen everything),
  and the fold itself with an optional seed view.

  The view's lazy keys are \<open>None\<close> until the first event creates them. A payload's id is a
  string or absent (it then names the property \<open>undefined\<close>); views are values, so the copy a
  seeded fold starts with is the seed itself.
\<close>

section \<open>The view and its events\<close>

record head =
  hd_h :: string
  hd_origin :: string
  hd_stream :: "string option"
  hd_seq :: "int option"

record heads =
  hs_existence :: "head option"
  hs_status :: "head option"

record conflict =
  cf_h :: string
  cf_id :: string
  cf_origin :: string
  cf_reason :: string
  cf_against :: "string option"

record view =
  v_work :: "(string \<times> obj) list"
  v_decisions :: "obj list"
  v_streamHeads :: "(string \<times> int) list option"
  v_gates :: "(string \<times> obj) list option"
  v_settlements :: "(string \<times> obj list) list option"
  v_learnings :: "(string \<times> obj list) list option"
  v_outcomes :: "(string \<times> obj) list option"
  v_discovery :: "(string \<times> obj list) list option"
  v_decisionsById :: "(string \<times> obj list) list option"
  v_callThreads :: "(string \<times> obj list) list option"
  v_parkResolutions :: "(string \<times> obj list) list option"
  v_focus :: "string option"
  v_preconditionHeads :: "(string \<times> heads) list option"
  v_conflicts :: "conflict list option"
  v_knowledge :: "kstate option"

record event =
  e_type :: string
  e_payload :: obj
  e_ts :: jval
  e_v :: "jval option"
  e_origin :: "string option"
  e_stream :: "string option"
  e_seq :: "int option"
  e_seen :: "(string \<times> int) list"
  e_h :: "string option"

datatype replay_error =
    Causal_precondition_failed
  | Knowledge_failed know_error

definition VIEW_SCHEMA_VERSION :: int where
  "VIEW_SCHEMA_VERSION = 7"

definition empty_view :: view where
  "empty_view = \<lparr>v_work = [], v_decisions = [], v_streamHeads = None, v_gates = None,
     v_settlements = None, v_learnings = None, v_outcomes = None, v_discovery = None,
     v_decisionsById = None, v_callThreads = None, v_parkResolutions = None, v_focus = None,
     v_preconditionHeads = None, v_conflicts = None, v_knowledge = None\<rparr>"

text \<open>Writing a value that may be \<open>undefined\<close>; the \<open>?? null\<close> of a recorded field.\<close>

definition oput :: "string \<Rightarrow> jval option \<Rightarrow> obj \<Rightarrow> obj" where
  "oput k vo ob = (case vo of None \<Rightarrow> odel k ob | Some v \<Rightarrow> oset k v ob)"

definition or_null :: "jval option \<Rightarrow> jval" where
  "or_null v = (case v of None \<Rightarrow> JNull | Some x \<Rightarrow> x)"

text \<open>\<open>...(p.k !== undefined ? { k } : {})\<close> for a list of keys.\<close>

definition copy_keys :: "string list \<Rightarrow> obj \<Rightarrow> obj \<Rightarrow> obj" where
  "copy_keys ks p ob = fold (\<lambda>k. oset_opt k (oget p k)) ks ob"

definition pkey :: "obj \<Rightarrow> string" where
  "pkey p = (case as_str (oget p ''id'') of Some s \<Rightarrow> s | None \<Rightarrow> ''undefined'')"

text \<open>\<open>m[id] = [...(m[id] ?? []), x]\<close> on a lazy key.\<close>

definition append_at :: "string \<Rightarrow> 'a \<Rightarrow> (string \<times> 'a list) list option \<Rightarrow> (string \<times> 'a list) list option" where
  "append_at i x m = Some (oset i (lazyd (oget (lazyd m) i) @ [x]) (lazyd m))"

definition withoutPrecondition :: "obj \<Rightarrow> obj" where
  "withoutPrecondition p = odel ''precondition'' p"

definition is_string :: "jval option \<Rightarrow> bool" where
  "is_string v = (as_str v \<noteq> None)"

section \<open>Older shapes\<close>

definition canonicalStep :: "registry \<Rightarrow> obj option \<Rightarrow> jval option \<Rightarrow> jval option" where
  "canonicalStep ds item step = (if \<not> is_string step then step else
     resolveStepAlias (resolveWorkflow (getDomain ds (Option.bind item (\<lambda>w. oget w ''domain'')))
       (Option.bind item (\<lambda>w. oget w ''kind''))) step)"

definition foldLegacyStage :: "registry \<Rightarrow> obj option \<Rightarrow> obj \<Rightarrow> obj" where
  "foldLegacyStage ds item target =
     (if oget target ''stage'' = None then target
      else odel ''stage'' (if oget target ''workflowStep'' = None
        then oput ''workflowStep''
          (canonicalStep ds (case item of None \<Rightarrow> Some target | Some w \<Rightarrow> Some w) (oget target ''stage'')) target
        else target))"

definition legacy_tier :: "obj \<Rightarrow> obj" where
  "legacy_tier ob = (if oget ob ''tier'' = None then ob
     else odel ''tier'' (if oget ob ''size'' = None then oput ''size'' (oget ob ''tier'') ob else ob))"

section \<open>work.add\<close>

definition added_item :: "registry \<Rightarrow> obj \<Rightarrow> obj" where
  "added_item ds p =
     (let n1 = legacy_tier (withoutPrecondition p);
          n2 = (if oget n1 ''rigor'' = None \<and> oget n1 ''risk'' = Some (JStr ''heavy'')
                then oset ''rigor'' (JStr ''high'') n1 else n1);
          n3 = foldLegacyStage ds None n2;
          n4 = (if oget n3 ''workflowStep'' \<noteq> None
                then oput ''workflowStep'' (canonicalStep ds (Some n3) (oget n3 ''workflowStep'')) n3 else n3)
      in omerge WORK_DEFAULTS n4)"

definition apply_add :: "registry \<Rightarrow> obj \<Rightarrow> view \<Rightarrow> view" where
  "apply_add ds p v = (if is_string (oget p ''id'')
     then v\<lparr>v_work := oset (pkey p) (added_item ds p) (v_work v)\<rparr> else v)"

section \<open>work.move\<close>

text \<open>The claim attribution: only on a genuine claim edge, never on a resume out of the human gate.\<close>

definition fold_claim :: "obj \<Rightarrow> obj \<Rightarrow> obj" where
  "fold_claim p item =
     (if oget p ''to'' = Some (JStr ''doing'') \<and> oget p ''from'' \<noteq> Some (JStr ''awaiting-human'')
      then oset_opt ''claimTrigger'' (oget p ''claimTrigger'')
          (oset_opt ''branchHeadAtTake'' (oget p ''branchHeadAtTake'')
          (oset_opt ''headAtTake'' (oget p ''headAtTake'')
          (oset_opt ''claimRole'' (oget p ''role'') item)))
      else item)"

definition fold_return :: "obj \<Rightarrow> obj \<Rightarrow> obj" where
  "fold_return p item =
     (if oget p ''to'' = Some (JStr ''awaiting-approval'')
      then oset_opt ''branchHeadAtReturn'' (oget p ''branchHeadAtReturn'')
          (oset_opt ''headAtReturn'' (oget p ''headAtReturn'') item)
      else item)"

definition fold_delivery :: "obj \<Rightarrow> obj \<Rightarrow> obj" where
  "fold_delivery p item =
     (if oget p ''to'' = Some (JStr ''delivered'')
      then oset_opt ''landSettlement'' (oget p ''landSettlement'')
          (oset_opt ''mergedInto'' (oget p ''mergedInto'')
          (oset_opt ''mergedSha'' (oget p ''mergedSha'') item))
      else item)"

definition moved_item :: "obj \<Rightarrow> obj \<Rightarrow> obj" where
  "moved_item p item =
     fold_delivery p (fold_return p (oset_opt ''reason'' (oget p ''reason'') (fold_claim p
       (oset_opt ''parkReason'' (oget p ''parkReason'')
       (oset_opt ''statusCategory'' (oget p ''statusCategory'')
       (oset_opt ''writer'' (oget p ''writer'')
       (oput ''status'' (oget p ''to'') item)))))))"

text \<open>
  The gate record of an item: the latest question and answer, the history of questions, and the
  consent flag, which an explicit approval sets and every other ask or answer clears.
\<close>

definition gate_record :: "obj \<Rightarrow> obj \<Rightarrow> obj" where
  "gate_record p g =
     (let ask = oget p ''ask''; answer = oget p ''answer'';
          g1 = (if truthy ask
                then oset ''askHistory'' (JArr (jarr_or (oget g ''askHistory'') [] @ [the ask]))
                       (oset ''ask'' (the ask) g) else g);
          g2 = (if truthy answer then oset ''answer'' (the answer) g1 else g1);
          g3 = copy_keys [''parentSnapshotAtAsk'', ''statusAtAsk'', ''durableStatusAtAsk'', ''rationale'',
                          ''alternatives'', ''source'', ''askSource''] p g2
      in if truthy answer \<and> oget p ''approved'' = Some (JBool True) then oset ''approved'' (JBool True) g3
         else odel ''approved'' g3)"

definition fold_gate :: "obj \<Rightarrow> view \<Rightarrow> view" where
  "fold_gate p v =
     (if truthy (oget p ''ask'') \<or> truthy (oget p ''answer'')
      then v\<lparr>v_gates := Some (oset (pkey p) (gate_record p (lazyd (oget (lazyd (v_gates v)) (pkey p))))
                                  (lazyd (v_gates v)))\<rparr>
      else v)"

definition settlement :: "string \<Rightarrow> jval option \<Rightarrow> jval \<Rightarrow> jval \<Rightarrow> obj" where
  "settlement kind role ts detail =
     [(''kind'', JStr kind), (''role'', or_null role), (''ts'', ts), (''detail'', detail)]"

definition fold_settlement :: "event \<Rightarrow> view \<Rightarrow> view" where
  "fold_settlement e v =
     (let p = e_payload e
      in if oget (v_work v) (pkey p) \<noteq> None \<and> e_v e \<noteq> None then
           if truthy (oget p ''answer'')
           then v\<lparr>v_settlements := append_at (pkey p)
                   (settlement ''answer'' (oget p ''role'') (e_ts e) (the (oget p ''answer''))) (v_settlements v)\<rparr>
           else if oget p ''to'' = Some (JStr ''done'')
           then v\<lparr>v_settlements := append_at (pkey p)
                   (settlement ''close'' (oget p ''role'') (e_ts e) JNull) (v_settlements v)\<rparr>
           else v
         else v)"

definition fold_learning :: "event \<Rightarrow> view \<Rightarrow> view" where
  "fold_learning e v =
     (let p = e_payload e
      in if oget (v_work v) (pkey p) \<noteq> None \<and> oget p ''to'' = Some (JStr ''done'') \<and> truthy (oget p ''learning'')
         then v\<lparr>v_learnings := append_at (pkey p)
                 (oset ''ts'' (e_ts e) (lazyd (as_obj (oget p ''learning'')))) (v_learnings v)\<rparr>
         else v)"

text \<open>An update of the item a payload names: nothing when the id was never added.\<close>

definition on_item :: "obj \<Rightarrow> (obj \<Rightarrow> obj) \<Rightarrow> view \<Rightarrow> view" where
  "on_item p f v = (case oget (v_work v) (pkey p) of None \<Rightarrow> v
     | Some item \<Rightarrow> v\<lparr>v_work := oset (pkey p) (f item) (v_work v)\<rparr>)"

definition apply_move :: "event \<Rightarrow> view \<Rightarrow> view" where
  "apply_move e v =
     fold_learning e (fold_settlement e (fold_gate (e_payload e)
       (on_item (e_payload e) (moved_item (e_payload e)) v)))"

section \<open>The other work events\<close>

definition edited_item :: "registry \<Rightarrow> obj \<Rightarrow> obj \<Rightarrow> obj" where
  "edited_item ds p item =
     (let w = (case as_obj (oget p ''patch'') of None \<Rightarrow> item
          | Some patch \<Rightarrow>
              let n1 = legacy_tier patch;
                  n2 = (if oget n1 ''risk'' = Some (JStr ''heavy'') \<and> oget item ''rigor'' = None
                          \<and> oget n1 ''rigor'' = None
                        then oset ''rigor'' (JStr ''high'') n1 else n1)
              in omerge item (foldLegacyStage ds (Some item) n2))
      in oset_opt ''writer'' (oget p ''writer'') w)"

definition apply_decision :: "event \<Rightarrow> view \<Rightarrow> view" where
  "apply_decision e v =
     (let p = e_payload e; d = oset ''ts'' (e_ts e) p; v' = v\<lparr>v_decisions := v_decisions v @ [d]\<rparr>
      in if is_string (oget p ''id'') then v'\<lparr>v_decisionsById := append_at (pkey p) d (v_decisionsById v')\<rparr> else v')"

definition apply_outcome :: "obj \<Rightarrow> view \<Rightarrow> view" where
  "apply_outcome p v = (if is_string (oget p ''id'')
     then v\<lparr>v_outcomes := Some (oset (pkey p)
             (omerge (lazyd (oget (lazyd (v_outcomes v)) (pkey p))) (withoutPrecondition p)) (lazyd (v_outcomes v)))\<rparr>
     else v)"

definition apply_step :: "registry \<Rightarrow> event \<Rightarrow> view \<Rightarrow> view" where
  "apply_step ds e v =
     (let p = e_payload e; item = oget (v_work v) (pkey p);
          from = canonicalStep ds item (oget p ''from'');
          to = canonicalStep ds item (oget p ''to'');
          v1 = on_item p (\<lambda>w. oset_opt ''writer'' (oget p ''writer'') (oset_opt ''verify'' (oget p ''verify'')
                 (oput ''workflowStep'' to w))) v;
          verdict = (case lazyd (oget (lazyd (v_discovery v)) (pkey p)) of [] \<Rightarrow> None | xs \<Rightarrow> Some (last xs));
          entry = Option.bind item (\<lambda>w. stepForPhase (getDomain ds (oget w ''domain'')) ''discover'' (oget w ''kind''))
      in if item \<noteq> None \<and> from = map_option JStr entry
            \<and> Option.bind verdict (\<lambda>d. oget d ''clear'') \<noteq> Some (JBool False)
         then v1\<lparr>v_settlements := append_at (pkey p)
                (settlement ''clarify-pass'' (oget p ''role'') (e_ts e) (or_null (oget p ''verify''))) (v_settlements v1)\<rparr>
         else v1)"

definition normalizeRole :: "jval option \<Rightarrow> jval option" where
  "normalizeRole r = (if r = Some (JStr ''human-advisor'') then Some (JStr ''advisor'') else r)"

text \<open>\<open>v ?? dflt\<close> on a recorded field.\<close>

definition or_else :: "jval option \<Rightarrow> jval \<Rightarrow> jval" where
  "or_else v dflt = (if nullish v then dflt else the v)"

definition handoff_record :: "event \<Rightarrow> obj" where
  "handoff_record e =
     (let p = e_payload e
      in oset ''ts'' (e_ts e) (oset ''note'' (or_else (oget p ''note'') JNull)
        (oset ''returning'' (JBool (truthy (oget p ''returning'')))
        (oset ''mode'' (or_else (oget p ''mode'') (JStr ''async''))
        (oset_opt ''reason'' (oget p ''reason'')
        (oset_opt ''to'' (normalizeRole (oget p ''to''))
        (oset_opt ''from'' (normalizeRole (oget p ''from'')) [(''kind'', JStr ''handoff'')])))))))"

definition apply_handoff :: "event \<Rightarrow> view \<Rightarrow> view" where
  "apply_handoff e v =
     (let p = e_payload e; to = normalizeRole (oget p ''to'');
          v1 = (if is_string to then on_item p (oset ''holder'' (the to)) v else v)
      in if is_string (oget p ''id'')
         then v1\<lparr>v_callThreads := append_at (pkey p) (handoff_record e) (v_callThreads v1)\<rparr> else v1)"

definition call_summary_record :: "event \<Rightarrow> obj" where
  "call_summary_record e =
     (let p = e_payload e
      in oset ''ts'' (e_ts e) (oset ''outcome'' (or_else (oget p ''outcome'') JNull)
        (oset_opt ''reason'' (oget p ''reason'')
        (oset_opt ''calleeRole'' (oget p ''calleeRole'') [(''kind'', JStr ''call-summary'')]))))"

definition apply_call_summary :: "event \<Rightarrow> view \<Rightarrow> view" where
  "apply_call_summary e v = (if is_string (oget (e_payload e) ''id'')
     then v\<lparr>v_callThreads := append_at (pkey (e_payload e)) (call_summary_record e) (v_callThreads v)\<rparr> else v)"

definition apply_discovery :: "event \<Rightarrow> view \<Rightarrow> view" where
  "apply_discovery e v = (let p = e_payload e in if is_string (oget p ''id'')
     then v\<lparr>v_discovery := append_at (pkey p) (oset ''ts'' (e_ts e) (withoutPrecondition p)) (v_discovery v)\<rparr>
     else v)"

definition apply_gate_approve :: "event \<Rightarrow> view \<Rightarrow> view" where
  "apply_gate_approve e v =
     (let p = e_payload e
      in if is_string (oget p ''id'') \<and> is_string (oget p ''gate'')
         then v\<lparr>v_gates := Some (oset (pkey p) (oset (the (as_str (oget p ''gate'')))
                (JObj (oset_opt ''verify'' (oget p ''verify'') (oset ''at'' (e_ts e)
                   (oset_opt ''actor'' (oget p ''actor'') []))))
                (lazyd (oget (lazyd (v_gates v)) (pkey p)))) (lazyd (v_gates v)))\<rparr>
         else v)"

definition apply_focus :: "obj \<Rightarrow> view \<Rightarrow> view" where
  "apply_focus p v = (if is_string (oget p ''id'') then v\<lparr>v_focus := Some (pkey p)\<rparr> else v)"

definition apply_resolve_park :: "event \<Rightarrow> view \<Rightarrow> view" where
  "apply_resolve_park e v =
     (let p = e_payload e;
          v1 = on_item p (\<lambda>w. oset_opt ''writer'' (oget p ''writer'') (odel ''parkReason'' (odel ''reason'' w))) v
      in if is_string (oget p ''id'')
         then v1\<lparr>v_parkResolutions := append_at (pkey p) (oset ''ts'' (e_ts e) (withoutPrecondition p))
                 (v_parkResolutions v1)\<rparr>
         else v1)"

definition attempts :: "obj \<Rightarrow> int" where
  "attempts w = (case oget w ''attemptCount'' of Some (JNum n) \<Rightarrow> n | _ \<Rightarrow> 0)"

definition last_attempt :: "event \<Rightarrow> obj" where
  "last_attempt e =
     (let p = e_payload e
      in copy_keys [''claimId'', ''actor'', ''from'', ''to'', ''startedAt'', ''branch'', ''headAtTake'',
            ''branchHeadAtTake'', ''branchHeadAtReturn'', ''headAtReturn'', ''reason'', ''releaseTrigger''] p
          (oset ''endedAt'' (if truthy (oget p ''endedAt'') then the (oget p ''endedAt'') else e_ts e)
            (copy_keys [''phase'', ''result''] p [])))"

definition apply_attempt :: "event \<Rightarrow> view \<Rightarrow> view" where
  "apply_attempt e v = on_item (e_payload e)
     (\<lambda>w. oset ''lastAttempt'' (JObj (last_attempt e)) (oset ''attemptCount'' (JNum (attempts w + 1)) w)) v"

definition KNOWLEDGE_TYPES :: "string list" where
  "KNOWLEDGE_TYPES = [''topic.register'', ''topic.rename'', ''topic.split'', ''topic.merge'', ''topic.retire'',
     ''doc.reserve'', ''doc.register'', ''doc.mark-rendered'', ''doc.promote'', ''doc.demote'', ''doc.supersede'',
     ''doc.retire'', ''doc.path-move'', ''doc.attest'']"

definition apply_knowledge :: "event \<Rightarrow> view \<Rightarrow> replay_error + view" where
  "apply_knowledge e v =
     (case applyKnowledgeEvent (case v_knowledge v of None \<Rightarrow> empty_registry | Some k \<Rightarrow> k)
             (e_type e) (e_payload e) (e_ts e) of
        Inl err \<Rightarrow> Inl (Knowledge_failed err)
      | Inr k \<Rightarrow> Inr (v\<lparr>v_knowledge := Some k\<rparr>))"

text \<open>The dispatch on every type whose fold cannot throw; an unknown type changes nothing.\<close>

definition apply_plain :: "registry \<Rightarrow> event \<Rightarrow> view \<Rightarrow> view" where
  "apply_plain ds e v =
     (let ty = e_type e; p = e_payload e
      in if ty = ''work.add'' then apply_add ds p v
         else if ty = ''work.move'' then apply_move e v
         else if ty = ''work.edit'' then on_item p (edited_item ds p) v
         else if ty = ''decision'' then apply_decision e v
         else if ty = ''work.outcome'' then apply_outcome p v
         else if ty = ''work.stage'' \<or> ty = ''work.step'' then apply_step ds e v
         else if ty = ''work.handoff'' then apply_handoff e v
         else if ty = ''work.call-summary'' then apply_call_summary e v
         else if ty = ''work.discovery'' then apply_discovery e v
         else if ty = ''work.gate-approve'' then apply_gate_approve e v
         else if ty = ''goal.focus'' then apply_focus p v
         else if ty = ''work.resolve-park-reason'' then apply_resolve_park e v
         else if ty = ''work.attempt'' then apply_attempt e v
         else v)"

definition applyEvent :: "registry \<Rightarrow> view \<Rightarrow> event \<Rightarrow> replay_error + view" where
  "applyEvent ds v e = (if e_type e \<in> set KNOWLEDGE_TYPES then apply_knowledge e v else Inr (apply_plain ds e v))"

section \<open>Preconditions and the fold\<close>

text \<open>A string that is there and not empty, the truthiness of the identifying fields.\<close>

definition truthy_str :: "string option \<Rightarrow> bool" where
  "truthy_str s = (case s of None \<Rightarrow> False | Some x \<Rightarrow> x \<noteq> [])"

definition stream_key :: "event \<Rightarrow> string option" where
  "stream_key e = (if truthy_str (e_origin e) \<and> truthy_str (e_stream e)
     then Some (the (e_origin e) @ '':'' @ the (e_stream e)) else None)"

definition seen_upto :: "event \<Rightarrow> string \<Rightarrow> int" where
  "seen_upto e key = (case oget (e_seen e) key of None \<Rightarrow> 0 | Some n \<Rightarrow> n)"

definition unseenEarlier :: "event \<Rightarrow> view \<Rightarrow> bool" where
  "unseenEarlier e v = (\<exists>(key, seq) \<in> set (lazyd (v_streamHeads v)). Some key \<noteq> stream_key e \<and> seen_upto e key < seq)"

definition note_stream :: "event \<Rightarrow> view \<Rightarrow> view" where
  "note_stream e v = (case stream_key e of None \<Rightarrow> v
     | Some key \<Rightarrow> v\<lparr>v_streamHeads := Some (oset key
          (max (case oget (lazyd (v_streamHeads v)) key of None \<Rightarrow> 0 | Some n \<Rightarrow> n)
               (case e_seq e of None \<Rightarrow> 0 | Some n \<Rightarrow> n)) (lazyd (v_streamHeads v)))\<rparr>)"

definition condition_of :: "event \<Rightarrow> obj option" where
  "condition_of e = (let c = oget (e_payload e) ''precondition''
     in if truthy c then Some (lazyd (as_obj c)) else None)"

definition guarded_event :: "event \<Rightarrow> bool" where
  "guarded_event e = (condition_of e \<noteq> None \<and> truthy_str (e_origin e) \<and> truthy_str (e_h e))"

definition status_of :: "obj option \<Rightarrow> jval option" where
  "status_of w = Option.bind w (\<lambda>x. oget x ''status'')"

definition in_status :: "jval option \<Rightarrow> view \<Rightarrow> (string \<times> obj) list" where
  "in_status s v = filter (\<lambda>(_, w). oget w ''status'' = s) (v_work v)"

definition capacity_full :: "obj \<Rightarrow> view \<Rightarrow> bool" where
  "capacity_full c v = (case as_obj (oget c ''capacity'') of None \<Rightarrow> False
     | Some cap \<Rightarrow> (case oget cap ''max'' of
           Some (JNum m) \<Rightarrow> m \<le> int (length (in_status (oget cap ''status'') v))
         | _ \<Rightarrow> False))"

definition failed_precondition :: "obj \<Rightarrow> string \<Rightarrow> view \<Rightarrow> string option" where
  "failed_precondition c i v =
     (let item = oget (v_work v) i
      in if oget c ''exists'' \<noteq> None \<and> oget c ''exists'' \<noteq> Some (JBool (item \<noteq> None)) then Some ''existence''
         else if oget c ''expectedStatus'' \<noteq> None \<and> status_of item \<noteq> oget c ''expectedStatus''
         then Some ''expected-status''
         else if capacity_full c v then Some ''capacity''
         else None)"

definition heads_at :: "view \<Rightarrow> string \<Rightarrow> heads" where
  "heads_at v i = (case oget (lazyd (v_preconditionHeads v)) i of
     None \<Rightarrow> \<lparr>hs_existence = None, hs_status = None\<rparr> | Some hs \<Rightarrow> hs)"

definition concurrent_head :: "event \<Rightarrow> head \<Rightarrow> bool" where
  "concurrent_head e hh = (Some (hd_origin hh) \<noteq> e_origin e \<and> (case hd_seq hh of None \<Rightarrow> False
     | Some sq \<Rightarrow> seen_upto e (hd_origin hh @ '':'' @
         (case hd_stream hh of None \<Rightarrow> ''undefined'' | Some st \<Rightarrow> st)) < sq))"

definition against_head :: "event \<Rightarrow> obj \<Rightarrow> string \<Rightarrow> string \<Rightarrow> view \<Rightarrow> head option" where
  "against_head e c i reason v =
     (if reason = ''capacity'' then
        List.find (concurrent_head e) (List.map_filter (\<lambda>k. hs_status (heads_at v k))
          (filter (\<lambda>k. status_of (oget (v_work v) k) = oget (lazyd (as_obj (oget c ''capacity''))) ''status'')
            (sort (okeys (v_work v)))))
      else if reason = ''existence'' then hs_existence (heads_at v i)
      else hs_status (heads_at v i))"

definition record_conflict :: "event \<Rightarrow> obj \<Rightarrow> string \<Rightarrow> view \<Rightarrow> view" where
  "record_conflict e c reason v =
     v\<lparr>v_conflicts := Some (lazyd (v_conflicts v) @
        [\<lparr>cf_h = the (e_h e), cf_id = pkey (e_payload e), cf_origin = the (e_origin e), cf_reason = reason,
          cf_against = map_option hd_h (against_head e c (pkey (e_payload e)) reason v)\<rparr>])\<rparr>"

text \<open>After a guarded event was applied: who last changed the item's existence and its status.\<close>

definition note_heads :: "event \<Rightarrow> view \<Rightarrow> view \<Rightarrow> view" where
  "note_heads e before v =
     (if guarded_event e then
        let i = pkey (e_payload e); b = oget (v_work before) i; a = oget (v_work v) i;
            hh = \<lparr>hd_h = the (e_h e), hd_origin = the (e_origin e), hd_stream = e_stream e, hd_seq = e_seq e\<rparr>;
            h0 = heads_at v i;
            h1 = (if (b \<noteq> None) \<noteq> (a \<noteq> None) then h0\<lparr>hs_existence := Some hh\<rparr> else h0);
            h2 = (if status_of b \<noteq> status_of a then h1\<lparr>hs_status := Some hh\<rparr> else h1)
        in v\<lparr>v_preconditionHeads := Some (oset i h2 (lazyd (v_preconditionHeads v)))\<rparr>
      else v)"

definition foldEvent :: "registry \<Rightarrow> view \<Rightarrow> event \<Rightarrow> replay_error + view" where
  "foldEvent ds v e =
     (let v1 = note_stream e v;
          failure = (if guarded_event e
            then failed_precondition (the (condition_of e)) (pkey (e_payload e)) v1 else None)
      in case failure of
           Some reason \<Rightarrow>
             if \<not> unseenEarlier e v then Inl Causal_precondition_failed
             else Inr (record_conflict e (the (condition_of e)) reason v1)
         | None \<Rightarrow> e_bind (applyEvent ds v1 e) (\<lambda>v2. Inr (note_heads e v v2)))"

fun foldEvents :: "registry \<Rightarrow> view \<Rightarrow> event list \<Rightarrow> replay_error + view" where
  "foldEvents ds v [] = Inr v"
| "foldEvents ds v (e # es) = e_bind (foldEvent ds v e) (\<lambda>v'. foldEvents ds v' es)"

definition appliedEvents :: "event list \<Rightarrow> view \<Rightarrow> event list" where
  "appliedEvents es v =
     filter (\<lambda>e. case e_h e of None \<Rightarrow> True | Some h \<Rightarrow> h \<notin> set (map cf_h (lazyd (v_conflicts v)))) es"

definition conflictsFor :: "view \<Rightarrow> string \<Rightarrow> conflict list" where
  "conflictsFor v i = filter (\<lambda>c. cf_id c = i) (lazyd (v_conflicts v))"

end
