(* ===== verification/Replay_Facts.thy ===== *)
theory Replay_Facts
  imports Replay
begin

text \<open>
  What the fold guarantees: which events touch which part of the view, that a conflicted event leaves
  no trace but its record, that a capacity precondition bounds the items in a status whatever the
  interleaving, and that consent never carries over to a later question.
\<close>

lemma oget_oput [simp, obj_simps]: "oget (oput k vo ob) k' = (if k = k' then vo else oget ob k')"
  by (auto simp: oput_def split: option.split)

lemma oget_copy_keys [obj_simps]:
  "oget (copy_keys ks p ob) k = (if k \<in> set ks \<and> oget p k \<noteq> None then oget p k else oget ob k)"
  by (induction ks arbitrary: ob) (auto simp: copy_keys_def)

lemma oget_legacy_tier [obj_simps]:
  "k \<notin> {''tier'', ''size''} \<Longrightarrow> oget (legacy_tier ob) k = oget ob k"
  by (auto simp: legacy_tier_def)

lemma oget_foldLegacyStage [obj_simps]:
  "k \<notin> {''stage'', ''workflowStep''} \<Longrightarrow> oget (foldLegacyStage ds item t) k = oget t k"
  by (auto simp: foldLegacyStage_def)

lemmas oset_opt_keep = oget_oset_opt

section \<open>Which item an event writes\<close>

lemma status_moved_item: "oget (moved_item p w) ''status'' = oget p ''to''"
  by (auto simp: moved_item_def fold_delivery_def fold_return_def fold_claim_def)

lemma status_edited_item:
  "oget (edited_item ds p w) ''status'' =
     (case oget (lazyd (as_obj (oget p ''patch''))) ''status'' of None \<Rightarrow> oget w ''status'' | Some s \<Rightarrow> Some s)"
  by (cases "as_obj (oget p ''patch'')")
    (simp_all add: edited_item_def Let_def oget_foldLegacyStage oget_legacy_tier split: option.split)

text \<open>The item an event writes, and the status that item then has.\<close>

definition writes_item :: "registry \<Rightarrow> event \<Rightarrow> obj option \<Rightarrow> obj \<Rightarrow> bool" where
  "writes_item ds e old w =
     (let p = e_payload e
      in (e_type e = ''work.add'' \<and> is_string (oget p ''id'') \<and> w = added_item ds p)
         \<or> (\<exists>o'. old = Some o' \<and> e_type e \<noteq> ''work.add'' \<and>
              oget w ''status'' =
                (if e_type e = ''work.move'' then oget p ''to''
                 else if e_type e = ''work.edit'' \<and> oget (lazyd (as_obj (oget p ''patch''))) ''status'' \<noteq> None
                 then oget (lazyd (as_obj (oget p ''patch''))) ''status''
                 else oget o' ''status'')))"

definition work_step :: "registry \<Rightarrow> event \<Rightarrow> view \<Rightarrow> view \<Rightarrow> bool" where
  "work_step ds e v v' = (v_work v' = v_work v
     \<or> (\<exists>w. v_work v' = oset (pkey (e_payload e)) w (v_work v)
            \<and> writes_item ds e (oget (v_work v) (pkey (e_payload e))) w))"

lemma work_step_same: "v_work v' = v_work v \<Longrightarrow> work_step ds e v v'"
  by (simp add: work_step_def)

lemma v_work_channels [simp]:
  "v_work (fold_gate p v) = v_work v" "v_work (fold_settlement e v) = v_work v"
  "v_work (fold_learning e v) = v_work v" "v_work (apply_decision e v) = v_work v"
  "v_work (apply_outcome p v) = v_work v" "v_work (apply_call_summary e v) = v_work v"
  "v_work (apply_discovery e v) = v_work v" "v_work (apply_gate_approve e v) = v_work v"
  "v_work (apply_focus p v) = v_work v"
  by (simp_all add: fold_gate_def fold_settlement_def fold_learning_def apply_decision_def
      apply_outcome_def apply_call_summary_def apply_discovery_def apply_gate_approve_def
      apply_focus_def Let_def)

lemma v_work_on_item:
  "v_work (on_item p f v) = (case oget (v_work v) (pkey p) of None \<Rightarrow> v_work v
     | Some w \<Rightarrow> oset (pkey p) (f w) (v_work v))"
  by (simp add: on_item_def split: option.split)

lemma work_step_on_item:
  assumes "v_work v' = v_work (on_item (e_payload e) f v)" "e_type e \<noteq> ''work.add''"
    and "\<And>w. oget (f w) ''status'' =
                (if e_type e = ''work.move'' then oget (e_payload e) ''to''
                 else if e_type e = ''work.edit''
                    \<and> oget (lazyd (as_obj (oget (e_payload e) ''patch''))) ''status'' \<noteq> None
                 then oget (lazyd (as_obj (oget (e_payload e) ''patch''))) ''status''
                 else oget w ''status'')"
  shows "work_step ds e v v'"
  using assms(2,3)
  by (cases "oget (v_work v) (pkey (e_payload e))")
    (auto simp: work_step_def assms(1) v_work_on_item writes_item_def Let_def intro!: exI)

lemma v_work_step_ops:
  "v_work (apply_move e v) = v_work (on_item (e_payload e) (moved_item (e_payload e)) v)"
  "v_work (apply_step ds e v) = v_work (on_item (e_payload e)
     (\<lambda>w. oset_opt ''writer'' (oget (e_payload e) ''writer'') (oset_opt ''verify'' (oget (e_payload e) ''verify'')
        (oput ''workflowStep'' (canonicalStep ds (oget (v_work v) (pkey (e_payload e))) (oget (e_payload e) ''to'')) w))) v)"
  "v_work (apply_resolve_park e v) = v_work (on_item (e_payload e)
     (\<lambda>w. oset_opt ''writer'' (oget (e_payload e) ''writer'') (odel ''parkReason'' (odel ''reason'' w))) v)"
  "v_work (apply_handoff e v) = (if is_string (normalizeRole (oget (e_payload e) ''to''))
     then v_work (on_item (e_payload e) (oset ''holder'' (the (normalizeRole (oget (e_payload e) ''to'')))) v)
     else v_work v)"
  by (simp_all add: apply_move_def apply_step_def apply_resolve_park_def apply_handoff_def Let_def)

lemma apply_plain_work: "work_step ds e v (apply_plain ds e v)"
proof -
  have add: "work_step ds e v (apply_add ds (e_payload e) v)" if "e_type e = ''work.add''"
    using that by (auto simp: work_step_def apply_add_def writes_item_def Let_def)
  have move: "work_step ds e v (apply_move e v)" if "e_type e = ''work.move''"
    by (rule work_step_on_item[OF v_work_step_ops(1)]) (simp_all add: that status_moved_item)
  have edit: "work_step ds e v (on_item (e_payload e) (edited_item ds (e_payload e)) v)" if "e_type e = ''work.edit''"
    by (rule work_step_on_item[OF refl]) (auto simp: that status_edited_item split: option.split)
  have step: "work_step ds e v (apply_step ds e v)" if "e_type e \<in> {''work.stage'', ''work.step''}"
    by (rule work_step_on_item[OF v_work_step_ops(2)]) (use that in auto)
  have park: "work_step ds e v (apply_resolve_park e v)" if "e_type e = ''work.resolve-park-reason''"
    by (rule work_step_on_item[OF v_work_step_ops(3)]) (use that in auto)
  have attempt: "work_step ds e v (apply_attempt e v)" if "e_type e = ''work.attempt''"
    unfolding apply_attempt_def by (rule work_step_on_item[OF refl]) (use that in auto)
  have handoff: "work_step ds e v (apply_handoff e v)" if "e_type e = ''work.handoff''"
  proof (cases "is_string (normalizeRole (oget (e_payload e) ''to''))")
    case True
    show ?thesis
      by (rule work_step_on_item[where f = "oset ''holder'' (the (normalizeRole (oget (e_payload e) ''to'')))"])
        (use that True v_work_step_ops(4) in auto)
  next
    case False
    then show ?thesis by (simp add: work_step_same v_work_step_ops(4))
  qed
  show ?thesis
    unfolding apply_plain_def Let_def
    using add move edit step park attempt handoff
    by (simp add: work_step_same)
qed

lemma note_stream_fields [simp]:
  "v_work (note_stream e v) = v_work v" "v_gates (note_stream e v) = v_gates v"
  "v_conflicts (note_stream e v) = v_conflicts v" "v_preconditionHeads (note_stream e v) = v_preconditionHeads v"
  by (simp_all add: note_stream_def split: option.split)

lemma note_heads_fields [simp]:
  "v_work (note_heads e b v) = v_work v" "v_gates (note_heads e b v) = v_gates v"
  "v_conflicts (note_heads e b v) = v_conflicts v" "v_streamHeads (note_heads e b v) = v_streamHeads v"
  by (simp_all add: note_heads_def Let_def)

lemma record_conflict_fields [simp]:
  "v_work (record_conflict e c r v) = v_work v" "v_gates (record_conflict e c r v) = v_gates v"
  by (simp_all add: record_conflict_def)

text \<open>A guarded event whose condition fails on the view it meets.\<close>

definition precondition_fails :: "event \<Rightarrow> view \<Rightarrow> bool" where
  "precondition_fails e v = (guarded_event e
     \<and> failed_precondition (the (condition_of e)) (pkey (e_payload e)) v \<noteq> None)"

lemma capacity_full_cong: "v_work u = v_work v \<Longrightarrow> capacity_full c u = capacity_full c v"
proof (cases "as_obj (oget c ''capacity'')")
  case (Some cap)
  assume w: "v_work u = v_work v"
  show ?thesis
  proof (cases "oget cap ''max''")
    case mx: (Some m)
    then show ?thesis using w Some by (cases m) (simp_all add: capacity_full_def in_status_def)
  qed (simp add: capacity_full_def Some)
qed (simp add: capacity_full_def)

lemma failed_precondition_cong:
  "v_work u = v_work v \<Longrightarrow> failed_precondition c i u = failed_precondition c i v"
  by (simp add: failed_precondition_def capacity_full_cong[of u v])

lemma precondition_fails_cong: "v_work u = v_work v \<Longrightarrow> precondition_fails e u = precondition_fails e v"
  by (simp add: precondition_fails_def failed_precondition_cong[of u v])

text \<open>The three outcomes of one event.\<close>

lemma foldEvent_cases:
  "foldEvent ds v e =
     (if precondition_fails e v then
        if unseenEarlier e v
        then Inr (record_conflict e (the (condition_of e))
               (the (failed_precondition (the (condition_of e)) (pkey (e_payload e)) v)) (note_stream e v))
        else Inl Causal_precondition_failed
      else e_bind (applyEvent ds (note_stream e v) e) (\<lambda>v2. Inr (note_heads e v v2)))"
proof -
  have c: "failed_precondition c i (note_stream e v) = failed_precondition c i v" for c i
    by (rule failed_precondition_cong) simp
  show ?thesis
    by (auto simp: foldEvent_def precondition_fails_def Let_def c split: option.split)
qed

lemma applyEvent_work: "applyEvent ds v e = Inr v' \<Longrightarrow> work_step ds e v v'"
  using apply_plain_work
  by (auto simp: applyEvent_def apply_knowledge_def work_step_same split: if_splits sum.splits)

lemma foldEvent_work:
  assumes "foldEvent ds v e = Inr v'"
  shows "if precondition_fails e v then v_work v' = v_work v else work_step ds e v v'"
  using assms applyEvent_work[of ds "note_stream e v" e]
  by (auto simp: foldEvent_cases e_bind_Inr work_step_def split: if_splits)

lemma work_step_keys:
  "work_step ds e v v' \<Longrightarrow> set (okeys (v_work v)) \<subseteq> set (okeys (v_work v'))
     \<and> (distinct (okeys (v_work v)) \<longrightarrow> distinct (okeys (v_work v')))"
  by (auto simp: work_step_def)

lemma foldEvent_keys:
  assumes "foldEvent ds v e = Inr v'"
  shows "set (okeys (v_work v)) \<subseteq> set (okeys (v_work v'))
     \<and> (distinct (okeys (v_work v)) \<longrightarrow> distinct (okeys (v_work v')))"
  using foldEvent_work[OF assms] work_step_keys by (metis order_refl)

lemma work_step_new_key:
  assumes "work_step ds e v v'" "i \<in> set (okeys (v_work v'))" "i \<notin> set (okeys (v_work v))"
  shows "e_type e = ''work.add'' \<and> pkey (e_payload e) = i"
  using assms by (auto simp: work_step_def writes_item_def Let_def dest: oget_Some_key)

lemma foldEvents_append:
  "foldEvents ds v (xs @ ys) = e_bind (foldEvents ds v xs) (\<lambda>v'. foldEvents ds v' ys)"
proof (induction xs arbitrary: v)
  case (Cons e es)
  then show ?case by (cases "foldEvent ds v e") auto
qed simp

text \<open>An invariant of one event is an invariant of the fold.\<close>

lemma foldEvents_induct:
  assumes "foldEvents ds v es = Inr v'" "P v"
    and "\<And>u e u'. e \<in> set es \<Longrightarrow> P u \<Longrightarrow> foldEvent ds u e = Inr u' \<Longrightarrow> P u'"
  shows "P v'"
  using assms
proof (induction es arbitrary: v)
  case (Cons e es)
  then show ?case by (auto simp: e_bind_Inr)
qed simp

section \<open>Capacity\<close>

definition counted :: "string \<Rightarrow> view \<Rightarrow> nat" where
  "counted s v = length (in_status (Some (JStr s)) v)"

text \<open>The events that may put an item into a status.\<close>

definition enters_status :: "registry \<Rightarrow> event \<Rightarrow> string \<Rightarrow> bool" where
  "enters_status ds e s =
     (let p = e_payload e
      in (e_type e = ''work.add'' \<and> oget (added_item ds p) ''status'' = Some (JStr s))
         \<or> (e_type e = ''work.move'' \<and> oget p ''to'' = Some (JStr s))
         \<or> (e_type e = ''work.edit'' \<and> oget (lazyd (as_obj (oget p ''patch''))) ''status'' = Some (JStr s)))"

text \<open>A guarded event that asks for room in the status.\<close>

definition asks_room :: "event \<Rightarrow> string \<Rightarrow> nat \<Rightarrow> bool" where
  "asks_room e s m = (guarded_event e
     \<and> (\<exists>cap. as_obj (oget (the (condition_of e)) ''capacity'') = Some cap
          \<and> oget cap ''status'' = Some (JStr s) \<and> oget cap ''max'' = Some (JNum (int m))))"

lemma length_filter_oset:
  "length (filter (\<lambda>(_, w). P w) (oset k x ob)) \<le> length (filter (\<lambda>(_, w). P w) ob) + (if P x then 1 else 0)"
  unfolding oset_def by (induction ob) auto

lemma length_filter_oset_old:
  assumes "oget ob k = Some o'" "P x \<longrightarrow> P o'"
  shows "length (filter (\<lambda>(_, w). P w) (oset k x ob)) \<le> length (filter (\<lambda>(_, w). P w) ob)"
  using assms unfolding oset_def oget_def by (induction ob) (auto split: if_splits)

lemma counted_step:
  assumes "work_step ds e v v'"
  shows "counted s v' \<le> counted s v + (if enters_status ds e s then 1 else 0)"
proof (cases "v_work v' = v_work v")
  case True
  then show ?thesis by (simp add: counted_def in_status_def)
next
  case False
  let ?P = "\<lambda>w. oget w ''status'' = Some (JStr s)"
  obtain w where w: "v_work v' = oset (pkey (e_payload e)) w (v_work v)"
      and wr: "writes_item ds e (oget (v_work v) (pkey (e_payload e))) w"
    using assms False by (auto simp: work_step_def)
  have le: "counted s v' \<le> counted s v + (if ?P w then 1 else 0)"
    using length_filter_oset[of ?P "pkey (e_payload e)" w "v_work v"] by (simp add: counted_def in_status_def w)
  show ?thesis
  proof (cases "enters_status ds e s")
    case True
    then show ?thesis using le by (simp split: if_splits)
  next
    case F: False
    show ?thesis
    proof (cases "?P w")
      case True
      then obtain o' where "oget (v_work v) (pkey (e_payload e)) = Some o'" "?P o'"
        using wr F by (auto simp: writes_item_def enters_status_def Let_def split: if_splits)
      then have "counted s v' \<le> counted s v"
        using length_filter_oset_old[of "v_work v" "pkey (e_payload e)" o' ?P w]
        by (simp add: counted_def in_status_def w)
      then show ?thesis by simp
    next
      case False
      then show ?thesis using le by simp
    qed
  qed
qed

lemma room_left:
  assumes "asks_room e s m" "\<not> precondition_fails e v"
  shows "counted s v < m"
proof -
  obtain cap where "guarded_event e" "as_obj (oget (the (condition_of e)) ''capacity'') = Some cap"
    "oget cap ''status'' = Some (JStr s)" "oget cap ''max'' = Some (JNum (int m))"
    using assms(1) by (auto simp: asks_room_def)
  with assms(2) show ?thesis
    by (auto simp: precondition_fails_def failed_precondition_def capacity_full_def counted_def Let_def
        split: if_splits)
qed

lemma capacity_event:
  assumes "foldEvent ds v e = Inr v'" "counted s v \<le> m" "enters_status ds e s \<longrightarrow> asks_room e s m"
  shows "counted s v' \<le> m"
proof (cases "precondition_fails e v")
  case True
  then show ?thesis using foldEvent_work[OF assms(1)] assms(2) by (simp add: counted_def in_status_def)
next
  case False
  then have "work_step ds e v v'" using foldEvent_work[OF assms(1)] by simp
  from counted_step[OF this, of s] show ?thesis
    using assms(2,3) room_left[OF _ False] by (cases "enters_status ds e s") fastforce+
qed

section \<open>A conflicted event leaves only its record\<close>

text \<open>The view without the two fields that a skipped event writes.\<close>

definition core :: "view \<Rightarrow> view" where
  "core v = v\<lparr>v_streamHeads := None, v_conflicts := None\<rparr>"

definition retag :: "(string \<times> int) list option \<Rightarrow> conflict list option \<Rightarrow> view \<Rightarrow> view" where
  "retag a b v = v\<lparr>v_streamHeads := a, v_conflicts := b\<rparr>"

lemma retag_fields [simp]:
  "v_work (retag a b v) = v_work v" "v_gates (retag a b v) = v_gates v"
  "v_discovery (retag a b v) = v_discovery v" "v_knowledge (retag a b v) = v_knowledge v"
  "v_preconditionHeads (retag a b v) = v_preconditionHeads v" "v_settlements (retag a b v) = v_settlements v"
  "v_callThreads (retag a b v) = v_callThreads v" "v_parkResolutions (retag a b v) = v_parkResolutions v"
  by (simp_all add: retag_def)

lemma retag_update:
  "(retag a b v)\<lparr>v_settlements := x\<rparr> = retag a b (v\<lparr>v_settlements := x\<rparr>)"
  "(retag a b v)\<lparr>v_callThreads := x\<rparr> = retag a b (v\<lparr>v_callThreads := x\<rparr>)"
  "(retag a b v)\<lparr>v_parkResolutions := x\<rparr> = retag a b (v\<lparr>v_parkResolutions := x\<rparr>)"
  by (simp_all add: retag_def)

lemma core_retag [simp]: "core (retag a b v) = core v"
  by (simp add: core_def retag_def)

lemma core_eq_retag: "core u = core v \<Longrightarrow> u = retag (v_streamHeads u) (v_conflicts u) v"
  by (cases u; cases v) (simp add: core_def retag_def)

lemma on_item_retag: "on_item p f (retag a b v) = retag a b (on_item p f v)"
  by (simp add: on_item_def retag_def split: option.split)

lemma channel_retag:
  "fold_gate p (retag a b v) = retag a b (fold_gate p v)"
  "fold_settlement e (retag a b v) = retag a b (fold_settlement e v)"
  "fold_learning e (retag a b v) = retag a b (fold_learning e v)"
  by (cases "oget (v_work v) (pkey (e_payload e))";
      simp add: fold_gate_def fold_settlement_def fold_learning_def retag_def Let_def)+

lemma move_retag: "apply_move e (retag a b v) = retag a b (apply_move e v)"
  by (simp add: apply_move_def on_item_retag channel_retag)

lemma other_retag:
  "apply_add ds p (retag a b v) = retag a b (apply_add ds p v)"
  "apply_decision e (retag a b v) = retag a b (apply_decision e v)"
  "apply_outcome p (retag a b v) = retag a b (apply_outcome p v)"
  "apply_call_summary e (retag a b v) = retag a b (apply_call_summary e v)"
  "apply_discovery e (retag a b v) = retag a b (apply_discovery e v)"
  "apply_gate_approve e (retag a b v) = retag a b (apply_gate_approve e v)"
  "apply_focus p (retag a b v) = retag a b (apply_focus p v)"
  by (simp_all add: apply_add_def apply_decision_def apply_outcome_def apply_call_summary_def
      apply_discovery_def apply_gate_approve_def apply_focus_def retag_def Let_def)

lemma step_retag: "apply_step ds e (retag a b v) = retag a b (apply_step ds e v)"
  by (cases "oget (v_work v) (pkey (e_payload e))")
    (simp_all add: apply_step_def on_item_retag retag_update Let_def)

lemma item_retag:
  "apply_handoff e (retag a b v) = retag a b (apply_handoff e v)"
  "apply_resolve_park e (retag a b v) = retag a b (apply_resolve_park e v)"
  "apply_attempt e (retag a b v) = retag a b (apply_attempt e v)"
  by (simp_all add: apply_handoff_def apply_resolve_park_def apply_attempt_def
      on_item_retag retag_update Let_def)

lemma plain_retag: "apply_plain ds e (retag a b v) = retag a b (apply_plain ds e v)"
  by (simp add: apply_plain_def Let_def move_retag other_retag step_retag item_retag on_item_retag)

lemma applyEvent_retag:
  "applyEvent ds (retag a b v) e = (case applyEvent ds v e of Inl x \<Rightarrow> Inl x | Inr w \<Rightarrow> Inr (retag a b w))"
  by (simp add: applyEvent_def plain_retag apply_knowledge_def split: sum.split)
    (simp add: retag_def)

lemma applyEvent_core:
  assumes "core u = core v" "applyEvent ds v e = Inr v'"
  shows "\<exists>u'. applyEvent ds u e = Inr u' \<and> core u' = core v'"
  using core_eq_retag[OF assms(1)] applyEvent_retag[of ds _ _ v e] assms(2)
  by (metis core_retag sum.case(2))

lemma core_note_stream [simp]: "core (note_stream e v) = core v"
  by (simp add: core_def note_stream_def split: option.split)

lemma core_work: "core u = core v \<Longrightarrow> v_work u = v_work v"
  by (metis core_eq_retag retag_fields(1))

lemma note_heads_retag: "v_work b1 = v_work b2 \<Longrightarrow> note_heads e b1 (retag a b v) = retag a b (note_heads e b2 v)"
  by (simp add: note_heads_def Let_def heads_at_def) (simp add: retag_def)

lemma core_note_heads:
  assumes "core u = core v" "v_work b1 = v_work b2"
  shows "core (note_heads e b1 u) = core (note_heads e b2 v)"
  using note_heads_retag[OF assms(2)] core_eq_retag[OF assms(1)] by (metis core_retag)

text \<open>What an event adds to the list of conflicts.\<close>

lemma retag_self: "retag (v_streamHeads v) (v_conflicts v) v = v"
  by (simp add: retag_def)

lemma retag_conflicts [simp]: "v_conflicts (retag a b v) = b" "v_streamHeads (retag a b v) = a"
  by (simp_all add: retag_def)

lemma plain_conflicts: "v_conflicts (apply_plain ds e v) = v_conflicts v"
  by (metis plain_retag retag_self retag_conflicts(1))

lemma applyEvent_conflicts: "applyEvent ds v e = Inr v' \<Longrightarrow> v_conflicts v' = v_conflicts v"
  by (auto simp: applyEvent_def apply_knowledge_def plain_conflicts split: if_splits sum.splits)

text \<open>The identities an event list carries.\<close>

definition hs_of :: "event list \<Rightarrow> string list" where
  "hs_of es = List.map_filter e_h es"

definition conflict_hs :: "view \<Rightarrow> string set" where
  "conflict_hs v = cf_h ` set (lazyd (v_conflicts v))"

lemma conflict_hs_cong: "v_conflicts u = v_conflicts v \<Longrightarrow> conflict_hs u = conflict_hs v"
  by (simp add: conflict_hs_def)

lemma hs_of_simps [simp]:
  "hs_of [] = []" "hs_of (e # es) = (case e_h e of None \<Rightarrow> hs_of es | Some h \<Rightarrow> h # hs_of es)"
  by (simp_all add: hs_of_def map_filter_def split: option.split)

lemma foldEvent_conflicts:
  assumes "foldEvent ds v e = Inr v'"
  shows "conflict_hs v' = conflict_hs v \<union> (if precondition_fails e v then {the (e_h e)} else {})"
proof (cases "precondition_fails e v")
  case True
  then obtain r where "record_conflict e (the (condition_of e)) r (note_stream e v) = v'"
    using assms by (simp add: foldEvent_cases split: if_splits)
  note r = this[symmetric]
  show ?thesis
    unfolding r using True by (simp add: record_conflict_def conflict_hs_def insert_commute)
next
  case False
  then obtain v2 where "applyEvent ds (note_stream e v) e = Inr v2" "v' = note_heads e v v2"
    using assms by (auto simp: foldEvent_cases e_bind_Inr)
  then have "v_conflicts v' = v_conflicts v" using applyEvent_conflicts by fastforce
  with False conflict_hs_cong[of v' v] show ?thesis by simp
qed

lemma fails_has_h: "precondition_fails e v \<Longrightarrow> \<exists>h. e_h e = Some h"
  by (auto simp: precondition_fails_def guarded_event_def truthy_str_def split: option.splits)

lemma foldEvents_conflicts:
  assumes "foldEvents ds v es = Inr v'"
  shows "conflict_hs v \<subseteq> conflict_hs v' \<and> conflict_hs v' \<subseteq> conflict_hs v \<union> set (hs_of es)"
  using assms
proof (induction es arbitrary: v)
  case (Cons e es)
  obtain v1 where v1: "foldEvent ds v e = Inr v1" "foldEvents ds v1 es = Inr v'"
    using Cons.prems by (auto simp: e_bind_Inr)
  have "conflict_hs v \<subseteq> conflict_hs v1 \<and> conflict_hs v1 \<subseteq> conflict_hs v \<union> set (hs_of [e])"
    unfolding foldEvent_conflicts[OF v1(1)] using fails_has_h[of e v] by (auto split: if_splits)
  with Cons.IH[OF v1(2)] show ?case by (auto split: option.splits)
qed simp

lemma appliedEvents_alt:
  "appliedEvents es v = filter (\<lambda>e. case e_h e of None \<Rightarrow> True | Some h \<Rightarrow> h \<notin> conflict_hs v) es"
  by (simp add: appliedEvents_def conflict_hs_def cong: option.case_cong)

lemma refold_applied:
  assumes "foldEvents ds v es = Inr v'" "core u = core v" "distinct (hs_of es)"
    and "set (hs_of es) \<inter> conflict_hs v = {}"
  shows "\<exists>u'. foldEvents ds u (appliedEvents es v') = Inr u' \<and> core u' = core v'"
  using assms
proof (induction es arbitrary: u v)
  case Nil
  then show ?case by (simp add: appliedEvents_def)
next
  case (Cons e es)
  obtain v1 where v1: "foldEvent ds v e = Inr v1" and rest: "foldEvents ds v1 es = Inr v'"
    using Cons.prems(1) by (auto simp: e_bind_Inr)
  have dist: "distinct (hs_of es)" using Cons.prems(3) by (auto split: option.splits)
  note c1 = foldEvent_conflicts[OF v1]
  have disj: "set (hs_of es) \<inter> conflict_hs v1 = {}"
    using Cons.prems(3,4) fails_has_h[of e v] unfolding c1 by (auto split: option.splits if_splits)
  show ?case
  proof (cases "precondition_fails e v")
    case True
    obtain h where h: "e_h e = Some h" using fails_has_h[OF True] by blast
    have "h \<in> conflict_hs v'" using foldEvents_conflicts[OF rest] c1 True h by auto
    then have skip: "appliedEvents (e # es) v' = appliedEvents es v'" by (simp add: appliedEvents_alt h)
    have "core v1 = core v"
      using v1 True core_note_stream[of e v]
      by (auto simp: foldEvent_cases record_conflict_def core_def split: if_splits)
    then show ?thesis
      unfolding skip using Cons.IH[OF rest _ dist disj] Cons.prems(2) by simp
  next
    case False
    have keep: "appliedEvents (e # es) v' = e # appliedEvents es v'"
      using foldEvents_conflicts[OF rest] c1 False Cons.prems(3,4)
      by (auto simp: appliedEvents_alt split: option.splits)
    obtain v2 where v2: "applyEvent ds (note_stream e v) e = Inr v2" "v1 = note_heads e v v2"
      using v1 False by (auto simp: foldEvent_cases e_bind_Inr)
    have "core (note_stream e u) = core (note_stream e v)" using Cons.prems(2) by simp
    then obtain u2 where u2: "applyEvent ds (note_stream e u) e = Inr u2" "core u2 = core v2"
      using applyEvent_core v2(1) by blast
    have wk: "v_work u = v_work v" using core_work Cons.prems(2) by blast
    then have "foldEvent ds u e = Inr (note_heads e u u2)"
      using u2(1) False by (simp add: foldEvent_cases precondition_fails_cong[of u v])
    moreover have "core (note_heads e u u2) = core v1"
      unfolding v2(2) by (rule core_note_heads[OF u2(2) wk])
    ultimately show ?thesis
      unfolding keep using Cons.IH[OF rest _ dist disj, of "note_heads e u u2"] by simp
  qed
qed

section \<open>Consent\<close>

definition asks_or_answers :: "event \<Rightarrow> string \<Rightarrow> bool" where
  "asks_or_answers e i = (e_type e = ''work.move'' \<and> pkey (e_payload e) = i
     \<and> (truthy (oget (e_payload e) ''ask'') \<or> truthy (oget (e_payload e) ''answer'')))"

definition approves :: "event \<Rightarrow> string \<Rightarrow> bool" where
  "approves e i = (asks_or_answers e i \<and> truthy (oget (e_payload e) ''answer'')
     \<and> oget (e_payload e) ''approved'' = Some (JBool True))"

definition approved_flag :: "view \<Rightarrow> string \<Rightarrow> jval option" where
  "approved_flag v i = oget (lazyd (oget (lazyd (v_gates v)) i)) ''approved''"

text \<open>A gate approval names one of the skill gates, never the consent flag itself.\<close>

definition gate_named :: "event \<Rightarrow> bool" where
  "gate_named e = (e_type e = ''work.gate-approve'' \<longrightarrow> oget (e_payload e) ''gate'' \<noteq> Some (JStr ''approved''))"

lemma v_gates_ops [simp]:
  "v_gates (on_item p f v) = v_gates v" "v_gates (fold_settlement e v) = v_gates v"
  "v_gates (fold_learning e v) = v_gates v" "v_gates (apply_decision e v) = v_gates v"
  "v_gates (apply_outcome p v) = v_gates v" "v_gates (apply_call_summary e v) = v_gates v"
  "v_gates (apply_discovery e v) = v_gates v" "v_gates (apply_focus p v) = v_gates v"
  "v_gates (apply_add ds p v) = v_gates v"
  by (simp_all add: on_item_def fold_settlement_def fold_learning_def apply_decision_def
      apply_outcome_def apply_call_summary_def apply_discovery_def apply_focus_def apply_add_def
      Let_def split: option.split)

lemma v_gates_more [simp]:
  "v_gates (apply_step ds e v) = v_gates v" "v_gates (apply_handoff e v) = v_gates v"
  "v_gates (apply_resolve_park e v) = v_gates v" "v_gates (apply_attempt e v) = v_gates v"
  by (simp_all add: apply_step_def apply_handoff_def apply_resolve_park_def apply_attempt_def Let_def)

lemma approved_gate_record:
  "oget (gate_record p g) ''approved'' =
     (if truthy (oget p ''answer'') \<and> oget p ''approved'' = Some (JBool True) then Some (JBool True) else None)"
  by (simp add: gate_record_def Let_def)

lemma approved_move:
  assumes "e_type e = ''work.move''"
  shows "approved_flag (apply_move e v) i =
     (if asks_or_answers e i then (if approves e i then Some (JBool True) else None) else approved_flag v i)"
  using assms
  by (auto simp: apply_move_def approved_flag_def fold_gate_def approved_gate_record asks_or_answers_def approves_def)

lemma approved_gate_approve:
  assumes "oget (e_payload e) ''gate'' \<noteq> Some (JStr ''approved'')"
  shows "approved_flag (apply_gate_approve e v) i = approved_flag v i"
proof -
  have "is_string (oget (e_payload e) ''gate'') \<Longrightarrow> the (as_str (oget (e_payload e) ''gate'')) \<noteq> ''approved''"
    using assms by (cases "oget (e_payload e) ''gate''" rule: as_str.cases) (auto simp: is_string_def)
  then show ?thesis by (auto simp: apply_gate_approve_def approved_flag_def Let_def)
qed

lemma approved_plain:
  assumes "gate_named e"
  shows "approved_flag (apply_plain ds e v) i =
     (if asks_or_answers e i then (if approves e i then Some (JBool True) else None) else approved_flag v i)"
proof (cases "e_type e = ''work.move''")
  case True
  then show ?thesis by (simp add: apply_plain_def approved_move)
next
  case False
  have keep: "v_gates u = v_gates v \<Longrightarrow> approved_flag u i = approved_flag v i" for u
    by (simp add: approved_flag_def)
  have "approved_flag (apply_plain ds e v) i = approved_flag v i"
    using False assms approved_gate_approve[of e v i]
    by (auto simp: apply_plain_def Let_def gate_named_def intro!: keep)
  with False show ?thesis by (simp add: asks_or_answers_def)
qed

lemma approved_event:
  assumes "applyEvent ds v e = Inr v'" "gate_named e"
  shows "approved_flag v' i =
     (if asks_or_answers e i then (if approves e i then Some (JBool True) else None) else approved_flag v i)"
proof (cases "e_type e \<in> set KNOWLEDGE_TYPES")
  case True
  then have "v_gates v' = v_gates v" "e_type e \<noteq> ''work.move''"
    using assms by (auto simp: applyEvent_def apply_knowledge_def KNOWLEDGE_TYPES_def split: sum.splits)
  then show ?thesis by (simp add: approved_flag_def asks_or_answers_def)
next
  case False
  then show ?thesis using assms approved_plain by (auto simp: applyEvent_def)
qed

lemma approved_note [simp]:
  "approved_flag (note_heads e b v) i = approved_flag v i" "approved_flag (note_stream e v) i = approved_flag v i"
  "approved_flag (record_conflict e c r v) i = approved_flag v i"
  by (simp_all add: approved_flag_def)

lemma approved_foldEvent:
  assumes "foldEvent ds v e = Inr v'" "gate_named e"
  shows "approved_flag v' i =
     (if asks_or_answers e i \<and> \<not> precondition_fails e v
      then (if approves e i then Some (JBool True) else None) else approved_flag v i)"
proof (cases "precondition_fails e v")
  case True
  then obtain r where "record_conflict e (the (condition_of e)) r (note_stream e v) = v'"
    using assms by (simp add: foldEvent_cases split: if_splits)
  note r = this[symmetric]
  show ?thesis unfolding r using True by simp
next
  case False
  then obtain v2 where v2: "applyEvent ds (note_stream e v) e = Inr v2" "v' = note_heads e v v2"
    using assms by (auto simp: foldEvent_cases e_bind_Inr)
  with approved_event[OF v2(1) assms(2), of i] False show ?thesis by simp
qed

lemma foldEvents_snoc:
  "foldEvents ds v (es @ [e]) = Inr v' \<longleftrightarrow> (\<exists>u. foldEvents ds v es = Inr u \<and> foldEvent ds u e = Inr v')"
  by (auto simp: foldEvents_append e_bind_Inr)

lemma applied_mono:
  assumes "conflict_hs u \<subseteq> conflict_hs v" "f \<in> set (appliedEvents es v)"
  shows "f \<in> set (appliedEvents es u)"
  using assms by (auto simp: appliedEvents_alt split: option.splits)

lemma consent_fold:
  assumes "foldEvents ds v0 es = Inr v" "approved_flag v0 i = None" "\<forall>e \<in> set es. gate_named e"
    and "approved_flag v i \<noteq> None"
  shows "\<exists>xs e ys. es = xs @ e # ys \<and> approves e i \<and> (\<forall>f \<in> set (appliedEvents ys v). \<not> asks_or_answers f i)"
  using assms(1,3,4)
proof (induction es arbitrary: v rule: rev_induct)
  case Nil
  then show ?case using assms(2) by simp
next
  case (snoc e es)
  obtain u where u: "foldEvents ds v0 es = Inr u" "foldEvent ds u e = Inr v"
    using snoc.prems(1) by (auto simp: foldEvents_snoc)
  have sub: "conflict_hs u \<subseteq> conflict_hs v" using foldEvent_conflicts[OF u(2)] by auto
  have flag: "approved_flag v i =
     (if asks_or_answers e i \<and> \<not> precondition_fails e u
      then (if approves e i then Some (JBool True) else None) else approved_flag u i)"
    by (rule approved_foldEvent[OF u(2)]) (use snoc.prems(2) in simp)
  show ?case
  proof (cases "asks_or_answers e i \<and> \<not> precondition_fails e u")
    case True
    then have "approves e i" using flag snoc.prems(3) by (auto split: if_splits)
    then show ?thesis
      by (intro exI[of _ es] exI[of _ e] exI[of _ "[]"]) (simp add: appliedEvents_alt)
  next
    case False
    then have "approved_flag u i \<noteq> None" using flag snoc.prems(3) by (simp split: if_splits)
    then obtain xs d ys where d: "es = xs @ d # ys" "approves d i"
        "\<forall>f \<in> set (appliedEvents ys u). \<not> asks_or_answers f i"
      using snoc.IH[OF u(1)] snoc.prems(2) by auto
    have "\<not> asks_or_answers f i" if f: "f \<in> set (appliedEvents (ys @ [e]) v)" for f
    proof (cases "f \<in> set (appliedEvents ys v)")
      case True
      then show ?thesis using d(3) applied_mono[OF sub] by blast
    next
      case nf: False
      then have fe: "f = e" "case e_h e of None \<Rightarrow> True | Some h \<Rightarrow> h \<notin> conflict_hs v"
        using f unfolding appliedEvents_alt set_filter by auto
      have "\<not> precondition_fails e u"
        using fe(2) foldEvent_conflicts[OF u(2)] fails_has_h[of e u] by auto
      with False fe(1) show ?thesis by simp
    qed
    with d show ?thesis by (intro exI[of _ xs] exI[of _ d] exI[of _ "ys @ [e]"]) simp
  qed
qed

section \<open>Where items come from\<close>

lemma work_step_added:
  assumes "work_step ds e v v'" "i \<in> set (okeys (v_work v'))" "i \<notin> set (okeys (v_work v))"
  shows "e_type e = ''work.add'' \<and> oget (e_payload e) ''id'' = Some (JStr i)"
proof -
  have "v_work v' \<noteq> v_work v" using assms(2,3) by auto
  then obtain w where w: "v_work v' = oset (pkey (e_payload e)) w (v_work v)"
    "writes_item ds e (oget (v_work v) (pkey (e_payload e))) w"
    using assms(1) unfolding work_step_def by blast
  have i: "pkey (e_payload e) = i" using assms(2,3) w(1) by simp
  have none: "oget (v_work v) (pkey (e_payload e)) = None" using assms(3) i by (simp add: oget_None_iff)
  have "e_type e = ''work.add'' \<and> is_string (oget (e_payload e) ''id'')"
    using w(2) none by (simp add: writes_item_def Let_def)
  moreover then obtain s where "oget (e_payload e) ''id'' = Some (JStr s)" by (auto simp: is_string_def as_str_Some_iff)
  ultimately show ?thesis using i by (simp add: pkey_def)
qed

lemma foldEvent_new_key:
  assumes "foldEvent ds v e = Inr v'" "i \<in> set (okeys (v_work v'))" "i \<notin> set (okeys (v_work v))"
  shows "e_type e = ''work.add'' \<and> oget (e_payload e) ''id'' = Some (JStr i)"
  using foldEvent_work[OF assms(1)] work_step_added assms(2,3) by (auto split: if_splits)

lemma fold_new_keys:
  assumes "foldEvents ds v es = Inr v'"
  shows "set (okeys (v_work v)) \<subseteq> set (okeys (v_work v'))
     \<and> (\<forall>i. i \<in> set (okeys (v_work v')) \<longrightarrow> i \<notin> set (okeys (v_work v)) \<longrightarrow>
          (\<exists>e \<in> set es. e_type e = ''work.add'' \<and> oget (e_payload e) ''id'' = Some (JStr i)))"
  using assms
proof (induction es arbitrary: v)
  case (Cons e es)
  then obtain u where u: "foldEvent ds v e = Inr u" "foldEvents ds u es = Inr v'" by (auto simp: e_bind_Inr)
  show ?case using Cons.IH[OF u(2)] foldEvent_keys[OF u(1)] foldEvent_new_key[OF u(1)] by (meson list.set_intros subset_iff)
qed simp

end
