(* ===== verification/Team.thy ===== *)
theory Team
  imports Replay_Facts
begin

text \<open>
  \<open>src/state/handoff.mjs\<close>, the call doors of \<open>src/state/store.mjs\<close> and \<open>src/state/worker-slots.mjs\<close>:
  which role may call which, the stack of open calls a thread's log folds to, the events a call and
  a return append, and the ledger of worker slots. The identity of the writer (\<open>resolveWriterIdentity\<close>,
  which reads the environment) is an argument.
\<close>

datatype call_error =
    Call_invalid string
  | Handoff_refused

section \<open>The legality of a call\<close>

datatype refusal =
    No_legal_edges
  | No_roleGraph
  | No_such_edge
  | Async_cap_reached
  | Sync_cap_reached

definition evaluateHandoff ::
  "domain option \<Rightarrow> jval option \<Rightarrow> string option \<Rightarrow> string \<Rightarrow> string \<Rightarrow> nat \<Rightarrow> int \<Rightarrow>
     (refusal \<times> role_edge list) + role_edge" where
  "evaluateHandoff d step fromRole toRole reason openCallDepth openSyncDepth =
     (let legal = legalCallEdges d step fromRole;
          cap = Option.bind (roleGraphFor d) rg_callstackCap
      in if legal = [] then Inl (if roleGraphFor d \<noteq> None then No_legal_edges else No_roleGraph, [])
         else (case List.find (\<lambda>c. re_to c = toRole \<and> re_reason c = reason) legal of
             None \<Rightarrow> Inl (No_such_edge, legal)
           | Some edge \<Rightarrow>
               if re_mode edge = ''async'' \<and> (case cap of None \<Rightarrow> False | Some c \<Rightarrow> c \<le> int openCallDepth)
               then Inl (Async_cap_reached, legal)
               else if re_mode edge = ''sync'' \<and> (case cap of None \<Rightarrow> False | Some c \<Rightarrow> c \<le> openSyncDepth)
               then Inl (Sync_cap_reached, legal)
               else Inr edge))"

section \<open>The calls open on a thread\<close>

definition push_pop :: "obj \<Rightarrow> obj list \<Rightarrow> obj list" where
  "push_pop e stack = (if oget e ''kind'' \<noteq> Some (JStr ''handoff'') then stack
     else if truthy (oget e ''returning'') then butlast stack else stack @ [e])"

definition openCallStack :: "obj list \<Rightarrow> obj list" where
  "openCallStack entries = fold push_pop entries []"

definition thread_of :: "view \<Rightarrow> string \<Rightarrow> obj list" where
  "thread_of v i = lazyd (oget (lazyd (v_callThreads v)) i)"

section \<open>The doors\<close>

definition holder_role :: "registry \<Rightarrow> obj \<Rightarrow> string option" where
  "holder_role ds w = (if nullish (oget w ''holder'')
     then Option.bind (roleGraphFor (getDomain ds (oget w ''domain''))) rg_defaultRole
     else as_str (oget w ''holder''))"

definition callEvent ::
  "registry \<Rightarrow> jval \<Rightarrow> view \<Rightarrow> string \<Rightarrow> string \<Rightarrow> string \<Rightarrow> jval option \<Rightarrow> jval option \<Rightarrow> int \<Rightarrow>
     call_error + (string \<times> obj)" where
  "callEvent ds writer v i toRole reason note outcome openSyncDepth =
     (case oget (v_work v) i of
        None \<Rightarrow> Inl (Call_invalid ''not found'')
      | Some w \<Rightarrow>
          let d = getDomain ds (oget w ''domain''); fromRole = holder_role ds w
          in (case evaluateHandoff d (effectiveStep w d) fromRole toRole reason
                     (length (openCallStack (thread_of v i))) openSyncDepth of
                Inl _ \<Rightarrow> Inl Handoff_refused
              | Inr edge \<Rightarrow>
                  Inr (if re_mode edge = ''async''
                    then (''work.handoff'', oset ''writer'' writer (oset_opt ''note'' note
                       (oset_opt ''from'' (map_option JStr fromRole)
                         [(''id'', JStr i), (''to'', JStr toRole), (''reason'', JStr reason), (''mode'', JStr ''async'')])))
                    else (''work.call-summary'', oset ''writer'' writer (oset_opt ''outcome'' outcome
                         [(''id'', JStr i), (''calleeRole'', JStr toRole), (''reason'', JStr reason)])))))"

definition recordCallReturn ::
  "jval \<Rightarrow> view \<Rightarrow> string \<Rightarrow> jval option \<Rightarrow> call_error + (string \<times> obj)" where
  "recordCallReturn writer v i note =
     (case oget (v_work v) i of
        None \<Rightarrow> Inl (Call_invalid ''not found'')
      | Some w \<Rightarrow>
          (case openCallStack (thread_of v i) of
             [] \<Rightarrow> Inl (Call_invalid ''no open call'')
           | stack \<Rightarrow>
               let openCall = last stack
               in if oget openCall ''to'' \<noteq> oget w ''holder'' then Inl (Call_invalid ''no open call'')
                  else Inr (''work.handoff'', oset ''writer'' writer (oset_opt ''note'' note
                    (oset ''returning'' (JBool True)
                    (oset_opt ''from'' (oget w ''holder'') (oset_opt ''to'' (oget openCall ''from'')
                    (oset_opt ''reason'' (oget openCall ''reason'')
                      [(''id'', JStr i), (''mode'', JStr ''async'')]))))))))"

section \<open>Worker slots\<close>

definition ADMIN_LANE_RESERVATION :: nat where
  "ADMIN_LANE_RESERVATION = 4"

definition countWorkerSlots :: "works \<Rightarrow> string option \<Rightarrow> (string \<times> obj) list" where
  "countWorkerSlots work excludeId =
     filter (\<lambda>(i, w). oget w ''status'' = Some (JStr ''doing'') \<and> Some i \<noteq> excludeId) work"

record slot_answer =
  sa_allowed :: bool
  sa_occupied :: nat
  sa_ceiling :: "int option"
  sa_free :: "int option"
  sa_granted :: int
  sa_reason :: string

definition hasWorkerSlotRoom :: "works \<Rightarrow> jval option \<Rightarrow> jval option \<Rightarrow> string option \<Rightarrow> slot_answer" where
  "hasWorkerSlotRoom work ceiling batchSize excludeId =
     (let occupied = length (countWorkerSlots work excludeId);
          size = (case batchSize of Some (JNum n) \<Rightarrow> if n > 0 then n else 1 | _ \<Rightarrow> 1);
          armed = (case ceiling of Some (JNum c) \<Rightarrow> if c \<le> 0 then None else Some c | _ \<Rightarrow> None)
      in case armed of
           None \<Rightarrow> \<lparr>sa_allowed = True, sa_occupied = occupied, sa_ceiling = None, sa_free = None,
                    sa_granted = size, sa_reason = ''no-ceiling-configured''\<rparr>
         | Some c \<Rightarrow>
             let free = max 0 (c - int occupied)
             in if free = 0
                then \<lparr>sa_allowed = False, sa_occupied = occupied, sa_ceiling = Some c, sa_free = Some free,
                      sa_granted = 0, sa_reason = ''ceiling-reached''\<rparr>
                else \<lparr>sa_allowed = True, sa_occupied = occupied, sa_ceiling = Some c, sa_free = Some free,
                      sa_granted = min size free, sa_reason = ''room-available''\<rparr>)"

section \<open>Facts\<close>

lemma evaluateHandoff_Inr:
  assumes "evaluateHandoff d step fr to reason depth sdepth = Inr e"
  shows "e \<in> set (legalCallEdges d step fr) \<and> re_to e = to \<and> re_reason e = reason \<and> fr = Some (re_from e)
     \<and> (re_mode e = ''async'' \<longrightarrow> (\<forall>c. Option.bind (roleGraphFor d) rg_callstackCap = Some c \<longrightarrow> int depth < c))
     \<and> (re_mode e = ''sync'' \<longrightarrow> (\<forall>c. Option.bind (roleGraphFor d) rg_callstackCap = Some c \<longrightarrow> sdepth < c))"
proof -
  have f: "List.find (\<lambda>c. re_to c = to \<and> re_reason c = reason) (legalCallEdges d step fr) = Some e"
    and caps: "\<not> (re_mode e = ''async'' \<and> (case Option.bind (roleGraphFor d) rg_callstackCap of None \<Rightarrow> False | Some c \<Rightarrow> c \<le> int depth))"
      "\<not> (re_mode e = ''sync'' \<and> (case Option.bind (roleGraphFor d) rg_callstackCap of None \<Rightarrow> False | Some c \<Rightarrow> c \<le> sdepth))"
    using assms by (auto simp: evaluateHandoff_def Let_def split: if_splits option.splits)
  from f have "e \<in> set (legalCallEdges d step fr)" "re_to e = to" "re_reason e = reason"
    by (auto simp: find_Some_iff)
  with legalCallEdges_from caps show ?thesis by (auto split: option.splits)
qed

lemma openCallStack_snoc: "openCallStack (es @ [e]) = push_pop e (openCallStack es)"
  by (simp add: openCallStack_def)

lemma openCallStack_length: "length (openCallStack es) \<le> length es"
  by (induction es rule: rev_induct) (auto simp: openCallStack_snoc push_pop_def openCallStack_def)

text \<open>What folding a hand-off event does to the thread and to the holder.\<close>

lemma thread_of_handoff:
  assumes "e_type e = ''work.handoff''" "oget (e_payload e) ''id'' = Some (JStr i)"
  shows "thread_of (apply_plain ds e v) i = thread_of v i @ [handoff_record e]"
  using assms
  by (simp add: apply_plain_def apply_handoff_def thread_of_def append_at_def pkey_def is_string_def on_item_def
      Let_def split: option.split)

lemma holder_of_handoff:
  assumes "e_type e = ''work.handoff''" "oget (e_payload e) ''id'' = Some (JStr i)"
    and "oget (v_work v) i = Some w" "oget (e_payload e) ''to'' = Some (JStr r)" "r \<noteq> ''human-advisor''"
  shows "oget (v_work (apply_plain ds e v)) i = Some (oset ''holder'' (JStr r) w)"
  using assms
  by (simp add: apply_plain_def v_work_step_ops v_work_on_item pkey_def is_string_def normalizeRole_def)

lemma handoff_record_fields:
  "oget (handoff_record e) ''kind'' = Some (JStr ''handoff'')"
  "oget (handoff_record e) ''to'' = normalizeRole (oget (e_payload e) ''to'')"
  "oget (handoff_record e) ''from'' = normalizeRole (oget (e_payload e) ''from'')"
  "oget (handoff_record e) ''reason'' = oget (e_payload e) ''reason''"
  "oget (handoff_record e) ''returning'' = Some (JBool (truthy (oget (e_payload e) ''returning'')))"
  by (cases "oget (e_payload e) ''to''"; cases "oget (e_payload e) ''from''";
      simp add: handoff_record_def Let_def normalizeRole_def)+

lemma callEvent_async:
  assumes "callEvent ds writer v i to reason note outcome sdepth = Inr (ty, p)" "ty = ''work.handoff''"
  shows "\<exists>w e. oget (v_work v) i = Some w
     \<and> evaluateHandoff (getDomain ds (oget w ''domain'')) (effectiveStep w (getDomain ds (oget w ''domain'')))
         (holder_role ds w) to reason (length (openCallStack (thread_of v i))) sdepth = Inr e
     \<and> re_mode e = ''async'' \<and> holder_role ds w = Some (re_from e)
     \<and> oget p ''id'' = Some (JStr i) \<and> oget p ''to'' = Some (JStr to)
     \<and> oget p ''from'' = Some (JStr (re_from e)) \<and> oget p ''returning'' = None
     \<and> oget p ''reason'' = Some (JStr reason)"
proof -
  obtain w where w: "oget (v_work v) i = Some w" using assms by (auto simp: callEvent_def split: option.splits)
  obtain e where e: "evaluateHandoff (getDomain ds (oget w ''domain'')) (effectiveStep w (getDomain ds (oget w ''domain'')))
         (holder_role ds w) to reason (length (openCallStack (thread_of v i))) sdepth = Inr e"
    using assms(1) w by (auto simp: callEvent_def Let_def split: sum.splits)
  have hr: "holder_role ds w = Some (re_from e)" using evaluateHandoff_Inr[OF e] by simp
  show ?thesis using assms w e hr
    by (auto simp: callEvent_def Let_def split: if_splits)
qed

text \<open>An accepted call opens one more call, and stays within the cap of the role graph.\<close>

lemma call_depth:
  assumes "callEvent ds writer v i to reason note outcome sdepth = Inr (''work.handoff'', p)"
    and "e_type e = ''work.handoff''" "e_payload e = p"
  shows "openCallStack (thread_of (apply_plain ds e v) i) = openCallStack (thread_of v i) @ [handoff_record e]
     \<and> (\<forall>w c. oget (v_work v) i = Some w \<longrightarrow>
          Option.bind (roleGraphFor (getDomain ds (oget w ''domain''))) rg_callstackCap = Some c \<longrightarrow>
          int (length (openCallStack (thread_of (apply_plain ds e v) i))) \<le> c)"
proof -
  obtain w ed where w: "oget (v_work v) i = Some w"
    and ev: "evaluateHandoff (getDomain ds (oget w ''domain'')) (effectiveStep w (getDomain ds (oget w ''domain'')))
         (holder_role ds w) to reason (length (openCallStack (thread_of v i))) sdepth = Inr ed"
    and ed: "re_mode ed = ''async''" and pid: "oget p ''id'' = Some (JStr i)" and ret: "oget p ''returning'' = None"
    using callEvent_async[OF assms(1)] by auto
  have th: "thread_of (apply_plain ds e v) i = thread_of v i @ [handoff_record e]"
    by (rule thread_of_handoff) (use assms pid in auto)
  have "push_pop (handoff_record e) s = s @ [handoff_record e]" for s
    using ret assms(3) by (simp add: push_pop_def handoff_record_fields)
  then have st: "openCallStack (thread_of (apply_plain ds e v) i) = openCallStack (thread_of v i) @ [handoff_record e]"
    by (simp add: th openCallStack_snoc)
  with evaluateHandoff_Inr[OF ev] ed w show ?thesis by auto
qed

text \<open>A return closes the call it answers: the stack is what it was, the ball is back with the caller.\<close>

lemma call_return:
  assumes call: "callEvent ds writer v i to reason note outcome sdepth = Inr (''work.handoff'', p)"
    and e: "e_type e = ''work.handoff''" "e_payload e = p"
    and roles: "to \<noteq> ''human-advisor''" "oget (v_work v) i = Some w" "holder_role ds w = Some h" "h \<noteq> ''human-advisor''"
    and v1: "v1 = apply_plain ds e v"
  shows "\<exists>q. recordCallReturn writer v1 i note' = Inr (''work.handoff'', q)
     \<and> (\<forall>r. e_type r = ''work.handoff'' \<longrightarrow> e_payload r = q \<longrightarrow>
          openCallStack (thread_of (apply_plain ds r v1) i) = openCallStack (thread_of v i)
          \<and> Option.bind (oget (v_work (apply_plain ds r v1)) i) (\<lambda>x. oget x ''holder'') = Some (JStr h))"
proof -
  have p: "oget p ''id'' = Some (JStr i)" "oget p ''to'' = Some (JStr to)" "oget p ''from'' = Some (JStr h)"
    using callEvent_async[OF call] roles(2,3) by auto
  have w1: "oget (v_work v1) i = Some (oset ''holder'' (JStr to) w)"
    unfolding v1 by (rule holder_of_handoff) (use e p roles in auto)
  have st1: "openCallStack (thread_of v1 i) = openCallStack (thread_of v i) @ [handoff_record e]"
    unfolding v1 using call_depth[OF call e] by simp
  have rec: "oget (handoff_record e) ''to'' = Some (JStr to)" "oget (handoff_record e) ''from'' = Some (JStr h)"
    using e p roles by (simp_all add: handoff_record_fields normalizeRole_def)
  obtain q where q: "recordCallReturn writer v1 i note' = Inr (''work.handoff'', q)"
    and qf: "oget q ''id'' = Some (JStr i)" "oget q ''to'' = Some (JStr h)" "oget q ''returning'' = Some (JBool True)"
    using w1 st1 rec by (cases "openCallStack (thread_of v i)") (auto simp: recordCallReturn_def Let_def)
  have "openCallStack (thread_of (apply_plain ds r v1) i) = openCallStack (thread_of v i)
      \<and> Option.bind (oget (v_work (apply_plain ds r v1)) i) (\<lambda>x. oget x ''holder'') = Some (JStr h)"
    if r: "e_type r = ''work.handoff''" "e_payload r = q" for r
  proof -
    have "thread_of (apply_plain ds r v1) i = thread_of v1 i @ [handoff_record r]"
      by (rule thread_of_handoff) (use r qf in auto)
    then have "openCallStack (thread_of (apply_plain ds r v1) i) = openCallStack (thread_of v i)"
      using st1 qf r by (simp add: openCallStack_snoc push_pop_def handoff_record_fields)
    moreover have "oget (v_work (apply_plain ds r v1)) i = Some (oset ''holder'' (JStr h) (oset ''holder'' (JStr to) w))"
      by (rule holder_of_handoff) (use r qf w1 roles in auto)
    ultimately show ?thesis by simp
  qed
  with q show ?thesis by blast
qed

end
