(* ===== verification/Claims.thy ===== *)
theory Claims
  imports Replay_Facts
begin

text \<open>
  \<open>src/state/runtime-coordination.mjs\<close>: the runtime claims kept beside the durable log. A claim is
  a record file per item id; \<open>claims\<close> is the directory, a file whose text is no claim record being
  \<open>None\<close>. Who calls (the writer identity) and the fresh claim id and time are arguments.
\<close>

type_synonym claims = "(string \<times> obj option) list"

datatype claim_error =
    Claim_invalid string
  | Claim_conflict string
  | Claim_corrupt string

definition readClaim :: "claims \<Rightarrow> string \<Rightarrow> claim_error + obj option" where
  "readClaim cs i = (case oget cs i of
       None \<Rightarrow> Inr None
     | Some None \<Rightarrow> Inl (Claim_corrupt i)
     | Some (Some c) \<Rightarrow> Inr (Some c))"

fun readClaims :: "claims \<Rightarrow> claim_error + (string \<times> obj) list" where
  "readClaims [] = Inr []"
| "readClaims ((i, None) # cs) = Inl (Claim_corrupt i)"
| "readClaims ((i, Some c) # cs) = e_bind (readClaims cs) (\<lambda>m. Inr ((i, c) # m))"

section \<open>Acquire and release\<close>

text \<open>The caller's part of a claim record, each absent field as null.\<close>

definition claim_record :: "obj \<Rightarrow> string \<Rightarrow> string \<Rightarrow> jval \<Rightarrow> obj" where
  "claim_record a claimId writerId now =
     [(''claimId'', JStr claimId), (''id'', or_null (oget a ''id'')), (''actor'', or_null (oget a ''actor'')),
      (''writerId'', JStr writerId), (''source'', or_null (oget a ''source'')),
      (''branch'', or_null (oget a ''branch'')), (''branchHeadAtTake'', or_null (oget a ''branchHeadAtTake'')),
      (''headAtTake'', or_null (oget a ''headAtTake'')), (''claimTrigger'', or_null (oget a ''claimTrigger'')),
      (''preClaimStatus'', or_null (oget a ''preClaimStatus'')),
      (''preClaimRevision'', or_null (oget a ''preClaimRevision'')),
      (''claimRole'', if nullish (oget a ''claimRole'') then or_null (oget a ''actor'') else the (oget a ''claimRole'')),
      (''acquiredAt'', now),
      (''lastObservedActivityAt'', if truthy (oget a ''lastObservedActivityAt'')
         then the (oget a ''lastObservedActivityAt'') else now),
      (''hardExpiresAt'', or_null (oget a ''hardExpiresAt''))]"

definition acquireClaimTx ::
  "claims \<Rightarrow> obj \<Rightarrow> string \<Rightarrow> string \<Rightarrow> jval \<Rightarrow> claim_error + (obj \<times> claims)" where
  "acquireClaimTx cs a claimId writerId now =
     (if \<not> nonempty_str (oget a ''id'') then Inl (Claim_invalid ''id'')
      else let i = pkey a; c = claim_record a claimId writerId now; write = Inr (c, oset i (Some c) cs)
        in if truthy (oget a ''force'') then write
           else e_bind (readClaim cs i) (\<lambda>existing.
             if existing \<noteq> None then Inl (Claim_conflict ''claimed'')
             else if oget a ''preClaimStatus'' = Some (JStr ''doing'') then Inl (Claim_conflict ''doing'')
             else write))"

datatype release_result =
    No_claim
  | Mismatched_claim_id "jval option"
  | Released obj "(string \<times> jval \<times> string) option"   \<comment> \<open>admin reason, owner, releaser\<close>

definition validateReleaseArgs :: "obj \<Rightarrow> claim_error option" where
  "validateReleaseArgs a = first_err
     [req (nonempty_str (oget a ''id'')) (Claim_invalid ''id''),
      req (oget a ''adminReason'' = None \<or> nonblank (oget a ''adminReason'')) (Claim_invalid ''adminReason'')]"

definition releaseClaimTx :: "claims \<Rightarrow> obj \<Rightarrow> string \<Rightarrow> claim_error + (release_result \<times> claims)" where
  "releaseClaimTx cs a writerId = guarded (validateReleaseArgs a)
     (let i = pkey a; reason = oget a ''adminReason''
      in e_bind (readClaim cs i) (\<lambda>found. case found of
           None \<Rightarrow> Inr (No_claim, cs)
         | Some c \<Rightarrow>
             if truthy (oget a ''claimId'') \<and> oget c ''claimId'' \<noteq> oget a ''claimId''
             then Inr (Mismatched_claim_id (oget c ''claimId''), cs)
             else if oget c ''writerId'' \<noteq> None \<and> oget c ''writerId'' \<noteq> Some (JStr writerId)
             then (if reason = None then Inl (Claim_conflict ''writer identity mismatch'')
                   else Inr (Released c (Some (trim (the (as_str reason)), the (oget c ''writerId''), writerId)),
                             odel i cs))
             else Inr (Released c None, odel i cs)))"

section \<open>The effective view\<close>

definition claim_stale :: "obj \<Rightarrow> obj \<Rightarrow> bool" where
  "claim_stale c w = (\<not> nullish (oget c ''preClaimStatus'') \<and> oget c ''preClaimStatus'' \<noteq> oget w ''status'')"

definition take_or_drop :: "string \<Rightarrow> obj \<Rightarrow> obj \<Rightarrow> obj" where
  "take_or_drop k c w = (if nullish (oget c k) then odel k w else oset k (the (oget c k)) w)"

text \<open>\<open>a || b || c\<close> on fields.\<close>

definition js_or :: "jval option \<Rightarrow> jval option \<Rightarrow> jval option" where
  "js_or a b = (if truthy a then a else b)"

definition overlay :: "obj option \<Rightarrow> obj \<Rightarrow> obj" where
  "overlay claim w = (case claim of
       None \<Rightarrow> w
     | Some c \<Rightarrow>
         if claim_stale c w then oset ''staleClaim'' (JObj c) w
         else take_or_drop ''claimTrigger'' c (take_or_drop ''branchHeadAtTake'' c (take_or_drop ''headAtTake'' c
           (oset ''activeClaim'' (JObj c)
           (oput ''claimRole'' (js_or (oget c ''claimRole'') (js_or (oget c ''actor'') (oget w ''claimRole'')))
           (oset ''statusCategory'' (JStr ''in-progress'') (oset ''status'' (JStr ''doing'') w)))))))"

definition buildEffectiveView :: "view \<Rightarrow> (string \<times> obj) list \<Rightarrow> view" where
  "buildEffectiveView v cs = v\<lparr>v_work := map (\<lambda>(i, w). (i, overlay (oget cs i) w)) (v_work v)\<rparr>"

section \<open>Facts\<close>

lemma status_overlay:
  "oget (overlay claim w) ''status'' =
     (case claim of None \<Rightarrow> oget w ''status''
      | Some c \<Rightarrow> if claim_stale c w then oget w ''status'' else Some (JStr ''doing''))"
  by (auto simp: overlay_def take_or_drop_def split: option.split)

text \<open>The fields a claim never touches.\<close>

lemma overlay_other:
  "k \<notin> {''status'', ''statusCategory'', ''claimRole'', ''activeClaim'', ''staleClaim'', ''headAtTake'',
        ''branchHeadAtTake'', ''claimTrigger''} \<Longrightarrow> oget (overlay claim w) k = oget w k"
  by (auto simp: overlay_def take_or_drop_def split: option.split)

lemma effective_item:
  "oget (v_work (buildEffectiveView v cs)) i = map_option (overlay (oget cs i)) (oget (v_work v) i)"
  by (simp add: buildEffectiveView_def oget_def map_of_map_snd)

lemma effective_keys: "okeys (v_work (buildEffectiveView v cs)) = okeys (v_work v)"
  by (simp add: buildEffectiveView_def okeys_def case_prod_beta comp_def)

lemma readClaims_oget: "readClaims cs = Inr m \<Longrightarrow> oget m i = Option.bind (oget cs i) id"
proof (induction cs arbitrary: m)
  case (Cons x cs)
  then show ?case by (cases x; cases "snd x") (auto simp: e_bind_Inr)
qed simp

section \<open>Who holds an item\<close>

text \<open>
  The steps an ordinary actor (no \<open>force\<close>, no \<open>adminReason\<close>) takes on the directory, and who
  takes them.
\<close>

inductive claim_step :: "string \<Rightarrow> claims \<Rightarrow> claims \<Rightarrow> bool" where
  acquire: "\<not> truthy (oget a ''force'') \<Longrightarrow> acquireClaimTx cs a cid me now = Inr (c, cs') \<Longrightarrow> claim_step me cs cs'"
| release: "oget a ''adminReason'' = None \<Longrightarrow> releaseClaimTx cs a me = Inr (r, cs') \<Longrightarrow> claim_step me cs cs'"

inductive_cases claim_stepE: "claim_step me cs cs'"

definition held_by :: "claims \<Rightarrow> string \<Rightarrow> string \<Rightarrow> bool" where
  "held_by cs i me = (\<exists>c. oget cs i = Some (Some c) \<and> oget c ''writerId'' = Some (JStr me))"

lemma acquire_Inr:
  assumes "acquireClaimTx cs a cid me now = Inr (c, cs')" "\<not> truthy (oget a ''force'')"
  shows "oget cs (pkey a) = None \<and> cs' = oset (pkey a) (Some c) cs \<and> held_by cs' (pkey a) me
     \<and> c = claim_record a cid me now"
  using assms
  by (auto simp: acquireClaimTx_def Let_def e_bind_Inr readClaim_def held_by_def claim_record_def
      split: if_splits option.splits)

lemma release_Inr:
  assumes "releaseClaimTx cs a me = Inr (r, cs')" "oget a ''adminReason'' = None"
  shows "cs' = cs \<or> (cs' = odel (pkey a) cs \<and> (\<exists>c. oget cs (pkey a) = Some (Some c)
     \<and> oget c ''writerId'' \<in> {None, Some (JStr me)}))"
  using assms
  by (auto simp: releaseClaimTx_def Let_def e_bind_Inr readClaim_def check_simps split: if_splits option.splits)

text \<open>What is held by one writer stays as it is while anybody else acts.\<close>

lemma step_keeps_other:
  assumes "claim_step me cs cs'" "held_by cs i owner" "owner \<noteq> me"
  shows "oget cs' i = oget cs i"
  using assms(1)
proof cases
  case (acquire a cid now c)
  with acquire_Inr[OF acquire(2,1)] assms show ?thesis by (auto simp: held_by_def)
next
  case (release a r)
  with release_Inr[OF release(2,1)] assms show ?thesis by (auto simp: held_by_def)
qed


end
