(* ===== verification/Dep_Graph.thy ===== *)
theory Dep_Graph
  imports Prelude
begin

text \<open>
  \<open>src/state/dep-graph.mjs\<close>: the cycle detector over the \<open>deps\<close> relation and over the unified
  graph of \<open>deps\<close>, \<open>parent\<close> and \<open>mergeAfter\<close>. The depth-first walk carries the visited
  nodes and the current path (the source's \<open>onStack\<close> is the set of the path); it recurses on fuel,
  and one unit more than the adjacency has keys is enough. The locale states what a guarded write
  of one node promises, the two guards are its interpretations.
\<close>

type_synonym adjacency = "(string \<times> string list) list"

definition adj_of :: "adjacency \<Rightarrow> string \<Rightarrow> string list" where
  "adj_of adj i = lazyd (oget adj i)"

text \<open>A parent is an edge when the field is a truthy string.\<close>

definition parent_of :: "obj \<Rightarrow> string option" where
  "parent_of w = (if truthy (oget w ''parent'') then as_str (oget w ''parent'') else None)"

definition buildAdjacency :: "(string \<times> obj) list \<Rightarrow> adjacency" where
  "buildAdjacency workMap = map (\<lambda>(i, w). (i, str_entries (oget w ''deps''))) workMap"

section \<open>The walk\<close>

datatype walk_result =
    Fuel_out
  | Cycle "string list"
  | Clean "string list"

fun dfs_walk :: "nat \<Rightarrow> adjacency \<Rightarrow> string list \<Rightarrow> string list \<Rightarrow> string \<Rightarrow> walk_result"
and dfs_deps :: "nat \<Rightarrow> adjacency \<Rightarrow> string list \<Rightarrow> string list \<Rightarrow> string list \<Rightarrow> walk_result"
where
  "dfs_walk 0 adj vis path i = Fuel_out"
| "dfs_walk (Suc n) adj vis path i = dfs_deps n adj (i # vis) (path @ [i]) (adj_of adj i)"
| "dfs_deps n adj vis path [] = Clean vis"
| "dfs_deps n adj vis path (d # ds) =
     (if d \<in> set path then Cycle (dropWhile (\<lambda>x. x \<noteq> d) path @ [d])
      else if d \<notin> set vis \<and> ohas adj d then
        (case dfs_walk n adj vis path d of
           Clean vis' \<Rightarrow> dfs_deps n adj vis' path ds
         | r \<Rightarrow> r)
      else dfs_deps n adj vis path ds)"

definition findCycleFrom :: "string \<Rightarrow> adjacency \<Rightarrow> string list option" where
  "findCycleFrom start adj = (case dfs_walk (Suc (length adj)) adj [] [] start of
     Cycle c \<Rightarrow> Some c | _ \<Rightarrow> None)"

fun first_cycle :: "adjacency \<Rightarrow> string list \<Rightarrow> string list option" where
  "first_cycle adj [] = None"
| "first_cycle adj (i # ks) = (case findCycleFrom i adj of Some c \<Rightarrow> Some c | None \<Rightarrow> first_cycle adj ks)"

definition findDepCycle :: "(string \<times> obj) list \<Rightarrow> string list option" where
  "findDepCycle workMap = first_cycle (buildAdjacency workMap) (okeys (buildAdjacency workMap))"

text \<open>The guards throw with the cycle; \<open>None\<close> is the normal return.\<close>

definition assertNoCycle :: "string \<Rightarrow> obj \<Rightarrow> (string \<times> obj) list \<Rightarrow> string list option" where
  "assertNoCycle i cand workMap = findCycleFrom i (buildAdjacency (oset i cand workMap))"

section \<open>The unified graph\<close>

definition addEdge :: "string \<Rightarrow> string \<Rightarrow> adjacency \<Rightarrow> adjacency" where
  "addEdge from to adj = oset from (adj_of adj from @ [to]) adj"

definition item_edges :: "string \<Rightarrow> obj \<Rightarrow> (string \<times> string \<times> string) list" where
  "item_edges i w =
     map (\<lambda>d. (i, d, ''blocks'')) (str_entries (oget w ''deps''))
     @ (case parent_of w of None \<Rightarrow> [] | Some p \<Rightarrow> [(p, i, ''parent-child'')])
     @ map (\<lambda>t. (i, t, ''waits-for'')) (str_entries (oget w ''mergeAfter''))"

definition buildUnifiedEdges :: "(string \<times> obj) list \<Rightarrow> (string \<times> string \<times> string) list" where
  "buildUnifiedEdges workMap = concat (map (\<lambda>(i, w). item_edges i w) workMap)"

definition buildUnifiedAdjacency :: "(string \<times> obj) list \<Rightarrow> adjacency" where
  "buildUnifiedAdjacency workMap =
     fold (\<lambda>(i, w) adj. fold (\<lambda>(a, b, _). addEdge a b) (item_edges i w) adj) workMap
       (map (\<lambda>(i, _). (i, [])) workMap)"

definition findUnifiedCycle :: "(string \<times> obj) list \<Rightarrow> string list option" where
  "findUnifiedCycle workMap = first_cycle (buildUnifiedAdjacency workMap) (okeys (buildUnifiedAdjacency workMap))"

definition assertNoUnifiedCycle :: "string \<Rightarrow> obj \<Rightarrow> (string \<times> obj) list \<Rightarrow> string list option" where
  "assertNoUnifiedCycle i cand workMap = findCycleFrom i (buildUnifiedAdjacency (oset i cand workMap))"

section \<open>What a walk finds\<close>

definition edges :: "adjacency \<Rightarrow> (string \<times> string) set" where
  "edges adj = {(a, b). b \<in> set (adj_of adj a)}"

definition is_path :: "(string \<times> string) set \<Rightarrow> string list \<Rightarrow> bool" where
  "is_path r xs = (\<forall>k. Suc k < length xs \<longrightarrow> (xs ! k, xs ! Suc k) \<in> r)"

definition is_cycle :: "(string \<times> string) set \<Rightarrow> string list \<Rightarrow> bool" where
  "is_cycle r c = (2 \<le> length c \<and> hd c = last c \<and> is_path r c)"

lemma is_path_Cons: "is_path r (x # y # xs) \<longleftrightarrow> (x, y) \<in> r \<and> is_path r (y # xs)"
  by (auto simp: is_path_def less_Suc_eq_0_disj)

lemma is_path_single [simp]: "is_path r [x]" "is_path r []"
  by (simp_all add: is_path_def)

lemma is_path_snoc: "is_path r (xs @ [x]) \<Longrightarrow> (x, y) \<in> r \<Longrightarrow> is_path r (xs @ [x, y])"
proof (induction xs)
  case (Cons a xs)
  then show ?case by (cases xs) (auto simp: is_path_Cons)
qed (simp add: is_path_Cons)

lemma is_path_dropWhile: "is_path r xs \<Longrightarrow> is_path r (dropWhile P xs)"
proof (induction xs)
  case (Cons a xs)
  then show ?case by (cases xs) (auto simp: is_path_Cons)
qed simp

lemma is_path_trancl:
  assumes "is_path r xs" "2 \<le> length xs"
  shows "(hd xs, last xs) \<in> r\<^sup>+"
  using assms
proof (induction xs)
  case (Cons a xs)
  then obtain b ys where xs: "xs = b # ys" by (cases xs) auto
  with Cons.prems(1) have ab: "(a, b) \<in> r" "is_path r (b # ys)" by (auto simp: is_path_Cons)
  show ?case
  proof (cases ys)
    case Nil
    with ab xs show ?thesis by auto
  next
    case (Cons c zs)
    then have "(b, last xs) \<in> r\<^sup>+" using Cons.IH ab xs by simp
    with ab xs show ?thesis by (auto intro: trancl_into_trancl2)
  qed
qed simp

lemma is_cycle_trancl: "is_cycle r c \<Longrightarrow> (hd c, hd c) \<in> r\<^sup>+"
  using is_path_trancl by (fastforce simp: is_cycle_def)

lemma hd_dropWhile_eq: "d \<in> set xs \<Longrightarrow> dropWhile (\<lambda>x. x \<noteq> d) xs \<noteq> [] \<and> hd (dropWhile (\<lambda>x. x \<noteq> d) xs) = d"
  by (induction xs) auto

lemma last_dropWhile: "dropWhile P xs \<noteq> [] \<Longrightarrow> last (dropWhile P xs) = last xs"
  by (induction xs) auto

lemma closing_cycle:
  assumes "is_path r path" "d \<in> set path" "(last path, d) \<in> r"
  shows "is_cycle r (dropWhile (\<lambda>x. x \<noteq> d) path @ [d])"
proof -
  let ?q = "dropWhile (\<lambda>x. x \<noteq> d) path"
  have q: "?q \<noteq> []" "hd ?q = d" using hd_dropWhile_eq[OF assms(2)] by auto
  have "last ?q = last path" by (rule last_dropWhile[OF q(1)])
  then have "(last ?q, d) \<in> r" using assms(3) by simp
  moreover have "is_path r (butlast ?q @ [last ?q])" using q is_path_dropWhile[OF assms(1)] by simp
  ultimately have "is_path r (butlast ?q @ [last ?q, d])" by (rule is_path_snoc[rotated])
  then have "is_path r (?q @ [d])" using q(1) by (metis append_butlast_last_id append_Cons append_Nil append_assoc)
  with q show ?thesis
    unfolding is_cycle_def by (cases ?q) auto
qed

text \<open>Soundness: a reported cycle is one, and it is reachable from the start of the walk.\<close>

lemma dfs_sound:
  "dfs_walk n adj vis path i = Cycle c \<Longrightarrow> is_path (edges adj) (path @ [i]) \<Longrightarrow>
     is_cycle (edges adj) c"
  "dfs_deps n adj vis path ds = Cycle c \<Longrightarrow> path \<noteq> [] \<Longrightarrow> is_path (edges adj) path \<Longrightarrow>
     \<forall>d \<in> set ds. (last path, d) \<in> edges adj \<Longrightarrow> is_cycle (edges adj) c"
proof (induction n adj vis path i and n adj vis path ds rule: dfs_walk_dfs_deps.induct)
  case (2 n adj vis path i)
  then show ?case by (auto simp: edges_def)
next
  case (4 n adj vis path d ds)
  show ?case
  proof (cases "d \<in> set path")
    case True
    with 4 show ?thesis by (auto intro: closing_cycle)
  next
    case nin: False
    show ?thesis
    proof (cases "d \<notin> set vis \<and> ohas adj d")
      case True
      have "is_path (edges adj) (path @ [d])"
        using 4(5,6,7) is_path_snoc[of "edges adj" "butlast path" "last path" d]
        by (metis append.assoc append_Cons append_Nil append_butlast_last_id list.set_intros(1))
      with 4 nin True show ?thesis by (auto split: walk_result.splits)
    next
      case False
      with 4 nin show ?thesis by auto
    qed
  qed
qed simp_all

lemma dfs_reachable:
  "dfs_walk n adj vis path i = Cycle c \<Longrightarrow> \<forall>x \<in> insert i (set path). (s, x) \<in> (edges adj)\<^sup>* \<Longrightarrow>
     (s, hd c) \<in> (edges adj)\<^sup>*"
  "dfs_deps n adj vis path ds = Cycle c \<Longrightarrow> path \<noteq> [] \<Longrightarrow> \<forall>x \<in> set path. (s, x) \<in> (edges adj)\<^sup>* \<Longrightarrow>
     \<forall>d \<in> set ds. (last path, d) \<in> edges adj \<Longrightarrow> (s, hd c) \<in> (edges adj)\<^sup>*"
proof (induction n adj vis path i and n adj vis path ds rule: dfs_walk_dfs_deps.induct)
  case (2 n adj vis path i)
  then show ?case by (auto simp: edges_def)
next
  case (4 n adj vis path d ds)
  have sd: "(s, d) \<in> (edges adj)\<^sup>*"
    using 4(5,6,7) by (meson last_in_set list.set_intros(1) rtrancl.rtrancl_into_rtrancl)
  show ?case
  proof (cases "d \<in> set path")
    case True
    then have "c = dropWhile (\<lambda>x. x \<noteq> d) path @ [d]" using 4(4) by simp
    then show ?thesis using hd_dropWhile_eq[OF True] sd by (simp add: hd_append)
  next
    case nin: False
    have rest: "\<forall>d \<in> set ds. (last path, d) \<in> edges adj" using 4(7) by simp
    show ?thesis
    proof (cases "d \<notin> set vis \<and> ohas adj d")
      case True
      show ?thesis
      proof (cases "dfs_walk n adj vis path d")
        case (Cycle c')
        then show ?thesis using 4(1)[OF nin True] 4(4,6) nin True sd by simp
      next
        case (Clean vis')
        then have "dfs_deps n adj vis' path ds = Cycle c" using 4(4) nin True by simp
        from 4(2)[OF nin True Clean this 4(5,6) rest] show ?thesis .
      qed (use 4(4) nin True in simp)
    next
      case False
      then have "dfs_deps n adj vis path ds = Cycle c" using 4(4) nin by (auto split: if_splits)
      from 4(3)[OF nin False this 4(5,6) rest] show ?thesis .
    qed
  qed
qed simp_all

lemma findCycleFrom_reachable: "findCycleFrom start adj = Some c \<Longrightarrow> (start, hd c) \<in> (edges adj)\<^sup>*"
  using dfs_reachable(1)[of "Suc (length adj)" adj "[]" "[]" start c start]
  by (simp add: findCycleFrom_def split: walk_result.splits)

text \<open>A clean walk only adds visited nodes, and enough fuel never runs out.\<close>

lemma dfs_vis:
  "dfs_walk n adj vis path i = Clean vis' \<Longrightarrow> insert i (set vis) \<subseteq> set vis'"
  "dfs_deps n adj vis path ds = Clean vis' \<Longrightarrow> set vis \<subseteq> set vis'"
proof (induction n adj vis path i and n adj vis path ds arbitrary: vis' and vis' rule: dfs_walk_dfs_deps.induct)
  case (2 n adj vis path i)
  then show ?case by fastforce
next
  case (4 n adj vis path d ds)
  have nin: "d \<notin> set path" using 4(4) by (auto split: if_splits)
  show ?case
  proof (cases "d \<notin> set vis \<and> ohas adj d")
    case True
    obtain v1 where w: "dfs_walk n adj vis path d = Clean v1" and rest: "dfs_deps n adj v1 path ds = Clean vis'"
      using 4(4) nin True by (auto split: walk_result.splits)
    from 4(1)[OF nin True w] 4(2)[OF nin True w rest] show ?thesis by blast
  next
    case False
    with 4(4) nin have "dfs_deps n adj vis path ds = Clean vis'" by (auto split: if_splits)
    from 4(3)[OF nin False this] show ?thesis .
  qed
qed simp_all

definition unvisited :: "adjacency \<Rightarrow> string list \<Rightarrow> nat" where
  "unvisited adj vis = card (set (okeys adj) - set vis)"

lemma unvisited_mono: "set vis \<subseteq> set vis' \<Longrightarrow> unvisited adj vis' \<le> unvisited adj vis"
  unfolding unvisited_def by (rule card_mono) auto

lemma unvisited_Cons:
  assumes "i \<in> set (okeys adj)" "i \<notin> set vis"
  shows "unvisited adj vis = Suc (unvisited adj (i # vis))"
proof -
  have "set (okeys adj) - set (i # vis) = set (okeys adj) - set vis - {i}" by auto
  moreover have "Suc (card (set (okeys adj) - set vis - {i})) = card (set (okeys adj) - set vis)"
    by (rule card_Suc_Diff1) (use assms in auto)
  ultimately show ?thesis by (simp add: unvisited_def)
qed

lemma dfs_fuel:
  "unvisited adj (i # vis) < n \<Longrightarrow> dfs_walk n adj vis path i \<noteq> Fuel_out"
  "unvisited adj vis \<le> n \<Longrightarrow> dfs_deps n adj vis path ds \<noteq> Fuel_out"
proof (induction n adj vis path i and n adj vis path ds rule: dfs_walk_dfs_deps.induct)
  case (4 n adj vis path d ds)
  have A: "dfs_deps n adj vis path ds \<noteq> Fuel_out" if "\<not> (d \<notin> set vis \<and> ohas adj d)" "d \<notin> set path"
    using 4 that by auto
  have B: "dfs_walk n adj vis path d \<noteq> Fuel_out" if "d \<notin> set vis \<and> ohas adj d" "d \<notin> set path"
    using 4(1)[OF that(2,1)] 4(4) unvisited_Cons[of d adj vis] that by simp
  have C: "dfs_deps n adj vis' path ds \<noteq> Fuel_out"
    if "d \<notin> set vis \<and> ohas adj d" "d \<notin> set path" "dfs_walk n adj vis path d = Clean vis'" for vis'
    using 4(2)[OF that(2,1,3)] 4(4) unvisited_mono[of vis vis' adj] dfs_vis(1)[OF that(3)] by fastforce
  show ?case using A B C by (auto split: walk_result.splits)
qed auto

lemma unvisited_le: "unvisited adj vis \<le> length adj"
  unfolding unvisited_def
  by (metis Diff_subset List.finite_set card_length card_mono le_trans length_map okeys_def)

lemma start_no_fuel_out: "dfs_walk (Suc (length adj)) adj [] [] start \<noteq> Fuel_out"
  by (rule dfs_fuel) (use unvisited_le[of adj "[start]"] in simp)

text \<open>
  Completeness. \<open>settled r F\<close>: the finished nodes have no edge out of \<open>F\<close> except to dead ends, and
  there is no cycle among them.
\<close>

definition settled :: "adjacency \<Rightarrow> string set \<Rightarrow> bool" where
  "settled adj F = ((\<forall>a \<in> F. \<forall>b \<in> set (adj_of adj a). b \<in> F \<or> b \<notin> set (okeys adj))
     \<and> (\<forall>a \<in> F. (a, a) \<notin> (edges adj)\<^sup>+))"

lemma no_edge_outside: "(a, b) \<in> edges adj \<Longrightarrow> a \<in> set (okeys adj)"
  by (cases "oget adj a") (auto simp: edges_def adj_of_def dest: oget_Some_key)

lemma settled_reach:
  assumes "settled adj F" "(a, b) \<in> (edges adj)\<^sup>+" "a \<in> F"
  shows "b \<in> F \<or> b \<notin> set (okeys adj)"
  using assms(2)
proof (induction rule: trancl_induct)
  case (base b)
  then show ?case using assms(1,3) by (auto simp: settled_def edges_def)
next
  case (step b c)
  then have "b \<in> F" using no_edge_outside by blast
  then show ?case using step(2) assms(1) by (auto simp: settled_def edges_def)
qed

lemma settled_insert:
  assumes F: "settled adj F" "i \<notin> F" and s: "\<forall>b \<in> set (adj_of adj i). b \<noteq> i \<and> (b \<in> F \<or> b \<notin> set (okeys adj))"
  shows "settled adj (insert i F)"
proof -
  have "(i, i) \<notin> (edges adj)\<^sup>+"
  proof
    assume "(i, i) \<in> (edges adj)\<^sup>+"
    then obtain b where b: "(i, b) \<in> edges adj" "(b, i) \<in> (edges adj)\<^sup>*" by (meson tranclD)
    then have "b \<noteq> i" "b \<in> F \<or> b \<notin> set (okeys adj)" using s by (auto simp: edges_def)
    moreover have "(b, i) \<in> (edges adj)\<^sup>+" using b(2) \<open>b \<noteq> i\<close> by (simp add: rtrancl_eq_or_trancl)
    moreover have "b \<in> set (okeys adj)" using \<open>(b, i) \<in> _\<^sup>+\<close> no_edge_outside by (meson tranclD)
    moreover have "i \<in> set (okeys adj)" using b(1) no_edge_outside by blast
    ultimately show False using settled_reach[OF F(1), of b i] F(2) by blast
  qed
  with F s show ?thesis by (auto simp: settled_def)
qed

lemma dfs_complete:
  "dfs_walk n adj vis path i = Clean vis' \<Longrightarrow> settled adj (set vis - set path) \<Longrightarrow> set path \<subseteq> set vis \<Longrightarrow>
     i \<notin> set vis \<Longrightarrow> settled adj (set vis' - set path)"
  "dfs_deps n adj vis path ds = Clean vis' \<Longrightarrow> settled adj (set vis - set path) \<Longrightarrow> set path \<subseteq> set vis \<Longrightarrow>
     settled adj (set vis' - set path) \<and> (\<forall>d \<in> set ds. d \<notin> set path \<and> (d \<in> set vis' \<or> d \<notin> set (okeys adj)))"
proof (induction n adj vis path i and n adj vis path ds arbitrary: vis' and vis' rule: dfs_walk_dfs_deps.induct)
  case (2 n adj vis path i)
  have "set (i # vis) - set (path @ [i]) = set vis - set path" using 2(5) by auto
  with 2 have r: "settled adj (set vis' - set (path @ [i]))"
      "\<forall>d \<in> set (adj_of adj i). d \<notin> set (path @ [i]) \<and> (d \<in> set vis' \<or> d \<notin> set (okeys adj))"
    by auto
  have "i \<in> set vis'" using dfs_vis(1)[OF 2(2)] by simp
  then have eq: "set vis' - set path = insert i (set vis' - set (path @ [i]))" using 2(4,5) by auto
  show ?case unfolding eq by (rule settled_insert[OF r(1)]) (use r(2) in auto)
next
  case (4 n adj vis path d ds)
  have nin: "d \<notin> set path" using 4(4) by (auto split: if_splits)
  show ?case
  proof (cases "d \<notin> set vis \<and> ohas adj d")
    case True
    obtain v1 where w: "dfs_walk n adj vis path d = Clean v1"
      and rest: "dfs_deps n adj v1 path ds = Clean vis'"
      using 4(4) nin True by (auto split: walk_result.splits)
    have sub: "insert d (set vis) \<subseteq> set v1" using dfs_vis(1)[OF w] .
    have "settled adj (set v1 - set path)" using 4(1)[OF nin True w 4(5,6)] True by simp
    with 4(2)[OF nin True w rest] 4(6) sub have
      "settled adj (set vis' - set path) \<and> (\<forall>d \<in> set ds. d \<notin> set path \<and> (d \<in> set vis' \<or> d \<notin> set (okeys adj)))"
      by auto
    moreover have "d \<in> set vis'" using dfs_vis(2)[OF rest] sub by auto
    ultimately show ?thesis using nin by auto
  next
    case False
    then have rest: "dfs_deps n adj vis path ds = Clean vis'" using 4(4) nin by (auto split: if_splits)
    have "d \<in> set vis' \<or> d \<notin> set (okeys adj)" using dfs_vis(2)[OF rest] False by auto
    with 4(3)[OF nin False rest 4(5,6)] nin show ?thesis by auto
  qed
qed simp_all

text \<open>The specification of \<open>findCycleFrom\<close>.\<close>

lemma findCycleFrom_sound: "findCycleFrom start adj = Some c \<Longrightarrow> is_cycle (edges adj) c"
  using dfs_sound(1)[of "Suc (length adj)" adj "[]" "[]" start c]
  by (simp add: findCycleFrom_def split: walk_result.splits)

lemma findCycleFrom_complete:
  assumes "findCycleFrom start adj = None" "(start, b) \<in> (edges adj)\<^sup>*"
  shows "(b, b) \<notin> (edges adj)\<^sup>+"
proof
  assume cyc: "(b, b) \<in> (edges adj)\<^sup>+"
  obtain vis where w: "dfs_walk (Suc (length adj)) adj [] [] start = Clean vis"
    using assms(1) start_no_fuel_out[of adj start] by (auto simp: findCycleFrom_def split: walk_result.splits)
  have s: "settled adj (set vis)" using dfs_complete(1)[OF w] by (simp add: settled_def)
  have st: "start \<in> set vis" using dfs_vis(1)[OF w] by simp
  have "b \<in> set (okeys adj)" using cyc no_edge_outside by (meson tranclD)
  then have "b \<in> set vis"
    using assms(2) st settled_reach[OF s, of start b] by (auto simp: rtrancl_eq_or_trancl)
  with s cyc show False by (simp add: settled_def)
qed

lemma first_cycle_None: "first_cycle adj ks = None \<longleftrightarrow> (\<forall>i \<in> set ks. findCycleFrom i adj = None)"
  by (induction ks) (auto split: option.split)

lemma first_cycle_sound: "first_cycle adj ks = Some c \<Longrightarrow> is_cycle (edges adj) c"
  by (induction ks) (auto split: option.splits dest: findCycleFrom_sound)

lemma first_cycle_acyclic: "first_cycle adj (okeys adj) = None \<longleftrightarrow> acyclic (edges adj)"
proof
  assume N: "first_cycle adj (okeys adj) = None"
  show "acyclic (edges adj)"
    unfolding acyclic_def
  proof (intro allI notI)
    fix x assume x: "(x, x) \<in> (edges adj)\<^sup>+"
    then have "x \<in> set (okeys adj)" using no_edge_outside by (meson tranclD)
    with N have "findCycleFrom x adj = None" by (simp add: first_cycle_None)
    from findCycleFrom_complete[OF this, of x] x show False by simp
  qed
next
  assume ac: "acyclic (edges adj)"
  show "first_cycle adj (okeys adj) = None"
  proof (rule ccontr)
    assume "first_cycle adj (okeys adj) \<noteq> None"
    then obtain c where "first_cycle adj (okeys adj) = Some c" by blast
    from is_cycle_trancl[OF first_cycle_sound[OF this]] ac show False by (simp add: acyclic_def)
  qed
qed

section \<open>The graphs of a work map\<close>

definition dep_edges :: "(string \<times> obj) list \<Rightarrow> (string \<times> string) set" where
  "dep_edges workMap = {(a, b). \<exists>w. (a, w) \<in> set workMap \<and> b \<in> set (str_entries (oget w ''deps''))}"

definition unified_edges :: "(string \<times> obj) list \<Rightarrow> (string \<times> string) set" where
  "unified_edges workMap = (\<lambda>(a, b, _). (a, b)) ` set (buildUnifiedEdges workMap)"

lemma edges_buildAdjacency:
  assumes "distinct (okeys W)"
  shows "edges (buildAdjacency W) = dep_edges W"
proof -
  have "oget (buildAdjacency W) a = map_option (\<lambda>w. str_entries (oget w ''deps'')) (oget W a)" for a
    unfolding buildAdjacency_def oget_def by (induction W) auto
  then have "b \<in> set (adj_of (buildAdjacency W) a) \<longleftrightarrow> (\<exists>w. oget W a = Some w \<and> b \<in> set (str_entries (oget w ''deps'')))"
    for a b by (cases "oget W a") (simp_all add: adj_of_def)
  moreover have "oget W a = Some w \<longleftrightarrow> (a, w) \<in> set W" for a w
    using assms by (simp add: oget_def okeys_def)
  ultimately show ?thesis by (auto simp: edges_def dep_edges_def)
qed

lemma addEdge_edges: "edges (addEdge a b adj) = insert (a, b) (edges adj)"
  by (auto simp: edges_def addEdge_def adj_of_def split: if_splits)

lemma fold_addEdge: "edges (fold (\<lambda>(a, b, _). addEdge a b) es adj) = (\<lambda>(a, b, _). (a, b)) ` set es \<union> edges adj"
  by (induction es arbitrary: adj) (auto simp: addEdge_edges)

lemma unified_edges_Cons:
  "unified_edges ((i, w) # W) = (\<lambda>(a, b, _). (a, b)) ` set (item_edges i w) \<union> unified_edges W"
  by (simp add: unified_edges_def buildUnifiedEdges_def image_Un)

lemma edges_buildUnifiedAdjacency: "edges (buildUnifiedAdjacency W) = unified_edges W"
proof -
  have step: "edges (fold (\<lambda>(i, w) adj. fold (\<lambda>(a, b, _). addEdge a b) (item_edges i w) adj) W adj)
      = unified_edges W \<union> edges adj" for adj
  proof (induction W arbitrary: adj)
    case Nil
    then show ?case by (simp add: unified_edges_def buildUnifiedEdges_def)
  next
    case (Cons x W)
    obtain i w where x: "x = (i, w)" by (cases x)
    show ?case
      unfolding x using Cons by (simp add: fold_addEdge unified_edges_Cons Un_ac)
  qed
  have "oget (map (\<lambda>(i, _). (i, [])) W) a \<in> {None, Some []}" for a :: string and W :: "(string \<times> obj) list"
    by (induction W) (auto split: if_splits)
  then have "adj_of (map (\<lambda>(i, _). (i, [])) W) a = []" for a
    by (metis adj_of_def empty_iff insert_iff lazyd_simps)
  then have "edges (map (\<lambda>(i, _). (i, [])) W) = {}" by (simp add: edges_def)
  with step show ?thesis by (simp add: buildUnifiedAdjacency_def)
qed

lemma set_oset_subset: "set (oset k v ob) \<subseteq> insert (k, v) (set ob)"
  unfolding oset_def by (induction ob) auto

lemma item_edges_touch: "(a, b, kd) \<in> set (item_edges i w) \<Longrightarrow> a = i \<or> b = i"
  by (auto simp: item_edges_def split: option.splits)

lemma unified_edges_write:
  "(a, b) \<in> unified_edges (oset i w W) \<Longrightarrow> (a, b) \<in> unified_edges W \<or> a = i \<or> b = i"
  using set_oset_subset[of i w W] item_edges_touch
  by (fastforce simp: unified_edges_def buildUnifiedEdges_def image_iff)

lemma dep_edges_write: "(a, b) \<in> dep_edges (oset i w W) \<Longrightarrow> (a, b) \<in> dep_edges W \<or> a = i \<or> b = i"
  using set_oset_subset[of i w W] by (auto simp: dep_edges_def)

section \<open>The write door\<close>

text \<open>
  What a guard of single-node writes promises: a write of node \<open>n\<close> creates only edges at \<open>n\<close>, and an
  admitted write leaves no cycle through \<open>n\<close>. Then the whole graph stays acyclic, along any
  sequence of admitted writes.
\<close>

locale guarded_graph =
  fixes graph :: "'w \<Rightarrow> ('n \<times> 'n) set"
    and put :: "'n \<Rightarrow> 'v \<Rightarrow> 'w \<Rightarrow> 'w"
    and admits :: "'n \<Rightarrow> 'v \<Rightarrow> 'w \<Rightarrow> bool"
    and sane :: "'w \<Rightarrow> bool"
  assumes write_local: "(a, b) \<in> graph (put n v w) \<Longrightarrow> (a, b) \<in> graph w \<or> a = n \<or> b = n"
    and sane_write: "sane w \<Longrightarrow> sane (put n v w)"
    and admits_clean: "sane w \<Longrightarrow> admits n v w \<longleftrightarrow> (\<forall>b. (n, b) \<in> (graph (put n v w))\<^sup>* \<longrightarrow> (b, b) \<notin> (graph (put n v w))\<^sup>+)"
begin

lemma cycle_avoids:
  assumes "(x, y) \<in> (graph (put n v w))\<^sup>+"
  shows "(x, y) \<in> (graph w)\<^sup>+ \<or> ((x, n) \<in> (graph (put n v w))\<^sup>* \<and> (n, y) \<in> (graph (put n v w))\<^sup>*)"
  using assms
proof (induction rule: trancl_induct)
  case (base y)
  from write_local[OF base] base show ?case by auto
next
  case (step y z)
  show ?case
  proof (cases "(x, n) \<in> (graph (put n v w))\<^sup>* \<and> (n, y) \<in> (graph (put n v w))\<^sup>*")
    case True
    with step(2) show ?thesis by (meson rtrancl.rtrancl_into_rtrancl)
  next
    case False
    then have "(x, y) \<in> (graph w)\<^sup>+" using step.IH by blast
    moreover have "(y, z) \<in> graph w \<or> y = n \<or> z = n" by (rule write_local[OF step(2)])
    moreover have "(x, y) \<in> (graph (put n v w))\<^sup>*" "(x, z) \<in> (graph (put n v w))\<^sup>*"
      using step(1,2) by (auto intro: trancl_into_rtrancl)
    ultimately show ?thesis using step(2) by (auto intro: trancl_into_trancl)
  qed
qed

lemma admitted_acyclic:
  assumes "sane w" "acyclic (graph w)" "admits n v w"
  shows "acyclic (graph (put n v w))"
  unfolding acyclic_def
proof (intro allI notI)
  fix x assume x: "(x, x) \<in> (graph (put n v w))\<^sup>+"
  then have "(x, x) \<notin> (graph w)\<^sup>+" using assms(2) by (simp add: acyclic_def)
  then have "(n, x) \<in> (graph (put n v w))\<^sup>*" using cycle_avoids[OF x] by blast
  with x admits_clean[OF assms(1)] assms(3) show False by blast
qed

text \<open>A refused write would have closed a cycle.\<close>

lemma refused_cycle:
  assumes "sane w" "\<not> admits n v w"
  shows "\<not> acyclic (graph (put n v w))"
  using admits_clean[OF assms(1)] assms(2) by (auto simp: acyclic_def)

fun admitted_all :: "('n \<times> 'v) list \<Rightarrow> 'w \<Rightarrow> bool" where
  "admitted_all [] w = True"
| "admitted_all ((n, v) # ws) w = (admits n v w \<and> admitted_all ws (put n v w))"

lemma admitted_all_acyclic:
  "sane w \<Longrightarrow> acyclic (graph w) \<Longrightarrow> admitted_all ws w \<Longrightarrow> acyclic (graph (fold (\<lambda>(n, v). put n v) ws w))"
proof (induction ws arbitrary: w)
  case (Cons x ws)
  then show ?case by (cases x) (auto simp: sane_write admitted_acyclic)
qed simp

end

lemma findCycleFrom_iff:
  "findCycleFrom n adj = None \<longleftrightarrow> (\<forall>b. (n, b) \<in> (edges adj)\<^sup>* \<longrightarrow> (b, b) \<notin> (edges adj)\<^sup>+)"
proof
  assume "findCycleFrom n adj = None"
  then show "\<forall>b. (n, b) \<in> (edges adj)\<^sup>* \<longrightarrow> (b, b) \<notin> (edges adj)\<^sup>+" using findCycleFrom_complete by blast
next
  assume none: "\<forall>b. (n, b) \<in> (edges adj)\<^sup>* \<longrightarrow> (b, b) \<notin> (edges adj)\<^sup>+"
  show "findCycleFrom n adj = None"
  proof (rule ccontr)
    assume "findCycleFrom n adj \<noteq> None"
    then obtain c where c: "findCycleFrom n adj = Some c" by blast
    from is_cycle_trancl[OF findCycleFrom_sound[OF c]] none show False using findCycleFrom_reachable[OF c] by blast
  qed
qed

text \<open>The two guards of the code provide the contract.\<close>

interpretation unified_door: guarded_graph unified_edges oset "\<lambda>i w W. assertNoUnifiedCycle i w W = None" "\<lambda>_. True"
  by unfold_locales
    (auto simp: unified_edges_write assertNoUnifiedCycle_def findCycleFrom_iff edges_buildUnifiedAdjacency)

interpretation deps_door: guarded_graph dep_edges oset "\<lambda>i w W. assertNoCycle i w W = None" "\<lambda>W. distinct (okeys W)"
  by unfold_locales
    (auto simp: dep_edges_write assertNoCycle_def findCycleFrom_iff edges_buildAdjacency)

lemma findUnifiedCycle_None: "findUnifiedCycle W = None \<longleftrightarrow> acyclic (unified_edges W)"
  by (simp add: findUnifiedCycle_def first_cycle_acyclic edges_buildUnifiedAdjacency)

lemma findDepCycle_None: "distinct (okeys W) \<Longrightarrow> findDepCycle W = None \<longleftrightarrow> acyclic (dep_edges W)"
  by (simp add: findDepCycle_def first_cycle_acyclic edges_buildAdjacency)

end
