(* ===== verification/Frontier.thy ===== *)
theory Frontier
  imports Dep_Graph Replay
begin

text \<open>
  \<open>src/state/frontier.mjs\<close>, \<open>src/runner/root-affinity.mjs\<close>, \<open>src/state/plan-pool.mjs\<close>: which items are ready
  to start, in which order, and which of them a worker may pull. An item is ready when it is at the
  step of the asked phase, nothing below it in its lineage is open and every dependency is resolved.
  The lineage walks recurse on fuel: each level marks one more item as seen, so one unit more than
  the view has items is enough.

  Priority and intent are integers when present, and \<open>deps\<close> is an array: the schema of a work item.
\<close>

section \<open>Resolved items\<close>

definition TAIL_RESOLVED_STATUSES :: "string list" where
  "TAIL_RESOLVED_STATUSES = [''delivered'', ''retrospective'', ''cleanup'', ''done'']"

definition LEGACY_CANCELED_STATUS :: string where
  "LEGACY_CANCELED_STATUS = ''wontfix''"

definition tail_resolved :: "obj \<Rightarrow> bool" where
  "tail_resolved w = (\<exists>s \<in> set TAIL_RESOLVED_STATUSES. oget w ''status'' = Some (JStr s))"

definition isCanceledStatus :: "obj option \<Rightarrow> bool" where
  "isCanceledStatus item = (case item of None \<Rightarrow> False
     | Some w \<Rightarrow> if tail_resolved w then False
         else if oget w ''statusCategory'' \<noteq> None then oget w ''statusCategory'' = Some (JStr ''canceled'')
         else oget w ''status'' = Some (JStr LEGACY_CANCELED_STATUS))"

definition isResolvedStatus :: "obj option \<Rightarrow> bool" where
  "isResolvedStatus item = (case item of None \<Rightarrow> False
     | Some w \<Rightarrow> if tail_resolved w then True else isCanceledStatus item)"

definition isTodoStatus :: "obj \<Rightarrow> bool" where
  "isTodoStatus w = (if oget w ''statusCategory'' \<noteq> None
     then oget w ''statusCategory'' = Some (JStr ''todo'') else oget w ''status'' = Some (JStr ''todo''))"

section \<open>Lineage\<close>

definition indexChildrenByParent :: "works \<Rightarrow> adjacency" where
  "indexChildrenByParent work = fold (\<lambda>(i, w) idx. case parent_of w of None \<Rightarrow> idx
     | Some p \<Rightarrow> oset p (lazyd (oget idx p) @ [i]) idx) work []"

fun open_below :: "nat \<Rightarrow> works \<Rightarrow> adjacency \<Rightarrow> string list \<Rightarrow> string list \<Rightarrow> (bool \<times> string list) option" where
  "open_below n work idx seen [] = Some (False, seen)"
| "open_below 0 work idx seen (c # cs) = None"
| "open_below (Suc n) work idx seen (c # cs) =
     (if c \<in> set seen then open_below (Suc n) work idx seen cs
      else case oget work c of
          None \<Rightarrow> open_below (Suc n) work idx (c # seen) cs
        | Some w \<Rightarrow>
            if \<not> isResolvedStatus (Some w) then Some (True, c # seen)
            else (case open_below n work idx (c # seen) (adj_of idx c) of
                None \<Rightarrow> None
              | Some (True, seen') \<Rightarrow> Some (True, seen')
              | Some (False, seen') \<Rightarrow> open_below (Suc n) work idx seen' cs))"

definition hasOpenDescendant :: "string \<Rightarrow> works \<Rightarrow> adjacency \<Rightarrow> bool" where
  "hasOpenDescendant i work idx =
     (case open_below (Suc (length work)) work idx [] (adj_of idx i) of Some (b, _) \<Rightarrow> b | None \<Rightarrow> False)"

fun root_walk :: "nat \<Rightarrow> works \<Rightarrow> string list \<Rightarrow> string \<Rightarrow> string option" where
  "root_walk 0 work seen cur = None"
| "root_walk (Suc n) work seen cur =
     (if cur \<in> set seen then Some cur
      else case Option.bind (oget work cur) parent_of of
          None \<Rightarrow> Some cur
        | Some p \<Rightarrow> if ohas work p then root_walk n work (cur # seen) p else Some cur)"

definition resolveRoot :: "works \<Rightarrow> string \<Rightarrow> string" where
  "resolveRoot work i = (case root_walk (length work + 2) work [] i of Some r \<Rightarrow> r | None \<Rightarrow> i)"

section \<open>The frontier and its order\<close>

definition int_field :: "string \<Rightarrow> obj \<Rightarrow> int option" where
  "int_field f w = (case oget w f of Some (JNum n) \<Rightarrow> Some n | _ \<Rightarrow> None)"

definition compareReadyOrder :: "obj \<Rightarrow> obj \<Rightarrow> int" where
  "compareReadyOrder a b =
     (let pa = int_field ''priority'' a; pb = int_field ''priority'' b;
          ia = int_field ''intent'' a; ib = int_field ''intent'' b
      in if pa \<noteq> pb then (case pa of None \<Rightarrow> 1 | Some x \<Rightarrow> (case pb of None \<Rightarrow> -1 | Some y \<Rightarrow> x - y))
         else if ia \<noteq> ib then (case ia of None \<Rightarrow> 1 | Some x \<Rightarrow> (case ib of None \<Rightarrow> -1 | Some y \<Rightarrow> y - x))
         else 0)"

definition deps_resolved :: "works \<Rightarrow> obj \<Rightarrow> bool" where
  "deps_resolved work w = list_all
     (\<lambda>d. isResolvedStatus (Option.bind (as_str (Some d)) (oget work))) (jarr_or (oget w ''deps'') [])"

definition at_step :: "registry \<Rightarrow> string \<Rightarrow> obj \<Rightarrow> bool" where
  "at_step ds phase w =
     (let d = getDomain ds (oget w ''domain''); phaseStep = stepForPhase d phase (oget w ''kind'');
          own = (if nullish (oget w ''workflowStep'') then map_option JStr (stepForPhase d ''execute'' (oget w ''kind''))
                 else oget w ''workflowStep'')
      in phaseStep \<noteq> None \<and> own = map_option JStr phaseStep)"

definition is_ready :: "registry \<Rightarrow> works \<Rightarrow> string \<Rightarrow> string \<Rightarrow> obj \<Rightarrow> bool" where
  "is_ready ds work phase i w = (isTodoStatus w \<and> at_step ds phase w
     \<and> \<not> hasOpenDescendant i work (indexChildrenByParent work) \<and> deps_resolved work w)"

definition frontier :: "registry \<Rightarrow> works \<Rightarrow> string \<Rightarrow> obj list" where
  "frontier ds work phase =
     js_sort compareReadyOrder (map snd (filter (\<lambda>(i, w). is_ready ds work phase i w) work))"

text \<open>The first item seen for an id stays (a \<open>Map\<close> that is never overwritten).\<close>

definition id_of :: "obj \<Rightarrow> string" where
  "id_of w = (case as_str (oget w ''id'') of Some i \<Rightarrow> i | None \<Rightarrow> [])"

fun dedupe_by_id :: "string list \<Rightarrow> obj list \<Rightarrow> obj list" where
  "dedupe_by_id seen [] = []"
| "dedupe_by_id seen (w # ws) =
     (if id_of w \<in> set seen then dedupe_by_id seen ws else w # dedupe_by_id (id_of w # seen) ws)"

definition frontierAcrossSteps :: "registry \<Rightarrow> works \<Rightarrow> string list \<Rightarrow> obj list" where
  "frontierAcrossSteps ds work phases =
     js_sort compareReadyOrder (dedupe_by_id [] (concat (map (frontier ds work) phases)))"

definition isDepsAndLineageReady :: "works \<Rightarrow> string \<Rightarrow> bool" where
  "isDepsAndLineageReady work i = (case oget work i of None \<Rightarrow> False
     | Some w \<Rightarrow> if hasOpenDescendant i work (indexChildrenByParent work) then False else deps_resolved work w)"

section \<open>The planning pool\<close>

definition isPlanCandidate :: "registry \<Rightarrow> works \<Rightarrow> obj \<Rightarrow> bool" where
  "isPlanCandidate ds work w =
     (let planStep = stepForPhase (getDomain ds (oget w ''domain'')) ''plan'' (oget w ''kind'')
      in oget w ''status'' = Some (JStr ''todo'') \<and> planStep \<noteq> None
         \<and> oget w ''workflowStep'' = map_option JStr planStep \<and> isDepsAndLineageReady work (id_of w))"

definition comparePlanningOrder :: "obj \<Rightarrow> obj \<Rightarrow> int" where
  "comparePlanningOrder a b =
     (let pa = int_field ''priority'' a; pb = int_field ''priority'' b
      in if pa \<noteq> pb then (case pa of None \<Rightarrow> 1 | Some x \<Rightarrow> (case pb of None \<Rightarrow> -1 | Some y \<Rightarrow> x - y)) else 0)"

definition pickNextPlanItem :: "registry \<Rightarrow> works \<Rightarrow> (string \<times> jval option) option" where
  "pickNextPlanItem ds work =
     (case js_sort comparePlanningOrder (filter (isPlanCandidate ds work) (map snd work)) of
        [] \<Rightarrow> None
      | w # _ \<Rightarrow> Some (id_of w, oget w ''workflowStep''))"

section \<open>Root affinity\<close>

type_synonym owners = "(string \<times> string) list"

datatype claim_decision = Claim_root string | Noop_root string | Reject_root string string

definition claimRoot :: "owners \<Rightarrow> works \<Rightarrow> string \<Rightarrow> string \<Rightarrow> claim_decision" where
  "claimRoot owners work i me =
     (let root = resolveRoot work i
      in case oget owners root of
           None \<Rightarrow> Claim_root root
         | Some cur \<Rightarrow> if cur = me then Noop_root root else Reject_root root cur)"

definition setOwner :: "string \<Rightarrow> string \<Rightarrow> owners \<Rightarrow> owners" where
  "setOwner root me owners = oset root me owners"

definition steerFrontier :: "obj list \<Rightarrow> works \<Rightarrow> owners \<Rightarrow> string \<Rightarrow> obj list" where
  "steerFrontier ready work owners me = filter (\<lambda>w.
     case oget owners (resolveRoot work (id_of w)) of None \<Rightarrow> True | Some cur \<Rightarrow> cur = me) ready"

section \<open>The comparators\<close>

interpretation ready_order: js_comparator compareReadyOrder
  by unfold_locales (auto simp: compareReadyOrder_def Let_def split: option.splits if_splits)

interpretation planning_order: js_comparator comparePlanningOrder
  by unfold_locales (auto simp: comparePlanningOrder_def Let_def split: option.splits if_splits)

section \<open>What the lineage walk decides\<close>

text \<open>The children relation of a work map, and what lies strictly below an item.\<close>

definition child_edges :: "works \<Rightarrow> (string \<times> string) set" where
  "child_edges work = {(p, c). \<exists>w. (c, w) \<in> set work \<and> parent_of w = Some p}"

lemma edges_indexChildrenByParent: "edges (indexChildrenByParent work) = child_edges work"
proof -
  have "edges (fold (\<lambda>(i, w) idx. case parent_of w of None \<Rightarrow> idx
     | Some p \<Rightarrow> oset p (lazyd (oget idx p) @ [i]) idx) work idx) = child_edges work \<union> edges idx" for idx
  proof (induction work arbitrary: idx)
    case Nil
    then show ?case by (simp add: child_edges_def)
  next
    case (Cons x work)
    obtain i w where x: "x = (i, w)" by (cases x)
    have "child_edges (x # work) = (case parent_of w of None \<Rightarrow> {} | Some p \<Rightarrow> {(p, i)}) \<union> child_edges work"
      by (auto simp: child_edges_def x split: option.split)
    then show ?case
      using Cons by (cases "parent_of w") (auto simp: x addEdge_edges[unfolded addEdge_def adj_of_def])
  qed
  then show ?thesis by (simp add: indexChildrenByParent_def edges_def adj_of_def)
qed

lemma open_below_cases:
  assumes "open_below (Suc n) work idx seen (c # cs) = Some (b, seen')"
  obtains (seen) "c \<in> set seen" "open_below (Suc n) work idx seen cs = Some (b, seen')"
  | (absent) "c \<notin> set seen" "oget work c = None" "open_below (Suc n) work idx (c # seen) cs = Some (b, seen')"
  | (open_) w where "c \<notin> set seen" "oget work c = Some w" "\<not> isResolvedStatus (Some w)" "b" "seen' = c # seen"
  | (below) w where "c \<notin> set seen" "oget work c = Some w" "isResolvedStatus (Some w)" "b"
      "open_below n work idx (c # seen) (adj_of idx c) = Some (True, seen')"
  | (closed) w s where "c \<notin> set seen" "oget work c = Some w" "isResolvedStatus (Some w)"
      "open_below n work idx (c # seen) (adj_of idx c) = Some (False, s)"
      "open_below (Suc n) work idx s cs = Some (b, seen')"
proof (cases "c \<in> set seen")
  case True
  with assms show ?thesis by (intro that(1)) simp_all
next
  case nin: False
  show ?thesis
  proof (cases "oget work c")
    case None
    with assms nin show ?thesis by (intro that(2)) simp_all
  next
    case (Some w)
    show ?thesis
    proof (cases "isResolvedStatus (Some w)")
      case False
      with assms nin Some show ?thesis by (intro that(3)[of w]) simp_all
    next
      case True
      obtain b1 s1 where r: "open_below n work idx (c # seen) (adj_of idx c) = Some (b1, s1)"
        using assms nin Some True by (cases "open_below n work idx (c # seen) (adj_of idx c)") auto
      show ?thesis
        using assms nin Some True r that(4)[of w] that(5)[of w s1] by (cases b1) simp_all
    qed
  qed
qed

lemma open_below_induct [consumes 1, case_names nil seen absent open_ below closed]:
  assumes "open_below n work idx seen cs = Some (b, seen')"
    and "\<And>n seen. P n seen [] False seen"
    and "\<And>n seen c cs b s'. c \<in> set seen \<Longrightarrow> P (Suc n) seen cs b s' \<Longrightarrow> P (Suc n) seen (c # cs) b s'"
    and "\<And>n seen c cs b s'. c \<notin> set seen \<Longrightarrow> oget work c = None \<Longrightarrow> P (Suc n) (c # seen) cs b s' \<Longrightarrow>
      P (Suc n) seen (c # cs) b s'"
    and "\<And>n seen c cs w. c \<notin> set seen \<Longrightarrow> oget work c = Some w \<Longrightarrow> \<not> isResolvedStatus (Some w) \<Longrightarrow>
      P (Suc n) seen (c # cs) True (c # seen)"
    and "\<And>n seen c cs w s'. c \<notin> set seen \<Longrightarrow> oget work c = Some w \<Longrightarrow> isResolvedStatus (Some w) \<Longrightarrow>
      P n (c # seen) (adj_of idx c) True s' \<Longrightarrow> P (Suc n) seen (c # cs) True s'"
    and "\<And>n seen c cs w s b s'. c \<notin> set seen \<Longrightarrow> oget work c = Some w \<Longrightarrow> isResolvedStatus (Some w) \<Longrightarrow>
      P n (c # seen) (adj_of idx c) False s \<Longrightarrow> P (Suc n) s cs b s' \<Longrightarrow> P (Suc n) seen (c # cs) b s'"
  shows "P n seen cs b seen'"
  using assms(1)
proof (induction n arbitrary: seen cs b seen')
  case 0
  then show ?case using assms(2) by (cases cs) auto
next
  case (Suc n)
  note outer = Suc.IH
  from Suc.prems show ?case
  proof (induction cs arbitrary: seen)
    case Nil
    then show ?case using assms(2) by auto
  next
    case (Cons c cs)
    from Cons.prems show ?case
    proof (cases rule: open_below_cases)
      case seen
      then show ?thesis using assms(3) Cons.IH by blast
    next
      case absent
      then show ?thesis using assms(4) Cons.IH by blast
    next
      case (open_ w)
      then show ?thesis using assms(5) by simp
    next
      case (below w)
      then show ?thesis using assms(6) outer by (metis (full_types))
    next
      case (closed w s)
      then show ?thesis using assms(7) Cons.IH outer by blast
    qed
  qed
qed

lemma open_below_seen: "open_below n work idx seen cs = Some (b, seen') \<Longrightarrow> set seen \<subseteq> set seen'"
  by (induction rule: open_below_induct) auto

text \<open>A positive answer names an open item below; a negative one leaves a closed set of resolved items.\<close>

lemma open_below_True:
  assumes "open_below n work idx seen cs = Some (b, seen')" "b"
  shows "\<exists>c \<in> set cs. \<exists>d w. (c, d) \<in> (edges idx)\<^sup>* \<and> oget work d = Some w \<and> \<not> isResolvedStatus (Some w)"
  using assms
proof (induction rule: open_below_induct)
  case (below n seen c cs w s')
  then obtain e d w' where "e \<in> set (adj_of idx c)" "(e, d) \<in> (edges idx)\<^sup>*" "oget work d = Some w'"
      "\<not> isResolvedStatus (Some w')" by auto
  moreover from this have "(c, d) \<in> (edges idx)\<^sup>*" by (auto simp: edges_def intro: converse_rtrancl_into_rtrancl)
  ultimately show ?case by auto
qed auto

definition closed_below :: "works \<Rightarrow> adjacency \<Rightarrow> string set \<Rightarrow> string set \<Rightarrow> bool" where
  "closed_below work idx base S = (\<forall>x \<in> S - base.
     (oget work x = None \<or> isResolvedStatus (oget work x) \<and> set (adj_of idx x) \<subseteq> S))"

lemma open_below_False:
  assumes "open_below n work idx seen cs = Some (b, seen')" "\<not> b"
  shows "set seen \<subseteq> set seen' \<and> set cs \<subseteq> set seen' \<and> closed_below work idx (set seen) (set seen')"
  using assms
proof (induction rule: open_below_induct)
  case (absent n seen c cs b s')
  then have *: "insert c (set seen) \<subseteq> set s'" "set cs \<subseteq> set s'"
      "closed_below work idx (insert c (set seen)) (set s')" by auto
  with absent(2) have "closed_below work idx (set seen) (set s')"
    unfolding closed_below_def by (metis Diff_iff insert_iff)
  with * show ?case by simp
next
  case (closed n seen c cs w s b s')
  then have sub: "insert c (set seen) \<subseteq> set s" "set (adj_of idx c) \<subseteq> set s" "set s \<subseteq> set s'" "set cs \<subseteq> set s'"
    and cl: "closed_below work idx (insert c (set seen)) (set s)" "closed_below work idx (set s) (set s')"
    by auto
  have "oget work x = None \<or> isResolvedStatus (oget work x) \<and> set (adj_of idx x) \<subseteq> set s'"
    if x: "x \<in> set s'" "x \<notin> set seen" for x
  proof -
    consider "x \<notin> set s" | "x = c" | "x \<in> set s" "x \<noteq> c" by blast
    then show ?thesis
    proof cases
      case 1
      with cl(2) x show ?thesis by (auto simp: closed_below_def)
    next
      case 2
      with closed(2,3) sub show ?thesis by auto
    next
      case 3
      then have "x \<in> set s - insert c (set seen)" using x by simp
      with cl(1) have "oget work x = None \<or> isResolvedStatus (oget work x) \<and> set (adj_of idx x) \<subseteq> set s"
        unfolding closed_below_def by blast
      with sub(3) show ?thesis by blast
    qed
  qed
  with sub show ?case by (auto simp: closed_below_def)
qed (auto simp: closed_below_def)

definition unseen :: "works \<Rightarrow> string list \<Rightarrow> nat" where
  "unseen work seen = card (set (okeys work) - set seen)"

lemma unseen_mono: "set s \<subseteq> set t \<Longrightarrow> unseen work t \<le> unseen work s"
  unfolding unseen_def by (rule card_mono) auto

lemma unseen_Cons:
  assumes "i \<in> set (okeys work)" "i \<notin> set seen"
  shows "unseen work seen = Suc (unseen work (i # seen))"
proof -
  have "set (okeys work) - set (i # seen) = set (okeys work) - set seen - {i}" by auto
  moreover have "Suc (card (set (okeys work) - set seen - {i})) = card (set (okeys work) - set seen)"
    by (rule card_Suc_Diff1) (use assms in auto)
  ultimately show ?thesis by (simp add: unseen_def)
qed

lemma unseen_le: "unseen work seen \<le> length work"
  unfolding unseen_def
  by (metis Diff_subset List.finite_set card_length card_mono le_trans length_map okeys_def)

lemma open_below_fuel: "unseen work seen < n \<Longrightarrow> open_below n work idx seen cs \<noteq> None"
proof (induction n arbitrary: seen cs)
  case (Suc n)
  note outer = Suc.IH
  from Suc.prems show ?case
  proof (induction cs arbitrary: seen)
    case (Cons c cs)
    note inner = Cons.IH
    have grow: "unseen work (c # seen) < Suc n" using Cons.prems unseen_mono[of seen "c # seen" work] by (simp add: subset_insertI)
    show ?case
    proof (cases "c \<in> set seen \<or> oget work c = None")
      case True
      then show ?thesis using inner[OF Cons.prems] inner[OF grow] by auto
    next
      case False
      then obtain w where w: "c \<notin> set seen" "oget work c = Some w" by auto
      have "unseen work (c # seen) < n" using unseen_Cons[OF oget_Some_key[OF w(2)] w(1)] Cons.prems by simp
      then have "open_below n work idx (c # seen) (adj_of idx c) \<noteq> None" by (rule outer)
      then obtain b s where r: "open_below n work idx (c # seen) (adj_of idx c) = Some (b, s)" by auto
      have "unseen work s < Suc n"
        using unseen_mono[of "c # seen" s work] open_below_seen[OF r] grow by simp
      from inner[OF this] show ?thesis using w r by (cases b) auto
    qed
  qed simp
qed simp

lemma hasOpenDescendant_iff:
  "hasOpenDescendant i work (indexChildrenByParent work) \<longleftrightarrow>
     (\<exists>d w. (i, d) \<in> (child_edges work)\<^sup>+ \<and> oget work d = Some w \<and> \<not> isResolvedStatus (Some w))"
proof -
  let ?idx = "indexChildrenByParent work"
  have "unseen work [] < Suc (length work)" using unseen_le[of work "[]"] by simp
  then obtain b seen where r: "open_below (Suc (length work)) work ?idx [] (adj_of ?idx i) = Some (b, seen)"
    using open_below_fuel by fastforce
  show ?thesis
  proof (cases b)
    case True
    then obtain c d w where "c \<in> set (adj_of ?idx i)" "(c, d) \<in> (edges ?idx)\<^sup>*" "oget work d = Some w"
        "\<not> isResolvedStatus (Some w)" using open_below_True[OF r] by blast
    moreover from this have "(i, d) \<in> (child_edges work)\<^sup>+"
      unfolding edges_indexChildrenByParent[symmetric] by (auto simp: edges_def intro: rtrancl_into_trancl2)
    ultimately show ?thesis using r True by (auto simp: hasOpenDescendant_def)
  next
    case False
    then have sub: "set (adj_of ?idx i) \<subseteq> set seen" and cl: "closed_below work ?idx {} (set seen)"
      using open_below_False[OF r] by auto
    have "d \<in> set seen" if "(i, d) \<in> (edges ?idx)\<^sup>+" for d
      using that
    proof (induction rule: trancl_induct)
      case (base d)
      then show ?case using sub by (auto simp: edges_def)
    next
      case (step x d)
      obtain y where "(y, x) \<in> child_edges work"
        using tranclD2[OF step(1)] by (auto simp: edges_indexChildrenByParent)
      then have "x \<in> set (okeys work)" by (force simp: child_edges_def okeys_def)
      then have "oget work x \<noteq> None" by (simp add: oget_None_iff)
      with step cl show ?case by (auto simp: closed_below_def edges_def)
    qed
    then have none: "oget work d = None \<or> isResolvedStatus (oget work d)" if "(i, d) \<in> (child_edges work)\<^sup>+" for d
      using that cl unfolding edges_indexChildrenByParent closed_below_def by blast
    have "\<not> (\<exists>d w. (i, d) \<in> (child_edges work)\<^sup>+ \<and> oget work d = Some w \<and> \<not> isResolvedStatus (Some w))"
      using none by (metis option.distinct(1))
    with r False show ?thesis by (simp add: hasOpenDescendant_def)
  qed
qed

section \<open>Roots\<close>

definition up :: "works \<Rightarrow> (string \<times> string) set" where
  "up work = {(c, p). Option.bind (oget work c) parent_of = Some p \<and> ohas work p}"

lemma up_fun: "(c, p) \<in> up work \<Longrightarrow> (c, q) \<in> up work \<Longrightarrow> p = q"
  by (simp add: up_def)

lemma up_child: "(c, p) \<in> up work \<Longrightarrow> (p, c) \<in> child_edges work"
  by (auto simp: up_def child_edges_def bind_eq_Some_conv oget_def dest: map_of_SomeD)

lemma child_unified: "child_edges work \<subseteq> unified_edges work"
proof
  fix e assume "e \<in> child_edges work"
  then obtain p c w where e: "e = (p, c)" and w: "(c, w) \<in> set work" "parent_of w = Some p"
    by (auto simp: child_edges_def)
  then have "(p, c, ''parent-child'') \<in> set (item_edges c w)" by (simp add: item_edges_def)
  with w(1) have "(p, c, ''parent-child'') \<in> set (buildUnifiedEdges work)"
    unfolding buildUnifiedEdges_def set_concat set_map by blast
  then show "e \<in> unified_edges work"
    unfolding unified_edges_def e by (rule rev_image_eqI) simp
qed

lemma acyclic_up:
  assumes "acyclic (unified_edges work)"
  shows "acyclic (up work)"
proof -
  have "up work \<subseteq> (unified_edges work)\<inverse>"
  proof
    fix e assume "e \<in> up work"
    then show "e \<in> (unified_edges work)\<inverse>"
      using up_child[of "fst e" "snd e" work] child_unified[of work] by (cases e) auto
  qed
  with assms show ?thesis by (metis acyclic_converse acyclic_subset)
qed

lemma root_walk_fuel: "unseen work seen < n \<Longrightarrow> root_walk n work seen cur \<noteq> None"
proof (induction n work seen cur rule: root_walk.induct)
  case (2 n work seen cur)
  show ?case
  proof (cases "cur \<in> set seen")
    case False
    show ?thesis
    proof (cases "Option.bind (oget work cur) parent_of")
      case (Some p)
      then have "cur \<in> set (okeys work)" by (auto simp: bind_eq_Some_conv dest: oget_Some_key)
      then have "unseen work (cur # seen) < n" using unseen_Cons[OF _ False] 2(2) by simp
      with 2(1)[OF False Some] Some False show ?thesis by simp
    qed (use False in simp)
  qed simp
qed simp

lemma root_walk_up:
  assumes "root_walk n work seen cur = Some r" "acyclic (up work)" "\<forall>x \<in> set seen. (x, cur) \<in> (up work)\<^sup>+"
  shows "(cur, r) \<in> (up work)\<^sup>* \<and> r \<notin> Domain (up work)"
  using assms
proof (induction n work seen cur rule: root_walk.induct)
  case (2 n work seen cur)
  have nin: "cur \<notin> set seen" using 2(3,4) by (auto simp: acyclic_def)
  show ?case
  proof (cases "Option.bind (oget work cur) parent_of")
    case None
    with 2(2) nin show ?thesis by (auto simp: up_def)
  next
    case (Some p)
    show ?thesis
    proof (cases "ohas work p")
      case True
      then have u: "(cur, p) \<in> up work" using Some by (simp add: up_def)
      then have "\<forall>x \<in> set (cur # seen). (x, p) \<in> (up work)\<^sup>+"
        using 2(4) by (auto intro: trancl_into_trancl)
      moreover have "root_walk n work (cur # seen) p = Some r" using 2(2) nin Some True by simp
      ultimately have "(p, r) \<in> (up work)\<^sup>* \<and> r \<notin> Domain (up work)"
        using 2(1)[OF nin Some True] 2(3) by blast
      with u show ?thesis by (auto intro: converse_rtrancl_into_rtrancl)
    next
      case False
      with 2(2) nin Some show ?thesis by (auto simp: up_def)
    qed
  qed
qed simp

text \<open>The root is where the parent chain of the item ends.\<close>

lemma resolveRoot_spec:
  assumes "acyclic (up work)"
  shows "(i, resolveRoot work i) \<in> (up work)\<^sup>* \<and> resolveRoot work i \<notin> Domain (up work)"
proof -
  have "unseen work [] < length work + 2" using unseen_le[of work "[]"] by simp
  then obtain r where "root_walk (length work + 2) work [] i = Some r" using root_walk_fuel by fastforce
  with root_walk_up[OF this assms] show ?thesis by (simp add: resolveRoot_def)
qed

lemma up_end_unique:
  assumes "(c, r) \<in> (up work)\<^sup>*" "r \<notin> Domain (up work)" "(c, s) \<in> (up work)\<^sup>*" "s \<notin> Domain (up work)"
  shows "r = s"
  using assms
proof (induction rule: converse_rtrancl_induct)
  case base
  then show ?case by (metis Domain.DomainI converse_rtranclE)
next
  case (step c p)
  from step(5) have "c = s \<or> (p, s) \<in> (up work)\<^sup>*"
    using step(1) up_fun by (metis converse_rtranclE)
  with step show ?case by blast
qed

lemma resolveRoot_up:
  assumes "acyclic (up work)" "(c, p) \<in> (up work)\<^sup>*"
  shows "resolveRoot work c = resolveRoot work p"
proof -
  have "(c, resolveRoot work p) \<in> (up work)\<^sup>*"
    using assms resolveRoot_spec by (meson rtrancl_trans)
  then show ?thesis using resolveRoot_spec[OF assms(1)] up_end_unique by blast
qed

section \<open>The frontier\<close>

lemma set_frontier: "set (frontier ds work phase) = {w. \<exists>i. (i, w) \<in> set work \<and> is_ready ds work phase i w}"
  by (force simp: frontier_def)

lemma dedupe_by_id_set: "set (dedupe_by_id seen ws) \<subseteq> set ws"
  by (induction seen ws rule: dedupe_by_id.induct) auto

lemma dedupe_by_id_distinct:
  "distinct (map id_of (dedupe_by_id seen ws)) \<and> id_of ` set (dedupe_by_id seen ws) \<inter> set seen = {}"
  by (induction seen ws rule: dedupe_by_id.induct) auto

lemma dedupe_by_id_covers: "w \<in> set ws \<Longrightarrow> id_of w \<in> set seen \<or> id_of w \<in> id_of ` set (dedupe_by_id seen ws)"
  by (induction seen ws rule: dedupe_by_id.induct) auto

section \<open>No deadlock\<close>

text \<open>An item no open item stands behind, in an acyclic blocking graph whose dependencies are known.\<close>

lemma unified_dep: "(i, w) \<in> set work \<Longrightarrow> d \<in> set (str_entries (oget w ''deps'')) \<Longrightarrow> (i, d) \<in> unified_edges work"
proof -
  assume a: "(i, w) \<in> set work" "d \<in> set (str_entries (oget w ''deps''))"
  then have "(i, d, ''blocks'') \<in> set (item_edges i w)" by (simp add: item_edges_def)
  then have "(i, d, ''blocks'') \<in> set (buildUnifiedEdges work)" using a(1) by (auto simp: buildUnifiedEdges_def intro!: bexI[of _ "(i, w)"])
  then show "(i, d) \<in> unified_edges work" unfolding unified_edges_def by (rule rev_image_eqI) simp
qed

lemma finite_unified: "finite (unified_edges work)"
  by (simp add: unified_edges_def)

lemma bottom_open:
  assumes "acyclic (unified_edges work)" "P i"
  shows "\<exists>j. P j \<and> (\<forall>k. (j, k) \<in> (unified_edges work)\<^sup>+ \<longrightarrow> \<not> P k)"
proof -
  have "acyclic ((unified_edges work)\<inverse>)" using assms(1) by simp
  then have "wf ((unified_edges work)\<inverse>)"
    using finite_unified by (intro finite_acyclic_wf) simp_all
  then have "wf (((unified_edges work)\<inverse>)\<^sup>+)" by (rule wf_trancl)
  then obtain j where "j \<in> Collect P" "\<And>k. (k, j) \<in> ((unified_edges work)\<inverse>)\<^sup>+ \<Longrightarrow> k \<notin> Collect P"
    using wfE_min[of _ i "Collect P"] assms(2) by blast
  then show ?thesis by (auto simp: trancl_converse)
qed

definition open_item :: "works \<Rightarrow> string \<Rightarrow> bool" where
  "open_item work i = (\<exists>w. oget work i = Some w \<and> \<not> isResolvedStatus (Some w))"

definition deps_known :: "string set \<Rightarrow> obj \<Rightarrow> bool" where
  "deps_known K w = list_all (\<lambda>d. \<exists>s. d = JStr s \<and> s \<in> K) (jarr_or (oget w ''deps'') [])"

definition known_deps :: "works \<Rightarrow> bool" where
  "known_deps work = (\<forall>i w. oget work i = Some w \<longrightarrow> deps_known (set (okeys work)) w)"

lemma deps_known_mono: "deps_known K w \<Longrightarrow> K \<subseteq> L \<Longrightarrow> deps_known L w"
  by (auto simp: deps_known_def list_all_iff)

lemma deps_known_cong: "oget w' ''deps'' = oget w ''deps'' \<Longrightarrow> deps_known K w' = deps_known K w"
  by (simp add: deps_known_def)

lemma validateDeps_known: "validateDeps w known = None \<Longrightarrow> deps_known (set known) w"
  by (auto simp: validateDeps_def known_targets_def deps_known_def jarr_or_def list_all_iff check_simps as_str_Some_iff
      split: option.splits)

lemma free_item:
  assumes "acyclic (unified_edges work)" "known_deps work" "open_item work i"
  shows "\<exists>j. open_item work j \<and> isDepsAndLineageReady work j"
proof -
  obtain j where j: "open_item work j" and below: "\<And>k. (j, k) \<in> (unified_edges work)\<^sup>+ \<Longrightarrow> \<not> open_item work k"
    using bottom_open[OF assms(1), of "open_item work"] assms(3) by blast
  obtain w where w: "oget work j = Some w" using j by (auto simp: open_item_def)
  then have mem: "(j, w) \<in> set work" by (auto simp: oget_def dest: map_of_SomeD)
  have "\<not> hasOpenDescendant j work (indexChildrenByParent work)"
  proof
    assume "hasOpenDescendant j work (indexChildrenByParent work)"
    then obtain d x where "(j, d) \<in> (child_edges work)\<^sup>+" "oget work d = Some x" "\<not> isResolvedStatus (Some x)"
      by (auto simp: hasOpenDescendant_iff)
    moreover from this have "(j, d) \<in> (unified_edges work)\<^sup>+" using child_unified trancl_mono by blast
    ultimately show False using below by (auto simp: open_item_def)
  qed
  moreover have "isResolvedStatus (Option.bind (as_str (Some d)) (oget work))" if d: "d \<in> set (jarr_or (oget w ''deps'') [])" for d
  proof -
    obtain s where s: "d = JStr s" "s \<in> set (okeys work)"
      using assms(2) w d by (fastforce simp: known_deps_def deps_known_def list_all_iff)
    then obtain x where x: "oget work s = Some x" by (metis oget_None_iff option.exhaust)
    have "s \<in> set (str_entries (oget w ''deps''))"
      using d s(1) by (cases "as_arr (oget w ''deps'')") (force simp: jarr_or_def str_entries_def map_filter_def)+
    then have "(j, s) \<in> (unified_edges work)\<^sup>+" using unified_dep[OF mem] by blast
    then show ?thesis using below x s(1) by (auto simp: open_item_def)
  qed
  ultimately have "isDepsAndLineageReady work j"
    by (simp add: isDepsAndLineageReady_def w deps_resolved_def list_all_iff)
  with j show ?thesis by blast
qed

end
