(* ===== verification/Status_Fsm.thy ===== *)
theory Status_Fsm
  imports Work_Schema
begin

text \<open>
  \<open>src/state/status-fsm.mjs\<close> and \<open>src/state/step-fsm.mjs\<close>: the transition table of the
  work status, the transition decision with its precondition and compare-and-set, the same decision
  one level up for the Workflow step, and the two machines as step relations. A decision returns the
  event for the store to append, or the error the source throws.

  \<open>checkDecisionQuestion\<close> (the template an \<open>ask\<close> must fill, src/state/decision-question.mjs)
  is the argument \<open>missing\<close>: the keys of the required parts a text does not fill.
\<close>

datatype fsm_error =
    Work_not_object
  | Work_id_missing
  | To_missing
  | Expected_mismatch
  | No_transition "string list"
  | Reason_required
  | Ask_required
  | Ask_incomplete "string list"
  | Answer_required

fun fsm_category :: "fsm_error \<Rightarrow> string" where
  "fsm_category Expected_mismatch = ''conflict''"
| "fsm_category Reason_required = ''validation''"
| "fsm_category Ask_required = ''validation''"
| "fsm_category (Ask_incomplete _) = ''validation''"
| "fsm_category Answer_required = ''validation''"
| "fsm_category _ = ''precondition''"

text \<open>The event a decision returns: its type and payload, before the store stamps it.\<close>

type_synonym raw_event = "string \<times> obj"

definition TRANSITIONS :: "(string \<times> string) list" where
  "TRANSITIONS =
    [(''backlog'', ''todo''),
     (''todo'', ''awaiting-approval''), (''todo'', ''blocked''), (''doing'', ''blocked''),
     (''blocked'', ''todo''), (''blocked'', ''awaiting-approval''), (''blocked'', ''delivered''),
     (''doing'', ''awaiting-approval''), (''doing'', ''todo''), (''doing'', ''delivered''),
     (''awaiting-approval'', ''delivered''), (''awaiting-approval'', ''todo''),
     (''awaiting-approval'', ''blocked''),
     (''delivered'', ''retrospective''), (''retrospective'', ''cleanup''), (''cleanup'', ''done''),
     (''cleanup'', ''blocked''),
     (''todo'', ''awaiting-human''), (''doing'', ''awaiting-human''), (''awaiting-human'', ''todo''),
     (''blocked'', ''wontfix''), (''todo'', ''wontfix''), (''doing'', ''wontfix''),
     (''awaiting-human'', ''wontfix'')]"

definition ALL_KEYS :: "string list" where
  "ALL_KEYS = [''happening'', ''cause'', ''options'', ''recommendation'', ''scope'']"

definition requiredPartsForStage :: "jval option \<Rightarrow> string list" where
  "requiredPartsForStage stage =
     (if stage \<in> {Some (JStr ''discovery''), Some (JStr ''exploring'')}
      then [''happening'', ''cause'', ''scope''] else ALL_KEYS)"

definition reasonRequired :: "string \<Rightarrow> string \<Rightarrow> bool" where
  "reasonRequired from to =
     ((from, to) \<in> {(''awaiting-approval'', ''todo''), (''awaiting-approval'', ''blocked''),
                     (''cleanup'', ''blocked'')})"

definition legal_edge :: "jval option \<Rightarrow> string \<Rightarrow> bool" where
  "legal_edge from to = (\<exists>e \<in> set TRANSITIONS. from = Some (JStr (fst e)) \<and> snd e = to)"

definition valid_targets :: "jval option \<Rightarrow> string list" where
  "valid_targets from = map snd (filter (\<lambda>e. from = Some (JStr (fst e))) TRANSITIONS)"

text \<open>The arguments of a transition that the caller supplies beside the item.\<close>

record fsm_args =
  fa_to :: "jval option"
  fa_expected :: "jval option"
  fa_reason :: "jval option"
  fa_ask :: "jval option"
  fa_answer :: "jval option"

fun trimmed :: "jval option \<Rightarrow> jval" where
  "trimmed (Some (JStr s)) = JStr (trim s)"
| "trimmed _ = JNull"

definition transitionWork ::
  "(string \<Rightarrow> string list \<Rightarrow> string list) \<Rightarrow> jval option \<Rightarrow> fsm_args \<Rightarrow> fsm_error + raw_event" where
  "transitionWork missing wv a =
     (case as_obj wv of
        None \<Rightarrow> Inl Work_not_object
      | Some w \<Rightarrow>
          if \<not> nonempty_str (oget w ''id'') then Inl Work_id_missing
          else (case as_str (fa_to a) of
            None \<Rightarrow> Inl To_missing
          | Some to \<Rightarrow>
            if to = [] then Inl To_missing
            else if fa_expected a \<noteq> None \<and> oget w ''status'' \<noteq> fa_expected a then Inl Expected_mismatch
            else if \<not> legal_edge (oget w ''status'') to then Inl (No_transition (valid_targets (oget w ''status'')))
            else let from = the (as_str (oget w ''status''));
                     required = requiredPartsForStage (oget w ''workflowStep'');
                     gaps = missing (the (as_str (fa_ask a))) required
              in guarded (first_err
                   [whenc (reasonRequired from to) (req (nonblank (fa_reason a)) Reason_required),
                    whenc (to = ''awaiting-human'') (first_err
                      [req (nonblank (fa_ask a)) Ask_required,
                       req (gaps = []) (Ask_incomplete gaps)]),
                    whenc (from = ''awaiting-human'') (req (nonblank (fa_answer a)) Answer_required)])
                 (Inr (''work.move'',
                   oset_opt ''answer'' (if from = ''awaiting-human'' then Some (trimmed (fa_answer a)) else None)
                  (oset_opt ''ask'' (if to = ''awaiting-human'' then Some (trimmed (fa_ask a)) else None)
                  (oset_opt ''reason'' (if reasonRequired from to then Some (trimmed (fa_reason a)) else None)
                     [(''id'', the (oget w ''id'')), (''from'', JStr from), (''to'', JStr to)]))))))"

definition transitionStep ::
  "registry \<Rightarrow> jval option \<Rightarrow> jval option \<Rightarrow> jval option \<Rightarrow> jval option \<Rightarrow> fsm_error + raw_event" where
  "transitionStep ds wv to expected verify =
     (case as_obj wv of
        None \<Rightarrow> Inl Work_not_object
      | Some w \<Rightarrow>
          if \<not> nonempty_str (oget w ''id'') then Inl Work_id_missing
          else if \<not> nonempty_str to then Inl To_missing
          else let d = getDomain ds (oget w ''domain''); from = effectiveStep w d
            in if expected \<noteq> None \<and> from \<noteq> expected then Inl Expected_mismatch
               else if \<not> isLegalStepMove d (oget w ''kind'') from to then Inl (No_transition [])
               else Inr (''work.step'',
                 oset_opt ''verify'' verify
                   [(''id'', the (oget w ''id'')), (''from'', the from), (''to'', the to)]))"

section \<open>What a decision accepts\<close>

lemma legal_edge_iff:
  "legal_edge v to \<longleftrightarrow> (\<exists>from. v = Some (JStr from) \<and> (from, to) \<in> set TRANSITIONS)"
  by (force simp: legal_edge_def)

lemma transition_endpoints:
  "(f, t) \<in> set TRANSITIONS \<Longrightarrow> f \<in> set STATUSES \<and> t \<in> set STATUSES"
  by (auto simp: TRANSITIONS_def STATUSES_def)

text \<open>The conditions under which a transition of an item is accepted, and the event it returns.\<close>

definition move_accepted ::
  "(string \<Rightarrow> string list \<Rightarrow> string list) \<Rightarrow> obj \<Rightarrow> fsm_args \<Rightarrow> string \<Rightarrow> string \<Rightarrow> bool" where
  "move_accepted missing w a from to \<longleftrightarrow>
     nonempty_str (oget w ''id'') \<and> oget w ''status'' = Some (JStr from) \<and> fa_to a = Some (JStr to)
     \<and> (fa_expected a = None \<or> fa_expected a = Some (JStr from))
     \<and> (from, to) \<in> set TRANSITIONS
     \<and> (reasonRequired from to \<longrightarrow> nonblank (fa_reason a))
     \<and> (to = ''awaiting-human'' \<longrightarrow> nonblank (fa_ask a)
          \<and> missing (the (as_str (fa_ask a))) (requiredPartsForStage (oget w ''workflowStep'')) = [])
     \<and> (from = ''awaiting-human'' \<longrightarrow> nonblank (fa_answer a))"

definition move_payload :: "obj \<Rightarrow> fsm_args \<Rightarrow> string \<Rightarrow> string \<Rightarrow> obj" where
  "move_payload w a from to =
     oset_opt ''answer'' (if from = ''awaiting-human'' then Some (trimmed (fa_answer a)) else None)
       (oset_opt ''ask'' (if to = ''awaiting-human'' then Some (trimmed (fa_ask a)) else None)
         (oset_opt ''reason'' (if reasonRequired from to then Some (trimmed (fa_reason a)) else None)
           [(''id'', the (oget w ''id'')), (''from'', JStr from), (''to'', JStr to)]))"

lemma transition_target_nonempty: "(f, t) \<in> set TRANSITIONS \<Longrightarrow> t \<noteq> []"
  by (auto simp: TRANSITIONS_def)

lemma transitionWork_Inr:
  "transitionWork missing (Some (JObj w)) a = Inr ev \<longleftrightarrow>
     (\<exists>from to. move_accepted missing w a from to \<and> ev = (''work.move'', move_payload w a from to))"
proof (cases "as_str (fa_to a)")
  case None
  then show ?thesis by (auto simp: transitionWork_def move_accepted_def)
next
  case (Some to)
  then have to: "fa_to a = Some (JStr to)" by (simp add: as_str_Some_iff)
  show ?thesis
  proof (cases "\<exists>from. oget w ''status'' = Some (JStr from) \<and> (from, to) \<in> set TRANSITIONS")
    case False
    then have "\<not> legal_edge (oget w ''status'') to" by (simp add: legal_edge_iff)
    with False to show ?thesis
      by (auto simp: transitionWork_def move_accepted_def)
  next
    case True
    then obtain fr where st: "oget w ''status'' = Some (JStr fr)"
      and tr: "(fr, to) \<in> set TRANSITIONS" by blast
    then have le: "legal_edge (oget w ''status'') to" by (auto simp: legal_edge_iff)
    have "to \<noteq> []" using tr by (rule transition_target_nonempty)
    with to st tr le show ?thesis
      by (auto simp: transitionWork_def move_accepted_def move_payload_def check_simps Let_def)
  qed
qed

lemma move_payload_fields [simp]:
  "oget (move_payload w a from to) ''id'' = Some (the (oget w ''id''))"
  "oget (move_payload w a from to) ''from'' = Some (JStr from)"
  "oget (move_payload w a from to) ''to'' = Some (JStr to)"
  "oget (move_payload w a from to) ''answer'' =
     (if from = ''awaiting-human'' then Some (trimmed (fa_answer a)) else None)"
  "oget (move_payload w a from to) ''ask'' =
     (if to = ''awaiting-human'' then Some (trimmed (fa_ask a)) else None)"
  "oget (move_payload w a from to) ''reason'' =
     (if reasonRequired from to then Some (trimmed (fa_reason a)) else None)"
  by (simp_all add: move_payload_def)

section \<open>The status machine\<close>

inductive status_step :: "string \<Rightarrow> string \<Rightarrow> bool" where
  edge: "(f, t) \<in> set TRANSITIONS \<Longrightarrow> status_step f t"

inductive_simps status_step_iff: "status_step f t"
inductive_cases status_stepE: "status_step f t"

lemma into_doing: "\<not> status_step f ''doing''"
  by (simp add: status_step_iff TRANSITIONS_def)

lemma into_backlog: "\<not> status_step f ''backlog''"
  by (simp add: status_step_iff TRANSITIONS_def)

lemma into_done: "status_step f ''done'' \<longleftrightarrow> f = ''cleanup''"
  by (auto simp: status_step_iff TRANSITIONS_def)

lemma into_cleanup: "status_step f ''cleanup'' \<longleftrightarrow> f = ''retrospective''"
  by (auto simp: status_step_iff TRANSITIONS_def)

lemma into_retrospective: "status_step f ''retrospective'' \<longleftrightarrow> f = ''delivered''"
  by (auto simp: status_step_iff TRANSITIONS_def)

lemma out_of_done: "\<not> status_step ''done'' t"
  by (simp add: status_step_iff TRANSITIONS_def)

lemma out_of_wontfix: "\<not> status_step ''wontfix'' t"
  by (simp add: status_step_iff TRANSITIONS_def)

text \<open>A history of statuses: each one follows from the one before by an edge of the table.\<close>

fun status_path :: "string list \<Rightarrow> bool" where
  "status_path [] = True"
| "status_path [s] = True"
| "status_path (s # t # ss) = ((s, t) \<in> set TRANSITIONS \<and> status_path (t # ss))"

lemma status_path_append_last:
  "status_path (ss @ [s, t]) \<longleftrightarrow> status_path (ss @ [s]) \<and> (s, t) \<in> set TRANSITIONS"
proof (induction ss)
  case Nil
  then show ?case by simp
next
  case (Cons u ss)
  then show ?case by (cases ss) auto
qed

lemma status_path_snoc: "status_path (ss @ [t]) \<Longrightarrow> ss \<noteq> [] \<Longrightarrow> status_step (last ss) t"
  by (cases ss rule: rev_cases) (auto simp: status_path_append_last intro: status_step.edge)

lemma status_path_prefix: "status_path (ss @ [t]) \<Longrightarrow> status_path ss"
  by (cases ss rule: rev_cases) (auto simp: status_path_append_last)

text \<open>The statuses after delivery form a chain: the one way into each is from the one before.\<close>

lemma chain_back:
  assumes "status_path ss" and "ss \<noteq> []" and "last ss = t" and "hd ss \<noteq> t"
    and "\<And>f. status_step f t \<Longrightarrow> f = s"
  shows "\<exists>pre. ss = pre @ [s, t] \<and> status_path (pre @ [s])"
proof -
  from assms(2,3) obtain us where us: "ss = us @ [t]" by (metis append_butlast_last_id)
  with assms(4) have ne: "us \<noteq> []" by (cases us) auto
  have "last us = s" using status_path_snoc[of us t] assms(1,5) us ne by simp
  with ne obtain pre where "us = pre @ [s]" by (metis append_butlast_last_id)
  with us assms(1) status_path_prefix[of us t] show ?thesis by auto
qed

lemma reach_not_into:
  assumes "status_step\<^sup>*\<^sup>* a b" and "\<And>f. \<not> status_step f t" and "a \<noteq> t"
  shows "b \<noteq> t"
  using assms(1,3) by (induction rule: rtranclp_induct) (auto simp: assms(2))

lemma reach_terminal:
  assumes "status_step\<^sup>*\<^sup>* a b" and "\<And>t. \<not> status_step a t"
  shows "b = a"
  using assms(1) by (induction rule: rtranclp_induct) (auto simp: assms(2))

section \<open>The step machine of the coding domain\<close>

definition coding_rank :: "string \<Rightarrow> nat" where
  "coding_rank s = (if s = ''discovery'' then 0 else if s = ''exploring'' then 1
     else if s = ''planning'' then 2 else if s = ''executing'' then 3 else 4)"

lemma transitionStep_Inr:
  "transitionStep ds (Some (JObj w)) to expected verify = Inr ev \<longleftrightarrow>
     nonempty_str (oget w ''id'') \<and> nonempty_str to
     \<and> (expected = None \<or> effectiveStep w (getDomain ds (oget w ''domain'')) = expected)
     \<and> isLegalStepMove (getDomain ds (oget w ''domain'')) (oget w ''kind'')
          (effectiveStep w (getDomain ds (oget w ''domain''))) to
     \<and> ev = (''work.step'', oset_opt ''verify'' verify
          [(''id'', the (oget w ''id'')),
           (''from'', the (effectiveStep w (getDomain ds (oget w ''domain'')))), (''to'', the to)])"
  by (auto simp: transitionStep_def Let_def)

end
