(* ===== verification/Store.thy ===== *)
theory Store
  imports Team Claims Frontier Status_Fsm
begin

text \<open>
  \<open>src/state/store.mjs\<close>: the single write door of the work log, and the batch it commits
  (\<open>src/state/work-event-store.mjs\<close>, \<open>src/state/consumer-event-gate.mjs\<close>). A door runs on
  the folded view under the state lock and returns the events to append, or the error it throws, in
  which case nothing is written. A batch gets the preconditions its writer decided on, is appended to
  the log and folded into the view.

  What the doors ask of the outside is the record \<open>ports\<close>: the decision-question template, the
  file-system half of the evidence check, the digest of an item (its revision), the branch tip read
  inside the lock, the identity of the writer and the clock. A batch is appended by the event store,
  which gives each event its place in the log, the envelope.
\<close>

datatype store_error =
    Validation string
  | Precondition string
  | Conflict string
  | Fsm_failed fsm_error
  | Work_invalid work_error
  | Knowledge_invalid know_error
  | Call_failed call_error
  | Claim_failed claim_error
  | Catch_up_required
  | Plan_evidence_stale

record ports =
  pt_missing :: "string \<Rightarrow> string list \<Rightarrow> string list"
  pt_traceable :: "obj \<Rightarrow> work_error option"
  pt_revision :: "obj \<Rightarrow> string"
  pt_tip :: "string \<Rightarrow> string option"
  pt_writer :: obj
  pt_writerId :: string        \<comment> \<open>\<open>String(writer.id)\<close>\<close>
  pt_mainWriterId :: string    \<comment> \<open>the same, resolved for the main checkout\<close>
  pt_now :: jval

section \<open>Committing a batch\<close>

text \<open>
  \<open>prepareEvents\<close>: existence rides every work event, the status an item must still hold only the
  events that move it; \<open>decided\<close> is what the earlier events of the batch made of an item.
\<close>

definition decided_of :: "view \<Rightarrow> (string \<times> bool \<times> jval option) list \<Rightarrow> string \<Rightarrow> bool \<times> jval option" where
  "decided_of v decided i = (case oget decided i of
       Some c \<Rightarrow> c
     | None \<Rightarrow> (oget (v_work v) i \<noteq> None, status_of (oget (v_work v) i)))"

definition is_work_event :: "raw_event \<Rightarrow> bool" where
  "is_work_event r = (take 5 (fst r) = ''work.'' \<and> nonempty_str (oget (snd r) ''id'') \<and> fst r \<noteq> ''work.discovery'')"

definition with_precondition :: "bool \<times> jval option \<Rightarrow> raw_event \<Rightarrow> raw_event" where
  "with_precondition current r =
     (let condition = odel ''expectedStatus'' (lazyd (as_obj (oget (snd r) ''precondition'')));
          c1 = oset ''exists'' (JBool (fst current)) condition;
          c2 = (if fst r = ''work.move'' \<and> fst current then oset_opt ''expectedStatus'' (snd current) c1 else c1)
      in (fst r, oset ''precondition'' (JObj c2) (snd r)))"

definition decide :: "bool \<times> jval option \<Rightarrow> raw_event \<Rightarrow> bool \<times> jval option" where
  "decide current r =
     (if fst r = ''work.add'' then (True, oget (snd r) ''status'')
      else if fst r = ''work.move'' \<and> fst current then (fst current, oget (snd r) ''to'')
      else current)"

fun prepareEvents :: "view \<Rightarrow> (string \<times> bool \<times> jval option) list \<Rightarrow> raw_event list \<Rightarrow> raw_event list" where
  "prepareEvents v decided [] = []"
| "prepareEvents v decided (r # rs) =
     (if is_work_event r
      then let i = pkey (snd r); current = decided_of v decided i
           in with_precondition current r # prepareEvents v (oset i (decide current r) decided) rs
      else r # prepareEvents v decided rs)"

record envelope =
  en_origin :: string
  en_seq :: "nat \<Rightarrow> int"
  en_seen :: "(string \<times> int) list"
  en_ts :: jval
  en_h :: "nat \<Rightarrow> string"

definition appended :: "envelope \<Rightarrow> raw_event list \<Rightarrow> event list" where
  "appended en rs = map (\<lambda>(k, ty, p). \<lparr>e_type = ty, e_payload = p, e_ts = en_ts en, e_v = Some (JNum 4),
       e_origin = Some (en_origin en), e_stream = Some ''project'', e_seq = Some (en_seq en k),
       e_seen = en_seen en, e_h = Some (en_h en k)\<rparr>) (enumerate 0 rs)"

definition commit :: "registry \<Rightarrow> envelope \<Rightarrow> view \<Rightarrow> raw_event list \<Rightarrow> replay_error + view" where
  "commit ds en v rs = foldEvents ds v (appended en (prepareEvents v [] rs))"

section \<open>Adding and editing\<close>

text \<open>\<open>if (x !== undefined) item.k = x\<close> on a string the domain declares.\<close>

definition stamp_str :: "string \<Rightarrow> string option \<Rightarrow> obj \<Rightarrow> obj" where
  "stamp_str k s ob = oset_opt k (map_option JStr s) ob"

definition status_text :: "jval option \<Rightarrow> string" where
  "status_text s = (case as_str s of None \<Rightarrow> [] | Some t \<Rightarrow> t)"

definition normalized_item :: "obj \<Rightarrow> obj" where
  "normalized_item work = oput ''title'' (truncateTitle (oget work ''title''))
     (oset ''size'' (or_else (oget work ''size'') (the (oget WORK_DEFAULTS ''size''))) work)"

definition new_item :: "registry \<Rightarrow> ports \<Rightarrow> obj \<Rightarrow> obj" where
  "new_item ds pt work =
     (let item = normalized_item work;
          d = getDomain ds (oget item ''domain'');
          s = status_text (oget item ''status'')
      in oset ''writer'' (JObj (pt_writer pt)) (stamp_str ''parkReason'' (parkReasonForStatus d s)
           (stamp_str ''statusCategory'' (statusCategoryFor d s) item)))"

text \<open>The two cycle guards, in the order the doors call them.\<close>

definition cycle_errors :: "string \<Rightarrow> obj \<Rightarrow> works \<Rightarrow> store_error option" where
  "cycle_errors i w work = first_err
     [map_option (\<lambda>c. Work_invalid (Dependency_cycle c)) (assertNoCycle i w work),
      map_option (\<lambda>c. Work_invalid (Graph_cycle c)) (assertNoUnifiedCycle i w work)]"

definition addWork :: "registry \<Rightarrow> ports \<Rightarrow> view \<Rightarrow> obj \<Rightarrow> store_error + raw_event list" where
  "addWork ds pt v work =
     (let item = normalized_item work;
          d = getDomain ds (oget item ''domain'')
      in guarded (first_err
           [req (oget (v_work v) (pkey work) = None) (Validation ''already exists''),
            map_option Work_invalid (validateWork ds (Some (JObj item)) (Some (okeys (v_work v))) None),
            map_option Work_invalid (validateDomainFields item d),
            map_option Work_invalid (pt_traceable pt item),
            cycle_errors (pkey item) item (v_work v)])
          (Inr [(''work.add'', new_item ds pt work)]))"

definition EDITABLE_FIELDS :: "string list" where
  "EDITABLE_FIELDS = [''title'', ''description'', ''kind'', ''risk'', ''verify'', ''size'', ''rigor'', ''refs'',
     ''deps'', ''acceptance'', ''priority'', ''intent'', ''docsRef'', ''parent'', ''urgent'', ''impact'', ''effort'',
     ''footprint'', ''action'', ''mergeAfter'', ''supersededBy'', ''duplicates'', ''domainFields'', ''goalTier'',
     ''nextOperation'', ''secondaryOperation'', ''workflowRunId'']"

definition normalized_patch :: "obj \<Rightarrow> obj" where
  "normalized_patch patch = (case oget patch ''title'' of
       Some (JStr t) \<Rightarrow> oset ''title'' (JStr (truncate_text t)) patch
     | _ \<Rightarrow> patch)"

definition validateWorkPatch ::
  "registry \<Rightarrow> ports \<Rightarrow> view \<Rightarrow> string \<Rightarrow> jval option \<Rightarrow> jval option \<Rightarrow> store_error + obj" where
  "validateWorkPatch ds pt v i patchv role =
     (case oget (v_work v) i of
        None \<Rightarrow> Inl (Validation ''not found'')
      | Some work \<Rightarrow>
          let patch = lazyd (as_obj patchv); np = normalized_patch patch; candidate = omerge work np;
              fields = okeys patch
          in guarded (first_err
               [req (as_obj patchv \<noteq> None \<and> patch \<noteq> []) (Validation ''at least one field''),
                req (set fields \<subseteq> set EDITABLE_FIELDS) (Validation ''not editable''),
                req (oget patch ''kind'' = None \<or> oget work ''status'' = Some (JStr ''todo'')) (Validation ''kind''),
                map_option Work_invalid
                  (validateWork ds (Some (JObj candidate)) (Some (okeys (v_work v))) (Some fields)),
                whenc (''domainFields'' \<in> set fields) (map_option Work_invalid
                  (validateDomainFields candidate (getDomain ds (oget candidate ''domain'')))),
                whenc (''acceptance'' \<in> set fields) (map_option Work_invalid (pt_traceable pt candidate)),
                cycle_errors (pkey candidate) candidate (v_work v)])
             (Inr (oset ''writer'' (JObj (pt_writer pt)) (oset_opt ''role'' role
               [(''id'', JStr i), (''patch'', JObj np)]))))"

definition editWork ::
  "registry \<Rightarrow> ports \<Rightarrow> view \<Rightarrow> string \<Rightarrow> jval option \<Rightarrow> jval option \<Rightarrow> store_error + raw_event list" where
  "editWork ds pt v i patchv role =
     e_bind (validateWorkPatch ds pt v i patchv role) (\<lambda>p. Inr [(''work.edit'', p)])"

section \<open>Park reasons, focus, learning\<close>

definition resolveParkReason ::
  "ports \<Rightarrow> view \<Rightarrow> string \<Rightarrow> jval option \<Rightarrow> jval option \<Rightarrow> store_error + raw_event list" where
  "resolveParkReason pt v i note role =
     (case oget (v_work v) i of
        None \<Rightarrow> Inl (Validation ''not found'')
      | Some work \<Rightarrow> guarded (first_err
          [req (nonblank note) (Validation ''note''),
           req (one_of (oget work ''status'') [''done'', ''wontfix'']) (Validation ''not terminal''),
           req (role = None \<or> one_of role [''human'', ''session'']) (Validation ''role'')])
          (Inr [(''work.resolve-park-reason'', oset ''writer'' (JObj (pt_writer pt)) (oset_opt ''role'' role
             [(''id'', JStr i), (''note'', trimmed note)]))]))"

definition setFocus :: "view \<Rightarrow> string \<Rightarrow> jval option \<Rightarrow> store_error + raw_event list" where
  "setFocus v i role =
     (case oget (v_work v) i of
        None \<Rightarrow> Inl (Validation ''not found'')
      | Some work \<Rightarrow> if one_of (oget work ''goalTier'') GOAL_TIERS
          then Inr [(''goal.focus'', oset_opt ''role'' role [(''id'', JStr i)])]
          else Inl (Validation ''no declared goal tier''))"

text \<open>How many settlements of each kind and role an item closes with. A role is a string or absent.\<close>

definition settlement_key :: "obj \<Rightarrow> string" where
  "settlement_key rec = status_text (oget rec ''kind'') @ ''/''
     @ (case as_str (oget rec ''role'') of None \<Rightarrow> ''unknown'' | Some r \<Rightarrow> r)"

definition count_settlement :: "obj \<Rightarrow> (string \<times> jval) list \<Rightarrow> (string \<times> jval) list" where
  "count_settlement rec m = oset (settlement_key rec)
     (JNum ((case oget m (settlement_key rec) of Some (JNum n) \<Rightarrow> n | _ \<Rightarrow> 0) + 1)) m"

definition composeLearning :: "view \<Rightarrow> string \<Rightarrow> obj \<Rightarrow> obj" where
  "composeLearning v i closing =
     (let actual = oget (lazyd (oget (lazyd (v_outcomes v)) i)) ''actual'';
          field = (\<lambda>k. or_null (oget (lazyd (as_obj actual)) k));
          outcome = (if truthy actual
            then JObj [(''disposition'', field ''outcome''), (''attempts'', field ''attempts''),
                       (''errorClass'', field ''errorClass'')]
            else JNull);
          records = lazyd (oget (lazyd (v_settlements v)) i) @ [closing]
      in [(''outcome'', outcome), (''settlements'', JObj (fold count_settlement records []))])"

section \<open>The gates of a delivery\<close>

definition clause_open :: "jval \<Rightarrow> bool" where
  "clause_open c = (nonblank (oget (lazyd (as_obj (Some c))) ''text'')
     \<and> \<not> nonblank (oget (lazyd (as_obj (Some c))) ''evidence''))"

definition assertAcceptanceEvidence :: "obj \<Rightarrow> store_error option" where
  "assertAcceptanceEvidence work = (case as_arr (oget work ''acceptance'') of
       None \<Rightarrow> None
     | Some clauses \<Rightarrow> first_err (map (\<lambda>c. req (\<not> clause_open c) (Precondition ''no evidence'')) clauses))"

text \<open>
  What the plan gate needs from git, taken before the lock: the item's revision and branch tip it was
  judged against, and whether the plan was missing.
\<close>

record plan_snapshot =
  ps_revision :: string
  ps_tip :: "string option"
  ps_failure :: bool

definition applyPlanEvidenceSnapshot ::
  "ports \<Rightarrow> plan_snapshot option \<Rightarrow> string \<Rightarrow> obj \<Rightarrow> store_error option" where
  "applyPlanEvidenceSnapshot pt snapshot i work =
     (if oget work ''risk'' \<noteq> Some (JStr ''heavy'') then None
      else (case snapshot of
          None \<Rightarrow> Some Plan_evidence_stale
        | Some s \<Rightarrow>
            if ps_revision s \<noteq> pt_revision pt work \<or> ps_tip s \<noteq> pt_tip pt (''fgw/'' @ i)
            then Some Plan_evidence_stale
            else if ps_failure s then Some (Precondition ''no plan.md'') else None))"

definition LAND_SETTLEMENT_KEYS :: "string list" where
  "LAND_SETTLEMENT_KEYS = [''repoIdentity'', ''operationId'', ''settlementKind'']"

definition sameLandSettlement :: "jval option \<Rightarrow> obj \<Rightarrow> bool" where
  "sameLandSettlement recorded wanted =
     list_all (\<lambda>k. oget (lazyd (as_obj recorded)) k = oget wanted k) LAND_SETTLEMENT_KEYS"

definition land_checks :: "obj \<Rightarrow> store_error option" where
  "land_checks a =
     (let ids = oget a ''landOperationIds''; land = oget a ''landSettlement''; lo = lazyd (as_obj land)
      in first_err
        [whenc (ids \<noteq> None) (req (oget a ''to'' = Some (JStr ''blocked'')
             \<and> (case as_arr ids of None \<Rightarrow> False | Some xs \<Rightarrow> xs \<noteq> [] \<and> list_all (\<lambda>x. nonempty_str (Some x)) xs))
           (Validation ''landOperationIds'')),
         whenc (land \<noteq> None) (req (oget a ''to'' = Some (JStr ''delivered'')
             \<and> oget lo ''settlementKind'' = Some (JStr ''delivered'')
             \<and> nonempty_str (oget lo ''repoIdentity'') \<and> nonempty_str (oget lo ''operationId''))
           (Validation ''landSettlement''))])"

text \<open>The earlier delivery of the same settlement, searched in the events that took effect.\<close>

definition prior_settlement :: "event list \<Rightarrow> view \<Rightarrow> obj \<Rightarrow> event option" where
  "prior_settlement es v wanted = List.find (\<lambda>e. e_type e = ''work.move''
     \<and> sameLandSettlement (oget (e_payload e) ''landSettlement'') wanted) (appliedEvents es v)"

section \<open>Moving an item\<close>

text \<open>
  The arguments of a move are the object the caller passes; a move answers with the batch to append or,
  for a land settlement already recorded, the event that recorded it.
\<close>

datatype move_outcome =
    Replayed event
  | Batch "raw_event list"

definition fsm_args_of :: "obj \<Rightarrow> fsm_args" where
  "fsm_args_of a = \<lparr>fa_to = oget a ''to'', fa_expected = oget a ''expectedStatus'', fa_reason = oget a ''reason'',
     fa_ask = oget a ''ask'', fa_answer = oget a ''answer''\<rparr>"

definition stamp_status :: "registry \<Rightarrow> obj \<Rightarrow> obj \<Rightarrow> obj \<Rightarrow> obj" where
  "stamp_status ds work a p =
     (let d = getDomain ds (oget work ''domain''); to = status_text (oget a ''to'')
      in stamp_str ''parkReason'' (parkReasonForStatus d to)
           (stamp_str ''statusCategory'' (statusCategoryFor d to) p))"

definition stamped_move :: "registry \<Rightarrow> ports \<Rightarrow> view \<Rightarrow> obj \<Rightarrow> obj \<Rightarrow> obj \<Rightarrow> obj" where
  "stamped_move ds pt v work a p =
     (let p1 = stamp_status ds work a (oset_opt ''role'' (oget a ''role'') p);
          p2 = copy_keys [''headAtTake'', ''headAtReturn'', ''branchHeadAtTake'', ''branchHeadAtReturn'', ''mergedSha'',
                 ''mergedInto'', ''landSettlement'', ''landOperationIds'', ''claimTrigger'', ''parentSnapshotAtAsk''] a
                 (oset ''writer'' (JObj (pt_writer pt)) p1);
          p3 = (if oget a ''to'' = Some (JStr ''awaiting-human'')
                then oset_opt ''durableStatusAtAsk'' (oget work ''status'')
                       (oset_opt ''statusAtAsk'' (oget a ''statusAtAsk'') p2) else p2);
          p4 = copy_keys [''rationale'', ''alternatives'', ''source'', ''askSource''] a p3;
          p5 = (if oget a ''approved'' = Some (JBool True) then oset ''approved'' (JBool True) p4 else p4);
          p6 = oset_opt ''releaseTrigger'' (oget a ''releaseTrigger'') p5
      in if oget a ''to'' = Some (JStr ''done'')
         then oset ''learning'' (JObj (composeLearning v (pkey a)
                [(''kind'', JStr ''close''), (''role'', or_null (oget a ''role''))])) p6
         else p6)"

text \<open>The review hand-off that rides a move into \<open>awaiting-approval\<close>; an edge that is refused is skipped.\<close>

definition review_handoff :: "registry \<Rightarrow> ports \<Rightarrow> view \<Rightarrow> obj \<Rightarrow> string \<Rightarrow> raw_event list" where
  "review_handoff ds pt v work i =
     (if roleGraphFor (getDomain ds (oget work ''domain'')) = None then []
      else case callEvent ds (JObj (pt_writer pt)) v i ''reviewer'' ''review''
          (Some (JStr ''auto-fired on reaching awaiting-approval (tsk-2t9c D18)'')) None 0 of
        Inl _ \<Rightarrow> [] | Inr e \<Rightarrow> [e])"

text \<open>
  A caller's override is judged against the item as the transaction sees it, the active claim included;
  the decision it records precedes the move in the batch.
\<close>

definition judged ::
  "(obj \<Rightarrow> store_error + obj option) option \<Rightarrow> claims \<Rightarrow> string \<Rightarrow> obj \<Rightarrow> store_error + raw_event list" where
  "judged engineDecision cs i work =
     (case engineDecision of
        None \<Rightarrow> Inr []
      | Some judge \<Rightarrow>
          e_bind (case readClaims cs of Inl e \<Rightarrow> Inl (Claim_failed e) | Inr m \<Rightarrow> Inr (overlay (oget m i) work)) (\<lambda>seen.
          e_bind (judge seen) (\<lambda>decision. Inr (case decision of
              None \<Rightarrow> []
            | Some d \<Rightarrow> [(''decision'', oset ''source'' (JStr ''session'') (oset ''kind'' (JStr ''engine'')
                (omerge [(''id'', JStr i)] d)))]))))"

definition fsm_move :: "ports \<Rightarrow> obj \<Rightarrow> obj \<Rightarrow> store_error + obj" where
  "fsm_move pt work a = (case transitionWork (pt_missing pt) (Some (JObj work)) (fsm_args_of a) of
     Inl e \<Rightarrow> Inl (Fsm_failed e) | Inr r \<Rightarrow> Inr (snd r))"

definition delivery_gate :: "ports \<Rightarrow> plan_snapshot option \<Rightarrow> obj \<Rightarrow> obj \<Rightarrow> store_error option" where
  "delivery_gate pt snapshot a work = whenc (oget a ''to'' = Some (JStr ''delivered''))
     (first_err [assertAcceptanceEvidence work, applyPlanEvidenceSnapshot pt snapshot (pkey a) work])"

definition move_batch ::
  "registry \<Rightarrow> ports \<Rightarrow> (obj \<Rightarrow> store_error + obj option) option \<Rightarrow> view \<Rightarrow> claims \<Rightarrow> plan_snapshot option \<Rightarrow>
     obj \<Rightarrow> obj \<Rightarrow> store_error + raw_event list" where
  "move_batch ds pt engineDecision v cs snapshot a work =
     e_bind (judged engineDecision cs (pkey a) work) (\<lambda>decision.
     e_bind (fsm_move pt work a) (\<lambda>p.
     guarded (delivery_gate pt snapshot a work)
       (Inr (decision @ [(''work.move'', stamped_move ds pt v work a p)]
          @ (if oget a ''to'' = Some (JStr ''awaiting-approval'')
             then review_handoff ds pt v work (pkey a) else [])))))"

definition moveWorkOnce ::
  "registry \<Rightarrow> ports \<Rightarrow> (obj \<Rightarrow> store_error + obj option) option \<Rightarrow> event option \<Rightarrow> view \<Rightarrow> claims \<Rightarrow>
     plan_snapshot option \<Rightarrow> obj \<Rightarrow> store_error + move_outcome" where
  "moveWorkOnce ds pt engineDecision prior v cs snapshot a =
     (let land = oget a ''landSettlement'';
          move = (case oget (v_work v) (pkey a) of
                    None \<Rightarrow> Inl (Validation ''not found'')
                  | Some work \<Rightarrow> e_bind (move_batch ds pt engineDecision v cs snapshot a work) (\<lambda>rs. Inr (Batch rs)))
      in guarded (land_checks a)
        (if land = None then move
         else (case prior of
             Some e \<Rightarrow>
               if oget (e_payload e) ''id'' \<noteq> oget a ''id'' \<or> oget (e_payload e) ''mergedSha'' \<noteq> oget a ''mergedSha''
                  \<or> oget (e_payload e) ''mergedInto'' \<noteq> oget a ''mergedInto''
               then Inl (Conflict ''bound to a different delivery'') else Inr (Replayed e)
           | None \<Rightarrow>
               if list_ex (\<lambda>(_, w). sameLandSettlement (oget w ''landSettlement'') (lazyd (as_obj land))) (v_work v)
               then Inl Catch_up_required else move)))"

text \<open>
  \<open>moveWork\<close>: a delivery takes its plan snapshot outside the lock and tries again, three times in all,
  when the item or its branch moved in between; \<open>attempt k\<close> is the outcome of the k-th try.
\<close>

fun plan_attempts :: "nat \<Rightarrow> (nat \<Rightarrow> store_error + 'r) \<Rightarrow> nat \<Rightarrow> store_error + 'r" where
  "plan_attempts 0 attempt k = Inl (Conflict ''plan evidence kept changing'')"
| "plan_attempts (Suc n) attempt k = (case attempt k of
       Inl Plan_evidence_stale \<Rightarrow> plan_attempts n attempt (Suc k)
     | r \<Rightarrow> r)"

definition moveWork :: "jval option \<Rightarrow> (nat \<Rightarrow> store_error + 'r) \<Rightarrow> store_error + 'r" where
  "moveWork to attempt = (if to \<noteq> Some (JStr ''delivered'') then attempt 0 else plan_attempts 3 attempt 0)"

text \<open>
  After a delivery: one return per open call, deepest first, each its own transaction, until none is
  open or one is refused. A return closes one call, so the number of open calls is enough fuel.
\<close>

fun close_calls :: "registry \<Rightarrow> ports \<Rightarrow> (nat \<Rightarrow> envelope) \<Rightarrow> string \<Rightarrow> nat \<Rightarrow> view \<Rightarrow> view" where
  "close_calls ds pt en i 0 v = v"
| "close_calls ds pt en i (Suc n) v =
     (if openCallStack (thread_of v i) = [] then v
      else case recordCallReturn (JObj (pt_writer pt)) v i (Some (JStr ''auto-closed at delivered (tsk-2t9c D16)'')) of
        Inl _ \<Rightarrow> v
      | Inr r \<Rightarrow> (case commit ds (en n) v [r] of Inl _ \<Rightarrow> v | Inr v' \<Rightarrow> close_calls ds pt en i n v'))"

definition after_delivery :: "registry \<Rightarrow> ports \<Rightarrow> (nat \<Rightarrow> envelope) \<Rightarrow> string \<Rightarrow> view \<Rightarrow> view" where
  "after_delivery ds pt en i v =
     (if roleGraphFor (getDomain ds (Option.bind (oget (v_work v) i) (\<lambda>w. oget w ''domain''))) = None then v
      else close_calls ds pt en i (length (openCallStack (thread_of v i))) v)"

section \<open>Settling a claim\<close>

definition SIDE_LOG_ONLY_EVENT_TYPES :: "string list" where
  "SIDE_LOG_ONLY_EVENT_TYPES = [''decision'', ''work.gate-approve'', ''work.discovery'', ''work.outcome'',
     ''work.friction'', ''work.call-summary'']"

fun writer_text :: "jval option \<Rightarrow> string option" where
  "writer_text (Some (JStr s)) = (if s = [] then None else Some s)"
| "writer_text (Some (JNum n)) = (if n > 0 then Some (digits (nat n)) else None)"
| "writer_text _ = None"

text \<open>
  The events since the claim that mutate the item, by whom: \<open>time\<close> is \<open>Date.parse\<close>, \<open>src\<close> the writer
  the store recorded for an event of schema 4.
\<close>

definition drift_events ::
  "(jval option \<Rightarrow> int option) \<Rightarrow> event list \<Rightarrow> string \<Rightarrow> int \<Rightarrow> event list" where
  "drift_events time es i acquired = filter (\<lambda>e. oget (e_payload e) ''id'' = Some (JStr i)
     \<and> e_type e \<notin> set SIDE_LOG_ONLY_EVENT_TYPES
     \<and> (case time (Some (e_ts e)) of None \<Rightarrow> False | Some t \<Rightarrow> acquired \<le> t)) es"

definition event_writer :: "(event \<Rightarrow> jval option) \<Rightarrow> event \<Rightarrow> string option" where
  "event_writer src e = writer_text (if e_v e = Some (JNum 4) then src e
     else oget (lazyd (as_obj (oget (e_payload e) ''writer''))) ''id'')"

definition revisionDriftIsSelfCaused ::
  "(jval option \<Rightarrow> int option) \<Rightarrow> (event \<Rightarrow> jval option) \<Rightarrow> event list \<Rightarrow> string \<Rightarrow> obj \<Rightarrow> bool" where
  "revisionDriftIsSelfCaused time src es i claim =
     (case (if truthy (oget claim ''writerId'') then as_str (oget claim ''writerId'') else None,
            time (oget claim ''acquiredAt'')) of
        (Some w, Some t) \<Rightarrow> drift_events time es i t \<noteq> []
            \<and> list_all (\<lambda>e. event_writer src e = Some w) (drift_events time es i t)
      | _ \<Rightarrow> False)"

text \<open>The transition of a settle, stamped: from the status before the claim directly to the final one.\<close>

definition settle_move ::
  "registry \<Rightarrow> ports \<Rightarrow> obj \<Rightarrow> jval option \<Rightarrow> obj \<Rightarrow> store_error + obj" where
  "settle_move ds pt work pre a =
     (let to = oget a ''finalStatus'';
          args = oput ''expectedStatus'' pre (oput ''to'' to
            (copy_keys [''reason'', ''ask'', ''answer''] a []))
      in e_bind (fsm_move pt work args) (\<lambda>p.
         let p1 = stamp_status ds work args (oset_opt ''role'' (oget a ''role'')
                    (oset ''writer'' (JObj (pt_writer pt)) p));
             p2 = copy_keys [''headAtReturn'', ''releaseTrigger'', ''branchHeadAtReturn'', ''mergedSha'', ''mergedInto'',
                    ''reason'', ''parentSnapshotAtAsk'', ''askSource''] a p1
         in Inr (if to = Some (JStr ''awaiting-human'')
              then oput ''durableStatusAtAsk'' pre (oset_opt ''statusAtAsk'' (oget a ''statusAtAsk'') p2) else p2)))"

text \<open>\<open>if (claim.k != null) payload.k = claim.k\<close>.\<close>

definition copy_set :: "string \<times> string \<Rightarrow> obj \<Rightarrow> obj \<Rightarrow> obj" where
  "copy_set kk claim p = (if nullish (oget claim (snd kk)) then p else oset (fst kk) (the (oget claim (snd kk))) p)"

definition attempt_payload :: "ports \<Rightarrow> obj \<Rightarrow> jval option \<Rightarrow> obj \<Rightarrow> obj" where
  "attempt_payload pt claim pre a =
     (let to = oget a ''finalStatus'';
          done_with = one_of to [''awaiting-approval'', ''delivered'', ''done''];
          res = (if truthy (oget a ''result'') then the (oget a ''result'')
                 else JStr (if done_with then ''success'' else ''failed''));
          who = js_or (oget claim ''actor'') (js_or (oget a ''role'') (Some (JStr ''unknown'')));
          p1 = oset ''endedAt'' (pt_now pt) (oset_opt ''actor'' who (oset_opt ''claimId'' (oget claim ''claimId'')
                 (oset_opt ''to'' to (oset_opt ''from'' pre
                 [(''id'', JStr (pkey a)), (''phase'', case oget a ''phase'' of None \<Rightarrow> JStr ''execute'' | Some ph \<Rightarrow> ph),
                  (''result'', res)]))));
          p2 = fold (\<lambda>kk. copy_set kk claim)
                 [(''startedAt'', ''acquiredAt''), (''branch'', ''branch''), (''headAtTake'', ''headAtTake''),
                  (''branchHeadAtTake'', ''branchHeadAtTake'')] p1
      in copy_keys [''branchHeadAtReturn'', ''headAtReturn'', ''reason'', ''releaseTrigger''] a p2)"

text \<open>
  The ownership checks, made on the claim read before the lock and again on the one read inside it:
  the caller names the claim, and is the writer that acquired it.
\<close>

definition owner_checks :: "ports \<Rightarrow> obj \<Rightarrow> jval option \<Rightarrow> store_error option" where
  "owner_checks pt claim claimId = first_err
     [req (truthy claimId) (Validation ''claimId is required''),
      req (oget claim ''claimId'' = claimId) (Conflict ''claimId mismatch''),
      req (oget claim ''writerId'' = None \<or> oget claim ''writerId'' = Some (JStr (pt_writerId pt)))
        (Conflict ''writer identity mismatch'')]"

definition fresh_checks :: "ports \<Rightarrow> claims \<Rightarrow> string \<Rightarrow> jval option \<Rightarrow> store_error + obj" where
  "fresh_checks pt cs i target =
     (case readClaim cs i of
        Inl e \<Rightarrow> Inl (Claim_failed e)
      | Inr None \<Rightarrow> Inl (Conflict ''claim changed'')
      | Inr (Some fresh) \<Rightarrow> guarded (first_err
          [req (oget fresh ''claimId'' = target) (Conflict ''claim changed''),
           req (oget fresh ''writerId'' = None \<or> oget fresh ''writerId'' = Some (JStr (pt_writerId pt)))
             (Conflict ''writer identity changed'')]) (Inr fresh))"

text \<open>
  What may have happened to the item since the claim: no change of status, and a change of revision only
  when the history read before the lock (\<open>evidence\<close>: the revision it ended in, whether the drift is the
  claimant's own) explains it.
\<close>

definition drift_checks :: "ports \<Rightarrow> string \<times> bool \<Rightarrow> obj \<Rightarrow> obj \<Rightarrow> store_error option" where
  "drift_checks pt evidence claim work = first_err
     [req (\<not> truthy (oget claim ''preClaimStatus'') \<or> oget work ''status'' = oget claim ''preClaimStatus'')
        (Conflict ''status changed''),
      req (\<not> truthy (oget claim ''preClaimRevision'')
           \<or> oget claim ''preClaimRevision'' = Some (JStr (pt_revision pt work))
           \<or> snd evidence \<and> fst evidence = pt_revision pt work)
        (Conflict ''durable revision changed'')]"

definition settle_batch ::
  "registry \<Rightarrow> ports \<Rightarrow> view \<Rightarrow> obj \<Rightarrow> obj \<Rightarrow> obj \<Rightarrow> store_error + raw_event list" where
  "settle_batch ds pt v claim a work =
     (let pre = js_or (oget claim ''preClaimStatus'') (oget work ''status'')
      in e_bind (if oget a ''finalStatus'' = pre then Inr []
                 else e_bind (settle_move ds pt work pre a) (\<lambda>p. Inr [(''work.move'', p)])) (\<lambda>move.
         e_bind (case as_obj (oget a ''patch'') of
                   None \<Rightarrow> Inr [] | Some [] \<Rightarrow> Inr []
                 | Some patch \<Rightarrow> e_bind (validateWorkPatch ds pt v (pkey a) (Some (JObj patch)) (oget a ''role''))
                     (\<lambda>p. Inr [(''work.edit'', p)])) (\<lambda>edit.
         Inr (edit @ [(''work.attempt'', attempt_payload pt claim pre a)] @ move))))"

definition settle_tx ::
  "registry \<Rightarrow> ports \<Rightarrow> view \<Rightarrow> claims \<Rightarrow> string \<times> bool \<Rightarrow> jval option \<Rightarrow> obj \<Rightarrow>
     store_error + raw_event list \<times> claims" where
  "settle_tx ds pt v cs evidence target a =
     e_bind (fresh_checks pt cs (pkey a) target) (\<lambda>claim.
       case oget (v_work v) (pkey a) of
         None \<Rightarrow> Inl (Validation ''not found'')
       | Some work \<Rightarrow> guarded (drift_checks pt evidence claim work)
           (e_bind (settle_batch ds pt v claim a work) (\<lambda>batch.
            e_bind (case releaseClaimTx cs (oput ''claimId'' target [(''id'', JStr (pkey a))]) (pt_mainWriterId pt) of
                      Inl e \<Rightarrow> Inl (Claim_failed e) | Inr r \<Rightarrow> Inr (snd r)) (\<lambda>cs'.
            Inr (batch, cs')))))"

text \<open>
  \<open>settleClaim\<close>: with an active claim (as read before the lock) the settle above; without one the
  move of an item that is durably in \<open>doing\<close>, whose arguments are returned.
\<close>

datatype settle_outcome =
    Settled "raw_event list" claims
  | Legacy_move obj

definition legacy_args :: "obj \<Rightarrow> obj" where
  "legacy_args a = copy_keys [''reason'', ''ask'', ''answer'', ''role'', ''headAtReturn'', ''branchHeadAtReturn'',
       ''parentSnapshotAtAsk'', ''statusAtAsk'', ''claimTrigger'', ''releaseTrigger'', ''rationale'', ''alternatives'',
       ''source'', ''askSource'', ''mergedSha'', ''mergedInto''] a
     (oset ''expectedStatus'' (JStr ''doing'') (oput ''to'' (oget a ''finalStatus'') [(''id'', JStr (pkey a))]))"

definition settleClaim ::
  "registry \<Rightarrow> ports \<Rightarrow> claims \<Rightarrow> view \<Rightarrow> claims \<Rightarrow> string \<times> bool \<Rightarrow> obj \<Rightarrow> store_error + settle_outcome" where
  "settleClaim ds pt before v cs evidence a =
     (if \<not> nonempty_str (oget a ''id'') then Inl (Validation ''id'')
      else case readClaim before (pkey a) of
        Inl e \<Rightarrow> Inl (Claim_failed e)
      | Inr None \<Rightarrow> Inr (Legacy_move (legacy_args a))
      | Inr (Some claim) \<Rightarrow> guarded (owner_checks pt claim (oget a ''claimId''))
          (e_bind (settle_tx ds pt v cs evidence (oget a ''claimId'') a) (\<lambda>(rs, cs'). Inr (Settled rs cs'))))"

section \<open>The human gate\<close>

text \<open>A park goes through the claim when there is one, through a plain move otherwise.\<close>

definition putInAwaiting :: "claims \<Rightarrow> obj \<Rightarrow> claim_error + obj + obj" where
  "putInAwaiting cs a =
     (case readClaim cs (pkey a) of
        Inl e \<Rightarrow> Inl e
      | Inr (Some claim) \<Rightarrow> Inr (Inl (oset ''result'' (JStr ''paused'') (oset_opt ''askSource'' (oget a ''source'')
          (copy_keys [''ask'', ''parentSnapshotAtAsk'', ''statusAtAsk''] a
            (oset ''finalStatus'' (JStr ''awaiting-human'') (oput ''claimId'' (oget claim ''claimId'')
              [(''id'', JStr (pkey a))]))))))
      | Inr None \<Rightarrow> Inr (Inr (oset_opt ''askSource'' (oget a ''source'')
          (copy_keys [''expectedStatus'', ''ask'', ''parentSnapshotAtAsk'', ''statusAtAsk''] a
            [(''id'', JStr (pkey a)), (''to'', JStr ''awaiting-human'')]))))"

definition coalesce :: "jval option \<Rightarrow> jval option \<Rightarrow> jval option" where
  "coalesce a b = (if nullish a then b else a)"

text \<open>Where an answer resumes: the durable status at the ask, never \<open>doing\<close>, \<open>todo\<close> when unrecorded.\<close>

definition resume_target :: "view \<Rightarrow> string \<Rightarrow> jval option" where
  "resume_target v i =
     (let gate = lazyd (oget (lazyd (v_gates v)) i);
          recorded = coalesce (oget gate ''durableStatusAtAsk'') (oget gate ''statusAtAsk'')
      in if recorded = Some (JStr ''doing'') then Some (JStr ''todo'') else coalesce recorded (Some (JStr ''todo'')))"

definition answerAwaiting :: "view \<Rightarrow> obj \<Rightarrow> obj" where
  "answerAwaiting v a = oput ''to'' (resume_target v (pkey a))
     (copy_keys [''expectedStatus'', ''answer'', ''role'', ''rationale'', ''alternatives'', ''source'', ''approved''] a
       [(''id'', JStr (pkey a))])"

section \<open>Steps, verdicts and decisions\<close>

definition moveStep ::
  "registry \<Rightarrow> ports \<Rightarrow> view \<Rightarrow> string \<Rightarrow> jval option \<Rightarrow> jval option \<Rightarrow> jval option \<Rightarrow> jval option \<Rightarrow>
     store_error + raw_event list" where
  "moveStep ds pt v i to expectedStep verify role =
     (case oget (v_work v) i of
        None \<Rightarrow> Inl (Validation ''not found'')
      | Some work \<Rightarrow> (case transitionStep ds (Some (JObj work)) to expectedStep verify of
            Inl e \<Rightarrow> Inl (Fsm_failed e)
          | Inr r \<Rightarrow> Inr [(fst r, oset ''writer'' (JObj (pt_writer pt)) (oset_opt ''role'' role (snd r)))]))"

definition addDiscovery :: "obj \<Rightarrow> store_error + raw_event list" where
  "addDiscovery p = (if nonblank (oget p ''id'') then Inr [(''work.discovery'', p)] else Inl (Validation ''id''))"

definition GATE_APPROVE_GATES :: "string list" where
  "GATE_APPROVE_GATES = [''contextApprove'', ''planApprove'', ''validateApprove'']"

definition GATE_APPROVE_ACTORS :: "string list" where
  "GATE_APPROVE_ACTORS = [''human'', ''bypass'']"

definition recordGateApprove :: "obj \<Rightarrow> store_error + raw_event list" where
  "recordGateApprove a = guarded (first_err
     [req (nonblank (oget a ''id'')) (Validation ''id''),
      req (one_of (oget a ''gate'') GATE_APPROVE_GATES) (Validation ''gate''),
      req (one_of (oget a ''actor'') GATE_APPROVE_ACTORS) (Validation ''actor''),
      req (nonblank (oget a ''verify'')) (Validation ''verify'')])
     (Inr [(''work.gate-approve'', copy_keys [''id'', ''gate'', ''actor'', ''verify''] a [])])"

definition addDecision :: "view \<Rightarrow> obj \<Rightarrow> store_error + raw_event list" where
  "addDecision v p = guarded (first_err
     [req (nonblank (oget p ''text'')) (Validation ''text''),
      req (nonblank (oget p ''rationale'')) (Validation ''rationale''),
      req (nullish (oget p ''id'') \<or> oget (v_work v) (pkey p) \<noteq> None) (Validation ''not found'')])
     (Inr [(''decision'', oset ''kind'' (or_else (oget p ''kind'') (JStr ''design''))
        (oset ''source'' (or_else (oget p ''source'') (JStr ''session'')) p))])"

definition DIATAXIS_DOC_TYPES :: "string list" where
  "DIATAXIS_DOC_TYPES = [''tutorial'', ''how-to'', ''reference'', ''explanation'']"

definition assertValidDocType :: "obj \<Rightarrow> store_error option" where
  "assertValidDocType p = req (nullish (oget p ''docType'') \<or> one_of (oget p ''docType'') DIATAXIS_DOC_TYPES)
     (Validation ''docType'')"

definition addOutcome :: "obj \<Rightarrow> store_error + raw_event list" where
  "addOutcome p = guarded (first_err [req (nonblank (oget p ''id'')) (Validation ''id''), assertValidDocType p])
     (Inr [(''work.outcome'', p)])"

definition recordClaimAttempt :: "ports \<Rightarrow> obj \<Rightarrow> store_error + raw_event list" where
  "recordClaimAttempt pt a = guarded (first_err
     [req (nonempty_str (oget a ''id'')) (Validation ''id''), req (nonempty_str (oget a ''phase'')) (Validation ''phase'')])
     (Inr [(''work.attempt'', oset ''endedAt'' (if truthy (oget a ''endedAt'') then the (oget a ''endedAt'') else pt_now pt)
        (oset ''actor'' (if truthy (oget a ''actor'') then the (oget a ''actor'') else JStr ''unknown'')
        (copy_keys [''id'', ''phase'', ''result'', ''claimId''] a [])))])"

definition appendKnowledgeEvent :: "view \<Rightarrow> string \<Rightarrow> obj \<Rightarrow> jval \<Rightarrow> store_error + raw_event list" where
  "appendKnowledgeEvent v ty p now =
     (case applyKnowledgeEvent (case v_knowledge v of None \<Rightarrow> empty_registry | Some k \<Rightarrow> k) ty p now of
        Inl e \<Rightarrow> Inl (Knowledge_invalid e)
      | Inr _ \<Rightarrow> Inr [(ty, p)])"

section \<open>Reading\<close>

definition currentEffectiveView :: "view \<Rightarrow> claims \<Rightarrow> claim_error + view" where
  "currentEffectiveView v cs = e_bind (readClaims cs) (\<lambda>m. Inr (buildEffectiveView v m))"

definition readyWork :: "registry \<Rightarrow> view \<Rightarrow> claims \<Rightarrow> string \<Rightarrow> claim_error + obj list" where
  "readyWork ds v cs phase = e_bind (currentEffectiveView v cs) (\<lambda>e. Inr (frontier ds (v_work e) phase))"

end
