(* ===== verification/Store_Facts.thy ===== *)
theory Store_Facts
  imports Store
begin

text \<open>
  What the write door guarantees: a batch is never refused by the preconditions its own writer put on
  it, the accepted writes keep the item map sound (ids, statuses, an acyclic blocking graph), and a
  status changes only along the transition table.
\<close>

section \<open>A batch its writer decided on\<close>

definition door_event :: "raw_event \<Rightarrow> bool" where
  "door_event r = (fst r \<notin> set KNOWLEDGE_TYPES \<and> oget (snd r) ''precondition'' = None
     \<and> (take 5 (fst r) = ''work.'' \<longrightarrow> nonempty_str (oget (snd r) ''id''))
     \<and> (fst r = ''work.edit'' \<longrightarrow> oget (lazyd (as_obj (oget (snd r) ''patch''))) ''status'' = None))"

definition event_at :: "envelope \<Rightarrow> nat \<Rightarrow> raw_event \<Rightarrow> event" where
  "event_at en k r = \<lparr>e_type = fst r, e_payload = snd r, e_ts = en_ts en, e_v = Some (JNum 4),
     e_origin = Some (en_origin en), e_stream = Some ''project'', e_seq = Some (en_seq en k),
     e_seen = en_seen en, e_h = Some (en_h en k)\<rparr>"

definition appended_from :: "envelope \<Rightarrow> nat \<Rightarrow> raw_event list \<Rightarrow> event list" where
  "appended_from en k rs = map (\<lambda>(j, r). event_at en j r) (enumerate k rs)"

lemma appended_from_simps [simp]:
  "appended_from en k [] = []" "appended_from en k (r # rs) = event_at en k r # appended_from en (Suc k) rs"
  by (simp_all add: appended_from_def)

lemma appended_alt: "appended en rs = appended_from en 0 rs"
  by (auto simp: appended_def appended_from_def event_at_def case_prod_beta)

lemma event_at_simps [simp]:
  "e_type (event_at en k r) = fst r" "e_payload (event_at en k r) = snd r"
  by (simp_all add: event_at_def)

text \<open>The fields of an event other than its precondition survive its preparation.\<close>

lemma with_precondition_simps [simp]:
  "fst (with_precondition c r) = fst r"
  "k \<noteq> ''precondition'' \<Longrightarrow> oget (snd (with_precondition c r)) k = oget (snd r) k"
  "pkey (snd (with_precondition c r)) = pkey (snd r)"
  by (simp_all add: with_precondition_def Let_def pkey_def)

lemma prepared_condition:
  assumes "oget (snd r) ''precondition'' = None"
  shows "failed_precondition (the (condition_of (event_at en k (with_precondition
      (oget (v_work u) i \<noteq> None, status_of (oget (v_work u) i)) r)))) i u = None"
  using assms
  by (cases "oget (v_work u) i")
    (auto simp: with_precondition_def condition_of_def failed_precondition_def capacity_full_def status_of_def
      Let_def split: option.split)

lemma unguarded: "oget (e_payload e) ''precondition'' = None \<Longrightarrow> \<not> guarded_event e"
  by (simp add: guarded_event_def condition_of_def)

lemma door_type_applies:
  assumes "\<not> precondition_fails e v" "e_type e \<notin> set KNOWLEDGE_TYPES"
  shows "foldEvent ds v e = Inr (note_heads e v (apply_plain ds e (note_stream e v)))"
  using assms by (simp add: foldEvent_cases applyEvent_def)

text \<open>What the events of a batch made of an item is what their fold made of it.\<close>

definition decided_ok :: "view \<Rightarrow> (string \<times> bool \<times> jval option) list \<Rightarrow> view \<Rightarrow> bool" where
  "decided_ok v decided u = (\<forall>i. decided_of v decided i
     = (oget (v_work u) i \<noteq> None, status_of (oget (v_work u) i)))"

lemma decided_ok_start: "decided_ok v [] v"
  by (simp add: decided_ok_def decided_of_def)

lemma status_added_item: "oget (added_item ds p) ''status'' = oget p ''status''"
  by (auto simp: added_item_def Let_def oget_foldLegacyStage oget_legacy_tier withoutPrecondition_def WORK_DEFAULTS_def
      split: option.split)

definition state_of :: "view \<Rightarrow> string \<Rightarrow> bool \<times> jval option" where
  "state_of u i = (oget (v_work u) i \<noteq> None, status_of (oget (v_work u) i))"

lemma state_of_cong: "v_work u = v_work v \<Longrightarrow> state_of u = state_of v"
  by (auto simp: state_of_def)

lemma status_of_simps [simp]: "status_of None = None" "status_of (Some w) = oget w ''status''"
  by (simp_all add: status_of_def)

lemma state_after_add:
  assumes "e_type e = ''work.add''" "nonempty_str (oget (e_payload e) ''id'')"
  shows "state_of (apply_plain ds e u) i = (if i = pkey (e_payload e) then (True, oget (e_payload e) ''status'')
     else state_of u i)"
  using assms nonempty_strD[OF assms(2)]
  by (auto simp: state_of_def apply_plain_def apply_add_def is_string_def status_added_item Let_def)

lemma state_after_move:
  assumes "e_type e = ''work.move''"
  shows "state_of (apply_plain ds e u) i = (if i = pkey (e_payload e) \<and> oget (v_work u) i \<noteq> None
     then (True, oget (e_payload e) ''to'') else state_of u i)"
  using assms
  by (auto simp: state_of_def apply_plain_def v_work_step_ops v_work_on_item status_moved_item Let_def
      split: option.split)

lemma state_after_other:
  assumes "e_type e \<noteq> ''work.add''" "e_type e \<noteq> ''work.move''"
    and "e_type e = ''work.edit'' \<longrightarrow> oget (lazyd (as_obj (oget (e_payload e) ''patch''))) ''status'' = None"
  shows "state_of (apply_plain ds e u) i = state_of u i"
  using apply_plain_work[of ds e u] assms
  by (auto simp: work_step_def writes_item_def state_of_def Let_def split: if_splits)

lemma state_after_note [simp]:
  "state_of (note_heads e b v) i = state_of v i" "state_of (note_stream e v) i = state_of v i"
  by (simp_all add: state_of_def)

definition shadows :: "event \<Rightarrow> raw_event \<Rightarrow> bool" where
  "shadows e r = (e_type e = fst r \<and> (\<forall>k. k \<noteq> ''precondition'' \<longrightarrow> oget (e_payload e) k = oget (snd r) k))"

lemma shadows_at: "shadows (event_at en k r) r" "shadows (event_at en k (with_precondition c r)) r"
  by (simp_all add: shadows_def)

lemma shadowsD:
  assumes "shadows e r"
  shows "e_type e = fst r" "pkey (e_payload e) = pkey (snd r)" "k \<noteq> ''precondition'' \<Longrightarrow> oget (e_payload e) k = oget (snd r) k"
  using assms by (auto simp: shadows_def pkey_def)

lemma state_after_work:
  assumes "shadows e r" "door_event r" "is_work_event r"
  shows "state_of (apply_plain ds e u) i =
     (if i = pkey (snd r) then decide (state_of u i) r else state_of u i)"
proof (cases "fst r = ''work.add''")
  case True
  then show ?thesis using assms
    by (simp add: state_after_add shadowsD[OF assms(1)] is_work_event_def decide_def)
next
  case na: False
  show ?thesis
  proof (cases "fst r = ''work.move''")
    case True
    then have "state_of (apply_plain ds e u) i = (if i = pkey (snd r) \<and> oget (v_work u) i \<noteq> None
        then (True, oget (snd r) ''to'') else state_of u i)"
      by (cases "i = pkey (snd r)") (simp_all add: state_after_move shadowsD[OF assms(1)])
    moreover have "decide (state_of u i) r = (if oget (v_work u) i \<noteq> None then (True, oget (snd r) ''to'') else state_of u i)"
      using True by (simp add: decide_def state_of_def)
    ultimately show ?thesis by (cases "oget (v_work u) i") auto
  next
    case False
    then show ?thesis using na assms(2,3)
      by (simp add: state_after_other shadowsD[OF assms(1)] door_event_def decide_def)
  qed
qed

lemma state_after_side:
  assumes "shadows e r" "door_event r" "\<not> is_work_event r"
  shows "state_of (apply_plain ds e u) i = state_of u i"
proof -
  have "fst r \<notin> {''work.add'', ''work.move'', ''work.edit''}"
    using assms(2,3) by (auto simp: door_event_def is_work_event_def)
  then show ?thesis by (simp add: state_after_other shadowsD[OF assms(1)])
qed

lemma decided_ok_state: "decided_ok v decided u \<longleftrightarrow> (\<forall>i. decided_of v decided i = state_of u i)"
  by (simp add: decided_ok_def state_of_def)

lemma decided_of_oset: "decided_of v (oset i c decided) j = (if j = i then c else decided_of v decided j)"
  by (simp add: decided_of_def)

lemma batch_applies:
  assumes "list_all door_event rs" "decided_ok v decided u"
  shows "\<exists>u'. foldEvents ds u (appended_from en k (prepareEvents v decided rs)) = Inr u'
     \<and> v_conflicts u' = v_conflicts u"
  using assms
proof (induction rs arbitrary: decided u k)
  case (Cons r rs)
  let ?step = "\<lambda>e. note_heads e u (apply_plain ds e (note_stream e u))"
  show ?case
  proof (cases "is_work_event r")
    case True
    let ?e = "event_at en k (with_precondition (state_of u (pkey (snd r))) r)"
    have cur: "decided_of v decided (pkey (snd r)) = state_of u (pkey (snd r))"
      using Cons.prems(2) by (simp add: decided_ok_state)
    have "\<not> precondition_fails ?e u"
      using prepared_condition[of r en k u "pkey (snd r)"] Cons.prems(1)
      by (simp add: precondition_fails_def door_event_def state_of_def)
    then have f: "foldEvent ds u ?e = Inr (?step ?e)"
      by (rule door_type_applies) (use Cons.prems(1) in \<open>simp add: door_event_def\<close>)
    have "decided_ok v (oset (pkey (snd r)) (decide (state_of u (pkey (snd r))) r) decided) (?step ?e)"
      using Cons.prems True state_after_work[OF shadows_at(2)]
      by (simp add: decided_ok_state decided_of_oset)
    with Cons.IH[of _ "?step ?e" "Suc k"] Cons.prems(1) f True cur show ?thesis
      by (simp add: Let_def plain_conflicts)
  next
    case False
    let ?e = "event_at en k r"
    have "\<not> precondition_fails ?e u"
      using Cons.prems(1) unguarded[of ?e] by (simp add: precondition_fails_def door_event_def)
    then have f: "foldEvent ds u ?e = Inr (?step ?e)"
      by (rule door_type_applies) (use Cons.prems(1) in \<open>simp add: door_event_def\<close>)
    have "decided_ok v decided (?step ?e)"
      using Cons.prems False state_after_side[OF shadows_at(1)] by (simp add: decided_ok_state)
    with Cons.IH[of decided "?step ?e" "Suc k"] Cons.prems(1) f False show ?thesis
      by (simp add: plain_conflicts)
  qed
qed simp

lemma commit_applies:
  assumes "list_all door_event rs"
  shows "\<exists>v'. commit ds en v rs = Inr v' \<and> v_conflicts v' = v_conflicts v"
  unfolding commit_def appended_alt by (rule batch_applies[OF assms decided_ok_start])

section \<open>A sound item map\<close>

text \<open>
  Items under their own well-formed ids, in a known status, depending on items that are there, and no
  cycle in what blocks what.
\<close>

definition sound_item :: "string \<Rightarrow> obj \<Rightarrow> bool" where
  "sound_item i w = (oget w ''id'' = Some (JStr i) \<and> ID_PATTERN i \<and> length i \<le> MAX_ID_LENGTH
     \<and> (\<exists>s \<in> set STATUSES. oget w ''status'' = Some (JStr s)))"

definition sound_works :: "works \<Rightarrow> bool" where
  "sound_works W = (distinct (okeys W) \<and> acyclic (unified_edges W)
     \<and> (\<forall>i w. oget W i = Some w \<longrightarrow> sound_item i w) \<and> known_deps W)"

definition same_lineage :: "obj \<Rightarrow> obj \<Rightarrow> bool" where
  "same_lineage w w' = (\<forall>k \<in> {''id'', ''deps'', ''parent'', ''mergeAfter''}. oget w' k = oget w k)"

lemma same_lineage_trans: "same_lineage a b \<Longrightarrow> same_lineage b c \<Longrightarrow> same_lineage a c"
  by (simp add: same_lineage_def)

lemma item_edges_cong: "same_lineage w w' \<Longrightarrow> item_edges i w' = item_edges i w"
  by (simp add: same_lineage_def item_edges_def parent_of_def)

lemma unified_edges_cong:
  assumes "same_lineage w w'"
  shows "unified_edges (oset i w' W) = unified_edges (oset i w W)"
proof (induction W)
  case Nil
  then show ?case by (simp add: oset_def unified_edges_Cons item_edges_cong[OF assms])
next
  case (Cons x W)
  then show ?case
    by (cases x) (auto simp: oset_def unified_edges_Cons item_edges_cong[OF assms])
qed

lemma oset_same: "oget W i = Some w \<Longrightarrow> oset i w W = W"
  by (simp add: oget_def oset_def update_triv)

lemma known_deps_write:
  assumes "known_deps W" "deps_known (insert i (set (okeys W))) w"
  shows "known_deps (oset i w W)"
  using assms deps_known_mono[of "set (okeys W)" _ "insert i (set (okeys W))"] by (auto simp: known_deps_def)

lemma lineage_deps: "same_lineage c w \<Longrightarrow> deps_known K w = deps_known K c"
  by (rule deps_known_cong) (simp add: same_lineage_def)

lemma sound_write:
  assumes W: "sound_works W" and item: "sound_item i w" and lin: "same_lineage c w"
    and guard: "assertNoUnifiedCycle i c W = None" and deps: "deps_known (set (okeys W)) c"
  shows "sound_works (oset i w W)"
proof -
  have "deps_known (insert i (set (okeys W))) w" using deps_known_mono[OF deps] lineage_deps[OF lin] by blast
  then have "known_deps (oset i w W)" using W known_deps_write by (simp add: sound_works_def)
  have "acyclic (unified_edges (oset i c W))"
    using unified_door.admitted_acyclic[OF _ _ guard] W by (simp add: sound_works_def)
  then have "acyclic (unified_edges (oset i w W))" by (simp add: unified_edges_cong[OF lin])
  with W item \<open>known_deps (oset i w W)\<close> show ?thesis by (auto simp: sound_works_def)
qed

lemma sound_rewrite:
  assumes W: "sound_works W" and old: "oget W i = Some w" and lin: "same_lineage w w'"
    and st: "\<exists>s \<in> set STATUSES. oget w' ''status'' = Some (JStr s)"
  shows "sound_works (oset i w' W)"
proof -
  have "unified_edges (oset i w' W) = unified_edges W"
    by (simp add: unified_edges_cong[OF lin] oset_same[OF old])
  moreover have "known_deps (oset i w' W)"
  proof (rule known_deps_write)
    show "known_deps W" using W by (simp add: sound_works_def)
    then have "deps_known (set (okeys W)) w" using old by (simp add: known_deps_def)
    from deps_known_mono[OF this subset_insertI] show "deps_known (insert i (set (okeys W))) w'"
      using lineage_deps[OF lin] by simp
  qed
  ultimately show ?thesis using W old lin st by (auto simp: sound_works_def sound_item_def same_lineage_def)
qed

section \<open>What an event does to the lineage of an item\<close>

lemma lineage_moved: "same_lineage w (moved_item p w)"
  by (auto simp: same_lineage_def moved_item_def fold_delivery_def fold_return_def fold_claim_def)

lemma lineage_oset:
  "k \<notin> {''id'', ''deps'', ''parent'', ''mergeAfter''} \<Longrightarrow> same_lineage w (oset k v w)"
  "k \<notin> {''id'', ''deps'', ''parent'', ''mergeAfter''} \<Longrightarrow> same_lineage w (odel k w)"
  "k \<notin> {''id'', ''deps'', ''parent'', ''mergeAfter''} \<Longrightarrow> same_lineage w (oput k vo w)"
  "k \<notin> {''id'', ''deps'', ''parent'', ''mergeAfter''} \<Longrightarrow> same_lineage w (oset_opt k vo w)"
  by (auto simp: same_lineage_def)

definition lineage_step :: "event \<Rightarrow> works \<Rightarrow> works \<Rightarrow> bool" where
  "lineage_step e W W' = (W' = W \<or> (\<exists>w w'. oget W (pkey (e_payload e)) = Some w \<and> same_lineage w w'
     \<and> W' = oset (pkey (e_payload e)) w' W))"

lemma lineage_on_item:
  "(\<And>w. same_lineage w (f w)) \<Longrightarrow> lineage_step e (v_work v) (v_work (on_item (e_payload e) f v))"
  by (auto simp: lineage_step_def v_work_on_item split: option.splits)

lemma plain_lineage:
  assumes "e_type e \<noteq> ''work.add''" "e_type e \<noteq> ''work.edit''"
  shows "lineage_step e (v_work v) (v_work (apply_plain ds e v))"
proof -
  have same: "lineage_step e (v_work v) (v_work v)" by (simp add: lineage_step_def)
  have handoff: "lineage_step e (v_work v) (v_work (apply_handoff e v))"
    using lineage_on_item[of "oset ''holder'' (the (normalizeRole (oget (e_payload e) ''to'')))" e v] same
    by (simp add: v_work_step_ops lineage_oset)
  have attempt: "lineage_step e (v_work v) (v_work (apply_attempt e v))"
    unfolding apply_attempt_def by (rule lineage_on_item) (auto simp: same_lineage_def)
  have move: "lineage_step e (v_work v) (v_work (apply_move e v))"
    unfolding v_work_step_ops by (rule lineage_on_item) (rule lineage_moved)
  have step: "lineage_step e (v_work v) (v_work (apply_step ds e v))"
    unfolding v_work_step_ops by (rule lineage_on_item) (auto simp: same_lineage_def)
  have park: "lineage_step e (v_work v) (v_work (apply_resolve_park e v))"
    unfolding v_work_step_ops by (rule lineage_on_item) (auto simp: same_lineage_def)
  from same handoff attempt move step park assms show ?thesis by (simp add: apply_plain_def Let_def)
qed

text \<open>A fold in which every event keeps a property of the item map keeps it.\<close>

lemma event_work:
  assumes "foldEvent ds u e = Inr u'" "e_type e \<notin> set KNOWLEDGE_TYPES"
  shows "v_work u' = v_work u \<or> v_work u' = v_work (apply_plain ds e (note_stream e u))"
  using assms by (auto simp: foldEvent_cases applyEvent_def split: if_splits)

lemma prepared_shadows:
  "e \<in> set (appended_from en k (prepareEvents v decided rs)) \<Longrightarrow> \<exists>r \<in> set rs. shadows e r"
proof (induction rs arbitrary: k decided)
  case (Cons r rs)
  then show ?case by (auto simp: Let_def shadows_at split: if_splits; metis)
qed simp

lemma batch_work_induct:
  assumes "foldEvents ds u (appended_from en k (prepareEvents v decided rs)) = Inr v'" "P (v_work u)"
    and keeps: "\<And>u e r. r \<in> set rs \<Longrightarrow> shadows e r \<Longrightarrow> P (v_work u) \<Longrightarrow> P (v_work (apply_plain ds e u))"
    and plain: "list_all (\<lambda>r. fst r \<notin> set KNOWLEDGE_TYPES) rs"
  shows "P (v_work v')"
proof (rule foldEvents_induct[where P = "\<lambda>u. P (v_work u)", OF assms(1) assms(2)])
  fix x e x'
  assume e: "e \<in> set (appended_from en k (prepareEvents v decided rs))" and P: "P (v_work x)"
    and f: "foldEvent ds x e = Inr x'"
  obtain r where r: "r \<in> set rs" "shadows e r" using prepared_shadows[OF e] by blast
  have "e_type e \<notin> set KNOWLEDGE_TYPES" using plain r shadowsD(1)[OF r(2)] by (auto simp: list_all_iff)
  then show "P (v_work x')" using event_work[OF f] P keeps[OF r, of "note_stream e x"] by auto
qed

lemmas commit_work_induct = batch_work_induct[where k = 0 and decided = "[]", folded appended_alt, folded commit_def]

text \<open>The first event of a batch meets the view the door saw.\<close>

lemma commit_first:
  assumes "commit ds en v (r # rs) = Inr v'" "fst r \<notin> set KNOWLEDGE_TYPES"
  shows "\<exists>e u decided. shadows e r \<and> foldEvents ds u (appended_from en 1 (prepareEvents v decided rs)) = Inr v'
     \<and> (v_work u = v_work v \<or> v_work u = v_work (apply_plain ds e (note_stream e v)))"
proof -
  obtain e decided where e: "shadows e r"
    and ap: "appended_from en 0 (prepareEvents v [] (r # rs)) = e # appended_from en 1 (prepareEvents v decided rs)"
    by (cases "is_work_event r") (auto simp: Let_def intro: shadows_at)
  obtain u where u: "foldEvent ds v e = Inr u" "foldEvents ds u (appended_from en 1 (prepareEvents v decided rs)) = Inr v'"
    using assms(1) unfolding commit_def appended_alt ap by (auto simp: e_bind_Inr)
  show ?thesis using e u event_work[OF u(1)] shadowsD(1)[OF e] assms(2) by auto
qed

section \<open>Events that keep the item map sound\<close>

definition known_status :: "jval option \<Rightarrow> bool" where
  "known_status v = (\<exists>s \<in> set STATUSES. v = Some (JStr s))"

lemma sound_lineage_event:
  assumes "sound_works (v_work u)" "shadows e r" "fst r \<noteq> ''work.add''" "fst r \<noteq> ''work.edit''"
    and to: "fst r = ''work.move'' \<Longrightarrow> known_status (oget (snd r) ''to'')"
  shows "sound_works (v_work (apply_plain ds e u))"
proof -
  have ty: "e_type e \<noteq> ''work.add''" "e_type e \<noteq> ''work.edit''" using assms(3,4) shadowsD(1)[OF assms(2)] by auto
  have "lineage_step e (v_work u) (v_work (apply_plain ds e u))" using ty by (rule plain_lineage)
  then show ?thesis unfolding lineage_step_def
  proof (elim disjE exE conjE)
    fix w w'
    assume w: "oget (v_work u) (pkey (e_payload e)) = Some w" "same_lineage w w'"
      and W': "v_work (apply_plain ds e u) = oset (pkey (e_payload e)) w' (v_work u)"
    have old: "known_status (oget w ''status'')" using assms(1) w(1) by (auto simp: sound_works_def sound_item_def known_status_def)
    have "state_of (apply_plain ds e u) (pkey (e_payload e)) = (True, oget w' ''status'')"
      by (simp add: state_of_def W')
    moreover have "state_of u (pkey (e_payload e)) = (True, oget w ''status'')" by (simp add: state_of_def w)
    ultimately have "known_status (oget w' ''status'')"
      using state_after_move[of e ds u "pkey (e_payload e)"] state_after_other[of e ds u "pkey (e_payload e)"] old to ty w
      by (cases "e_type e = ''work.move''") (auto simp: shadowsD[OF assms(2)])
    then show ?thesis unfolding W' using sound_rewrite[OF assms(1) w] by (simp add: known_status_def)
  qed (use assms(1) in simp)
qed

lemma lineage_added: "same_lineage p (added_item ds p)"
  by (auto simp: same_lineage_def added_item_def Let_def oget_foldLegacyStage oget_legacy_tier withoutPrecondition_def
      WORK_DEFAULTS_def split: option.split)

lemma lineage_edited:
  assumes "as_obj (oget p ''patch'') = Some np"
  shows "same_lineage (omerge w np) (edited_item ds p w)"
  using assms
  by (auto simp: same_lineage_def edited_item_def Let_def oget_foldLegacyStage oget_legacy_tier split: option.split)

end
