(* ===== verification/Store_Door.thy ===== *)
theory Store_Door
  imports Store_Facts
begin

text \<open>
  The write door as a transition system: a step runs one door on the current view and commits the batch
  it returns. What holds of every view the doors can reach, and how a status can change in one step.
\<close>

inductive door :: "registry \<Rightarrow> view \<Rightarrow> raw_event list \<Rightarrow> bool" for ds v where
  add: "addWork ds pt v work = Inr rs \<Longrightarrow> door ds v rs"
| edit: "editWork ds pt v i patch role = Inr rs \<Longrightarrow> door ds v rs"
| park: "resolveParkReason pt v i note role = Inr rs \<Longrightarrow> door ds v rs"
| focus: "setFocus v i role = Inr rs \<Longrightarrow> door ds v rs"
| move: "moveWorkOnce ds pt judge prior v cs snapshot a = Inr (Batch rs) \<Longrightarrow> door ds v rs"
| settle: "settleClaim ds pt before v cs evidence a = Inr (Settled rs cs') \<Longrightarrow> door ds v rs"
| step: "moveStep ds pt v i to expected verify role = Inr rs \<Longrightarrow> door ds v rs"
| discovery: "addDiscovery p = Inr rs \<Longrightarrow> door ds v rs"
| approve: "recordGateApprove a = Inr rs \<Longrightarrow> door ds v rs"
| decision: "addDecision v p = Inr rs \<Longrightarrow> door ds v rs"
| outcome: "addOutcome p = Inr rs \<Longrightarrow> door ds v rs"
| attempt: "recordClaimAttempt pt a = Inr rs \<Longrightarrow> door ds v rs"
| call: "callEvent ds writer v i to reason note out depth = Inr r \<Longrightarrow> door ds v [r]"
| return: "recordCallReturn writer v i note = Inr r \<Longrightarrow> door ds v [r]"

inductive store_step :: "registry \<Rightarrow> view \<Rightarrow> view \<Rightarrow> bool" for ds where
  commit: "door ds v rs \<Longrightarrow> commit ds en v rs = Inr v' \<Longrightarrow> store_step ds v v'"

inductive_cases store_stepE: "store_step ds v v'"

inductive store_reachable :: "registry \<Rightarrow> view \<Rightarrow> bool" for ds where
  start: "store_reachable ds empty_view"
| step: "store_reachable ds v \<Longrightarrow> store_step ds v v' \<Longrightarrow> store_reachable ds v'"

section \<open>What the doors return\<close>

text \<open>An event that creates no item, edits none and moves none.\<close>

definition calm :: "raw_event \<Rightarrow> bool" where
  "calm r = (fst r \<notin> {''work.add'', ''work.edit'', ''work.move''} \<union> set KNOWLEDGE_TYPES)"

lemma calm_types:
  "calm (''work.resolve-park-reason'', p)" "calm (''goal.focus'', p)" "calm (''work.step'', p)"
  "calm (''work.discovery'', p)" "calm (''work.gate-approve'', p)" "calm (''decision'', p)"
  "calm (''work.outcome'', p)" "calm (''work.attempt'', p)" "calm (''work.handoff'', p)"
  "calm (''work.call-summary'', p)"
  by (simp_all add: calm_def KNOWLEDGE_TYPES_def)

lemma calm_call: "callEvent ds writer v i to reason note out depth = Inr r \<Longrightarrow> calm r"
  by (auto simp: callEvent_def Let_def calm_types split: option.splits sum.splits if_splits)

lemma calm_return: "recordCallReturn writer v i note = Inr r \<Longrightarrow> calm r"
  by (auto simp: recordCallReturn_def Let_def calm_types split: option.splits list.splits if_splits)

lemma calm_step: "moveStep ds pt v i to expected verify role = Inr rs \<Longrightarrow> list_all calm rs"
  by (auto simp: moveStep_def transitionStep_Inr calm_types split: option.splits sum.splits)

lemma calm_simple:
  "resolveParkReason pt v i note role = Inr rs \<Longrightarrow> list_all calm rs"
  "setFocus v i role = Inr rs \<Longrightarrow> list_all calm rs"
  "addDiscovery p = Inr rs \<Longrightarrow> list_all calm rs"
  "recordGateApprove a = Inr rs \<Longrightarrow> list_all calm rs"
  "addDecision v p = Inr rs \<Longrightarrow> list_all calm rs"
  "addOutcome p = Inr rs \<Longrightarrow> list_all calm rs"
  "recordClaimAttempt pt a = Inr rs \<Longrightarrow> list_all calm rs"
  by (auto simp: resolveParkReason_def setFocus_def addDiscovery_def recordGateApprove_def addDecision_def
      addOutcome_def recordClaimAttempt_def guarded_Inr calm_types split: option.splits if_splits)

lemma fsm_move_Inr:
  assumes "fsm_move pt work a = Inr p"
  shows "\<exists>f t. status_step f t \<and> oget work ''status'' = Some (JStr f) \<and> oget a ''to'' = Some (JStr t)
     \<and> oget p ''id'' = oget work ''id'' \<and> oget p ''from'' = Some (JStr f) \<and> oget p ''to'' = Some (JStr t)
     \<and> (oget a ''expectedStatus'' = None \<or> oget a ''expectedStatus'' = Some (JStr f))"
  using assms
  by (cases "oget work ''id''")
    (auto simp: fsm_move_def transitionWork_Inr move_accepted_def fsm_args_of_def status_step_iff nonempty_str_def
      split: sum.splits option.splits)

lemma oget_if: "oget (if b then x else y) k = (if b then oget x k else oget y k)"
  by simp

lemma stamped_move_fields:
  assumes "k \<in> {''id'', ''to'', ''from'', ''precondition''}"
  shows "oget (stamped_move ds pt v work a p) k = oget p k"
  using assms
  by (elim insertE emptyE)
    (simp_all add: stamped_move_def stamp_status_def stamp_str_def Let_def oget_copy_keys oget_if)

lemma decision_events: "judged judge cs i work = Inr rs \<Longrightarrow> list_all calm rs"
  by (auto simp: judged_def e_bind_Inr calm_types split: option.splits sum.splits)

lemma review_events: "list_all calm (review_handoff ds pt v work i)"
  using calm_call by (auto simp: review_handoff_def split: sum.splits)

text \<open>A move is calm events around one event along the transition table.\<close>

lemma move_batch_shape:
  assumes "move_batch ds pt judge v cs snapshot a work = Inr rs"
  shows "\<exists>pre p post f t. rs = pre @ [(''work.move'', p)] @ post \<and> list_all calm pre \<and> list_all calm post
     \<and> status_step f t \<and> oget work ''status'' = Some (JStr f) \<and> oget a ''to'' = Some (JStr t)
     \<and> oget p ''id'' = oget work ''id'' \<and> oget p ''to'' = Some (JStr t)
     \<and> delivery_gate pt snapshot a work = None"
proof -
  obtain pre p where pre: "judged judge cs (pkey a) work = Inr pre" and p: "fsm_move pt work a = Inr p"
    and g: "delivery_gate pt snapshot a work = None"
    and rs: "rs = pre @ [(''work.move'', stamped_move ds pt v work a p)]
      @ (if oget a ''to'' = Some (JStr ''awaiting-approval'') then review_handoff ds pt v work (pkey a) else [])"
    using assms by (auto simp: move_batch_def e_bind_Inr guarded_Inr)
  have post: "list_all calm (if oget a ''to'' = Some (JStr ''awaiting-approval'') then review_handoff ds pt v work (pkey a) else [])"
    using review_events by simp
  obtain f t where ft: "status_step f t" "oget work ''status'' = Some (JStr f)" "oget a ''to'' = Some (JStr t)"
    "oget p ''id'' = oget work ''id''" "oget p ''to'' = Some (JStr t)"
    using fsm_move_Inr[OF p] by blast
  show ?thesis
    by (rule exI[of _ pre], rule exI[of _ "stamped_move ds pt v work a p"]) (use rs decision_events[OF pre] post ft g in
      \<open>auto simp: stamped_move_fields\<close>)
qed

lemma moveWorkOnce_Batch:
  assumes "moveWorkOnce ds pt judge prior v cs snapshot a = Inr (Batch rs)"
  shows "\<exists>work. oget (v_work v) (pkey a) = Some work \<and> move_batch ds pt judge v cs snapshot a work = Inr rs"
  using assms
  by (auto simp: moveWorkOnce_def Let_def guarded_Inr e_bind_Inr split: if_splits option.splits)

lemma settle_move_Inr:
  assumes "settle_move ds pt work pre a = Inr p"
  shows "\<exists>f t. status_step f t \<and> oget work ''status'' = Some (JStr f) \<and> oget a ''finalStatus'' = Some (JStr t)
     \<and> oget p ''id'' = oget work ''id'' \<and> oget p ''to'' = Some (JStr t) \<and> (pre = None \<or> pre = Some (JStr f))"
proof -
  let ?a = "oput ''expectedStatus'' pre (oput ''to'' (oget a ''finalStatus'') (copy_keys [''reason'', ''ask'', ''answer''] a []))"
  obtain q where q: "fsm_move pt work ?a = Inr q" and p: "oget p ''id'' = oget q ''id''" "oget p ''to'' = oget q ''to''"
    using assms by (auto simp: settle_move_def Let_def e_bind_Inr stamp_status_def stamp_str_def oget_copy_keys)
  from fsm_move_Inr[OF q] show ?thesis by (auto simp: p)
qed

text \<open>An accepted patch: its guards, and the payload it becomes.\<close>

lemma validateWorkPatch_Inr:
  assumes "validateWorkPatch ds pt v i patchv role = Inr p"
  shows "\<exists>work patch. oget (v_work v) i = Some work \<and> patchv = Some (JObj patch) \<and> patch \<noteq> []
     \<and> set (okeys patch) \<subseteq> set EDITABLE_FIELDS
     \<and> oget p ''id'' = Some (JStr i) \<and> oget p ''patch'' = Some (JObj (normalized_patch patch))
     \<and> validateWork ds (Some (JObj (omerge work (normalized_patch patch)))) (Some (okeys (v_work v))) (Some (okeys patch)) = None
     \<and> assertNoUnifiedCycle (pkey (omerge work (normalized_patch patch))) (omerge work (normalized_patch patch)) (v_work v) = None
     \<and> assertNoCycle (pkey (omerge work (normalized_patch patch))) (omerge work (normalized_patch patch)) (v_work v) = None"
proof -
  obtain work where w: "oget (v_work v) i = Some work"
    using assms by (auto simp: validateWorkPatch_def split: option.splits)
  obtain patch where patch: "patchv = Some (JObj patch)"
    using assms w by (auto simp: validateWorkPatch_def Let_def guarded_Inr check_simps as_obj_Some_iff)
  show ?thesis using assms w patch
    by (auto simp: validateWorkPatch_def Let_def guarded_Inr check_simps cycle_errors_def)
qed

lemma keys_normalized: "okeys (normalized_patch patch) = okeys patch \<or> ''title'' \<in> set (okeys patch)"
  by (auto simp: normalized_patch_def okeys_oset dest: oget_Some_key split: option.splits jval.splits)

lemma normalized_patch_other: "k \<noteq> ''title'' \<Longrightarrow> oget (normalized_patch patch) k = oget patch k"
  by (auto simp: normalized_patch_def split: option.splits jval.splits)

lemma editable_not: "set (okeys patch) \<subseteq> set EDITABLE_FIELDS \<Longrightarrow> k \<in> {''id'', ''status''} \<Longrightarrow> oget (normalized_patch patch) k = None"
  by (subst normalized_patch_other) (auto simp: oget_None_iff EDITABLE_FIELDS_def)

text \<open>An edit that passes the checks depends on known items: its own deps are checked, or they are the old ones.\<close>

lemma edited_deps:
  assumes "sound_works (v_work v)" "oget (v_work v) i = Some work"
    and "validateWork ds (Some (JObj (omerge work (normalized_patch patch)))) (Some (okeys (v_work v))) (Some (okeys patch)) = None"
  shows "deps_known (set (okeys (v_work v))) (omerge work (normalized_patch patch))"
proof (cases "''deps'' \<in> set (okeys patch)")
  case True
  then have "validateDeps (omerge work (normalized_patch patch)) (okeys (v_work v)) = None"
    using assms(3) by (simp add: validateWork_def check_simps)
  then show ?thesis by (rule validateDeps_known)
next
  case False
  then have "oget (normalized_patch patch) ''deps'' = None"
    by (simp add: normalized_patch_other oget_None_iff)
  moreover have "deps_known (set (okeys (v_work v))) work"
    using assms(1,2) by (simp add: sound_works_def known_deps_def)
  ultimately show ?thesis using deps_known_cong[of "omerge work (normalized_patch patch)" work] by simp
qed

lemma edit_event:
  assumes p: "validateWorkPatch ds pt v i patchv role = Inr p"
    and e: "shadows e (''work.edit'', p)" and W: "sound_works (v_work v)" and u: "v_work u = v_work v"
  shows "sound_works (v_work (apply_plain ds e u))"
    and "\<exists>w w'. oget (v_work v) i = Some w \<and> v_work (apply_plain ds e u) = oset i w' (v_work v)
       \<and> oget w' ''status'' = oget w ''status''"
proof -
  obtain work patch where w: "oget (v_work v) i = Some work"
    and ed: "set (okeys patch) \<subseteq> set EDITABLE_FIELDS" and pid: "oget p ''id'' = Some (JStr i)"
    and pp: "oget p ''patch'' = Some (JObj (normalized_patch patch))"
    and g: "assertNoUnifiedCycle (pkey (omerge work (normalized_patch patch))) (omerge work (normalized_patch patch)) (v_work v) = None"
    and vw: "validateWork ds (Some (JObj (omerge work (normalized_patch patch)))) (Some (okeys (v_work v))) (Some (okeys patch)) = None"
    using validateWorkPatch_Inr[OF p] by blast
  let ?c = "omerge work (normalized_patch patch)"
  have deps: "deps_known (set (okeys (v_work v))) ?c" using edited_deps[OF W w vw] .
  have item: "sound_item i work" using W w by (simp add: sound_works_def)
  have none: "oget (normalized_patch patch) ''id'' = None" "oget (normalized_patch patch) ''status'' = None"
    using editable_not[OF ed] by auto
  have key: "pkey ?c = i" using item none by (simp add: pkey_def sound_item_def)
  have ek: "pkey (e_payload e) = i" using shadowsD(2)[OF e] pid by (simp add: pkey_def)
  have ep: "oget (e_payload e) ''patch'' = Some (JObj (normalized_patch patch))" using shadowsD(3)[OF e] pp by simp
  have app: "v_work (apply_plain ds e u) = oset i (edited_item ds (e_payload e) work) (v_work v)"
    using shadowsD(1)[OF e] by (simp add: apply_plain_def v_work_on_item ek w u Let_def)
  have st: "oget (edited_item ds (e_payload e) work) ''status'' = oget work ''status''"
    using none by (simp add: status_edited_item ep)
  have lin: "same_lineage ?c (edited_item ds (e_payload e) work)" by (rule lineage_edited) (simp add: ep)
  have "sound_item i (edited_item ds (e_payload e) work)"
    using item st lin none by (auto simp: sound_item_def same_lineage_def)
  then show "sound_works (v_work (apply_plain ds e u))"
    unfolding app using sound_write[OF W _ lin _ deps] g key by simp
  show "\<exists>w w'. oget (v_work v) i = Some w \<and> v_work (apply_plain ds e u) = oset i w' (v_work v)
       \<and> oget w' ''status'' = oget w ''status''"
    using w app st by blast
qed

text \<open>A settle is at most one edit, then events that create and edit nothing, at most one of them a move.\<close>

lemma settle_shape:
  assumes "settleClaim ds pt before v cs evidence a = Inr (Settled rs cs')"
  shows "\<exists>work edit q move. oget (v_work v) (pkey a) = Some work \<and> rs = edit @ [(''work.attempt'', q)] @ move
     \<and> (edit = [] \<or> (\<exists>patch p. validateWorkPatch ds pt v (pkey a) patch (oget a ''role'') = Inr p \<and> edit = [(''work.edit'', p)]))
     \<and> (move = [] \<or> (\<exists>p f t. move = [(''work.move'', p)] \<and> status_step f t \<and> oget work ''status'' = Some (JStr f)
          \<and> oget p ''id'' = oget work ''id'' \<and> oget p ''to'' = Some (JStr t)))"
proof -
  obtain claim work where w: "oget (v_work v) (pkey a) = Some work"
    and b: "settle_batch ds pt v claim a work = Inr rs"
    using assms
    by (auto simp: settleClaim_def settle_tx_def guarded_Inr e_bind_Inr split: if_splits sum.splits option.splits)
  let ?pre = "js_or (oget claim ''preClaimStatus'') (oget work ''status'')"
  obtain move edit where mv: "(if oget a ''finalStatus'' = ?pre then Inr []
        else e_bind (settle_move ds pt work ?pre a) (\<lambda>p. Inr [(''work.move'', p)])) = Inr move"
    and ed: "(case as_obj (oget a ''patch'') of None \<Rightarrow> Inr [] | Some [] \<Rightarrow> Inr []
        | Some patch \<Rightarrow> e_bind (validateWorkPatch ds pt v (pkey a) (Some (JObj patch)) (oget a ''role''))
            (\<lambda>p. Inr [(''work.edit'', p)])) = Inr edit"
    and rs: "rs = edit @ [(''work.attempt'', attempt_payload pt claim ?pre a)] @ move"
    using b by (auto simp: settle_batch_def Let_def e_bind_Inr cong: option.case_cong list.case_cong)
  have "edit = [] \<or> (\<exists>patch p. validateWorkPatch ds pt v (pkey a) patch (oget a ''role'') = Inr p \<and> edit = [(''work.edit'', p)])"
    using ed by (auto simp: e_bind_Inr split: option.splits list.splits)
  moreover have "move = [] \<or> (\<exists>p f t. move = [(''work.move'', p)] \<and> status_step f t \<and> oget work ''status'' = Some (JStr f)
      \<and> oget p ''id'' = oget work ''id'' \<and> oget p ''to'' = Some (JStr t))"
    using mv settle_move_Inr by (fastforce simp: e_bind_Inr split: if_splits)
  ultimately show ?thesis using w rs by blast
qed

section \<open>A step keeps the item map sound\<close>

definition ordinary :: "raw_event \<Rightarrow> bool" where
  "ordinary r = (fst r \<notin> {''work.add'', ''work.edit''} \<union> set KNOWLEDGE_TYPES
     \<and> (fst r = ''work.move'' \<longrightarrow> known_status (oget (snd r) ''to'')))"

lemma calm_ordinary: "calm r \<Longrightarrow> ordinary r"
  by (auto simp: calm_def ordinary_def)

lemma calm_ordinary_all: "list_all calm rs \<Longrightarrow> list_all ordinary rs"
  using calm_ordinary by (auto simp: list_all_iff)

lemma move_ordinary: "status_step f t \<Longrightarrow> oget p ''to'' = Some (JStr t) \<Longrightarrow> ordinary (''work.move'', p)"
  using transition_endpoints[of f t] by (auto simp: ordinary_def known_status_def status_step_iff KNOWLEDGE_TYPES_def)

lemma ordinary_batch:
  assumes "foldEvents ds u (appended_from en k (prepareEvents v decided rs)) = Inr v'"
    and "list_all ordinary rs" "sound_works (v_work u)"
  shows "sound_works (v_work v')"
proof (rule batch_work_induct[where P = sound_works, OF assms(1,3)])
  show "list_all (\<lambda>r. fst r \<notin> set KNOWLEDGE_TYPES) rs" using assms(2) by (auto simp: list_all_iff ordinary_def)
  fix x :: view and e r
  assume "r \<in> set rs" "shadows e r" "sound_works (v_work x)"
  then show "sound_works (v_work (apply_plain ds e x))"
    using assms(2) by (intro sound_lineage_event) (auto simp: list_all_iff ordinary_def)
qed

lemma ordinary_commit:
  "commit ds en v rs = Inr v' \<Longrightarrow> list_all ordinary rs \<Longrightarrow> sound_works (v_work v) \<Longrightarrow> sound_works (v_work v')"
  unfolding commit_def appended_alt by (rule ordinary_batch)

lemma edit_commit:
  assumes c: "commit ds en v ((''work.edit'', p) # rs) = Inr v'" and rs: "list_all ordinary rs"
    and p: "validateWorkPatch ds pt v i patch role = Inr p" and W: "sound_works (v_work v)"
  shows "sound_works (v_work v')"
proof -
  obtain e u decided where e: "shadows e (''work.edit'', p)"
    and f: "foldEvents ds u (appended_from en 1 (prepareEvents v decided rs)) = Inr v'"
    and u: "v_work u = v_work v \<or> v_work u = v_work (apply_plain ds e (note_stream e v))"
    using commit_first[OF c] by (auto simp: KNOWLEDGE_TYPES_def)
  have "sound_works (v_work u)" using u W edit_event(1)[OF p e W, of "note_stream e v"] by auto
  then show ?thesis by (rule ordinary_batch[OF f rs])
qed

lemma addWork_Inr:
  assumes "addWork ds pt v work = Inr rs"
  shows "rs = [(''work.add'', new_item ds pt work)] \<and> oget (v_work v) (pkey work) = None
     \<and> shape_errors ds (normalized_item work) None = None
     \<and> assertNoUnifiedCycle (pkey work) (normalized_item work) (v_work v) = None
     \<and> assertNoCycle (pkey work) (normalized_item work) (v_work v) = None
     \<and> validateDeps (normalized_item work) (okeys (v_work v)) = None"
proof -
  have "pkey (normalized_item work) = pkey work" by (simp add: normalized_item_def pkey_def)
  then show ?thesis using assms
    by (auto simp: addWork_def Let_def guarded_Inr check_simps cycle_errors_def validateWork_def validateWorkShape_def)
qed

lemma new_item_fields:
  "same_lineage (normalized_item work) (new_item ds pt work)"
  "oget (new_item ds pt work) ''status'' = oget (normalized_item work) ''status''"
  by (auto simp: same_lineage_def new_item_def stamp_str_def Let_def)

lemma add_commit:
  assumes a: "addWork ds pt v work = Inr rs" and c: "commit ds en v rs = Inr v'" and W: "sound_works (v_work v)"
  shows "sound_works (v_work v')"
    and "v_work v' = v_work v \<or> (\<exists>w. v_work v' = oset (pkey work) w (v_work v))"
proof -
  note d = addWork_Inr[OF a]
  obtain e where e: "shadows e (''work.add'', new_item ds pt work)"
    and u: "v_work v' = v_work v \<or> v_work v' = v_work (apply_plain ds e (note_stream e v))"
    using commit_first[of ds en v "(''work.add'', new_item ds pt work)" "[]" v'] c d
    by (auto simp: KNOWLEDGE_TYPES_def)
  obtain i where i: "oget (normalized_item work) ''id'' = Some (JStr i)" "ID_PATTERN i" "length i \<le> MAX_ID_LENGTH"
    using d valid_id by blast
  then have key: "pkey work = i" by (simp add: normalized_item_def pkey_def)
  have same: "oget (e_payload e) k = oget (new_item ds pt work) k" if "k \<noteq> ''precondition''" for k
    using shadowsD(3)[OF e] that by simp
  let ?w = "added_item ds (e_payload e)"
  have "same_lineage (new_item ds pt work) (e_payload e)" by (simp add: same_lineage_def same)
  then have lin: "same_lineage (normalized_item work) ?w"
    using new_item_fields(1) lineage_added same_lineage_trans by metis
  have st: "oget ?w ''status'' = oget (normalized_item work) ''status''"
    by (simp add: status_added_item same new_item_fields)
  have "oget (e_payload e) ''id'' = Some (JStr i)"
    using new_item_fields(1)[of work ds pt] i by (simp add: same same_lineage_def)
  then have app: "v_work (apply_plain ds e (note_stream e v)) = oset i ?w (v_work v)"
    using shadowsD(1)[OF e] by (simp add: apply_plain_def apply_add_def pkey_def is_string_def Let_def)
  have "sound_item i ?w"
    using i lin st d valid_status[of ds "normalized_item work"] by (auto simp: sound_item_def same_lineage_def)
  then have "sound_works (oset i ?w (v_work v))"
    using sound_write[OF W _ lin _ validateDeps_known] d key by simp
  with u app W show "sound_works (v_work v')" by auto
  show "v_work v' = v_work v \<or> (\<exists>w. v_work v' = oset (pkey work) w (v_work v))"
    using u app key by auto
qed

lemma editWork_Inr: "editWork ds pt v i patch role = Inr rs \<Longrightarrow>
    \<exists>p. rs = [(''work.edit'', p)] \<and> validateWorkPatch ds pt v i patch role = Inr p"
  by (auto simp: editWork_def e_bind_Inr)

text \<open>The shapes of a batch.\<close>

lemma door_shape:
  assumes "door ds v rs"
  obtains (calm) "list_all calm rs"
  | (add) pt work where "addWork ds pt v work = Inr rs"
  | (edit) pt i patch role p where "rs = [(''work.edit'', p)]" "validateWorkPatch ds pt v i patch role = Inr p"
  | (move) i work pre p post f t where "oget (v_work v) i = Some work" "rs = pre @ [(''work.move'', p)] @ post"
      "list_all calm pre" "list_all calm post" "status_step f t" "oget work ''status'' = Some (JStr f)"
      "oget p ''id'' = oget work ''id''" "oget p ''to'' = Some (JStr t)"
  | (settle) i work pt patch role p q mv where "oget (v_work v) i = Some work"
      "rs = [(''work.attempt'', q)] @ mv
       \<or> rs = (''work.edit'', p) # [(''work.attempt'', q)] @ mv \<and> validateWorkPatch ds pt v i patch role = Inr p"
      "mv = [] \<or> (\<exists>m f t. mv = [(''work.move'', m)] \<and> status_step f t \<and> oget work ''status'' = Some (JStr f)
          \<and> oget m ''id'' = oget work ''id'' \<and> oget m ''to'' = Some (JStr t))"
  using assms
proof cases
  case (add pt work)
  then show ?thesis by (rule that(2))
next
  case (edit pt i patch role)
  then show ?thesis using editWork_Inr that(3) by blast
next
  case (move pt judge prior cs snapshot a)
  then obtain work where w: "oget (v_work v) (pkey a) = Some work"
    and b: "move_batch ds pt judge v cs snapshot a work = Inr rs" using moveWorkOnce_Batch by blast
  from move_batch_shape[OF b] show ?thesis using that(4)[OF w] by blast
next
  case (settle pt before cs evidence a cs')
  note settled = that(5)
  obtain work edit q mv where w: "oget (v_work v) (pkey a) = Some work" and rs: "rs = edit @ [(''work.attempt'', q)] @ mv"
    and ed: "edit = [] \<or> (\<exists>patch p. validateWorkPatch ds pt v (pkey a) patch (oget a ''role'') = Inr p \<and> edit = [(''work.edit'', p)])"
    and mv: "mv = [] \<or> (\<exists>m f t. mv = [(''work.move'', m)] \<and> status_step f t \<and> oget work ''status'' = Some (JStr f)
          \<and> oget m ''id'' = oget work ''id'' \<and> oget m ''to'' = Some (JStr t))"
    using settle_shape[OF settle] by blast
  from ed show ?thesis
  proof
    assume "edit = []"
    with rs show ?thesis by (intro settled[OF w _ mv]) simp
  next
    assume "\<exists>patch p. validateWorkPatch ds pt v (pkey a) patch (oget a ''role'') = Inr p \<and> edit = [(''work.edit'', p)]"
    then obtain patch p where "validateWorkPatch ds pt v (pkey a) patch (oget a ''role'') = Inr p" "edit = [(''work.edit'', p)]"
      by blast
    with rs show ?thesis by (intro settled[OF w _ mv]) simp
  qed
qed (rule that(1), (erule calm_simple calm_step | (simp, erule calm_call calm_return)))+

lemma step_sound:
  assumes "store_step ds v v'" "sound_works (v_work v)"
  shows "sound_works (v_work v')"
proof -
  obtain rs en where d: "door ds v rs" and c: "commit ds en v rs = Inr v'" using assms(1) by (auto elim: store_stepE)
  from d show ?thesis
  proof (cases rule: door_shape)
    case calm
    then show ?thesis using ordinary_commit[OF c] calm_ordinary_all assms(2) by blast
  next
    case (add pt work)
    then show ?thesis using add_commit(1) c assms(2) by blast
  next
    case (edit pt i patch role p)
    then show ?thesis using edit_commit[of ds en v p "[]"] c assms(2) by simp
  next
    case (move i work pre p post f t)
    then have "list_all ordinary rs" by (simp add: calm_ordinary_all move_ordinary)
    then show ?thesis by (rule ordinary_commit[OF c _ assms(2)])
  next
    case (settle i work pt patch role p q mv)
    then have ord: "list_all ordinary ([(''work.attempt'', q)] @ mv)"
      using move_ordinary by (auto simp: calm_ordinary calm_types)
    from settle(2) show ?thesis
    proof (elim disjE conjE)
      assume "rs = [(''work.attempt'', q)] @ mv"
      then show ?thesis using ordinary_commit[OF c _ assms(2)] ord by simp
    next
      assume "rs = (''work.edit'', p) # [(''work.attempt'', q)] @ mv" "validateWorkPatch ds pt v i patch role = Inr p"
      then show ?thesis using edit_commit[OF _ ord] c assms(2) by blast
    qed
  qed
qed

lemma reachable_sound: "store_reachable ds v \<Longrightarrow> sound_works (v_work v)"
proof (induction rule: store_reachable.induct)
  case start
  have "unified_edges [] = {}" by (simp add: unified_edges_def buildUnifiedEdges_def)
  then show ?case by (simp add: sound_works_def known_deps_def empty_view_def okeys_def acyclic_def)
qed (rule step_sound)

section \<open>How a status changes\<close>

definition has_status :: "string \<Rightarrow> jval option set \<Rightarrow> works \<Rightarrow> bool" where
  "has_status i S W = (\<exists>w. oget W i = Some w \<and> oget w ''status'' \<in> S)"

lemma has_status_state: "has_status i S (v_work v) \<longleftrightarrow> fst (state_of v i) \<and> snd (state_of v i) \<in> S"
  by (cases "oget (v_work v) i") (auto simp: has_status_def state_of_def)

definition keeps_status :: "string \<Rightarrow> jval option set \<Rightarrow> raw_event \<Rightarrow> bool" where
  "keeps_status i S r = (fst r \<notin> {''work.add'', ''work.edit''} \<union> set KNOWLEDGE_TYPES
     \<and> (fst r = ''work.move'' \<and> pkey (snd r) = i \<longrightarrow> oget (snd r) ''to'' \<in> S))"

lemma calm_keeps: "calm r \<Longrightarrow> keeps_status i S r"
  by (auto simp: calm_def keeps_status_def)

lemma calm_keeps_all: "list_all calm rs \<Longrightarrow> list_all (keeps_status i S) rs"
  using calm_keeps by (auto simp: list_all_iff)

lemma keeps_batch:
  assumes "foldEvents ds u (appended_from en k (prepareEvents v decided rs)) = Inr v'"
    and "list_all (keeps_status i S) rs" "has_status i S (v_work u)"
  shows "has_status i S (v_work v')"
proof (rule batch_work_induct[where P = "has_status i S", OF assms(1,3)])
  show "list_all (\<lambda>r. fst r \<notin> set KNOWLEDGE_TYPES) rs" using assms(2) by (auto simp: list_all_iff keeps_status_def)
  fix x :: view and e r
  assume "r \<in> set rs" and e: "shadows e r" and x: "has_status i S (v_work x)"
  then have k: "keeps_status i S r" using assms(2) by (simp add: list_all_iff)
  show "has_status i S (v_work (apply_plain ds e x))"
  proof (cases "fst r = ''work.move''")
    case True
    then show ?thesis using k x shadowsD[OF e]
      by (auto simp: has_status_state state_after_move keeps_status_def)
  next
    case False
    then show ?thesis using k x shadowsD[OF e]
      by (auto simp: has_status_state state_after_other keeps_status_def)
  qed
qed

lemma keeps_commit:
  "commit ds en v rs = Inr v' \<Longrightarrow> list_all (keeps_status i S) rs \<Longrightarrow> has_status i S (v_work v) \<Longrightarrow> has_status i S (v_work v')"
  unfolding commit_def appended_alt by (rule keeps_batch)

lemma edit_keeps_commit:
  assumes c: "commit ds en v ((''work.edit'', p) # rs) = Inr v'" and rs: "list_all (keeps_status i S) rs"
    and p: "validateWorkPatch ds pt v j patch role = Inr p" and W: "sound_works (v_work v)" "has_status i S (v_work v)"
  shows "has_status i S (v_work v')"
proof -
  obtain e u decided where e: "shadows e (''work.edit'', p)"
    and f: "foldEvents ds u (appended_from en 1 (prepareEvents v decided rs)) = Inr v'"
    and u: "v_work u = v_work v \<or> v_work u = v_work (apply_plain ds e (note_stream e v))"
    using commit_first[OF c] by (auto simp: KNOWLEDGE_TYPES_def)
  have "has_status i S (v_work (apply_plain ds e (note_stream e v)))"
    using edit_event(2)[OF p e W(1), of "note_stream e v"] W(2) by (auto simp: has_status_def)
  then have "has_status i S (v_work u)" using u W(2) by auto
  then show ?thesis by (rule keeps_batch[OF f rs])
qed

text \<open>The statuses an item in status \<open>s\<close> can have after one step.\<close>

definition next_statuses :: "jval option \<Rightarrow> jval option set" where
  "next_statuses s = {s} \<union> {Some (JStr t) | t. \<exists>f. s = Some (JStr f) \<and> status_step f t}"

lemma step_status:
  assumes "store_step ds v v'" and W: "sound_works (v_work v)" and w: "oget (v_work v) i = Some w"
  shows "has_status i (next_statuses (oget w ''status'')) (v_work v')"
proof -
  let ?S = "next_statuses (oget w ''status'')"
  obtain rs en where d: "door ds v rs" and c: "commit ds en v rs = Inr v'" using assms(1) by (auto elim: store_stepE)
  have now: "has_status i ?S (v_work v)" using w by (simp add: has_status_def next_statuses_def)
  have mv: "keeps_status i ?S (''work.move'', m)"
    if "oget (v_work v) j = Some work" "status_step f t" "oget work ''status'' = Some (JStr f)"
      "oget m ''id'' = oget work ''id''" "oget m ''to'' = Some (JStr t)" for j work m f t
  proof -
    have "pkey m = j" using W that by (simp add: sound_works_def sound_item_def pkey_def)
    then show ?thesis using that w by (auto simp: keeps_status_def next_statuses_def KNOWLEDGE_TYPES_def)
  qed
  from d show ?thesis
  proof (cases rule: door_shape)
    case calm
    then show ?thesis using keeps_commit[OF c _ now] calm_keeps_all by blast
  next
    case (add pt work)
    have "pkey work \<noteq> i" using addWork_Inr[OF add] w by auto
    then show ?thesis using add_commit(2)[OF add c W] now by (auto simp: has_status_def)
  next
    case (edit pt j patch role p)
    then show ?thesis using edit_keeps_commit[of ds en v p "[]"] c W now by simp
  next
    case (move j work pre p post f t)
    have "list_all (keeps_status i ?S) rs" using move mv[OF move(1,5,6,7,8)] by (simp add: calm_keeps_all)
    then show ?thesis by (rule keeps_commit[OF c _ now])
  next
    case (settle j work pt patch role p q m)
    have "list_all (keeps_status i ?S) m" using settle(3) mv[OF settle(1)] by auto
    then have k: "list_all (keeps_status i ?S) ([(''work.attempt'', q)] @ m)" by (simp add: calm_keeps calm_types)
    from settle(2) show ?thesis
    proof (elim disjE conjE)
      assume "rs = [(''work.attempt'', q)] @ m"
      then show ?thesis using keeps_commit[OF c _ now] k by simp
    next
      assume "rs = (''work.edit'', p) # [(''work.attempt'', q)] @ m" "validateWorkPatch ds pt v j patch role = Inr p"
      then show ?thesis using edit_keeps_commit[OF _ k] c W now by blast
    qed
  qed
qed

text \<open>So a terminal status is for good.\<close>

lemma terminal_step:
  assumes "store_step ds v v'" "sound_works (v_work v)" "has_status i {Some (JStr s)} (v_work v)" "s \<in> {''done'', ''wontfix''}"
  shows "has_status i {Some (JStr s)} (v_work v')"
proof -
  obtain w where w: "oget (v_work v) i = Some w" "oget w ''status'' = Some (JStr s)"
    using assms(3) by (auto simp: has_status_def)
  have "next_statuses (oget w ''status'') = {Some (JStr s)}"
    using assms(4) out_of_done out_of_wontfix by (auto simp: next_statuses_def w(2))
  with step_status[OF assms(1,2) w(1)] show ?thesis by simp
qed

inductive store_run :: "registry \<Rightarrow> view \<Rightarrow> view \<Rightarrow> bool" for ds where
  refl: "store_run ds v v"
| step: "store_run ds v u \<Longrightarrow> store_step ds u v' \<Longrightarrow> store_run ds v v'"

lemma run_sound: "store_run ds v v' \<Longrightarrow> sound_works (v_work v) \<Longrightarrow> sound_works (v_work v')"
  by (induction rule: store_run.induct) (auto intro: step_sound)

lemma run_terminal:
  "store_run ds v v' \<Longrightarrow> sound_works (v_work v) \<Longrightarrow> has_status i {Some (JStr s)} (v_work v) \<Longrightarrow>
     s \<in> {''done'', ''wontfix''} \<Longrightarrow> has_status i {Some (JStr s)} (v_work v')"
proof (induction rule: store_run.induct)
  case (step v u v')
  then show ?case using terminal_step run_sound by metis
qed

end
