(* ===== verification/Store_Batches.thy ===== *)
theory Store_Batches
  imports Store_Door
begin

text \<open>
  The batches the doors return: each applies to the view it was decided on, a question parks an item so
  that its answer resumes it, and a settle keeps to the claim it settles.
\<close>

section \<open>Every batch applies\<close>

text \<open>Every event of a door names its item, and no edit writes a status.\<close>

definition door_shaped :: "raw_event \<Rightarrow> bool" where
  "door_shaped r = (fst r \<notin> set KNOWLEDGE_TYPES
     \<and> (take 5 (fst r) = ''work.'' \<longrightarrow> nonempty_str (oget (snd r) ''id''))
     \<and> (fst r = ''work.edit'' \<longrightarrow> oget (lazyd (as_obj (oget (snd r) ''patch''))) ''status'' = None))"

lemma nonempty_JStr [simp]: "nonempty_str (Some (JStr s)) = (s \<noteq> [])"
  by (simp add: nonempty_str_def)

lemma sound_id_nonempty: "sound_works W \<Longrightarrow> oget W i = Some w \<Longrightarrow> i \<noteq> [] \<and> oget w ''id'' = Some (JStr i)"
  by (metis ID_PATTERN.simps(1) sound_item_def sound_works_def)

lemma nonblank_nonempty: "nonblank v \<Longrightarrow> nonempty_str v"
  by (auto simp: trim_def dest!: nonblankD)

lemma call_shaped: "callEvent ds writer v i to reason note out depth = Inr r \<Longrightarrow> sound_works (v_work v) \<Longrightarrow> door_shaped r"
  using sound_id_nonempty[of "v_work v" i]
  by (auto simp: callEvent_def Let_def door_shaped_def KNOWLEDGE_TYPES_def split: option.splits sum.splits if_splits)

lemma return_shaped: "recordCallReturn writer v i note = Inr r \<Longrightarrow> sound_works (v_work v) \<Longrightarrow> door_shaped r"
  using sound_id_nonempty[of "v_work v" i]
  by (auto simp: recordCallReturn_def Let_def door_shaped_def KNOWLEDGE_TYPES_def split: option.splits list.splits if_splits)

lemma patch_shaped:
  assumes "validateWorkPatch ds pt v i patch role = Inr p" "sound_works (v_work v)"
  shows "door_shaped (''work.edit'', p)"
  using validateWorkPatch_Inr[OF assms(1)] sound_id_nonempty[OF assms(2)] editable_not[of _ "''status''"]
  by (auto simp: door_shaped_def KNOWLEDGE_TYPES_def)

lemma add_shaped: "addWork ds pt v work = Inr rs \<Longrightarrow> list_all door_shaped rs"
proof -
  assume a: "addWork ds pt v work = Inr rs"
  note d = addWork_Inr[OF a]
  then obtain i where "oget (normalized_item work) ''id'' = Some (JStr i)" "ID_PATTERN i" using valid_id by blast
  moreover have "oget (new_item ds pt work) ''id'' = oget (normalized_item work) ''id''"
    using new_item_fields(1)[of work ds pt] by (simp add: same_lineage_def)
  ultimately show ?thesis using d by (cases i) (auto simp: door_shaped_def KNOWLEDGE_TYPES_def)
qed

lemma move_shaped:
  assumes "moveWorkOnce ds pt judge prior v cs snapshot a = Inr (Batch rs)" "sound_works (v_work v)"
  shows "list_all door_shaped rs"
proof -
  obtain work where w: "oget (v_work v) (pkey a) = Some work"
    and b: "move_batch ds pt judge v cs snapshot a work = Inr rs"
    using moveWorkOnce_Batch[OF assms(1)] by blast
  obtain pre p where pre: "judged judge cs (pkey a) work = Inr pre" and p: "fsm_move pt work a = Inr p"
    and rs: "rs = pre @ [(''work.move'', stamped_move ds pt v work a p)]
      @ (if oget a ''to'' = Some (JStr ''awaiting-approval'') then review_handoff ds pt v work (pkey a) else [])"
    using b by (auto simp: move_batch_def e_bind_Inr guarded_Inr)
  have "list_all door_shaped pre"
    using pre by (auto simp: judged_def e_bind_Inr door_shaped_def KNOWLEDGE_TYPES_def split: option.splits sum.splits)
  moreover have "list_all door_shaped (review_handoff ds pt v work (pkey a))"
    using call_shaped assms(2) by (auto simp: review_handoff_def split: sum.splits)
  moreover have "door_shaped (''work.move'', stamped_move ds pt v work a p)"
    using fsm_move_Inr[OF p] sound_id_nonempty[OF assms(2) w]
    by (auto simp: door_shaped_def KNOWLEDGE_TYPES_def stamped_move_fields)
  ultimately show ?thesis using rs by simp
qed

lemma settle_shaped:
  assumes "settleClaim ds pt before v cs evidence a = Inr (Settled rs cs')" "sound_works (v_work v)"
  shows "list_all door_shaped rs"
proof -
  obtain claim work where w: "oget (v_work v) (pkey a) = Some work"
    and b: "settle_batch ds pt v claim a work = Inr rs" 
    using assms(1)
    by (auto simp: settleClaim_def settle_tx_def guarded_Inr e_bind_Inr split: if_splits sum.splits option.splits)
  let ?pre = "js_or (oget claim ''preClaimStatus'') (oget work ''status'')"
  have "pkey a \<noteq> []" using sound_id_nonempty[OF assms(2) w] by simp
  then have att: "door_shaped (''work.attempt'', attempt_payload pt claim ?pre a)"
    by (simp add: door_shaped_def KNOWLEDGE_TYPES_def attempt_payload_def Let_def oget_copy_keys copy_set_def)
  have ed: "list_all door_shaped edit"
    if "edit = [] \<or> (\<exists>patch p. validateWorkPatch ds pt v (pkey a) patch (oget a ''role'') = Inr p \<and> edit = [(''work.edit'', p)])" for edit
    using that patch_shaped assms(2) by auto
  obtain work2 edit q move where w2: "oget (v_work v) (pkey a) = Some work2" and rs: "rs = edit @ [(''work.attempt'', q)] @ move"
    and e: "edit = [] \<or> (\<exists>patch p. validateWorkPatch ds pt v (pkey a) patch (oget a ''role'') = Inr p \<and> edit = [(''work.edit'', p)])"
    and mv: "move = [] \<or> (\<exists>p f t. move = [(''work.move'', p)] \<and> status_step f t \<and> oget work2 ''status'' = Some (JStr f)
          \<and> oget p ''id'' = oget work2 ''id'' \<and> oget p ''to'' = Some (JStr t))"
    using settle_shape[OF assms(1)] by blast
  have "(''work.attempt'', q) \<in> set rs" using rs by simp
  then have "q = attempt_payload pt claim ?pre a"
    using b by (auto simp: settle_batch_def Let_def e_bind_Inr split: if_splits option.splits list.splits)
  with att have "door_shaped (''work.attempt'', q)" by simp
  moreover have "list_all door_shaped move"
    using mv sound_id_nonempty[OF assms(2) w2] by (auto simp: door_shaped_def KNOWLEDGE_TYPES_def)
  ultimately show ?thesis using rs ed[OF e] by simp
qed

lemma small_shaped:
  assumes "sound_works (v_work v)"
  shows "resolveParkReason pt v i note role = Inr rs \<Longrightarrow> list_all door_shaped rs"
    "setFocus v i role = Inr rs \<Longrightarrow> list_all door_shaped rs"
    "moveStep ds pt v i to expected verify role = Inr rs \<Longrightarrow> list_all door_shaped rs"
    "addDiscovery p = Inr rs \<Longrightarrow> list_all door_shaped rs"
    "recordGateApprove a = Inr rs \<Longrightarrow> list_all door_shaped rs"
    "addDecision v p = Inr rs \<Longrightarrow> list_all door_shaped rs"
    "addOutcome p = Inr rs \<Longrightarrow> list_all door_shaped rs"
    "recordClaimAttempt pt a = Inr rs \<Longrightarrow> list_all door_shaped rs"
  using sound_id_nonempty[OF assms, of i] nonblank_nonempty
  by (auto simp: resolveParkReason_def setFocus_def moveStep_def transitionStep_Inr addDiscovery_def recordGateApprove_def
      addDecision_def addOutcome_def recordClaimAttempt_def guarded_Inr check_simps door_shaped_def KNOWLEDGE_TYPES_def
      oget_copy_keys split: option.splits if_splits sum.splits)

lemma door_shaped_all:
  assumes "door ds v rs" "sound_works (v_work v)"
  shows "list_all door_shaped rs"
  using assms(1)
proof cases
  case (edit pt i patch role)
  then show ?thesis using editWork_Inr patch_shaped assms(2) by fastforce
next
  case (call writer i to reason nt out depth r)
  then show ?thesis using call_shaped assms(2) by simp
next
  case (return writer i nt r)
  then show ?thesis using return_shaped assms(2) by simp
qed (erule add_shaped move_shaped[OF _ assms(2)] settle_shaped[OF _ assms(2)] small_shaped[OF assms(2)])+

lemma door_applies:
  assumes "door ds v rs" "sound_works (v_work v)" "\<forall>r \<in> set rs. oget (snd r) ''precondition'' = None"
  shows "\<exists>v'. commit ds en v rs = Inr v' \<and> v_conflicts v' = v_conflicts v"
proof (rule commit_applies)
  show "list_all door_event rs"
    using door_shaped_all[OF assms(1,2)] assms(3) by (auto simp: list_all_iff door_event_def door_shaped_def)
qed
section \<open>One event, committed\<close>

lemma recorded_grows: "v_conflicts (record_conflict e c r u) \<noteq> v_conflicts u"
proof
  assume *: "v_conflicts (record_conflict e c r u) = v_conflicts u"
  have "length (lazyd (v_conflicts (record_conflict e c r u))) = Suc (length (lazyd (v_conflicts u)))"
    by (simp add: record_conflict_def)
  with * show False by simp
qed

lemma commit_single:
  assumes "door_event r" "commit ds en v [r] = Inr v'"
  shows "\<exists>e. shadows e r \<and> v' = note_heads e v (apply_plain ds e (note_stream e v))"
proof -
  obtain e where e: "shadows e r" and f: "foldEvents ds v [e] = Inr v'"
    using assms(2) by (cases "is_work_event r")
      (auto simp: commit_def appended_alt Let_def intro: shadows_at)
  have f1: "foldEvent ds v e = Inr v'" using f by (auto simp: e_bind_Inr)
  have same: "v_conflicts v' = v_conflicts v" using commit_applies[of "[r]" ds en v] assms by simp
  have "\<not> precondition_fails e v"
  proof
    assume "precondition_fails e v"
    then obtain c x where "record_conflict e c x (note_stream e v) = v'"
      using f1 by (auto simp: foldEvent_cases split: if_splits)
    then show False using recorded_grows[of e c x "note_stream e v"] same by simp
  qed
  moreover have "e_type e \<notin> set KNOWLEDGE_TYPES" using assms(1) shadowsD(1)[OF e] by (simp add: door_event_def)
  ultimately show ?thesis using e f1 door_type_applies by (metis Inr_inject)
qed

section \<open>A question and its answer\<close>

text \<open>A move that parks an item for a human, and what it leaves.\<close>

lemma ask_batch:
  assumes "moveWorkOnce ds pt None prior v cs snapshot a = Inr (Batch rs)" "sound_works (v_work v)"
    and "oget a ''to'' = Some (JStr ''awaiting-human'')"
  shows "\<exists>work f p s. oget (v_work v) (pkey a) = Some work \<and> oget work ''status'' = Some (JStr f)
     \<and> f \<in> {''todo'', ''doing''} \<and> rs = [(''work.move'', p)] \<and> oget p ''id'' = Some (JStr (pkey a))
     \<and> oget p ''to'' = Some (JStr ''awaiting-human'') \<and> oget p ''ask'' = Some (JStr s) \<and> s \<noteq> []
     \<and> oget p ''durableStatusAtAsk'' = Some (JStr f) \<and> oget p ''precondition'' = None"
proof -
  obtain work where w: "oget (v_work v) (pkey a) = Some work"
    and b: "move_batch ds pt None v cs snapshot a work = Inr rs"
    using moveWorkOnce_Batch[OF assms(1)] by blast
  obtain q where q: "fsm_move pt work a = Inr q" and rs: "rs = [(''work.move'', stamped_move ds pt v work a q)]"
    using b assms(3) by (auto simp: move_batch_def judged_def e_bind_Inr guarded_Inr)
  obtain f where acc: "move_accepted (pt_missing pt) work (fsm_args_of a) f ''awaiting-human''"
    and qe: "q = move_payload work (fsm_args_of a) f ''awaiting-human''"
    using q assms(3) by (auto simp: fsm_move_def transitionWork_Inr move_accepted_def fsm_args_of_def split: sum.splits)
  have f: "f \<in> {''todo'', ''doing''}" "oget work ''status'' = Some (JStr f)"
    using acc by (auto simp: move_accepted_def TRANSITIONS_def)
  have id: "oget work ''id'' = Some (JStr (pkey a))" using sound_id_nonempty[OF assms(2) w] by simp
  obtain s where s: "trimmed (fa_ask (fsm_args_of a)) = JStr s" "s \<noteq> []"
    using acc by (auto simp: move_accepted_def dest!: nonblankD)
  have "oget (stamped_move ds pt v work a q) ''ask'' = Some (JStr s)"
    "oget (stamped_move ds pt v work a q) ''durableStatusAtAsk'' = Some (JStr f)"
    by (simp_all add: stamped_move_def stamp_status_def stamp_str_def Let_def oget_copy_keys qe s assms(3) f(2))
  moreover have "oget q ''precondition'' = None" by (simp add: qe move_payload_def)
  ultimately show ?thesis using w f rs id s by (auto simp: stamped_move_fields qe)
qed

lemma asked_view:
  assumes "e_type e = ''work.move''" "oget (e_payload e) ''id'' = Some (JStr i)"
    and "oget (e_payload e) ''ask'' = Some (JStr s)" "s \<noteq> []"
    and "oget (e_payload e) ''durableStatusAtAsk'' = Some (JStr f)" "f \<in> {''todo'', ''doing''}"
  shows "resume_target (apply_plain ds e u) i = Some (JStr ''todo'')"
proof -
  have k: "pkey (e_payload e) = i" using assms(2) by (simp add: pkey_def)
  have "oget (gate_record (e_payload e) g) ''durableStatusAtAsk'' = Some (JStr f)" for g
    by (simp add: gate_record_def Let_def oget_copy_keys oget_if assms)
  then show ?thesis using assms k
    by (auto simp: resume_target_def apply_plain_def apply_move_def fold_gate_def Let_def coalesce_def)
qed

lemma answer_accepted:
  assumes "oget (v_work v) i = Some w" "oget w ''id'' = Some (JStr i)" "i \<noteq> []"
    and "oget w ''status'' = Some (JStr ''awaiting-human'')" "resume_target v i = Some (JStr ''todo'')"
    and "nonblank (oget b ''answer'')" "pkey b = i"
    and "oget b ''expectedStatus'' \<in> {None, Some (JStr ''awaiting-human'')}"
  shows "\<exists>m. moveWorkOnce ds pt None prior v cs snapshot (answerAwaiting v b) = Inr (Batch [(''work.move'', m)])
     \<and> oget m ''id'' = Some (JStr i) \<and> oget m ''to'' = Some (JStr ''todo'') \<and> oget m ''precondition'' = None"
proof -
  let ?a = "answerAwaiting v b"
  have fields: "oget ?a ''to'' = Some (JStr ''todo'')" "pkey ?a = i" "oget ?a ''answer'' = oget b ''answer''"
    "oget ?a ''landSettlement'' = None" "oget ?a ''landOperationIds'' = None"
    "oget ?a ''expectedStatus'' = oget b ''expectedStatus''" "oget ?a ''reason'' = None" "oget ?a ''ask'' = None"
    using assms(5,7) by (auto simp: answerAwaiting_def oget_copy_keys pkey_def)
  have "move_accepted (pt_missing pt) w (fsm_args_of ?a) ''awaiting-human'' ''todo''"
    using assms fields by (auto simp: move_accepted_def fsm_args_of_def reasonRequired_def TRANSITIONS_def)
  then obtain q where q: "transitionWork (pt_missing pt) (Some (JObj w)) (fsm_args_of ?a) = Inr (''work.move'', q)"
    "q = move_payload w (fsm_args_of ?a) ''awaiting-human'' ''todo''"
    using transitionWork_Inr by blast
  have "oget q ''precondition'' = None" by (simp add: q(2) move_payload_def)
  with q assms(1,2) fields show ?thesis
    by (simp add: moveWorkOnce_def move_batch_def judged_def fsm_move_def land_checks_def delivery_gate_def
        check_simps stamped_move_fields guarded_def first_err.simps whenc_def Let_def)
qed

lemma move_door_event:
  "oget p ''id'' = Some (JStr i) \<Longrightarrow> i \<noteq> [] \<Longrightarrow> oget p ''precondition'' = None \<Longrightarrow> door_event (''work.move'', p)"
  by (simp add: door_event_def KNOWLEDGE_TYPES_def)

lemma moved_status:
  assumes "commit ds en v [(''work.move'', p)] = Inr v'" "oget p ''id'' = Some (JStr i)" "i \<noteq> []"
    and "oget p ''precondition'' = None" "oget (v_work v) i \<noteq> None"
  shows "\<exists>e. shadows e (''work.move'', p) \<and> v' = note_heads e v (apply_plain ds e (note_stream e v))
     \<and> state_of v' i = (True, oget p ''to'')"
proof -
  obtain e where e: "shadows e (''work.move'', p)" "v' = note_heads e v (apply_plain ds e (note_stream e v))"
    using commit_single[OF move_door_event assms(1)] assms by blast
  have "state_of v' i = (True, oget p ''to'')"
    using e assms shadowsD[OF e(1)] by (simp add: state_after_move pkey_def)
  with e show ?thesis by blast
qed

lemma state_of_True: "state_of v i = (True, s) \<longleftrightarrow> (\<exists>w. oget (v_work v) i = Some w \<and> oget w ''status'' = s)"
  by (auto simp: state_of_def)

lemma ask_answer:
  assumes W: "sound_works (v_work v)"
    and ask: "moveWorkOnce ds pt None prior v cs snapshot a = Inr (Batch rs)"
      "oget a ''to'' = Some (JStr ''awaiting-human'')" "commit ds en v rs = Inr v1"
    and ans: "nonblank (oget b ''answer'')" "pkey b = pkey a"
      "oget b ''expectedStatus'' \<in> {None, Some (JStr ''awaiting-human'')}"
  shows "\<exists>m v2. moveWorkOnce ds pt2 None prior2 v1 cs2 snapshot2 (answerAwaiting v1 b) = Inr (Batch [(''work.move'', m)])
     \<and> commit ds en2 v1 [(''work.move'', m)] = Inr v2
     \<and> (\<exists>w. oget (v_work v2) (pkey a) = Some w \<and> oget w ''status'' = Some (JStr ''todo''))"
proof -
  let ?i = "pkey a"
  obtain work f p s where w: "oget (v_work v) ?i = Some work" and f: "f \<in> {''todo'', ''doing''}"
    and rs: "rs = [(''work.move'', p)]" and p: "oget p ''id'' = Some (JStr ?i)" "oget p ''to'' = Some (JStr ''awaiting-human'')"
      "oget p ''ask'' = Some (JStr s)" "s \<noteq> []" "oget p ''durableStatusAtAsk'' = Some (JStr f)" "oget p ''precondition'' = None"
    using ask_batch[OF ask(1) W ask(2)] by blast
  have i: "?i \<noteq> []" using sound_id_nonempty[OF W w] by simp
  obtain e where e: "shadows e (''work.move'', p)" and v1: "v1 = note_heads e v (apply_plain ds e (note_stream e v))"
    and st: "state_of v1 ?i = (True, Some (JStr ''awaiting-human''))"
    using moved_status[of ds en v p v1 ?i] ask(3) rs p i w by auto
  have same: "oget (e_payload e) k = oget p k" if "k \<noteq> ''precondition''" for k
    using shadowsD(3)[OF e] that by simp
  have "resume_target (apply_plain ds e (note_stream e v)) ?i = Some (JStr ''todo'')"
    using asked_view[of e ?i s f ds "note_stream e v"] shadowsD(1)[OF e] p f by (simp add: same)
  then have rt: "resume_target v1 ?i = Some (JStr ''todo'')" by (simp add: v1 resume_target_def)
  obtain w1 where w1: "oget (v_work v1) ?i = Some w1" "oget w1 ''status'' = Some (JStr ''awaiting-human'')"
    using st by (auto simp: state_of_True)
  have "sound_works (v_work v1)"
    using step_sound[OF store_step.commit[OF door.move[OF ask(1)] ask(3)] W] .
  then have id1: "oget w1 ''id'' = Some (JStr ?i)" using sound_id_nonempty w1(1) by blast
  obtain m where m: "moveWorkOnce ds pt2 None prior2 v1 cs2 snapshot2 (answerAwaiting v1 b) = Inr (Batch [(''work.move'', m)])"
    "oget m ''id'' = Some (JStr ?i)" "oget m ''to'' = Some (JStr ''todo'')" "oget m ''precondition'' = None"
    using answer_accepted[OF w1(1) id1 i w1(2) rt ans(1) ans(2) ans(3)] by blast
  obtain v2 where v2: "commit ds en2 v1 [(''work.move'', m)] = Inr v2"
    using commit_applies[of "[(''work.move'', m)]" ds en2 v1] move_door_event[of m ?i] m i by auto
  have "state_of v2 ?i = (True, Some (JStr ''todo''))"
    using moved_status[OF v2 m(2) i m(4)] w1 m(3) by auto
  with m(1) v2 show ?thesis by (auto simp: state_of_True)
qed

section \<open>The gates of a delivery\<close>

lemma delivery_gate_None:
  assumes "delivery_gate pt snapshot a work = None" "oget a ''to'' = Some (JStr ''delivered'')"
  shows "(\<forall>clauses. oget work ''acceptance'' = Some (JArr clauses) \<longrightarrow> (\<forall>c \<in> set clauses. \<not> clause_open c))
     \<and> (oget work ''risk'' = Some (JStr ''heavy'') \<longrightarrow> (\<exists>s. snapshot = Some s \<and> ps_revision s = pt_revision pt work
          \<and> ps_tip s = pt_tip pt (''fgw/'' @ pkey a) \<and> \<not> ps_failure s))"
  using assms
  by (auto simp: delivery_gate_def check_simps assertAcceptanceEvidence_def applyPlanEvidenceSnapshot_def as_arr_Some_iff
      split: option.splits if_splits)

section \<open>The claim a settle settles\<close>

lemma fresh_checks_Inr:
  "fresh_checks pt cs i target = Inr claim \<longleftrightarrow> oget cs i = Some (Some claim) \<and> oget claim ''claimId'' = target
     \<and> oget claim ''writerId'' \<in> {None, Some (JStr (pt_writerId pt))}"
  by (auto simp: fresh_checks_def readClaim_def check_simps split: option.splits sum.splits)

lemma release_owned:
  assumes "releaseClaimTx cs (oput ''claimId'' target [(''id'', JStr i)]) me = Inr r" "oget cs i = Some (Some claim)"
    and "oget claim ''claimId'' = target"
  shows "snd r = odel i cs"
  using assms
  by (auto simp: releaseClaimTx_def Let_def e_bind_Inr readClaim_def check_simps validateReleaseArgs_def pkey_def
      split: if_splits option.splits)

lemma settle_owned:
  assumes "settleClaim ds pt before v cs evidence a = Inr (Settled rs cs')"
  shows "\<exists>claim work. oget cs (pkey a) = Some (Some claim) \<and> oget (v_work v) (pkey a) = Some work
     \<and> truthy (oget a ''claimId'') \<and> oget claim ''claimId'' = oget a ''claimId''
     \<and> oget claim ''writerId'' \<in> {None, Some (JStr (pt_writerId pt))}
     \<and> drift_checks pt evidence claim work = None \<and> cs' = odel (pkey a) cs"
proof -
  have own: "truthy (oget a ''claimId'')"
    and tx: "settle_tx ds pt v cs evidence (oget a ''claimId'') a = Inr (rs, cs')"
    using assms
    by (auto simp: settleClaim_def guarded_Inr e_bind_Inr owner_checks_def check_simps split: if_splits sum.splits option.splits)
  obtain claim work r where c: "fresh_checks pt cs (pkey a) (oget a ''claimId'') = Inr claim"
    and w: "oget (v_work v) (pkey a) = Some work" "drift_checks pt evidence claim work = None"
    and r: "releaseClaimTx cs (oput ''claimId'' (oget a ''claimId'') [(''id'', JStr (pkey a))]) (pt_mainWriterId pt) = Inr r"
      "cs' = snd r"
    using tx by (auto simp: settle_tx_def e_bind_Inr guarded_Inr split: option.splits sum.splits)
  from c have c': "oget cs (pkey a) = Some (Some claim)" "oget claim ''claimId'' = oget a ''claimId''"
    "oget claim ''writerId'' \<in> {None, Some (JStr (pt_writerId pt))}" by (auto simp: fresh_checks_Inr)
  have "cs' = odel (pkey a) cs" using release_owned[OF r(1) c'(1,2)] r(2) by simp
  with own c' w show ?thesis by blast
qed

section \<open>The calls a delivery closes\<close>

lemma return_commit:
  assumes "recordCallReturn writer v i note = Inr r" "i \<noteq> []" "commit ds en v [r] = Inr v'"
  shows "openCallStack (thread_of v' i) = butlast (openCallStack (thread_of v i))"
proof -
  obtain q where r: "r = (''work.handoff'', q)" "oget q ''id'' = Some (JStr i)" "oget q ''returning'' = Some (JBool True)"
    "oget q ''precondition'' = None"
    using assms(1) by (auto simp: recordCallReturn_def Let_def split: option.splits list.splits if_splits)
  have "door_event r" using r assms(2) by (simp add: door_event_def KNOWLEDGE_TYPES_def)
  then obtain e where e: "shadows e r" "v' = note_heads e v (apply_plain ds e (note_stream e v))"
    using commit_single assms(3) by blast
  have ee: "e_type e = ''work.handoff''" "oget (e_payload e) ''id'' = Some (JStr i)"
    "oget (e_payload e) ''returning'' = Some (JBool True)"
    using shadowsD[OF e(1)] r by auto
  have th: "thread_of (note_heads e b u) i = thread_of u i" "thread_of (note_stream e u) i = thread_of u i" for b u
    by (simp_all add: thread_of_def note_heads_def note_stream_def Let_def split: option.split)
  have "thread_of v' i = thread_of v i @ [handoff_record e]"
    using thread_of_handoff[OF ee(1,2)] by (simp add: e(2) th)
  then show ?thesis using ee(3) by (simp add: openCallStack_snoc push_pop_def handoff_record_fields)
qed

text \<open>The fuel the delivery hands over is enough: when the loop ends, nothing is open or a return is refused.\<close>

lemma close_calls_ends:
  assumes "length (openCallStack (thread_of v i)) \<le> n" "sound_works (v_work v)"
    and "note = Some (JStr ''auto-closed at delivered (tsk-2t9c D16)'')"
  shows "openCallStack (thread_of (close_calls ds pt en i n v) i) = []
     \<or> (\<exists>e. recordCallReturn (JObj (pt_writer pt)) (close_calls ds pt en i n v) i note = Inl e)"
  using assms(1,2)
proof (induction n arbitrary: v)
  case (Suc n)
  show ?case
  proof (cases "openCallStack (thread_of v i) = []")
    case False
    show ?thesis
    proof (cases "recordCallReturn (JObj (pt_writer pt)) v i note")
      case (Inr r)
      have i: "i \<noteq> []" using Inr sound_id_nonempty[OF Suc.prems(2), of i]
        by (auto simp: recordCallReturn_def split: option.splits)
      have d: "door ds v [r]" using Inr by (rule door.return)
      have "\<exists>v'. commit ds (en n) v [r] = Inr v' \<and> v_conflicts v' = v_conflicts v"
        by (rule door_applies[OF d Suc.prems(2)])
          (use Inr in \<open>auto simp: recordCallReturn_def Let_def split: option.splits list.splits if_splits\<close>)
      then obtain v' where v': "commit ds (en n) v [r] = Inr v'" by blast
      have "length (openCallStack (thread_of v' i)) \<le> n"
        using return_commit[OF Inr i v'] Suc.prems(1) by simp
      moreover have "sound_works (v_work v')" using step_sound[OF store_step.commit[OF d v'] Suc.prems(2)] .
      ultimately show ?thesis using Suc.IH[of v'] False Inr v' assms(3) by simp
    qed (use False assms(3) in simp)
  qed simp
qed (use assms in simp)

section \<open>Retries\<close>

lemma plan_attempts_spec:
  "plan_attempts n attempt k =
     (if \<forall>j < n. attempt (k + j) = Inl Plan_evidence_stale then Inl (Conflict ''plan evidence kept changing'')
      else attempt (k + (LEAST j. attempt (k + j) \<noteq> Inl Plan_evidence_stale)))"
proof (induction n arbitrary: k)
  case (Suc n)
  show ?case
  proof (cases "attempt k = Inl Plan_evidence_stale")
    case True
    have "(\<forall>j < Suc n. attempt (k + j) = Inl Plan_evidence_stale) \<longleftrightarrow> (\<forall>j < n. attempt (Suc k + j) = Inl Plan_evidence_stale)"
      using True by (auto simp: less_Suc_eq_0_disj)
    moreover have "(LEAST j. attempt (k + j) \<noteq> Inl Plan_evidence_stale) = Suc (LEAST j. attempt (Suc k + j) \<noteq> Inl Plan_evidence_stale)"
      if "attempt (Suc k + j) \<noteq> Inl Plan_evidence_stale" for j
      using Least_Suc[of "\<lambda>j. attempt (k + j) \<noteq> Inl Plan_evidence_stale" "Suc j"] that True by simp
    ultimately show ?thesis using True Suc.IH[of "Suc k"] by auto
  next
    case False
    then have "(LEAST j. attempt (k + j) \<noteq> Inl Plan_evidence_stale) = 0" by (simp add: Least_eq_0)
    then show ?thesis using False by (auto split: sum.splits store_error.splits)
  qed
qed simp

end
