(* ===== verification/Knowledge_Invariants.thy ===== *)
theory Knowledge_Invariants
  imports Knowledge_Registry
begin

text \<open>
  The invariant of the knowledge registry and its preservation by every event: documents are stored
  under their own id and under a registered topic, their paths stay inside \<open>docs/\<close>, and two
  different live documents share neither a (topic, role) slot nor a path. The second half follows
  one document through an event: it is never dropped, keeps its id and role, and its lifecycle only
  takes the documented steps.
\<close>

definition live :: "kdoc \<Rightarrow> bool" where
  "live d = isLiveDocLifecycle (kd_life d)"

definition good_doc :: "kstate \<Rightarrow> string \<Rightarrow> kdoc \<Rightarrow> bool" where
  "good_doc k i d = (kd_id d = i \<and> i \<noteq> [] \<and> kd_topic d \<in> set (okeys (k_topics k))
     \<and> kd_life d \<in> set VALID_DOC_LIFECYCLE \<and> safe_doc_path (kd_path d))"

definition apart :: "kdoc \<Rightarrow> kdoc \<Rightarrow> bool" where
  "apart d e = (live d \<longrightarrow> live e \<longrightarrow>
     (kd_topic d \<noteq> kd_topic e \<or> kd_role d \<noteq> kd_role e) \<and> kd_path d \<noteq> kd_path e)"

definition registry_ok :: "kstate \<Rightarrow> bool" where
  "registry_ok k = (distinct (okeys (k_docs k)) \<and> distinct (okeys (k_topics k))
     \<and> (\<forall>i d. oget (k_docs k) i = Some d \<longrightarrow> good_doc k i d)
     \<and> (\<forall>i j d e. oget (k_docs k) i = Some d \<longrightarrow> oget (k_docs k) j = Some e \<longrightarrow> i \<noteq> j \<longrightarrow> apart d e))"

text \<open>The lifecycle steps an event may make a document take.\<close>

definition life_step :: "string \<Rightarrow> string \<Rightarrow> bool" where
  "life_step l l' = (l' = l \<or> (l, l') \<in> set [(''reserved'', ''provisional''), (''provisional'', ''active''),
     (''active'', ''provisional'')] \<or> l' \<in> set [''superseded'', ''retired''])"

definition evolves :: "kdoc \<Rightarrow> kdoc \<Rightarrow> bool" where
  "evolves d d' = (kd_id d' = kd_id d \<and> kd_role d' = kd_role d \<and> life_step (kd_life d) (kd_life d'))"

definition registry_grows :: "kstate \<Rightarrow> kstate \<Rightarrow> bool" where
  "registry_grows k k' = (set (okeys (k_topics k)) \<subseteq> set (okeys (k_topics k'))
     \<and> (\<forall>i d. oget (k_docs k) i = Some d \<longrightarrow> (\<exists>d'. oget (k_docs k') i = Some d' \<and> evolves d d')))"

lemma apart_sym: "apart d e = apart e d"
  by (auto simp: apart_def)

lemma evolves_refl [simp]: "evolves d d"
  by (simp add: evolves_def life_step_def)

lemma registry_grows_refl [simp]: "registry_grows k k"
  by (auto simp: registry_grows_def)

lemma registry_ok_empty [simp]: "registry_ok empty_registry"
  by (simp add: registry_ok_def empty_registry_def okeys_def)

lemma docs_of_oget: "oget (k_docs k) i = Some d \<Longrightarrow> d \<in> set (docs_of k)"
  by (force simp: docs_of_def oget_def dest: map_of_SomeD)

lemma docs_of_ogetD:
  "distinct (okeys (k_docs k)) \<Longrightarrow> d \<in> set (docs_of k) \<Longrightarrow> \<exists>i. oget (k_docs k) i = Some d"
  by (force simp: docs_of_def oget_def okeys_def intro: map_of_is_SomeI)

section \<open>One document replaced or added\<close>

lemma registry_ok_put_doc:
  assumes "registry_ok k" "good_doc k i d"
    and "\<And>j e. oget (k_docs k) j = Some e \<Longrightarrow> j \<noteq> i \<Longrightarrow> apart d e"
  shows "registry_ok (put_doc i d k)"
  using assms
  by (auto simp: registry_ok_def put_doc_def good_doc_def apart_sym split: if_splits)

lemma registry_grows_put_doc:
  assumes "\<And>d0. oget (k_docs k) i = Some d0 \<Longrightarrow> evolves d0 d"
  shows "registry_grows k (put_doc i d k)"
  using assms by (auto simp: registry_grows_def put_doc_def)

lemma registry_ok_put_topic:
  assumes "registry_ok k"
  shows "registry_ok (put_topic t tp k)"
  using assms by (auto simp: registry_ok_def put_topic_def good_doc_def)

lemma registry_grows_put_topic: "registry_grows k (put_topic t tp k)"
  by (auto simp: registry_grows_def put_topic_def)

text \<open>A document updated in place: live only if it was, in its slot, under its path.\<close>

lemma registry_ok_update_doc:
  assumes "registry_ok k" "oget (k_docs k) i = Some d"
    and "kd_id d' = kd_id d" "kd_topic d' = kd_topic d" "kd_role d' = kd_role d" "kd_path d' = kd_path d"
    and "kd_life d' \<in> set VALID_DOC_LIFECYCLE" "live d' \<longrightarrow> live d"
  shows "registry_ok (put_doc i d' k)"
proof (rule registry_ok_put_doc[OF assms(1)])
  show "good_doc k i d'"
    using assms by (auto simp: registry_ok_def good_doc_def)
  show "apart d' e" if "oget (k_docs k) j = Some e" "j \<noteq> i" for j e
    using assms that unfolding registry_ok_def apart_def by metis
qed

lemma assertDocSlotAvailableD:
  assumes "assertDocSlotAvailable k i t r = None" "oget (k_docs k) j = Some e" "kd_id e \<noteq> i"
  shows "\<not> live e \<or> kd_topic e \<noteq> t \<or> kd_role e \<noteq> r"
  using assms docs_of_oget[OF assms(2)]
  by (auto simp: assertDocSlotAvailable_def check_simps live_def isLiveDocLifecycle_def)

lemma assertCurrentPathUniqueD:
  assumes "assertCurrentPathUnique k i path = None" "oget (k_docs k) j = Some e" "kd_id e \<noteq> i"
  shows "\<not> live e \<or> kd_path e \<noteq> path"
  using assms docs_of_oget[OF assms(2)]
  by (auto simp: assertCurrentPathUnique_def check_simps live_def isLiveDocLifecycle_def)

text \<open>A document written with the two slot guards passed.\<close>

lemma registry_ok_guarded_doc:
  assumes "registry_ok k" "good_doc k i d"
    and "assertDocSlotAvailable k i (kd_topic d) (kd_role d) = None"
    and "assertCurrentPathUnique k i (kd_path d) = None"
  shows "registry_ok (put_doc i d k)"
proof (rule registry_ok_put_doc[OF assms(1,2)])
  fix j e assume e: "oget (k_docs k) j = Some e" "j \<noteq> i"
  then have "kd_id e \<noteq> i" using assms(1) by (auto simp: registry_ok_def good_doc_def)
  then show "apart d e"
    using assertDocSlotAvailableD[OF assms(3) e(1)] assertCurrentPathUniqueD[OF assms(4) e(1)]
    unfolding apart_def by metis
qed

section \<open>Documents mapped in place\<close>

lemma oget_map_docs: "oget (map (\<lambda>(i, d). (i, f i d)) ds) i = map_option (f i) (oget ds i)"
  unfolding oget_def by (rule map_of_map_snd)

lemma okeys_map_docs [simp]: "okeys (map (\<lambda>(i, d). (i, f i d)) ds) = okeys ds"
  by (induction ds) (auto simp: okeys_def)

text \<open>What split and merge do to a document: at most its topic and its timestamp change.\<close>

definition moved :: "kdoc \<Rightarrow> kdoc \<Rightarrow> bool" where
  "moved d d' = (kd_id d' = kd_id d \<and> kd_role d' = kd_role d \<and> kd_life d' = kd_life d \<and> kd_path d' = kd_path d)"

lemma moved_refl [simp]: "moved d d"
  by (simp add: moved_def)

lemma moved_trans: "moved a b \<Longrightarrow> moved b c \<Longrightarrow> moved a c"
  by (simp add: moved_def)

lemma moved_evolves: "moved d d' \<Longrightarrow> evolves d d'"
  by (simp add: moved_def evolves_def life_step_def)

lemma moved_live: "moved d d' \<Longrightarrow> live d' = live d"
  by (simp add: moved_def live_def)

text \<open>The topic a document of the source has after the successors were created.\<close>

definition split_topic :: "string \<Rightarrow> jval list \<Rightarrow> string \<Rightarrow> string" where
  "split_topic r nts tt = fold (\<lambda>nt u. if JStr r \<in> set (succ_roles nt) then the (succ_id nt) else u) nts tt"

lemma split_topic_range: "split_topic r nts tt = tt \<or> split_topic r nts tt \<in> (\<lambda>nt. the (succ_id nt)) ` set nts"
  unfolding split_topic_def
proof (induction nts arbitrary: tt)
  case (Cons nt nts)
  show ?case
    using Cons[of "the (succ_id nt)"] Cons[of tt] by auto
qed simp

lemma split_one_docs: "oget (k_docs (split_one t old ods ts nt k)) i =
   map_option (\<lambda>d. if i \<in> set ods \<and> JStr (kd_role d) \<in> set (succ_roles nt)
      then d\<lparr>kd_topic := the (succ_id nt), kd_updated := ts\<rparr> else d) (oget (k_docs k) i)"
  by (simp add: split_one_def Let_def oget_map_docs)

lemma split_one_keys:
  "set (okeys (k_topics (split_one t old ods ts nt k))) = insert (the (succ_id nt)) (set (okeys (k_topics k)))"
  "distinct (okeys (k_topics k)) \<Longrightarrow> distinct (okeys (k_topics (split_one t old ods ts nt k)))"
  "okeys (k_docs (split_one t old ods ts nt k)) = okeys (k_docs k)"
  by (simp_all add: split_one_def Let_def)

lemma fold_split_docs:
  "oget (k_docs (fold (split_one t old ods ts) nts k)) i =
   map_option (\<lambda>d. d\<lparr>kd_topic := (if i \<in> set ods then split_topic (kd_role d) nts (kd_topic d) else kd_topic d),
      kd_updated := (if i \<in> set ods \<and> (\<exists>nt \<in> set nts. JStr (kd_role d) \<in> set (succ_roles nt))
                     then ts else kd_updated d)\<rparr>) (oget (k_docs k) i)"
proof (induction nts arbitrary: k)
  case Nil
  show ?case by (cases "oget (k_docs k) i") (simp_all add: split_topic_def)
next
  case (Cons nt nts)
  show ?case
    by (cases "oget (k_docs k) i")
      (simp_all add: Cons split_one_docs split_topic_def)
qed

lemma fold_split_keys:
  "set (okeys (k_topics (fold (split_one t old ods ts) nts k))) =
     set (okeys (k_topics k)) \<union> (\<lambda>nt. the (succ_id nt)) ` set nts"
  "distinct (okeys (k_topics k)) \<Longrightarrow> distinct (okeys (k_topics (fold (split_one t old ods ts) nts k)))"
  "okeys (k_docs (fold (split_one t old ods ts) nts k)) = okeys (k_docs k)"
  by (induction nts arbitrary: k) (auto simp: split_one_keys)

lemma fold_merge_docs:
  assumes "target \<notin> set ss"
  shows "oget (k_docs (fold (merge_source target ts) ss k)) i =
   map_option (\<lambda>d. if kd_topic d \<in> set ss then d\<lparr>kd_topic := target, kd_updated := ts\<rparr> else d)
     (oget (k_docs k) i)"
  using assms
proof (induction ss arbitrary: k)
  case Nil
  show ?case by (cases "oget (k_docs k) i") simp_all
next
  case (Cons s ss)
  then show ?case
    by (cases "oget (k_docs k) i") (auto simp: merge_source_def oget_map_docs)
qed

lemma fold_merge_keys:
  "set (okeys (k_topics (fold (merge_source target ts) ss k))) = set (okeys (k_topics k))"
  "distinct (okeys (k_topics k)) \<Longrightarrow> distinct (okeys (k_topics (fold (merge_source target ts) ss k)))"
  "okeys (k_docs (fold (merge_source target ts) ss k)) = okeys (k_docs k)"
proof (induction ss arbitrary: k)
  case (Cons s ss)
  { case 1 show ?case using Cons(1)
      by (auto simp: merge_source_def split: option.split dest: oget_Some_key) }
  { case 2 then show ?case using Cons(2)
      by (auto simp: merge_source_def split: option.split) }
  { case 3 show ?case using Cons(3) by (simp add: merge_source_def) }
qed simp_all

section \<open>Every event keeps the registry well formed\<close>

lemma with_doc_Inr:
  "with_doc k p f = Inr k' \<longleftrightarrow> (\<exists>i d. named_doc k p = Some (i, d) \<and> f i d = Inr k')"
  by (auto simp: with_doc_def split: option.splits)

lemma named_docD: "named_doc k p = Some (i, d) \<Longrightarrow> oget (k_docs k) i = Some d"
  by (auto simp: named_doc_def bind_eq_Some_conv)

text \<open>An event that updates one document in place, without moving it.\<close>

definition updates_doc :: "kstate \<Rightarrow> kstate \<Rightarrow> bool" where
  "updates_doc k k' = (\<exists>i d d'. oget (k_docs k) i = Some d \<and> k' = put_doc i d' k \<and> evolves d d'
     \<and> kd_topic d' = kd_topic d \<and> kd_path d' = kd_path d \<and> (live d' \<longrightarrow> live d)
     \<and> kd_life d' \<in> set (kd_life d # VALID_DOC_LIFECYCLE))"

lemma updates_docI:
  assumes "named_doc k p = Some (i, d)" "evolves d d'" "kd_topic d' = kd_topic d" "kd_path d' = kd_path d"
    "live d' \<longrightarrow> live d" "kd_life d' \<in> set (kd_life d # VALID_DOC_LIFECYCLE)"
  shows "updates_doc k (put_doc i d' k)"
  using assms named_docD[OF assms(1)] unfolding updates_doc_def by blast

lemmas doc_life_simps = evolves_def life_step_def live_def isLiveDocLifecycle_def VALID_DOC_LIFECYCLE_def

lemma updates_doc_ops:
  "doc_mark_rendered k p ts = Inr k' \<Longrightarrow> updates_doc k k'"
  "doc_promote k p ts = Inr k' \<Longrightarrow> updates_doc k k'"
  "doc_demote k p ts = Inr k' \<Longrightarrow> updates_doc k k'"
  "doc_retire k p ts = Inr k' \<Longrightarrow> updates_doc k k'"
  "doc_attest k p ts = Inr k' \<Longrightarrow> updates_doc k k'"
  by (auto simp: doc_mark_rendered_def doc_promote_def doc_demote_def doc_retire_def doc_attest_def
      with_doc_Inr check_simps Let_def doc_life_simps intro!: updates_docI)

lemma updates_doc_supersede:
  assumes "doc_supersede k p ts = Inr k'"
  shows "updates_doc k k'"
proof (cases "named_doc k p")
  case None
  with assms show ?thesis by (simp add: doc_supersede_def with_doc_def)
next
  case (Some id)
  obtain i d where n: "named_doc k p = Some (i, d)" using Some by (cases id) simp
  show ?thesis
  proof (cases "ptruthy p ''supersededBy''")
    case None
    with assms n show ?thesis
      by (auto simp: doc_supersede_def with_doc_def doc_life_simps intro!: updates_docI)
  next
    case (Some b)
    with assms n have "b \<noteq> i" by (auto simp: doc_supersede_def with_doc_def)
    then show ?thesis
      using assms n Some
      by (cases "oget (k_docs k) b")
        (auto simp: doc_supersede_def with_doc_def check_simps doc_life_simps intro!: updates_docI)
  qed
qed

lemma updates_doc_ok: "updates_doc k k' \<Longrightarrow> registry_ok k \<Longrightarrow> registry_ok k'"
  unfolding updates_doc_def
  by (elim exE conjE, simp, rule registry_ok_update_doc)
    (auto simp: evolves_def registry_ok_def good_doc_def)

lemma updates_doc_grows: "updates_doc k k' \<Longrightarrow> registry_grows k k'"
  unfolding updates_doc_def by (auto intro!: registry_grows_put_doc)

lemma apply_names:
  "applyKnowledgeEvent k ''topic.register'' = topic_register k"
  "applyKnowledgeEvent k ''topic.rename'' = topic_rename k"
  "applyKnowledgeEvent k ''topic.split'' = topic_split k"
  "applyKnowledgeEvent k ''topic.merge'' = topic_merge k"
  "applyKnowledgeEvent k ''topic.retire'' = topic_retire k"
  "applyKnowledgeEvent k ''doc.reserve'' = doc_reserve k"
  "applyKnowledgeEvent k ''doc.register'' = doc_register k"
  "applyKnowledgeEvent k ''doc.path-move'' = doc_path_move k"
  by (simp_all add: applyKnowledgeEvent_def fun_eq_iff)

section \<open>Reserve, register, path-move\<close>

lemma safe_docD: "assertSafeDocPath path = None \<Longrightarrow> safe_doc_path path"
  by (simp add: assertSafeDocPath_def check_simps)

text \<open>A payload that does not name its document by the empty id.\<close>

definition named_ok :: "obj \<Rightarrow> bool" where
  "named_ok p = (pstr p ''docId'' \<noteq> Some [])"

lemma str_or_named: "named_ok p \<Longrightarrow> str_or (oget p ''docId'') (t @ CHR '':'' # r) = Some i \<Longrightarrow> i \<noteq> []"
  by (auto simp: named_ok_def pstr_def str_or_def split: if_splits)

lemma reserve_step:
  assumes "doc_reserve k p ts = Inr k'"
  shows "\<exists>i d. k' = put_doc i d k \<and> oget (k_docs k) i = None \<and> kd_id d = i \<and> (named_ok p \<longrightarrow> i \<noteq> [])
     \<and> kd_topic d \<in> set (okeys (k_topics k)) \<and> kd_life d = ''reserved'' \<and> safe_doc_path (kd_path d)
     \<and> assertDocSlotAvailable k i (kd_topic d) (kd_role d) = None
     \<and> assertCurrentPathUnique k i (kd_path d) = None"
proof -
  obtain t r path i fw md where ids: "str_or (oget p ''docId'') (t @ CHR '':'' # r) = Some i"
    and g: "first_err [req (oget (k_topics k) t \<noteq> None) (K_topic_unknown t),
               assertSafeSlug (Some r) ''role'', assertSafeDocPath path, assertTopicWritable k t,
               assertFrameworkModeRoleValid fw md r,
               req (oget (k_docs k) i = None) K_doc_exists,
               assertDocSlotAvailable k i t r, assertCurrentPathUnique k i path] = None"
    and k': "k' = put_doc i \<lparr>kd_id = i, kd_topic = t, kd_role = r, kd_framework = the fw, kd_mode = the md,
                kd_life = ''reserved'', kd_path = path, kd_aliases = [], kd_captures = [],
                kd_supersededBy = None, kd_created = ts, kd_updated = ts\<rparr> k"
    using assms by (auto simp: doc_reserve_def guarded_Inr split: option.splits)
  have "t \<in> set (okeys (k_topics k))" using g by (auto simp: check_simps dest: oget_Some_key)
  let ?d = "\<lparr>kd_id = i, kd_topic = t, kd_role = r, kd_framework = the fw, kd_mode = the md,
                kd_life = ''reserved'', kd_path = path, kd_aliases = [], kd_captures = [],
                kd_supersededBy = None, kd_created = ts, kd_updated = ts\<rparr>"
  show ?thesis
    using ids g k' \<open>t \<in> _\<close>
    by (intro exI[of _ i] exI[of _ ?d]) (auto simp: check_simps safe_docD str_or_named)
qed

lemma register_lifecycle_step:
  assumes "register_lifecycle ex p = Inr l"
  shows "case ex of None \<Rightarrow> l \<in> set VALID_DOC_LIFECYCLE
     | Some e \<Rightarrow> l = kd_life e \<or> kd_life e = ''reserved'' \<and> l = ''provisional''"
  using assms by (auto simp: register_lifecycle_def split: option.splits if_splits)

lemma register_step:
  assumes "doc_register k p ts = Inr k'"
  shows "\<exists>i d. k' = put_doc i d k \<and> kd_id d = i \<and> (named_ok p \<longrightarrow> i \<noteq> [])
     \<and> kd_topic d \<in> set (okeys (k_topics k)) \<and> safe_doc_path (kd_path d)
     \<and> (case oget (k_docs k) i of None \<Rightarrow> kd_life d \<in> set VALID_DOC_LIFECYCLE
        | Some e \<Rightarrow> (kd_life d = kd_life e \<or> kd_life e = ''reserved'' \<and> kd_life d = ''provisional'')
            \<and> kd_role d = kd_role e)
     \<and> assertDocSlotAvailable k i (kd_topic d) (kd_role d) = None
     \<and> assertCurrentPathUnique k i (kd_path d) = None"
proof -
  obtain t r path i where ids: "str_or (oget p ''docId'') (t @ CHR '':'' # r) = Some i"
    and ra: "register_at k p ts t r path i = Inr k'"
    using assms by (auto simp: doc_register_def split: option.splits)
  obtain fw md l where pre: "oget (k_topics k) t \<noteq> None" "safe_doc_path path"
      "case oget (k_docs k) i of None \<Rightarrow> True | Some e \<Rightarrow> kd_role e = r"
      "assertDocSlotAvailable k i t r = None" "assertCurrentPathUnique k i path = None"
    and l: "register_lifecycle (oget (k_docs k) i) p = Inr l"
    and k': "k' = put_doc i (register_doc i t r path (oget (k_docs k) i) fw md l p ts) k"
    using ra by (auto simp: register_at_def Let_def check_simps e_bind_Inr safe_docD split: option.splits)
  let ?d = "register_doc i t r path (oget (k_docs k) i) fw md l p ts"
  have "kd_id ?d = i" "kd_topic ?d = t" "kd_role ?d = r" "kd_life ?d = l" "kd_path ?d = path"
    by (simp_all add: register_doc_def)
  with pre k' register_lifecycle_step[OF l] str_or_named[OF _ ids] show ?thesis
    by (intro exI[of _ i] exI[of _ ?d]) (auto split: option.splits dest: oget_Some_key)
qed

lemma path_move_step:
  assumes "doc_path_move k p ts = Inr k'"
  shows "\<exists>i d d'. oget (k_docs k) i = Some d \<and> k' = put_doc i d' k \<and> kd_id d' = kd_id d
     \<and> kd_topic d' = kd_topic d \<and> kd_role d' = kd_role d \<and> kd_life d' = kd_life d
     \<and> safe_doc_path (kd_path d') \<and> assertCurrentPathUnique k i (kd_path d') = None"
proof -
  obtain i d where n: "named_doc k p = Some (i, d)"
    using assms by (auto simp: doc_path_move_def with_doc_Inr)
  obtain path where path: "ptruthy p ''newPath'' = Some path"
    using assms by (auto simp: doc_path_move_def with_doc_Inr split: option.splits)
  obtain al where "k' = put_doc i (d\<lparr>kd_aliases := al, kd_path := path, kd_updated := ts\<rparr>) k"
    "assertSafeDocPath path = None" "assertCurrentPathUnique k i path = None"
    using assms n path by (auto simp: doc_path_move_def with_doc_def check_simps)
  with named_docD[OF n] show ?thesis
    by (intro exI[of _ i] exI[of _ d] exI[of _ "d\<lparr>kd_aliases := al, kd_path := path, kd_updated := ts\<rparr>"])
      (simp add: safe_docD)
qed

lemma reserve_ok: "doc_reserve k p ts = Inr k' \<Longrightarrow> registry_ok k \<Longrightarrow> named_ok p \<Longrightarrow> registry_ok k'"
  by (drule reserve_step, elim exE conjE, simp, rule registry_ok_guarded_doc)
    (auto simp: good_doc_def VALID_DOC_LIFECYCLE_def)

lemma reserve_grows: "doc_reserve k p ts = Inr k' \<Longrightarrow> registry_grows k k'"
  by (drule reserve_step) (auto intro: registry_grows_put_doc)

lemma register_ok:
  assumes "doc_register k p ts = Inr k'" "registry_ok k" "named_ok p"
  shows "registry_ok k'"
proof -
  obtain i d where d: "k' = put_doc i d k" "kd_id d = i" "i \<noteq> []"
      "kd_topic d \<in> set (okeys (k_topics k))" "safe_doc_path (kd_path d)"
    and life: "case oget (k_docs k) i of None \<Rightarrow> kd_life d \<in> set VALID_DOC_LIFECYCLE
        | Some e \<Rightarrow> (kd_life d = kd_life e \<or> kd_life e = ''reserved'' \<and> kd_life d = ''provisional'')
            \<and> kd_role d = kd_role e"
    and g: "assertDocSlotAvailable k i (kd_topic d) (kd_role d) = None"
      "assertCurrentPathUnique k i (kd_path d) = None"
    using register_step[OF assms(1)] assms(3) by blast
  have "kd_life d \<in> set VALID_DOC_LIFECYCLE"
  proof (cases "oget (k_docs k) i")
    case (Some e)
    then have "kd_life e \<in> set VALID_DOC_LIFECYCLE" using assms(2) by (auto simp: registry_ok_def good_doc_def)
    then show ?thesis using life Some by (auto simp: VALID_DOC_LIFECYCLE_def)
  qed (use life in simp)
  with d g assms(2) show ?thesis by (auto intro!: registry_ok_guarded_doc simp: good_doc_def)
qed

lemma register_grows:
  assumes "doc_register k p ts = Inr k'" "registry_ok k"
  shows "registry_grows k k'"
  using register_step[OF assms(1)] assms(2)
  by (auto intro!: registry_grows_put_doc simp: evolves_def life_step_def registry_ok_def good_doc_def)

lemma path_move_ok:
  assumes "doc_path_move k p ts = Inr k'" "registry_ok k"
  shows "registry_ok k'"
proof -
  obtain i d d' where d: "oget (k_docs k) i = Some d" and k': "k' = put_doc i d' k"
    and d': "kd_id d' = kd_id d" "kd_topic d' = kd_topic d" "kd_role d' = kd_role d" "kd_life d' = kd_life d"
      "safe_doc_path (kd_path d')" and u: "assertCurrentPathUnique k i (kd_path d') = None"
    using path_move_step[OF assms(1)] by blast
  have g: "good_doc k i d" using d assms(2) by (auto simp: registry_ok_def)
  show ?thesis unfolding k'
  proof (rule registry_ok_put_doc[OF assms(2)])
    show "good_doc k i d'" using g d' by (simp add: good_doc_def)
    fix j e assume e: "oget (k_docs k) j = Some e" "j \<noteq> i"
    then have "kd_id e \<noteq> i" "apart d e" using assms(2) d by (auto simp: registry_ok_def good_doc_def)
    with assertCurrentPathUniqueD[OF u e(1)] d' show "apart d' e"
      unfolding apart_def live_def by metis
  qed
qed

lemma path_move_grows: "doc_path_move k p ts = Inr k' \<Longrightarrow> registry_grows k k'"
  by (drule path_move_step) (auto intro!: registry_grows_put_doc simp: evolves_def life_step_def)

section \<open>Topic events\<close>

definition sets_topic :: "kstate \<Rightarrow> kstate \<Rightarrow> bool" where
  "sets_topic k k' = (\<exists>t tp. k' = put_topic t tp k)"

lemma sets_topicI: "sets_topic k (put_topic t tp k)"
  by (auto simp: sets_topic_def)

lemma topic_in_place_step:
  "topic_register k p ts = Inr k' \<Longrightarrow> sets_topic k k'"
  "topic_rename k p ts = Inr k' \<Longrightarrow> sets_topic k k'"
  "topic_retire k p ts = Inr k' \<Longrightarrow> sets_topic k k'"
  by (auto simp: topic_register_def topic_rename_def topic_retire_def guarded_Inr
      intro: sets_topicI split: option.splits)

text \<open>
  A registry whose documents only moved, where every pair of live documents that meets in a slot
  already met there.
\<close>

lemma registry_ok_moved:
  assumes ok: "registry_ok k"
    and keys: "okeys (k_docs k') = okeys (k_docs k)" "distinct (okeys (k_topics k'))"
    and docs: "\<And>i d'. oget (k_docs k') i = Some d' \<Longrightarrow>
      \<exists>d. oget (k_docs k) i = Some d \<and> moved d d' \<and> kd_topic d' \<in> set (okeys (k_topics k'))"
    and slots: "\<And>i j d e d' e'. i \<noteq> j \<Longrightarrow> oget (k_docs k) i = Some d \<Longrightarrow> oget (k_docs k) j = Some e \<Longrightarrow>
      oget (k_docs k') i = Some d' \<Longrightarrow> oget (k_docs k') j = Some e' \<Longrightarrow> live d \<Longrightarrow> live e \<Longrightarrow>
      kd_role d = kd_role e \<Longrightarrow> kd_topic d \<noteq> kd_topic e \<Longrightarrow> kd_topic d' \<noteq> kd_topic e'"
  shows "registry_ok k'"
proof -
  have "good_doc k' i d'" if d': "oget (k_docs k') i = Some d'" for i d'
  proof -
    obtain d where d: "oget (k_docs k) i = Some d" "moved d d'" "kd_topic d' \<in> set (okeys (k_topics k'))"
      using docs[OF d'] by blast
    then have "good_doc k i d" using ok by (auto simp: registry_ok_def)
    with d show ?thesis by (auto simp: good_doc_def moved_def)
  qed
  moreover have "apart d' e'" if p: "oget (k_docs k') i = Some d'" "oget (k_docs k') j = Some e'" "i \<noteq> j" for i j d' e'
  proof -
    obtain d e where d: "oget (k_docs k) i = Some d" "moved d d'" and e: "oget (k_docs k) j = Some e" "moved e e'"
      using docs[OF p(1)] docs[OF p(2)] by blast
    have "apart d e" using ok d e p(3) unfolding registry_ok_def by blast
    then show ?thesis
      using slots[OF p(3) d(1) e(1) p(1,2)] d(2) e(2) moved_live[OF d(2)] moved_live[OF e(2)]
      unfolding apart_def moved_def by metis
  qed
  ultimately show ?thesis using ok keys by (simp add: registry_ok_def)
qed

lemma check_successors_fresh:
  "check_successors k t seen nts = None \<Longrightarrow> nt \<in> set nts \<Longrightarrow> oget (k_topics k) (the (succ_id nt)) = None \<and> the (succ_id nt) \<noteq> t"
  by (induction k t seen nts rule: check_successors.induct)
    (auto simp: check_simps split: option.splits)

lemma check_occupants_same:
  assumes "check_occupants occ ds = None" "\<forall>d \<in> set ds. kd_id d \<noteq> []"
  shows "(\<forall>d \<in> set ds. \<forall>x. oget occ (kd_role d) = Some x \<longrightarrow> x \<noteq> [] \<longrightarrow> x = kd_id d)
     \<and> (\<forall>d \<in> set ds. \<forall>e \<in> set ds. kd_role d = kd_role e \<longrightarrow> kd_id d = kd_id e)"
  using assms
proof (induction occ ds rule: check_occupants.induct)
  case (2 occ d ds)
  have rec: "check_occupants (oset (kd_role d) (kd_id d) occ) ds = None"
    and here: "\<forall>x. oget occ (kd_role d) = Some x \<longrightarrow> x \<noteq> [] \<longrightarrow> x = kd_id d"
    using 2(3,4) by (auto split: option.splits if_splits)
  have ne: "\<forall>d \<in> set ds. kd_id d \<noteq> []" using 2(4) by simp
  have IH: "(\<forall>e \<in> set ds. \<forall>x. oget (oset (kd_role d) (kd_id d) occ) (kd_role e) = Some x \<longrightarrow> x \<noteq> [] \<longrightarrow> x = kd_id e)
     \<and> (\<forall>e \<in> set ds. \<forall>f \<in> set ds. kd_role e = kd_role f \<longrightarrow> kd_id e = kd_id f)"
  proof (cases "oget occ (kd_role d)")
    case None
    show ?thesis by (rule 2(1)[OF None rec ne])
  next
    case (Some pr)
    show ?thesis
      by (rule 2(2)[OF Some _ rec ne]) (use 2(3) Some in \<open>simp split: if_splits\<close>)
  qed
  have same: "kd_id d = kd_id e" if "e \<in> set ds" "kd_role e = kd_role d" for e
    using IH that 2(4) by (metis list.set_intros(1) oget_oset)
  have "\<forall>x. oget occ (kd_role e) = Some x \<longrightarrow> x \<noteq> [] \<longrightarrow> x = kd_id e" if "e \<in> set ds" for e
  proof (cases "kd_role e = kd_role d")
    case True
    with here same[OF that] show ?thesis by simp
  next
    case False
    with IH that show ?thesis by simp
  qed
  with here same IH show ?case by (metis set_ConsD)
qed simp

lemma split_step:
  assumes "topic_split k p ts = Inr k'"
  shows "\<exists>t old nts ods. k' = fold (split_one t old ods ts) nts (put_topic t (old\<lparr>tp_status := ''retired'', tp_updated := ts\<rparr>) k)
     \<and> oget (k_topics k) t = Some old \<and> ods = map fst (filter (\<lambda>(i, d). kd_topic d = t) (k_docs k))
     \<and> (\<forall>nt \<in> set nts. oget (k_topics k) (the (succ_id nt)) = None)"
proof -
  obtain t old where t: "Option.bind (pstr p ''topicId'') (\<lambda>t. map_option (Pair t) (oget (k_topics k) t)) = Some (t, old)"
    using assms by (auto simp: topic_split_def split: option.splits)
  obtain nts where nts: "as_arr (oget p ''newTopics'') = Some nts"
    using assms t by (auto simp: topic_split_def split: option.splits if_splits)
  have "check_successors k t [] nts = None"
    using assms t nts by (auto simp: topic_split_def Let_def check_simps split: if_splits)
  then have "\<forall>nt \<in> set nts. oget (k_topics k) (the (succ_id nt)) = None"
    using check_successors_fresh by blast
  moreover have "oget (k_topics k) t = Some old" using t by (auto simp: bind_eq_Some_conv)
  moreover have "k' = fold (split_one t old (map fst (filter (\<lambda>(i, d). kd_topic d = t) (k_docs k))) ts) nts
      (put_topic t (old\<lparr>tp_status := ''retired'', tp_updated := ts\<rparr>) k)"
    using assms t nts by (auto simp: topic_split_def Let_def check_simps split: if_splits)
  ultimately show ?thesis by blast
qed

lemma source_docs_iff:
  "distinct (okeys (k_docs k)) \<Longrightarrow> oget (k_docs k) i = Some d \<Longrightarrow>
     i \<in> set (map fst (filter (\<lambda>(i, d). kd_topic d = t) (k_docs k))) \<longleftrightarrow> kd_topic d = t"
  by (force simp: oget_def okeys_def dest: map_of_SomeD eq_key_imp_eq_value)

lemma split_ok:
  assumes "topic_split k p ts = Inr k'" "registry_ok k"
  shows "registry_ok k' \<and> registry_grows k k'"
proof -
  obtain t old nts ods where k': "k' = fold (split_one t old ods ts) nts
        (put_topic t (old\<lparr>tp_status := ''retired'', tp_updated := ts\<rparr>) k)"
    and t: "oget (k_topics k) t = Some old"
    and ods: "ods = map fst (filter (\<lambda>(i, d). kd_topic d = t) (k_docs k))"
    and fresh: "\<forall>nt \<in> set nts. oget (k_topics k) (the (succ_id nt)) = None"
    using split_step[OF assms(1)] by blast
  define ids where "ids = (\<lambda>nt. the (succ_id nt)) ` set nts"
  define new :: "kdoc \<Rightarrow> string" where "new d = (if kd_topic d = t then split_topic (kd_role d) nts (kd_topic d) else kd_topic d)" for d
  have dk: "distinct (okeys (k_docs k))" and dt: "distinct (okeys (k_topics k))"
    and good: "\<And>i d. oget (k_docs k) i = Some d \<Longrightarrow> good_doc k i d"
    using assms(2) by (auto simp: registry_ok_def)
  have topics: "set (okeys (k_topics k')) = insert t (set (okeys (k_topics k))) \<union> ids"
    unfolding k' fold_split_keys(1) ids_def by (simp add: put_topic_def)
  have docs: "\<exists>d. oget (k_docs k) i = Some d \<and> moved d d' \<and> kd_topic d' = new d" if "oget (k_docs k') i = Some d'" for i d'
    using that source_docs_iff[OF dk, of i _ t]
    unfolding k' fold_split_docs by (auto simp: put_topic_def ods moved_def new_def simp del: set_map)
  have docs2: "\<exists>d'. oget (k_docs k') i = Some d' \<and> moved d d'" if "oget (k_docs k) i = Some d" for i d
    using that unfolding k' fold_split_docs by (auto simp: put_topic_def moved_def)
  have new_range: "new d = kd_topic d \<or> new d \<in> ids" for d
    using split_topic_range[of "kd_role d" nts "kd_topic d"] by (auto simp: new_def ids_def)
  have old_topic: "kd_topic d \<notin> ids" if "oget (k_docs k) i = Some d" for i d
    using good[OF that] fresh by (auto simp: good_doc_def ids_def oget_None_iff)
  have "registry_ok k'"
  proof (rule registry_ok_moved[OF assms(2)])
    show "okeys (k_docs k') = okeys (k_docs k)" by (simp add: k' fold_split_keys put_topic_def)
    show "distinct (okeys (k_topics k'))"
      unfolding k' by (rule fold_split_keys) (use dt in \<open>simp add: put_topic_def\<close>)
    show "\<exists>d. oget (k_docs k) i = Some d \<and> moved d d' \<and> kd_topic d' \<in> set (okeys (k_topics k'))"
      if "oget (k_docs k') i = Some d'" for i d'
      using docs[OF that] new_range good unfolding topics good_doc_def by (metis Un_iff insert_iff)
    show "kd_topic d' \<noteq> kd_topic e'"
      if "oget (k_docs k) i = Some d" "oget (k_docs k) j = Some e" "oget (k_docs k') i = Some d'"
        "oget (k_docs k') j = Some e'" "kd_role d = kd_role e" "kd_topic d \<noteq> kd_topic e" for i j d e d' e'
    proof -
      note prem = that
      have n: "kd_topic d' = new d" "kd_topic e' = new e" using docs[OF that(3)] docs[OF that(4)] that(1,2) by auto
      have "new d = kd_topic d \<or> new e = kd_topic e" unfolding new_def using prem(6) by metis
      then show ?thesis unfolding n
        using new_range[of d] new_range[of e] old_topic[OF prem(1)] old_topic[OF prem(2)] prem(6) by metis
    qed
  qed
  moreover have "registry_grows k k'"
    using docs2 moved_evolves topics by (fastforce simp: registry_grows_def)
  ultimately show ?thesis by simp
qed

lemma str_entries_as: "as_arr v = Some raw \<Longrightarrow> str_entries (Some (JArr raw)) = str_entries v"
  by (simp add: str_entries_def)

lemma check_sources_target: "check_sources k target seen ss = None \<Longrightarrow> target \<notin> set ss"
  by (induction k target seen ss rule: check_sources.induct) (auto simp: check_simps)

lemma merge_step:
  assumes "topic_merge k p ts = Inr k'"
  shows "\<exists>target tt tt' ss. k' = fold (merge_source target ts) ss (put_topic target tt' k)
     \<and> oget (k_topics k) target = Some tt \<and> target \<notin> set ss
     \<and> check_occupants [] (filter (\<lambda>d. \<not> (kd_life d = ''retired'' \<or> kd_life d = ''superseded'')
                       \<and> (kd_topic d = target \<or> kd_topic d \<in> set ss)) (docs_of k)) = None"
proof -
  obtain raw target where r: "as_arr (oget p ''sourceTopicIds'') = Some raw" "ptruthy p ''targetTopicId'' = Some target"
    using assms by (auto simp: topic_merge_def split: option.splits)
  obtain tt where tt: "oget (k_topics k) target = Some tt"
    using assms r by (auto simp: topic_merge_def split: option.splits)
  define ss where "ss = str_entries (Some (JArr raw))"
  have c: "check_sources k target [] ss = None"
    using assms r tt by (simp add: topic_merge_def Let_def check_simps ss_def)
  moreover have "\<exists>tt'. k' = fold (merge_source target ts) ss (put_topic target tt' k)"
    using assms r tt by (auto simp: topic_merge_def Let_def check_simps ss_def)
  moreover have "check_occupants [] (filter (\<lambda>d. \<not> (kd_life d = ''retired'' \<or> kd_life d = ''superseded'')
                       \<and> (kd_topic d = target \<or> kd_topic d \<in> set ss)) (docs_of k)) = None"
    using assms r tt by (simp add: topic_merge_def Let_def check_simps ss_def)
  ultimately show ?thesis using tt check_sources_target[OF c] by blast
qed

lemma merge_ok:
  assumes "topic_merge k p ts = Inr k'" "registry_ok k"
  shows "registry_ok k' \<and> registry_grows k k'"
proof -
  obtain target tt tt' ss where k': "k' = fold (merge_source target ts) ss (put_topic target tt' k)"
    and tt: "oget (k_topics k) target = Some tt" and target: "target \<notin> set ss"
    and occ: "check_occupants [] (filter (\<lambda>d. \<not> (kd_life d = ''retired'' \<or> kd_life d = ''superseded'')
                       \<and> (kd_topic d = target \<or> kd_topic d \<in> set ss)) (docs_of k)) = None"
    using merge_step[OF assms(1)] by blast
  define new where "new d = (if kd_topic d \<in> set ss then target else kd_topic d)" for d :: kdoc
  have dk: "distinct (okeys (k_docs k))" and dt: "distinct (okeys (k_topics k))"
    and good: "\<And>i d. oget (k_docs k) i = Some d \<Longrightarrow> good_doc k i d"
    using assms(2) by (auto simp: registry_ok_def)
  have topics: "set (okeys (k_topics k')) = set (okeys (k_topics k))"
    using oget_Some_key[OF tt] by (auto simp: k' fold_merge_keys(1) put_topic_def)
  have docs: "\<exists>d. oget (k_docs k) i = Some d \<and> moved d d' \<and> kd_topic d' = new d" if "oget (k_docs k') i = Some d'" for i d'
    using that unfolding k' fold_merge_docs[OF target] by (auto simp: put_topic_def moved_def new_def)
  have docs2: "\<exists>d'. oget (k_docs k') i = Some d' \<and> moved d d'" if "oget (k_docs k) i = Some d" for i d
    using that unfolding k' fold_merge_docs[OF target] by (auto simp: put_topic_def moved_def)
  have "registry_ok k'"
  proof (rule registry_ok_moved[OF assms(2)])
    show "okeys (k_docs k') = okeys (k_docs k)" by (simp add: k' fold_merge_keys put_topic_def)
    show "distinct (okeys (k_topics k'))"
      unfolding k' by (rule fold_merge_keys) (use dt in \<open>simp add: put_topic_def\<close>)
    show "\<exists>d. oget (k_docs k) i = Some d \<and> moved d d' \<and> kd_topic d' \<in> set (okeys (k_topics k'))"
      if "oget (k_docs k') i = Some d'" for i d'
      using docs[OF that] good oget_Some_key[OF tt] unfolding topics good_doc_def new_def by metis
    show "kd_topic d' \<noteq> kd_topic e'"
      if ij: "i \<noteq> j" and d: "oget (k_docs k) i = Some d" and e: "oget (k_docs k) j = Some e"
        and d': "oget (k_docs k') i = Some d'" and e': "oget (k_docs k') j = Some e'"
        and lv: "live d" "live e" and role: "kd_role d = kd_role e" and tp: "kd_topic d \<noteq> kd_topic e"
      for i j d e d' e'
    proof
      assume eq: "kd_topic d' = kd_topic e'"
      then have "new d = new e" using docs[OF d'] docs[OF e'] d e by auto
      then have "kd_topic d \<in> insert target (set ss)" "kd_topic e \<in> insert target (set ss)"
        using tp by (auto simp: new_def split: if_splits)
      then have "d \<in> set (docs_of k) \<and> \<not> (kd_life d = ''retired'' \<or> kd_life d = ''superseded'')
          \<and> (kd_topic d = target \<or> kd_topic d \<in> set ss)"
        and "e \<in> set (docs_of k) \<and> \<not> (kd_life e = ''retired'' \<or> kd_life e = ''superseded'')
          \<and> (kd_topic e = target \<or> kd_topic e \<in> set ss)"
        using docs_of_oget[OF d] docs_of_oget[OF e] lv by (simp_all add: live_def isLiveDocLifecycle_def)
      moreover have "\<forall>d \<in> set (docs_of k). kd_id d \<noteq> []"
        using docs_of_ogetD[OF dk] good by (auto simp: good_doc_def)
      ultimately have "kd_id d = kd_id e"
        using check_occupants_same[OF occ] role unfolding set_filter by blast
      with good[OF d] good[OF e] ij show False by (simp add: good_doc_def)
    qed
  qed
  moreover have "registry_grows k k'"
    using docs2 moved_evolves topics by (fastforce simp: registry_grows_def)
  ultimately show ?thesis by simp
qed

section \<open>The whole reducer\<close>

definition keeps :: "kstate \<Rightarrow> know_error + kstate \<Rightarrow> bool" where
  "keeps k r = (\<forall>k'. r = Inr k' \<longrightarrow> registry_ok k' \<and> registry_grows k k')"

lemma keeps_if: "keeps k x \<Longrightarrow> keeps k y \<Longrightarrow> keeps k (if b then x else y)"
  by simp

lemma keeps_ops:
  assumes "registry_ok k"
  shows "keeps k (Inr k)" "keeps k (topic_register k p ts)" "keeps k (topic_rename k p ts)"
    "keeps k (topic_retire k p ts)" "keeps k (topic_split k p ts)" "keeps k (topic_merge k p ts)"
    "keeps k (doc_mark_rendered k p ts)" "keeps k (doc_promote k p ts)" "keeps k (doc_demote k p ts)"
    "keeps k (doc_supersede k p ts)" "keeps k (doc_retire k p ts)" "keeps k (doc_attest k p ts)"
    "keeps k (doc_path_move k p ts)"
    "named_ok p \<Longrightarrow> keeps k (doc_reserve k p ts)" "named_ok p \<Longrightarrow> keeps k (doc_register k p ts)"
proof -
  have put: "registry_ok k'' \<and> registry_grows k k''" if "sets_topic k k''" for k''
    using that assms by (auto simp: sets_topic_def registry_ok_put_topic registry_grows_put_topic)
  have upd: "registry_ok k'' \<and> registry_grows k k''" if "updates_doc k k''" for k''
    using that assms updates_doc_ok updates_doc_grows by blast
  show "keeps k (topic_register k p ts)" "keeps k (topic_rename k p ts)" "keeps k (topic_retire k p ts)"
    by (auto simp: keeps_def dest: topic_in_place_step[THEN put])
  show "keeps k (doc_mark_rendered k p ts)" "keeps k (doc_promote k p ts)" "keeps k (doc_demote k p ts)"
    "keeps k (doc_supersede k p ts)" "keeps k (doc_retire k p ts)" "keeps k (doc_attest k p ts)"
    by (auto simp: keeps_def dest: updates_doc_ops[THEN upd] updates_doc_supersede[THEN upd])
  show "keeps k (Inr k)" "keeps k (topic_split k p ts)" "keeps k (topic_merge k p ts)"
    "keeps k (doc_path_move k p ts)"
    "named_ok p \<Longrightarrow> keeps k (doc_reserve k p ts)" "named_ok p \<Longrightarrow> keeps k (doc_register k p ts)"
    using assms by (auto simp: keeps_def dest: split_ok merge_ok path_move_ok path_move_grows reserve_ok
        reserve_grows register_ok register_grows)
qed

lemma event_ok:
  assumes "applyKnowledgeEvent k ty p ts = Inr k'" "registry_ok k" "named_ok p"
  shows "registry_ok k' \<and> registry_grows k k'"
proof -
  have "keeps k (applyKnowledgeEvent k ty p ts)"
    unfolding applyKnowledgeEvent_def by (intro keeps_if keeps_ops assms)
  with assms(1) show ?thesis unfolding keeps_def by blast
qed

lemma life_dead: "life_step l l' \<Longrightarrow> \<not> isLiveDocLifecycle l \<Longrightarrow> \<not> isLiveDocLifecycle l'"
  by (auto simp: life_step_def isLiveDocLifecycle_def)

lemma fold_ok:
  assumes "foldKnowledgeEvents k es = Inr k'" "registry_ok k" "\<forall>e \<in> set es. named_ok (ke_payload e)"
  shows "registry_ok k'"
  using assms
proof (induction k es rule: foldKnowledgeEvents.induct)
  case (2 k e es)
  then show ?case
    using event_ok by (auto simp: e_bind_Inr split: if_splits)
qed simp

lemma foldKnowledgeEvents_append:
  "foldKnowledgeEvents k (xs @ ys) = e_bind (foldKnowledgeEvents k xs) (\<lambda>k'. foldKnowledgeEvents k' ys)"
proof (induction k xs rule: foldKnowledgeEvents.induct)
  case (2 k e es)
  then show ?case
    by (cases "applyKnowledgeEvent k (ke_type e) (ke_payload e) (ke_ts e)") auto
qed simp

section \<open>Over a whole log\<close>

lemma life_step_alive: "evolves d d' \<Longrightarrow> \<not> isLiveDocLifecycle (kd_life d) \<Longrightarrow> \<not> isLiveDocLifecycle (kd_life d')"
  using life_dead by (auto simp: evolves_def)

lemma fold_evolves:
  assumes "foldKnowledgeEvents k es = Inr k'" "registry_ok k" "\<forall>e \<in> set es. named_ok (ke_payload e)"
    and "oget (k_docs k) i = Some d"
  shows "\<exists>d'. oget (k_docs k') i = Some d' \<and> kd_id d' = kd_id d \<and> kd_role d' = kd_role d
     \<and> (\<not> isLiveDocLifecycle (kd_life d) \<longrightarrow> \<not> isLiveDocLifecycle (kd_life d'))"
  using assms
proof (induction es arbitrary: k d)
  case (Cons e es)
  show ?case
  proof (cases "knowledge_type (ke_type e)")
    case True
    then obtain k1 where k1: "applyKnowledgeEvent k (ke_type e) (ke_payload e) (ke_ts e) = Inr k1"
      "foldKnowledgeEvents k1 es = Inr k'" using Cons.prems(1) by (auto simp: e_bind_Inr)
    have ok: "registry_ok k1" "registry_grows k k1" using event_ok[OF k1(1) Cons.prems(2)] Cons.prems(3) by auto
    then obtain d1 where d1: "oget (k_docs k1) i = Some d1" "evolves d d1"
      using Cons.prems(4) unfolding registry_grows_def by blast
    from Cons.IH[OF k1(2) ok(1) _ d1(1)] Cons.prems(3) d1(2) life_step_alive[OF d1(2)]
    show ?thesis by (fastforce simp: evolves_def)
  next
    case False
    with Cons show ?thesis by simp
  qed
qed simp

text \<open>Two entries of a list with distinct keys that both pass a test that tells them apart are one.\<close>

lemma at_most_one_pair:
  assumes "distinct (okeys xs)"
    and "\<And>i j d e. oget xs i = Some d \<Longrightarrow> oget xs j = Some e \<Longrightarrow> P d \<Longrightarrow> P e \<Longrightarrow> i = j"
  shows "length (filter (\<lambda>(i, d). P d) xs) \<le> 1"
proof (rule ccontr)
  let ?ys = "filter (\<lambda>(i, d). P d) xs"
  assume "\<not> length ?ys \<le> 1"
  then obtain a b rest where y: "?ys = a # b # rest"
    by (cases ?ys rule: remdups_adj.cases) auto
  have mem: "a \<in> set ?ys" "b \<in> set ?ys" by (simp_all add: y)
  have "oget xs (fst p) = Some (snd p) \<and> P (snd p)" if "p \<in> set ?ys" for p
    using that assms(1) by (auto simp: oget_def okeys_def)
  with mem have "fst a = fst b" using assms(2) by blast
  moreover have "distinct (map fst ?ys)" using assms(1) by (simp add: okeys_def distinct_map_filter)
  ultimately show False by (simp add: y)
qed
end
