(* ===== verification/Graph_Metrics.thy ===== *)
theory Graph_Metrics
  imports Frontier
begin

text \<open>
  \<open>src/state/graph-metrics.mjs\<close> (and \<open>src/util/normalize-path.mjs\<close>): the read-only advisories over
  the unified graph. Here: footprint overlap between items, the packing of the frontier into parallel
  waves, the connected components, what completing an item unblocks, and the staleness classifiers.
  A set that the source iterates is a list without repetition in insertion order.
\<close>

section \<open>Footprints\<close>

definition slash :: "char \<Rightarrow> char" where
  "slash c = (if c = CHR 0x5C then CHR ''/'' else c)"

fun strip_dot_slash :: "string \<Rightarrow> string" where
  "strip_dot_slash (a # b # cs) = (if a = CHR ''.'' \<and> b = CHR ''/'' then cs else a # b # cs)"
| "strip_dot_slash cs = cs"

definition normalizePath :: "string \<Rightarrow> string" where
  "normalizePath p = trim (strip_dot_slash (map slash p))"

definition footprint_of :: "obj \<Rightarrow> string list" where
  "footprint_of w = str_entries (oget w ''footprint'')"

definition shared_paths :: "obj \<Rightarrow> obj \<Rightarrow> string list" where
  "shared_paths a b = filter (\<lambda>p. normalizePath p \<in> set (map normalizePath (footprint_of b))) (footprint_of a)"

text \<open>A conflict: the two ids and the paths they share, in the spelling of the first.\<close>

type_synonym footprint_conflict = "string \<times> string \<times> string list"

fun footprintOverlapAmong :: "obj list \<Rightarrow> footprint_conflict list" where
  "footprintOverlapAmong [] = []"
| "footprintOverlapAmong (a # rest) =
     (if footprint_of a = [] then []
      else List.map_filter (\<lambda>b. if shared_paths a b = [] then None
             else Some (id_of a, id_of b, shared_paths a b)) rest)
     @ footprintOverlapAmong rest"

definition footprintOverlap :: "registry \<Rightarrow> works \<Rightarrow> footprint_conflict list" where
  "footprintOverlap ds work = footprintOverlapAmong (frontier ds work ''execute'')"

section \<open>The wave schedule\<close>

definition conflictsOf :: "footprint_conflict list \<Rightarrow> string \<Rightarrow> string \<Rightarrow> bool" where
  "conflictsOf confs x y = (\<exists>(a, b, _) \<in> set confs. (x = a \<and> y = b) \<or> (x = b \<and> y = a))"

text \<open>One pass over the remaining items: the ids placed in this wave, and the deferred items.\<close>

fun pack_wave :: "(string \<Rightarrow> string \<Rightarrow> bool) \<Rightarrow> string list \<Rightarrow> obj list \<Rightarrow> string list \<times> obj list" where
  "pack_wave conf wave [] = (wave, [])"
| "pack_wave conf wave (w # ws) =
     (if \<exists>x \<in> set wave. conf (id_of w) x
      then (let (wave', deferred) = pack_wave conf wave ws in (wave', w # deferred))
      else pack_wave conf (wave @ [id_of w]) ws)"

lemma pack_wave_length: "length (snd (pack_wave conf wave ws)) \<le> length ws"
  by (induction ws arbitrary: wave) (auto simp: case_prod_beta le_SucI)

function waves :: "(string \<Rightarrow> string \<Rightarrow> bool) \<Rightarrow> obj list \<Rightarrow> string list list" where
  "waves conf [] = []"
| "waves conf (w # ws) = (let (wave, deferred) = pack_wave conf [] (w # ws) in wave # waves conf deferred)"
  by pat_completeness auto
termination
proof (relation "measure (\<lambda>(conf, ws). length ws)")
  fix conf w ws wave deferred and x :: "string list \<times> obj list"
  assume "x = pack_wave conf [] (w # ws)" "(wave, deferred) = x"
  then have "deferred = snd (pack_wave conf [id_of w] ws)" by simp (metis snd_conv)
  then show "((conf, deferred), conf, w # ws) \<in> measure (\<lambda>(conf, ws). length ws)"
    using pack_wave_length[of conf "[id_of w]" ws] by simp
qed simp

definition computeSchedule :: "registry \<Rightarrow> works \<Rightarrow> string list option \<Rightarrow> string list list" where
  "computeSchedule ds work candidateIds =
     (let all = frontier ds work ''execute'';
          candidates = (case candidateIds of None \<Rightarrow> all | Some ids \<Rightarrow> filter (\<lambda>w. id_of w \<in> set ids) all)
      in waves (conflictsOf (footprintOverlapAmong candidates)) candidates)"

section \<open>The known graph\<close>

definition knownUnifiedDeps :: "works \<Rightarrow> adjacency" where
  "knownUnifiedDeps work =
     fold (\<lambda>(a, b, _) adj. if ohas work a \<and> ohas work b then addEdge a b adj else adj)
       (buildUnifiedEdges work) (map (\<lambda>i. (i, [])) (okeys work))"

definition reverseDeps :: "adjacency \<Rightarrow> adjacency" where
  "reverseDeps deps = fold (\<lambda>(i, bs) rdeps. fold (\<lambda>d. addEdge d i) bs rdeps) deps (map (\<lambda>i. (i, [])) (okeys deps))"

text \<open>The stack loop: an item is marked when it is popped, and only open items are expanded.\<close>

fun downstream_loop :: "nat \<Rightarrow> adjacency \<Rightarrow> string list \<Rightarrow> string list \<Rightarrow> string list \<Rightarrow> string list option" where
  "downstream_loop n rdeps notDone out [] = Some out"
| "downstream_loop 0 rdeps notDone out stack = None"
| "downstream_loop (Suc n) rdeps notDone out stack =
     (let nxt = last stack; rest = butlast stack
      in if nxt \<in> set out \<or> nxt \<notin> set notDone then downstream_loop n rdeps notDone out rest
         else downstream_loop n rdeps notDone (out @ [nxt]) (rest @ adj_of rdeps nxt))"

text \<open>Each round pops an entry, and each entry was pushed by one edge of the graph.\<close>

definition edge_count :: "adjacency \<Rightarrow> nat" where
  "edge_count adj = sum_list (map (\<lambda>(_, bs). length bs) adj)"

definition transitiveDownstream :: "string \<Rightarrow> adjacency \<Rightarrow> string list \<Rightarrow> string list" where
  "transitiveDownstream i rdeps notDone =
     (case downstream_loop (length (adj_of rdeps i) + edge_count rdeps) rdeps notDone [] (adj_of rdeps i) of
        Some out \<Rightarrow> out | None \<Rightarrow> [])"

definition open_ids :: "works \<Rightarrow> string list" where
  "open_ids work = filter (\<lambda>i. \<not> isResolvedStatus (oget work i)) (okeys work)"

definition staleBlocked :: "works \<Rightarrow> (string \<times> string list) list" where
  "staleBlocked work = List.map_filter (\<lambda>(i, w).
     let blockedBy = filter (\<lambda>d. \<not> isResolvedStatus (oget work d)) (str_entries (oget w ''deps''))
     in if oget w ''status'' \<in> {Some (JStr ''todo''), Some (JStr ''blocked'')} \<and> blockedBy \<noteq> []
        then Some (i, blockedBy) else None) work"

text \<open>The answer of \<open>whatIf\<close>: the transitive downstream's size and the items that become ready.\<close>

definition whatIf :: "works \<Rightarrow> string \<Rightarrow> (nat \<times> string list) option" where
  "whatIf work i = (if \<not> ohas work i then None else
     let rdeps = reverseDeps (knownUnifiedDeps work);
         newlyReady = filter (\<lambda>d. case oget work d of None \<Rightarrow> False
            | Some w \<Rightarrow> oget w ''status'' = Some (JStr ''todo'')
                \<and> list_all (\<lambda>x. x = i \<or> isResolvedStatus (oget work x)) (str_entries (oget w ''deps''))) (adj_of rdeps i)
     in Some (length (transitiveDownstream i rdeps (open_ids work)), newlyReady))"

section \<open>Connected components\<close>

definition undirected :: "works \<Rightarrow> adjacency" where
  "undirected work =
     fold (\<lambda>(a, b, _) adj. if ohas work a \<and> ohas work b then addEdge b a (addEdge a b adj) else adj)
       (buildUnifiedEdges work) (map (\<lambda>i. (i, [])) (okeys work))"

text \<open>Push the neighbours that were not seen yet, marking them as they are pushed.\<close>

fun push_new :: "string list \<Rightarrow> string list \<Rightarrow> string list \<Rightarrow> string list \<times> string list" where
  "push_new seen queue [] = (seen, queue)"
| "push_new seen queue (x # xs) =
     (if x \<in> set seen then push_new seen queue xs else push_new (x # seen) (queue @ [x]) xs)"

fun bfs :: "nat \<Rightarrow> adjacency \<Rightarrow> string list \<Rightarrow> string list \<Rightarrow> string list \<Rightarrow> (string list \<times> string list) option" where
  "bfs n adj seen [] members = Some (members, seen)"
| "bfs 0 adj seen (q # qs) members = None"
| "bfs (Suc n) adj seen (q # qs) members =
     (let (seen', queue') = push_new seen qs (adj_of adj q) in bfs n adj seen' queue' (members @ [q]))"

definition position :: "string list \<Rightarrow> string \<Rightarrow> int" where
  "position ids x = int (length (takeWhile (\<lambda>y. y \<noteq> x) ids))"

definition by_position :: "string list \<Rightarrow> string \<Rightarrow> string \<Rightarrow> int" where
  "by_position ids a b = position ids a - position ids b"

fun components_from :: "adjacency \<Rightarrow> string list \<Rightarrow> string list \<Rightarrow> string list \<Rightarrow> string list list" where
  "components_from adj ids seen [] = []"
| "components_from adj ids seen (i # rest) =
     (if i \<in> set seen then components_from adj ids seen rest
      else case bfs (Suc (length adj)) adj (i # seen) [i] [] of
          None \<Rightarrow> []
        | Some (members, seen') \<Rightarrow> js_sort (by_position ids) members # components_from adj ids seen' rest)"

definition connectedComponents :: "works \<Rightarrow> string list list" where
  "connectedComponents work = components_from (undirected work) (okeys work) [] (okeys work)"

section \<open>Staleness\<close>

record stale_thresholds =
  th_agentMs :: int
  th_humanMs :: int

definition STALE_DOING_DEFAULTS :: stale_thresholds where
  "STALE_DOING_DEFAULTS = \<lparr>th_agentMs = 15 * 60 * 1000, th_humanMs = 24 * 60 * 60 * 1000\<rparr>"

text \<open>An entry: the id, the claim role, and the claim time when there is one.\<close>

definition owner_threshold :: "stale_thresholds \<Rightarrow> jval option \<Rightarrow> int" where
  "owner_threshold th role = (if role = Some (JStr ''runner'') then th_agentMs th else th_humanMs th)"

definition classifyStaleDoing ::
  "(string \<times> jval option \<times> int option) list \<Rightarrow> int \<Rightarrow> stale_thresholds \<Rightarrow> (string \<times> int) list" where
  "classifyStaleDoing entries now th = List.map_filter (\<lambda>(i, role, claimedAt). case claimedAt of
       None \<Rightarrow> None
     | Some t \<Rightarrow> if now - t \<le> owner_threshold th role then None else Some (i, now - t)) entries"

definition latestEntryInto :: "event list \<Rightarrow> string \<Rightarrow> string \<Rightarrow> event option" where
  "latestEntryInto es i status =
     (case filter (\<lambda>e. e_type e = ''work.move'' \<and> oget (e_payload e) ''id'' = Some (JStr i)
             \<and> oget (e_payload e) ''to'' = Some (JStr status)) es of
        [] \<Rightarrow> None | xs \<Rightarrow> Some (last xs))"

record post_thresholds =
  pt_deliveredMs :: int
  pt_retrospectiveMs :: int
  pt_cleanupGraceMs :: int

definition STALE_POST_DELIVERY_DEFAULTS :: post_thresholds where
  "STALE_POST_DELIVERY_DEFAULTS =
     (let d = 3 * 24 * 60 * 60 * 1000 in \<lparr>pt_deliveredMs = d, pt_retrospectiveMs = d, pt_cleanupGraceMs = d\<rparr>)"

text \<open>\<open>new Date(ts).getTime()\<close> is the argument \<open>time_of\<close>.\<close>

definition post_threshold :: "post_thresholds \<Rightarrow> int \<Rightarrow> string \<Rightarrow> int" where
  "post_threshold th ttlDays status =
     (if status = ''cleanup'' then ttlDays * 24 * 60 * 60 * 1000 + pt_cleanupGraceMs th
      else if status = ''delivered'' then pt_deliveredMs th else pt_retrospectiveMs th)"

definition classifyStalePostDelivery ::
  "(jval \<Rightarrow> int) \<Rightarrow> works \<Rightarrow> event list \<Rightarrow> int \<Rightarrow> post_thresholds \<Rightarrow> int \<Rightarrow> (string \<times> string \<times> int) list" where
  "classifyStalePostDelivery time_of work es now th ttlDays = List.map_filter (\<lambda>(i, w).
     case as_str (oget w ''status'') of
       None \<Rightarrow> None
     | Some s \<Rightarrow>
         if s \<notin> {''delivered'', ''retrospective'', ''cleanup''} then None
         else (case latestEntryInto es i s of
             None \<Rightarrow> None
           | Some e \<Rightarrow> let age = now - time_of (e_ts e)
               in if age \<le> post_threshold th ttlDays s then None else Some (i, s, age))) work"

section \<open>The schedule: facts\<close>

lemma pack_wave_ids:
  "mset (fst (pack_wave conf wave ws)) + mset (map id_of (snd (pack_wave conf wave ws)))
     = mset wave + mset (map id_of ws)"
  by (induction ws arbitrary: wave) (auto simp: case_prod_beta)

lemma pack_wave_prefix: "\<exists>zs. fst (pack_wave conf wave ws) = wave @ zs"
proof (induction ws arbitrary: wave)
  case (Cons w ws)
  show ?case using Cons[of wave] Cons[of "wave @ [id_of w]"] by (auto simp: case_prod_beta)
qed simp

lemma pack_wave_free:
  assumes "sorted_wrt (\<lambda>x y. \<not> conf y x) wave"
  shows "sorted_wrt (\<lambda>x y. \<not> conf y x) (fst (pack_wave conf wave ws))"
  using assms
  by (induction ws arbitrary: wave) (auto simp: sorted_wrt_append case_prod_beta)

lemma pack_wave_deferred:
  "w \<in> set (snd (pack_wave conf wave ws)) \<Longrightarrow> \<exists>x \<in> set (fst (pack_wave conf wave ws)). conf (id_of w) x"
proof (induction ws arbitrary: wave)
  case (Cons v ws)
  show ?case
  proof (cases "\<exists>x \<in> set wave. conf (id_of v) x")
    case True
    obtain zs where zs: "fst (pack_wave conf wave ws) = wave @ zs" using pack_wave_prefix by blast
    have eq: "pack_wave conf wave (v # ws) = (fst (pack_wave conf wave ws), v # snd (pack_wave conf wave ws))"
      using True by (simp add: case_prod_beta)
    show ?thesis
    proof (cases "w = v")
      case True
      with zs \<open>\<exists>x \<in> set wave. _ x\<close> show ?thesis unfolding eq by auto
    next
      case False
      with Cons.prems Cons.IH[of wave] show ?thesis unfolding eq by simp
    qed
  next
    case False
    with Cons show ?thesis by simp
  qed
qed simp

lemma pack_wave_nonempty: "fst (pack_wave conf [] (w # ws)) \<noteq> []"
  using pack_wave_prefix[of conf "[id_of w]" ws] by auto

lemma waves_Cons:
  "waves conf (w # ws) = fst (pack_wave conf [] (w # ws)) # waves conf (snd (pack_wave conf [] (w # ws)))"
  by (simp split: prod.split)

declare waves.simps(2) [simp del]

lemma waves_ids: "mset (concat (waves conf ws)) = mset (map id_of ws)"
proof (induction conf ws rule: waves.induct)
  case (2 conf w ws)
  let ?p = "pack_wave conf [] (w # ws)"
  have "mset (concat (waves conf (snd ?p))) = mset (map id_of (snd ?p))" using 2 by (metis prod.collapse)
  then show ?case using pack_wave_ids[of conf "[]" "w # ws"] by (simp add: waves_Cons del: pack_wave.simps)
qed simp

lemma waves_free: "wave \<in> set (waves conf ws) \<Longrightarrow> wave \<noteq> [] \<and> sorted_wrt (\<lambda>x y. \<not> conf y x) wave"
proof (induction conf ws rule: waves.induct)
  case (2 conf w ws)
  let ?p = "pack_wave conf [] (w # ws)"
  have "wave = fst ?p \<or> wave \<in> set (waves conf (snd ?p))" using 2(2) by (simp add: waves_Cons del: pack_wave.simps)
  moreover have "fst ?p \<noteq> []" by (rule pack_wave_nonempty)
  moreover have "sorted_wrt (\<lambda>x y. \<not> conf y x) (fst ?p)" by (rule pack_wave_free) simp
  ultimately show ?case using 2(1) by (metis prod.collapse)
qed simp

text \<open>No item waits longer than a conflict makes it: it conflicts with the wave before its own.\<close>

lemma waves_tight:
  "Suc k < length (waves conf ws) \<Longrightarrow> y \<in> set (waves conf ws ! Suc k) \<Longrightarrow> \<exists>x \<in> set (waves conf ws ! k). conf y x"
proof (induction conf ws arbitrary: k rule: waves.induct)
  case (2 conf w ws)
  let ?p = "pack_wave conf [] (w # ws)"
  show ?case
  proof (cases k)
    case 0
    then have y: "y \<in> set (waves conf (snd ?p) ! 0)" "waves conf (snd ?p) \<noteq> []"
      using 2(2,3) by (auto simp: waves_Cons simp del: pack_wave.simps)
    then have "y \<in> set (concat (waves conf (snd ?p)))" by (cases "waves conf (snd ?p)") auto
    then have "y \<in> id_of ` set (snd ?p)"
      using waves_ids[of conf "snd ?p"] by (metis set_mset_mset set_map)
    then obtain v where "v \<in> set (snd ?p)" "y = id_of v" by auto
    with pack_wave_deferred 0 show ?thesis by (simp add: waves_Cons del: pack_wave.simps)
  next
    case (Suc j)
    then have "Suc j < length (waves conf (snd ?p))" "y \<in> set (waves conf (snd ?p) ! Suc j)"
      using 2(2,3) by (auto simp: waves_Cons simp del: pack_wave.simps)
    with 2(1) have "\<exists>x \<in> set (waves conf (snd ?p) ! j). conf y x" by (metis prod.collapse)
    with Suc show ?thesis by (simp add: waves_Cons del: pack_wave.simps)
  qed
qed simp

text \<open>The conflict relation of a list of items is what it says: two of them share a path.\<close>

lemma overlap_pair:
  assumes "i < j" "j < length ws" "shared_paths (ws ! i) (ws ! j) \<noteq> []"
  shows "(id_of (ws ! i), id_of (ws ! j), shared_paths (ws ! i) (ws ! j)) \<in> set (footprintOverlapAmong ws)"
  using assms
proof (induction ws arbitrary: i j)
  case (Cons a rest)
  show ?case
  proof (cases i)
    case 0
    have ne: "footprint_of a \<noteq> []" using Cons.prems(3) 0 by (auto simp: shared_paths_def)
    obtain j' where j: "j = Suc j'" using Cons.prems(1) by (cases j) auto
    then have "rest ! j' \<in> set rest" using Cons.prems(2) by simp
    with Cons.prems(3) 0 j ne show ?thesis by (force simp: List.map_filter_def)
  next
    case (Suc i')
    then obtain j' where "j = Suc j'" using Cons.prems(1) by (cases j) auto
    with Suc Cons show ?thesis by simp
  qed
qed simp

lemma overlap_sound:
  "(a, b, ps) \<in> set (footprintOverlapAmong ws) \<Longrightarrow>
     \<exists>i j. i < j \<and> j < length ws \<and> a = id_of (ws ! i) \<and> b = id_of (ws ! j) \<and> ps = shared_paths (ws ! i) (ws ! j) \<and> ps \<noteq> []"
proof (induction ws)
  case (Cons w rest)
  then consider (here) v where "v \<in> set rest" "a = id_of w" "b = id_of v" "ps = shared_paths w v" "ps \<noteq> []"
    | (later) "(a, b, ps) \<in> set (footprintOverlapAmong rest)"
    by (auto simp: List.map_filter_def split: if_splits)
  then show ?case
  proof cases
    case here
    then obtain j where "j < length rest" "v = rest ! j" by (metis in_set_conv_nth)
    with here show ?thesis by (intro exI[of _ 0] exI[of _ "Suc j"]) simp
  next
    case later
    then obtain i j where "i < j" "j < length rest" "a = id_of (rest ! i)" "b = id_of (rest ! j)"
      "ps = shared_paths (rest ! i) (rest ! j)" "ps \<noteq> []" using Cons.IH by blast
    then show ?thesis by (intro exI[of _ "Suc i"] exI[of _ "Suc j"]) simp
  qed
qed simp

section \<open>The components: facts\<close>

definition known_edges :: "works \<Rightarrow> (string \<times> string) set" where
  "known_edges work = {(a, b) \<in> unified_edges work. a \<in> set (okeys work) \<and> b \<in> set (okeys work)}"

lemma edges_empty_map: "edges (map (\<lambda>i. (i, [])) ks) = {}"
proof -
  have "oget (map (\<lambda>i. (i, [])) ks) a \<in> {None, Some []}" for a :: string and ks
    by (induction ks) auto
  then have "adj_of (map (\<lambda>i. (i, [])) ks) a = []" for a ks
    by (metis adj_of_def empty_iff insert_iff lazyd_simps)
  then show ?thesis by (simp add: edges_def)
qed

lemma edges_undirected: "edges (undirected work) = known_edges work \<union> (known_edges work)\<inverse>"
proof -
  have step: "(x, y) \<in> edges (fold (\<lambda>(a, b, _) adj. if ohas work a \<and> ohas work b then addEdge b a (addEdge a b adj) else adj) es adj)
     \<longleftrightarrow> ((\<exists>k. (x, y, k) \<in> set es \<or> (y, x, k) \<in> set es) \<and> ohas work x \<and> ohas work y) \<or> (x, y) \<in> edges adj" for es adj x y
  proof (induction es arbitrary: adj)
    case (Cons e es)
    obtain a b k where e: "e = (a, b, k)" by (cases e)
    show ?case
      using Cons by (cases "ohas work a \<and> ohas work b") (auto simp: e addEdge_edges)
  qed simp
  have u: "(a, b) \<in> unified_edges work \<longleftrightarrow> (\<exists>k. (a, b, k) \<in> set (buildUnifiedEdges work))" for a b
    by (force simp: unified_edges_def)
  have "(x, y) \<in> edges (undirected work) \<longleftrightarrow> (x, y) \<in> known_edges work \<union> (known_edges work)\<inverse>" for x y
    unfolding undirected_def step edges_empty_map known_edges_def using u by auto
  then show ?thesis by auto
qed

lemma okeys_addEdge: "a \<in> set (okeys adj) \<Longrightarrow> okeys (addEdge a b adj) = okeys adj"
  by (simp add: addEdge_def okeys_oset)

lemma okeys_undirected: "okeys (undirected work) = okeys work"
proof -
  have keep: "set (okeys work) \<subseteq> set (okeys adj) \<Longrightarrow>
     okeys (fold (\<lambda>(a, b, _) adj. if ohas work a \<and> ohas work b then addEdge b a (addEdge a b adj) else adj) es adj)
       = okeys adj" for es adj
  proof (induction es arbitrary: adj)
    case (Cons e es)
    obtain a b k where e: "e = (a, b, k)" by (cases e)
    show ?case
    proof (cases "ohas work a \<and> ohas work b")
      case True
      then have ab: "a \<in> set (okeys adj)" "b \<in> set (okeys adj)" using Cons.prems by auto
      then have "okeys (addEdge a b adj) = okeys adj" by (simp add: okeys_addEdge)
      with ab have "okeys (addEdge b a (addEdge a b adj)) = okeys adj" by (simp add: okeys_addEdge)
      with Cons True e show ?thesis by simp
    next
      case False
      with Cons e show ?thesis by auto
    qed
  qed simp
  let ?m = "map (\<lambda>i. (i, [])) (okeys work) :: adjacency"
  have "okeys ?m = okeys work" by (simp add: okeys_def comp_def)
  then show ?thesis unfolding undirected_def using keep[of ?m] by simp
qed

lemma push_new_spec:
  "push_new seen queue xs = (seen', queue') \<Longrightarrow>
     \<exists>new. queue' = queue @ new \<and> set seen' = set seen \<union> set new \<and> distinct new \<and> set new \<inter> set seen = {}
       \<and> set new \<subseteq> set xs \<and> set xs \<subseteq> set seen'"
proof (induction seen queue xs rule: push_new.induct)
  case (2 seen queue x xs)
  show ?case
  proof (cases "x \<in> set seen")
    case True
    with 2 obtain new where "queue' = queue @ new" "set seen' = set seen \<union> set new" "distinct new"
      "set new \<inter> set seen = {}" "set new \<subseteq> set xs" "set xs \<subseteq> set seen'" by auto
    with True show ?thesis by auto
  next
    case False
    with 2 obtain new where "queue' = (queue @ [x]) @ new" "set seen' = set (x # seen) \<union> set new" "distinct new"
      "set new \<inter> set (x # seen) = {}" "set new \<subseteq> set xs" "set xs \<subseteq> set seen'" by auto
    with False show ?thesis by (intro exI[of _ "x # new"]) auto
  qed
qed simp

text \<open>The state of the walk of one component, above the nodes \<open>S\<close> of the earlier ones.\<close>

definition bfs_inv :: "adjacency \<Rightarrow> string set \<Rightarrow> string \<Rightarrow> string list \<Rightarrow> string list \<Rightarrow> string list \<Rightarrow> bool" where
  "bfs_inv adj S i seen queue members =
     (set seen = S \<union> set members \<union> set queue \<and> distinct (members @ queue) \<and> S \<inter> set (members @ queue) = {}
      \<and> (\<forall>x \<in> set members. set (adj_of adj x) \<subseteq> set seen)
      \<and> (\<forall>x \<in> set (members @ queue). (i, x) \<in> (edges adj)\<^sup>*) \<and> i \<in> set (members @ queue))"

lemma bfs_step:
  assumes inv: "bfs_inv adj S i seen (q # qs) members" and p: "push_new seen qs (adj_of adj q) = (seen', queue')"
  shows "bfs_inv adj S i seen' queue' (members @ [q])"
proof -
  obtain new where new: "queue' = qs @ new" "set seen' = set seen \<union> set new" "distinct new"
      "set new \<inter> set seen = {}" "set new \<subseteq> set (adj_of adj q)" "set (adj_of adj q) \<subseteq> set seen'"
    using push_new_spec[OF p] by blast
  have old: "set seen = S \<union> set members \<union> set (q # qs)" "distinct (members @ q # qs)"
      "S \<inter> set (members @ q # qs) = {}" "\<forall>x \<in> set members. set (adj_of adj x) \<subseteq> set seen"
      "\<forall>x \<in> set (members @ q # qs). (i, x) \<in> (edges adj)\<^sup>*" "i \<in> set (members @ q # qs)"
    using inv unfolding bfs_inv_def by blast+
  have "(i, q) \<in> (edges adj)\<^sup>*" using old(5) by simp
  then have reach: "\<forall>x \<in> set new. (i, x) \<in> (edges adj)\<^sup>*"
    using new(5) by (auto simp: edges_def intro: rtrancl_into_rtrancl)
  have "set seen' = S \<union> set (members @ [q]) \<union> set queue'" using new(1,2) old(1) by auto
  moreover have "distinct ((members @ [q]) @ queue')" "S \<inter> set ((members @ [q]) @ queue') = {}"
    using new(1,3,4) old(1-3) by auto
  moreover have "\<forall>x \<in> set (members @ [q]). set (adj_of adj x) \<subseteq> set seen'" using old(4) new(2,6) by auto
  moreover have "\<forall>x \<in> set ((members @ [q]) @ queue'). (i, x) \<in> (edges adj)\<^sup>*" using old(5) reach new(1) by auto
  moreover have "i \<in> set ((members @ [q]) @ queue')" using old(6) new(1) by auto
  ultimately show ?thesis unfolding bfs_inv_def by blast
qed

lemma bfs_spec:
  "bfs n adj seen queue members = Some (ms, seen') \<Longrightarrow> bfs_inv adj S i seen queue members \<Longrightarrow> bfs_inv adj S i seen' [] ms"
proof (induction n adj seen queue members rule: bfs.induct)
  case (3 n adj seen q qs members)
  obtain s1 q1 where p: "push_new seen qs (adj_of adj q) = (s1, q1)" by fastforce
  with 3 bfs_step show ?case by simp
qed simp_all

lemma card_unseen_new:
  assumes "set new \<subseteq> set ks" "distinct new" "set new \<inter> A = {}"
  shows "card (set ks - (A \<union> set new)) + length new = card (set ks - A)"
proof -
  have "card (set new) = length new" using assms(2) by (rule distinct_card)
  moreover have "set ks - A = (set ks - (A \<union> set new)) \<union> set new" using assms by auto
  moreover have "(set ks - (A \<union> set new)) \<inter> set new = {}" by auto
  ultimately show ?thesis by (metis List.finite_set card_Un_disjoint finite_Diff)
qed

lemma bfs_fuel:
  assumes "\<forall>x. set (adj_of adj x) \<subseteq> set (okeys adj)" "card (set (okeys adj) - set seen) + length queue \<le> n"
  shows "bfs n adj seen queue members \<noteq> None"
  using assms
proof (induction n adj seen queue members rule: bfs.induct)
  case (3 n adj seen q qs members)
  obtain s1 q1 where p: "push_new seen qs (adj_of adj q) = (s1, q1)" by fastforce
  obtain new where new: "q1 = qs @ new" "set s1 = set seen \<union> set new" "distinct new"
      "set new \<inter> set seen = {}" "set new \<subseteq> set (adj_of adj q)"
    using push_new_spec[OF p] by blast
  have "set new \<subseteq> set (okeys adj)" using new(5) 3(2) by blast
  from card_unseen_new[OF this new(3,4)] have "card (set (okeys adj) - set s1) + length q1 \<le> n"
    using 3(3) by (simp add: new(1,2))
  with 3 p show ?case by simp
qed simp_all

text \<open>A set of nodes with no edge across its border.\<close>

definition border_free :: "adjacency \<Rightarrow> string set \<Rightarrow> bool" where
  "border_free adj S = (\<forall>(a, b) \<in> edges adj. a \<in> S \<longleftrightarrow> b \<in> S)"

lemma border_free_reach: "(a, b) \<in> (edges adj)\<^sup>* \<Longrightarrow> border_free adj S \<Longrightarrow> a \<in> S \<longleftrightarrow> b \<in> S"
  by (induction rule: rtrancl_induct) (auto simp: border_free_def)

lemma bfs_component:
  assumes sym: "sym (edges adj)" and S: "border_free adj S" and inv: "bfs_inv adj S i seen [] ms"
  shows "set ms = {x. (i, x) \<in> (edges adj)\<^sup>*} \<and> set seen = S \<union> set ms \<and> border_free adj (set seen)"
proof -
  have iS: "i \<notin> S" "i \<in> set ms" using inv by (auto simp: bfs_inv_def)
  have seen: "set seen = S \<union> set ms" using inv by (simp add: bfs_inv_def)
  have closed: "b \<in> set ms" if "a \<in> set ms" "(a, b) \<in> edges adj" for a b
  proof -
    have "b \<in> S \<union> set ms" using inv that seen by (auto simp: bfs_inv_def edges_def)
    moreover have "b \<notin> S" using S that inv by (auto simp: border_free_def bfs_inv_def)
    ultimately show ?thesis by blast
  qed
  have "x \<in> set ms" if "(i, x) \<in> (edges adj)\<^sup>*" for x
    using that by (induction rule: rtrancl_induct) (auto simp: iS intro: closed)
  then have ms: "set ms = {x. (i, x) \<in> (edges adj)\<^sup>*}" using inv by (auto simp: bfs_inv_def)
  moreover have "border_free adj (set seen)"
    unfolding seen border_free_def using S closed sym by (auto simp: border_free_def dest: symD)
  ultimately show ?thesis using seen by blast
qed

lemma bfs_start_total:
  assumes "\<forall>x. set (adj_of adj x) \<subseteq> set (okeys adj)"
  shows "\<exists>r. bfs (Suc (length adj)) adj (i # seen) [i] [] = Some r"
proof -
  have "card (set (okeys adj) - set (i # seen)) \<le> length adj"
    by (metis Diff_subset List.finite_set card_length card_mono le_trans length_map okeys_def)
  then have "card (set (okeys adj) - set (i # seen)) + length [i] \<le> Suc (length adj)" by simp
  from bfs_fuel[OF assms this, of "[]"] show ?thesis by blast
qed

lemma bfs_start_component:
  assumes "sym (edges adj)" "border_free adj (set seen)" "i \<notin> set seen"
    and b: "bfs (Suc (length adj)) adj (i # seen) [i] [] = Some (ms, seen')"
  shows "set ms = {x. (i, x) \<in> (edges adj)\<^sup>*}" "set seen' = set seen \<union> set ms"
    "border_free adj (set seen')" "distinct ms" "set ms \<inter> set seen = {}"
proof -
  have "bfs_inv adj (set seen) i (i # seen) [i] []" using assms(3) by (simp add: bfs_inv_def)
  from bfs_spec[OF b this] have inv: "bfs_inv adj (set seen) i seen' [] ms" .
  note c = bfs_component[OF assms(1,2) inv]
  show "set ms = {x. (i, x) \<in> (edges adj)\<^sup>*}" by (rule conjunct1[OF c])
  show "set seen' = set seen \<union> set ms" "border_free adj (set seen')" using c by blast+
  show "distinct ms" "set ms \<inter> set seen = {}" using inv by (auto simp: bfs_inv_def)
qed

text \<open>What the remaining ids contribute, above the nodes already seen.\<close>

lemma components_from_spec:
  assumes adj: "sym (edges adj)" "\<forall>x. set (adj_of adj x) \<subseteq> set (okeys adj)"
    and S: "border_free adj (set seen)"
  shows "\<forall>c \<in> set (components_from adj ids seen rest).
           (\<exists>i \<in> set rest. set c = {x. (i, x) \<in> (edges adj)\<^sup>*}) \<and> distinct c \<and> set c \<inter> set seen = {}"
    and "set rest \<subseteq> set seen \<union> \<Union> (set ` set (components_from adj ids seen rest))"
    and "distinct (concat (components_from adj ids seen rest))"
  using S
proof (induction rest arbitrary: seen)
  case (Cons i rest)
  { case 1
    show ?case
    proof (cases "i \<in> set seen")
      case True
      with Cons(1)[OF 1] show ?thesis by auto
    next
      case False
      obtain ms seen' where b: "bfs (Suc (length adj)) adj (i # seen) [i] [] = Some (ms, seen')"
        using bfs_start_total[OF adj(2), of i seen] by auto
      note c = bfs_start_component[OF adj(1) 1 False b]
      have "components_from adj ids seen (i # rest) = js_sort (by_position ids) ms # components_from adj ids seen' rest"
        using False b by simp
      moreover have "\<forall>c \<in> set (components_from adj ids seen' rest).
           (\<exists>i \<in> set rest. set c = {x. (i, x) \<in> (edges adj)\<^sup>*}) \<and> distinct c \<and> set c \<inter> set seen' = {}"
        using Cons(1) c by blast
      ultimately show ?thesis using c by auto
    qed }
  { case 2
    show ?case
    proof (cases "i \<in> set seen")
      case True
      with Cons(2)[OF 2] show ?thesis by auto
    next
      case False
      obtain ms seen' where b: "bfs (Suc (length adj)) adj (i # seen) [i] [] = Some (ms, seen')"
        using bfs_start_total[OF adj(2), of i seen] by auto
      note c = bfs_start_component[OF adj(1) 2 False b]
      have "set rest \<subseteq> set seen' \<union> \<Union> (set ` set (components_from adj ids seen' rest))"
        using Cons(2) c by blast
      with False b c show ?thesis by auto
    qed }
  { case 3
    show ?case
    proof (cases "i \<in> set seen")
      case True
      with Cons(3)[OF 3] show ?thesis by simp
    next
      case False
      obtain ms seen' where b: "bfs (Suc (length adj)) adj (i # seen) [i] [] = Some (ms, seen')"
        using bfs_start_total[OF adj(2), of i seen] by auto
      note c = bfs_start_component[OF adj(1) 3 False b]
      have "\<forall>c \<in> set (components_from adj ids seen' rest). set c \<inter> set seen' = {}"
        using Cons(1) c by blast
      moreover have "distinct (concat (components_from adj ids seen' rest))" using Cons(3) c by blast
      ultimately show ?thesis using False b c by auto
    qed }
qed simp_all

lemma undirected_known: "sym (edges (undirected work))" "\<forall>x. set (adj_of (undirected work) x) \<subseteq> set (okeys (undirected work))"
proof -
  show "sym (edges (undirected work))" unfolding edges_undirected by (auto simp: sym_def)
  have "b \<in> set (okeys work)" if "(a, b) \<in> edges (undirected work)" for a b
    using that unfolding edges_undirected by (auto simp: known_edges_def)
  then show "\<forall>x. set (adj_of (undirected work) x) \<subseteq> set (okeys (undirected work))"
    by (auto simp: okeys_undirected edges_def)
qed

lemma connectedComponents_spec:
  "\<forall>c \<in> set (connectedComponents work). \<exists>i \<in> set (okeys work). set c = {x. (i, x) \<in> (known_edges work \<union> (known_edges work)\<inverse>)\<^sup>*}"
  "set (okeys work) \<subseteq> \<Union> (set ` set (connectedComponents work))"
  "distinct (concat (connectedComponents work))"
proof -
  have bf: "border_free (undirected work) (set [])" by (simp add: border_free_def)
  note spec = components_from_spec[OF undirected_known bf, of "okeys work" "okeys work", folded connectedComponents_def]
  show "\<forall>c \<in> set (connectedComponents work). \<exists>i \<in> set (okeys work). set c = {x. (i, x) \<in> (known_edges work \<union> (known_edges work)\<inverse>)\<^sup>*}"
    using spec(1) unfolding edges_undirected by blast
  show "set (okeys work) \<subseteq> \<Union> (set ` set (connectedComponents work))" using spec(2) by simp
  show "distinct (concat (connectedComponents work))" using spec(3) .
qed

lemma components_known: "c \<in> set (connectedComponents work) \<Longrightarrow> x \<in> set c \<Longrightarrow> x \<in> set (okeys work)"
proof -
  assume "c \<in> set (connectedComponents work)" "x \<in> set c"
  then obtain i where i: "i \<in> set (okeys work)" "(i, x) \<in> (known_edges work \<union> (known_edges work)\<inverse>)\<^sup>*"
    using connectedComponents_spec(1)[of work] by blast
  from i(2,1) show ?thesis by (induction rule: rtrancl_induct) (auto simp: known_edges_def)
qed

lemma same_component:
  assumes "x \<in> set (okeys work)"
  shows "(\<exists>c \<in> set (connectedComponents work). x \<in> set c \<and> y \<in> set c)
     \<longleftrightarrow> (x, y) \<in> (known_edges work \<union> (known_edges work)\<inverse>)\<^sup>*"
proof -
  let ?r = "known_edges work \<union> (known_edges work)\<inverse>"
  have sym: "sym (?r\<^sup>*)" by (rule sym_rtrancl) (auto simp: sym_def)
  have cls: "x \<in> set c \<Longrightarrow> set c = {z. (x, z) \<in> ?r\<^sup>*}" if c: "c \<in> set (connectedComponents work)" for c
  proof -
    assume xc: "x \<in> set c"
    obtain i where i: "set c = {z. (i, z) \<in> ?r\<^sup>*}" using connectedComponents_spec(1)[of work] c by blast
    then have "(i, x) \<in> ?r\<^sup>*" "(x, i) \<in> ?r\<^sup>*" using xc sym by (auto dest: symD)
    then show ?thesis unfolding i by (auto intro: rtrancl_trans)
  qed
  obtain c where "c \<in> set (connectedComponents work)" "x \<in> set c"
    using connectedComponents_spec(2)[of work] assms by blast
  with cls show ?thesis by blast
qed

end
