(* ===== verification/Merge_Order.thy ===== *)
theory Merge_Order
  imports Graph_Metrics
begin

text \<open>
  \<open>src/state/impact.mjs\<close>, \<open>src/state/discover-pool.mjs\<close> and \<open>src/state/graph-harness.mjs\<close>: the
  impact ranking of the open items, the pool of items to discover, and the merge readiness of the
  items that wait for approval. An item's \<open>id\<close> field is its key in the view. The drift of the roots
  (computed from git) is the argument \<open>needsSync\<close>.
\<close>

section \<open>Impact\<close>

definition tierRank :: "jval option \<Rightarrow> int" where
  "tierRank t = (if t = Some (JStr ''mvp'') then 0 else if t = Some (JStr ''milestone'') then 1 else 2)"

record impact_row =
  ir_id :: string
  ir_title :: "jval option"
  ir_status :: "jval option"
  ir_blocks :: nat
  ir_blockedBy :: "string list"
  ir_step :: "jval option"
  ir_goalTier :: "jval option"
  ir_priority :: "jval option"
  ir_component :: "nat option"
  ir_size :: nat
  ir_isolated :: bool

definition open_work :: "works \<Rightarrow> works" where
  "open_work work = filter (\<lambda>(_, w). \<not> isResolvedStatus (Some w)) work"

text \<open>The component of an id: its index and size.\<close>

fun component_of :: "nat \<Rightarrow> string list list \<Rightarrow> string \<Rightarrow> (nat \<times> nat) option" where
  "component_of k [] i = None"
| "component_of k (c # cs) i = (if i \<in> set c then Some (k, length c) else component_of (Suc k) cs i)"

definition impact_row_of :: "registry \<Rightarrow> works \<Rightarrow> string list list \<Rightarrow> string \<times> obj \<Rightarrow> impact_row" where
  "impact_row_of ds work comps x =
     (let i = fst x; w = snd x; opens = okeys (open_work work); es = buildUnifiedEdges work;
          comp = component_of 0 comps i; size = (case comp of Some (_, n) \<Rightarrow> n | None \<Rightarrow> 1)
      in \<lparr>ir_id = i, ir_title = oget w ''title'', ir_status = oget w ''status'',
          ir_blocks = length (filter (\<lambda>(a, b, _). a \<in> set opens \<and> b = i) es),
          ir_blockedBy = sort (map (\<lambda>(_, b, _). b) (filter (\<lambda>(a, b, _). a = i \<and> b \<in> set opens) es)),
          ir_step = effectiveStep w (getDomain ds (oget w ''domain'')),
          ir_goalTier = oget w ''goalTier'', ir_priority = oget w ''priority'',
          ir_component = map_option fst comp, ir_size = size, ir_isolated = (size = 1)\<rparr>)"

definition id_order :: "string \<Rightarrow> string \<Rightarrow> int" where
  "id_order a b = (if a < b then -1 else if b < a then 1 else 0)"

definition compareImpact :: "impact_row \<Rightarrow> impact_row \<Rightarrow> int" where
  "compareImpact a b =
     (let t = tierRank (ir_goalTier a) - tierRank (ir_goalTier b); bl = int (ir_blocks b) - int (ir_blocks a);
          sz = int (ir_size b) - int (ir_size a)
      in if t \<noteq> 0 then t else if bl \<noteq> 0 then bl else if sz \<noteq> 0 then sz else id_order (ir_id a) (ir_id b))"

definition ranked_open :: "registry \<Rightarrow> works \<Rightarrow> impact_row list" where
  "ranked_open ds work = js_sort compareImpact
     (map (impact_row_of ds work (connectedComponents (open_work work))) (open_work work))"

definition done_row :: "registry \<Rightarrow> string \<times> obj \<Rightarrow> impact_row" where
  "done_row ds x = (let w = snd x in
     \<lparr>ir_id = fst x, ir_title = oget w ''title'', ir_status = oget w ''status'', ir_blocks = 0, ir_blockedBy = [],
      ir_step = effectiveStep w (getDomain ds (oget w ''domain'')), ir_goalTier = oget w ''goalTier'',
      ir_priority = oget w ''priority'', ir_component = None, ir_size = 0, ir_isolated = True\<rparr>)"

definition compareDone :: "impact_row \<Rightarrow> impact_row \<Rightarrow> int" where
  "compareDone a b = (let t = tierRank (ir_goalTier a) - tierRank (ir_goalTier b)
     in if t \<noteq> 0 then t else id_order (ir_id a) (ir_id b))"

definition rankImpact :: "registry \<Rightarrow> works \<Rightarrow> bool \<Rightarrow> impact_row list" where
  "rankImpact ds work includeDone =
     (if includeDone then ranked_open ds work @ js_sort compareDone
        (map (done_row ds) (filter (\<lambda>(_, w). isResolvedStatus (Some w)) work))
      else ranked_open ds work)"

section \<open>The discover pool\<close>

definition CANDIDATE_STATUSES :: "string list" where
  "CANDIDATE_STATUSES = [''todo'', ''backlog'']"

definition isCandidateStage :: "registry \<Rightarrow> obj \<Rightarrow> bool" where
  "isCandidateStage ds w = (oget w ''workflowStep'' \<in>
     (\<lambda>s. Some (JStr s)) ` set (discoverableSteps (getDomain ds (oget w ''domain'')) (oget w ''kind'')))"

definition isDiscoverCandidate :: "registry \<Rightarrow> works \<Rightarrow> obj \<Rightarrow> bool" where
  "isDiscoverCandidate ds work w = ((\<exists>s \<in> set CANDIDATE_STATUSES. oget w ''status'' = Some (JStr s))
     \<and> isCandidateStage ds w \<and> isDepsAndLineageReady work (id_of w))"

definition compareClarifyOrder :: "(string \<Rightarrow> nat) \<Rightarrow> obj \<Rightarrow> obj \<Rightarrow> int" where
  "compareClarifyOrder blocks a b =
     (let bd = int (blocks (id_of b)) - int (blocks (id_of a));
          ud = (if truthy (oget b ''urgent'') then 1 else 0) - (if truthy (oget a ''urgent'') then 1 else 0)
      in if bd \<noteq> 0 then bd else if ud \<noteq> 0 then ud else 0)"

definition blocksById :: "registry \<Rightarrow> works \<Rightarrow> string \<Rightarrow> nat" where
  "blocksById ds work i = (case List.find (\<lambda>r. ir_id r = i) (rankImpact ds work False) of
     None \<Rightarrow> 0 | Some r \<Rightarrow> ir_blocks r)"

definition pickNextDiscoverItem :: "registry \<Rightarrow> works \<Rightarrow> (string \<times> jval option) option" where
  "pickNextDiscoverItem ds work =
     (case filter (isDiscoverCandidate ds work) (map snd work) of
        [] \<Rightarrow> None
      | cs \<Rightarrow> let w = hd (js_sort (compareClarifyOrder (blocksById ds work)) cs)
              in Some (id_of w, oget w ''workflowStep''))"

section \<open>Merge readiness\<close>

definition proposed :: "works \<Rightarrow> obj list" where
  "proposed work = filter (\<lambda>w. oget w ''status'' = Some (JStr ''awaiting-approval'')) (map snd work)"

definition targets_resolved :: "works \<Rightarrow> string \<Rightarrow> obj \<Rightarrow> bool" where
  "targets_resolved work f w =
     list_all (\<lambda>d. isResolvedStatus (Option.bind (as_str (Some d)) (oget work))) (jarr_or (oget w f) [])"

definition merge_clear :: "works \<Rightarrow> obj \<Rightarrow> bool" where
  "merge_clear work w = (targets_resolved work ''deps'' w \<and> targets_resolved work ''mergeAfter'' w)"

datatype sync_state = Blocked_on_sync | Stranded | Sync_clear

definition sync_state_of :: "(string \<Rightarrow> bool) \<Rightarrow> works \<Rightarrow> obj \<Rightarrow> sync_state" where
  "sync_state_of needsSync work w =
     (let root = resolveRoot work (id_of w)
      in if needsSync root then Blocked_on_sync
         else if root \<noteq> id_of w \<and> isResolvedStatus (oget work root) then Stranded
         else Sync_clear)"

definition syncClear :: "(string \<Rightarrow> bool) \<Rightarrow> works \<Rightarrow> obj list" where
  "syncClear needsSync work =
     filter (\<lambda>w. merge_clear work w \<and> sync_state_of needsSync work w = Sync_clear) (proposed work)"

definition merge_conflicts :: "(string \<Rightarrow> bool) \<Rightarrow> works \<Rightarrow> footprint_conflict list" where
  "merge_conflicts needsSync work = footprintOverlapAmong (syncClear needsSync work)"

definition conflictedIds :: "footprint_conflict list \<Rightarrow> string list" where
  "conflictedIds confs = remdups (concat (map (\<lambda>(a, b, _). [a, b]) confs))"

definition free_ids :: "(string \<Rightarrow> bool) \<Rightarrow> works \<Rightarrow> string list" where
  "free_ids needsSync work = remdups (filter (\<lambda>i. i \<notin> set (conflictedIds (merge_conflicts needsSync work)))
     (map id_of (syncClear needsSync work)))"

definition superseded_in :: "works \<Rightarrow> string list \<Rightarrow> string \<Rightarrow> bool" where
  "superseded_in work ready i =
     (case as_str (Option.bind (oget work i) (\<lambda>w. oget w ''supersededBy'')) of
        None \<Rightarrow> False
      | Some t \<Rightarrow> isResolvedStatus (oget work t) \<or> t \<in> set ready)"

definition orderByRank :: "registry \<Rightarrow> works \<Rightarrow> string list \<Rightarrow> string list" where
  "orderByRank ds work ids = filter (\<lambda>i. i \<in> set ids) (map ir_id (rankImpact ds work False))"

text \<open>The union-find of the conflicting ids, its parent links as an association list.\<close>

fun uf_find :: "nat \<Rightarrow> (string \<times> string) list \<Rightarrow> string \<Rightarrow> string" where
  "uf_find 0 parents x = x"
| "uf_find (Suc n) parents x = (case oget parents x of
     None \<Rightarrow> x | Some p \<Rightarrow> if p = x then x else uf_find n parents p)"

definition uf_union :: "string \<Rightarrow> string \<Rightarrow> (string \<times> string) list \<Rightarrow> (string \<times> string) list" where
  "uf_union a b parents =
     (let ra = uf_find (length parents) parents a; rb = uf_find (length parents) parents b
      in if ra \<noteq> rb then oset ra rb parents else parents)"

definition group_by :: "(string \<Rightarrow> string) \<Rightarrow> string list \<Rightarrow> (string \<times> string list) list" where
  "group_by key ids = fold (\<lambda>i gs. oset (key i) (lazyd (oget gs (key i)) @ [i]) gs) ids []"

definition conflict_groups :: "footprint_conflict list \<Rightarrow> string list list" where
  "conflict_groups confs =
     (let ids = conflictedIds confs;
          parents = fold (\<lambda>(a, b, _). uf_union a b) confs (map (\<lambda>i. (i, i)) ids)
      in map snd (group_by (uf_find (length parents) parents) ids))"

record merge_readiness =
  mr_ready :: "string list"
  mr_waiting :: "string list"
  mr_conflicts :: "footprint_conflict list"
  mr_mergeSets :: "(string list \<times> string) list"
  mr_blockedOnSync :: "string list"
  mr_stranded :: "string list"
  mr_mergeTier :: "(string \<times> string) list"
  mr_supersededOut :: "string list"

definition mergeReadiness :: "registry \<Rightarrow> (string \<Rightarrow> bool) \<Rightarrow> works \<Rightarrow> merge_readiness" where
  "mergeReadiness ds needsSync work =
     (let cands = filter (merge_clear work) (proposed work);
          confs = merge_conflicts needsSync work;
          free = free_ids needsSync work;
          out = filter (superseded_in work free) free;
          ready = filter (\<lambda>i. i \<notin> set out) free;
          rank = orderByRank ds work
      in \<lparr>mr_ready = rank ready,
          mr_waiting = map id_of (filter (\<lambda>w. \<not> merge_clear work w) (proposed work)),
          mr_conflicts = confs,
          mr_mergeSets = map (\<lambda>g. (rank g, ''footprint-overlap'')) (conflict_groups confs)
            @ map (\<lambda>g. (rank g, ''shared-root''))
                (filter (\<lambda>g. 2 \<le> length g) (map snd (group_by (resolveRoot work) ready))),
          mr_blockedOnSync = rank (map id_of (filter (\<lambda>w. sync_state_of needsSync work w = Blocked_on_sync) cands)),
          mr_stranded = rank (map id_of (filter (\<lambda>w. sync_state_of needsSync work w = Stranded) cands)),
          mr_mergeTier = fold (\<lambda>w. oset (id_of w) (if truthy (oget w ''parent'') then ''leaf-to-root'' else ''root-to-main''))
            (proposed work) [],
          mr_supersededOut = rank out\<rparr>)"

section \<open>After a land\<close>

definition parent_target :: "obj \<Rightarrow> jval option" where
  "parent_target w = (if nullish (oget w ''parent'') then None else oget w ''parent'')"

definition openLeavesSharingTarget :: "works \<Rightarrow> string \<Rightarrow> string list" where
  "openLeavesSharingTarget work landedId = (case oget work landedId of
     None \<Rightarrow> []
   | Some landed \<Rightarrow> sort (map id_of (filter (\<lambda>w. id_of w \<noteq> landedId \<and> parent_target w = parent_target landed
       \<and> oget w ''status'' \<noteq> Some (JStr ''todo'') \<and> \<not> isResolvedStatus (Some w)) (map snd work))))"

type_synonym leaf = "string \<times> string list \<times> string list"    \<comment> \<open>id, changed files, sessions\<close>

definition classifyPostLandDrift ::
  "string list \<Rightarrow> leaf list \<Rightarrow> (string \<times> string list \<times> string list) list \<times> (string \<times> string list) list" where
  "classifyPostLandDrift landedFiles leaves =
     (let hits = filter (\<lambda>(_, shared, _). shared \<noteq> [])
            (map (\<lambda>(i, fs, ses). (i, sort (filter (\<lambda>f. f \<in> set landedFiles) fs), ses)) leaves)
      in (filter (\<lambda>(_, _, ses). ses \<noteq> []) hits,
          map (\<lambda>(i, shared, _). (i, shared)) (filter (\<lambda>(_, _, ses). ses = []) hits)))"

section \<open>The comparators\<close>

lemma id_order_flip: "id_order a b > 0 \<longleftrightarrow> id_order b a < 0"
  by (auto simp: id_order_def)

lemma id_order_trans: "id_order a b \<le> 0 \<Longrightarrow> id_order b c \<le> 0 \<Longrightarrow> id_order a c \<le> 0"
  by (auto simp: id_order_def split: if_splits)

interpretation impact_order: js_comparator compareImpact
proof
  show "compareImpact x y > 0 \<longleftrightarrow> compareImpact y x < 0" for x y
    using id_order_flip[of "ir_id x" "ir_id y"] by (auto simp: compareImpact_def Let_def)
  show "compareImpact x z \<le> 0" if "compareImpact x y \<le> 0" "compareImpact y z \<le> 0" for x y z
    using that id_order_trans[of "ir_id x" "ir_id y" "ir_id z"]
    by (auto simp: compareImpact_def Let_def split: if_splits)
qed

interpretation done_order: js_comparator compareDone
proof
  show "compareDone x y > 0 \<longleftrightarrow> compareDone y x < 0" for x y
    using id_order_flip[of "ir_id x" "ir_id y"] by (auto simp: compareDone_def Let_def)
  show "compareDone x z \<le> 0" if "compareDone x y \<le> 0" "compareDone y z \<le> 0" for x y z
    using that id_order_trans[of "ir_id x" "ir_id y" "ir_id z"]
    by (auto simp: compareDone_def Let_def split: if_splits)
qed

interpretation clarify_order: js_comparator "compareClarifyOrder blocks" for blocks
  by unfold_locales (auto simp: compareClarifyOrder_def Let_def split: if_splits)

section \<open>The buckets\<close>

text \<open>A view as the fold builds it: every item under its own id, once.\<close>

definition keyed_view :: "works \<Rightarrow> bool" where
  "keyed_view work = (distinct (okeys work) \<and> (\<forall>(i, w) \<in> set work. id_of w = i))"

lemma keyed_oget: "keyed_view work \<Longrightarrow> (i, w) \<in> set work \<Longrightarrow> oget work i = Some w"
  by (simp add: keyed_view_def oget_def okeys_def)

lemma set_rank_ids: "ir_id ` set (rankImpact ds work False) = {i. \<exists>w. (i, w) \<in> set work \<and> \<not> isResolvedStatus (Some w)}"
proof -
  have "ir_id (impact_row_of ds work comps x) = fst x" for comps x by (simp add: impact_row_of_def Let_def)
  then show ?thesis
    by (force simp: rankImpact_def ranked_open_def open_work_def image_iff)
qed

lemma set_orderByRank:
  "set (orderByRank ds work ids) = {i \<in> set ids. \<exists>w. (i, w) \<in> set work \<and> \<not> isResolvedStatus (Some w)}"
  using set_rank_ids[of ds work] by (auto simp: orderByRank_def)

lemma set_proposed: "w \<in> set (proposed work) \<longleftrightarrow>
    (\<exists>i. (i, w) \<in> set work) \<and> oget w ''status'' = Some (JStr ''awaiting-approval'')"
  by (force simp: proposed_def)

lemma proposed_keyed: "keyed_view work \<Longrightarrow> w \<in> set (proposed work) \<Longrightarrow> (id_of w, w) \<in> set work"
  by (auto simp: set_proposed keyed_view_def)

lemma proposed_inj: "keyed_view work \<Longrightarrow> w \<in> set (proposed work) \<Longrightarrow> w' \<in> set (proposed work) \<Longrightarrow>
    id_of w = id_of w' \<Longrightarrow> w = w'"
  using keyed_oget proposed_keyed by (metis option.inject)

lemma distinct_proposed_ids: "keyed_view work \<Longrightarrow> distinct (map id_of (proposed work))"
proof -
  assume k: "keyed_view work"
  then have "map id_of (map snd work) = okeys work" by (auto simp: keyed_view_def okeys_def)
  with k have "distinct (map id_of (map snd work))" by (simp add: keyed_view_def)
  then show ?thesis unfolding proposed_def by (rule distinct_map_filter)
qed

text \<open>The bucket an item that waits for approval falls into.\<close>

datatype merge_bucket = B_waiting | B_sync | B_stranded | B_conflicted | B_superseded | B_ready

definition bucket_of :: "(string \<Rightarrow> bool) \<Rightarrow> works \<Rightarrow> obj \<Rightarrow> merge_bucket" where
  "bucket_of needsSync work w =
     (if \<not> merge_clear work w then B_waiting
      else case sync_state_of needsSync work w of
          Blocked_on_sync \<Rightarrow> B_sync
        | Stranded \<Rightarrow> B_stranded
        | Sync_clear \<Rightarrow>
            if id_of w \<in> set (conflictedIds (merge_conflicts needsSync work)) then B_conflicted
            else if superseded_in work (free_ids needsSync work) (id_of w) then B_superseded
            else B_ready)"

text \<open>The ids each bucket of the answer lists.\<close>

definition bucket_ids :: "merge_readiness \<Rightarrow> merge_bucket \<Rightarrow> string list" where
  "bucket_ids r b = (case b of
       B_waiting \<Rightarrow> mr_waiting r | B_sync \<Rightarrow> mr_blockedOnSync r | B_stranded \<Rightarrow> mr_stranded r
     | B_conflicted \<Rightarrow> conflictedIds (mr_conflicts r) | B_superseded \<Rightarrow> mr_supersededOut r | B_ready \<Rightarrow> mr_ready r)"

lemma conflicted_syncClear: "i \<in> set (conflictedIds (footprintOverlapAmong ws)) \<Longrightarrow> i \<in> id_of ` set ws"
  by (auto simp: conflictedIds_def dest!: overlap_sound)

lemma in_map_id:
  assumes "keyed_view work" "w \<in> set (proposed work)"
  shows "id_of w \<in> set (map id_of (filter P (proposed work))) \<longleftrightarrow> P w"
  using assms proposed_inj by fastforce

lemma bucket_exact:
  assumes k: "keyed_view work" and w: "w \<in> set (proposed work)" and op: "\<not> isResolvedStatus (Some w)"
  shows "id_of w \<in> set (bucket_ids (mergeReadiness ds needsSync work) b) \<longleftrightarrow> b = bucket_of needsSync work w"
proof -
  have known: "\<exists>w'. (id_of w, w') \<in> set work \<and> \<not> isResolvedStatus (Some w')"
    using proposed_keyed[OF k w] op by blast
  have mem: "id_of w \<in> set (map id_of (filter P (proposed work))) \<longleftrightarrow> P w" for P by (rule in_map_id[OF k w])
  have cands: "id_of w \<in> set (map id_of (filter Q (filter (merge_clear work) (proposed work)))) \<longleftrightarrow> merge_clear work w \<and> Q w"
    for Q using mem[of "\<lambda>x. merge_clear work x \<and> Q x"] by simp
  have sc: "id_of w \<in> set (map id_of (syncClear needsSync work)) \<longleftrightarrow>
      merge_clear work w \<and> sync_state_of needsSync work w = Sync_clear"
    unfolding syncClear_def by (rule mem)
  let ?C = "set (conflictedIds (merge_conflicts needsSync work))"
  have cf: "id_of w \<in> ?C \<Longrightarrow> merge_clear work w \<and> sync_state_of needsSync work w = Sync_clear"
    using conflicted_syncClear[of "id_of w" "syncClear needsSync work"] sc by (simp add: merge_conflicts_def)
  have free: "id_of w \<in> set (free_ids needsSync work) \<longleftrightarrow>
      merge_clear work w \<and> sync_state_of needsSync work w = Sync_clear \<and> id_of w \<notin> ?C"
    using sc by (auto simp: free_ids_def)
  show ?thesis
  proof (cases b)
    case B_waiting
    with mem[of "\<lambda>w. \<not> merge_clear work w"] show ?thesis
      by (auto simp: bucket_ids_def mergeReadiness_def Let_def bucket_of_def split: sync_state.splits)
  next
    case B_sync
    with cands[of "\<lambda>w. sync_state_of needsSync work w = Blocked_on_sync"] known show ?thesis
      by (auto simp: bucket_ids_def mergeReadiness_def Let_def bucket_of_def set_orderByRank simp del: set_map
          split: sync_state.splits)
  next
    case B_stranded
    with cands[of "\<lambda>w. sync_state_of needsSync work w = Stranded"] known show ?thesis
      by (auto simp: bucket_ids_def mergeReadiness_def Let_def bucket_of_def set_orderByRank simp del: set_map
          split: sync_state.splits)
  next
    case B_conflicted
    with cf show ?thesis
      by (auto simp: bucket_ids_def mergeReadiness_def Let_def bucket_of_def split: sync_state.splits)
  next
    case B_superseded
    with free known show ?thesis
      by (auto simp: bucket_ids_def mergeReadiness_def Let_def bucket_of_def set_orderByRank split: sync_state.splits)
  next
    case B_ready
    with free known show ?thesis
      by (auto simp: bucket_ids_def mergeReadiness_def Let_def bucket_of_def set_orderByRank split: sync_state.splits)
  qed
qed

lemma shared_paths_sym: "shared_paths a b \<noteq> [] \<Longrightarrow> shared_paths b a \<noteq> []"
proof -
  assume "shared_paths a b \<noteq> []"
  then obtain p q where "p \<in> set (footprint_of a)" "q \<in> set (footprint_of b)" "normalizePath p = normalizePath q"
    by (auto simp: shared_paths_def filter_empty_conv)
  then have "q \<in> set (shared_paths b a)" by (auto simp: shared_paths_def intro: rev_image_eqI)
  then show ?thesis by auto
qed

text \<open>Two different items in the ready bucket touch no common path.\<close>

lemma ready_disjoint:
  assumes "keyed_view work" "u \<in> set (proposed work)" "w \<in> set (proposed work)" "id_of u \<noteq> id_of w"
    and "bucket_of needsSync work u = B_ready" "bucket_of needsSync work w = B_ready"
  shows "shared_paths u w = []"
proof (rule ccontr)
  assume sh: "shared_paths u w \<noteq> []"
  have in_sc: "x \<in> set (syncClear needsSync work)" if "x \<in> set (proposed work)" "bucket_of needsSync work x = B_ready" for x
    using that by (auto simp: bucket_of_def syncClear_def split: if_splits sync_state.splits)
  then obtain i j where ij: "i < length (syncClear needsSync work)" "syncClear needsSync work ! i = u"
      "j < length (syncClear needsSync work)" "syncClear needsSync work ! j = w"
    using assms by (metis in_set_conv_nth)
  then have "i \<noteq> j" using assms(4) by auto
  then have "\<exists>ps. (id_of u, id_of w, ps) \<in> set (merge_conflicts needsSync work)
      \<or> (id_of w, id_of u, ps) \<in> set (merge_conflicts needsSync work)"
    using overlap_pair[of i j "syncClear needsSync work"] overlap_pair[of j i "syncClear needsSync work"] ij sh
      shared_paths_sym[OF sh] unfolding merge_conflicts_def by (metis linorder_neqE_nat)
  then have "id_of u \<in> set (conflictedIds (merge_conflicts needsSync work))"
    by (auto simp: conflictedIds_def intro: rev_bexI)
  with assms(5) show False by (simp add: bucket_of_def split: if_splits sync_state.splits)
qed

end
