(* ===== verification/Sample_Log.thy ===== *)
theory Sample_Log
  imports Store_Batches Knowledge_Invariants Merge_Order
begin

text \<open>
  A small log on which the properties are instantiated: a writer, the place its events get, items as a
  session files them in the coding domain, and the views the doors lead to from the empty one.
\<close>

definition sample_ports :: ports where
  "sample_ports = \<lparr>pt_missing = (\<lambda>_ _. []), pt_traceable = (\<lambda>_. None), pt_revision = (\<lambda>_. ''r1''),
     pt_tip = (\<lambda>_. None), pt_writer = [(''id'', JStr ''w1'')], pt_writerId = ''w1'', pt_mainWriterId = ''w1'',
     pt_now = JStr ''t1''\<rparr>"

definition sample_place :: envelope where
  "sample_place = \<lparr>en_origin = ''o1'', en_seq = (\<lambda>k. int k + 1), en_seen = [], en_ts = JStr ''t1'',
     en_h = (\<lambda>k. replicate (Suc k) CHR ''h'')\<rparr>"

definition sample_item :: "string \<Rightarrow> string \<Rightarrow> string list \<Rightarrow> obj" where
  "sample_item i status deps =
     [(''id'', JStr i), (''title'', JStr ''a title''), (''kind'', JStr ''task''), (''status'', JStr status),
      (''deps'', JArr (map JStr deps)), (''risk'', JStr ''light''), (''refs'', JArr []), (''verify'', JStr ''make'')]"

definition sample_commit :: "view \<Rightarrow> raw_event list \<Rightarrow> view" where
  "sample_commit v rs = projr (commit DOMAINS sample_place v rs)"

definition sample_added :: "obj \<Rightarrow> raw_event" where
  "sample_added w = (''work.add'', new_item DOMAINS sample_ports w)"

definition sample_view :: view where
  "sample_view = sample_commit empty_view [sample_added (sample_item ''a'' ''todo'' [])]"

lemma sample_add: "addWork DOMAINS sample_ports empty_view (sample_item ''a'' ''todo'' []) =
    Inr [sample_added (sample_item ''a'' ''todo'' [])]"
  by code_simp

lemma sample_add_commit:
  "commit DOMAINS sample_place empty_view [sample_added (sample_item ''a'' ''todo'' [])] = Inr sample_view"
  by code_simp

lemma sample_reachable: "store_reachable DOMAINS sample_view"
  using store_reachable.start sample_add sample_add_commit
  by (blast intro: store_reachable.step store_step.commit door.add)

text \<open>A move, and the two views after it: the item parked for a human, the item closed as wontfix.\<close>

definition sample_move :: "view \<Rightarrow> obj \<Rightarrow> raw_event list" where
  "sample_move v a = (case moveWorkOnce DOMAINS sample_ports None None v [] None a of Inr (Batch rs) \<Rightarrow> rs | _ \<Rightarrow> [])"

definition sample_ask :: obj where
  "sample_ask = [(''id'', JStr ''a''), (''to'', JStr ''awaiting-human''), (''ask'', JStr ''which?'')]"

definition sample_close :: obj where
  "sample_close = [(''id'', JStr ''a''), (''to'', JStr ''wontfix'')]"

definition sample_asked :: view where
  "sample_asked = sample_commit sample_view (sample_move sample_view sample_ask)"

definition sample_closed :: view where
  "sample_closed = sample_commit sample_view (sample_move sample_view sample_close)"

lemma sample_moves:
  "moveWorkOnce DOMAINS sample_ports None None sample_view [] None sample_ask = Inr (Batch (sample_move sample_view sample_ask))"
  "moveWorkOnce DOMAINS sample_ports None None sample_view [] None sample_close = Inr (Batch (sample_move sample_view sample_close))"
  "commit DOMAINS sample_place sample_view (sample_move sample_view sample_ask) = Inr sample_asked"
  "commit DOMAINS sample_place sample_view (sample_move sample_view sample_close) = Inr sample_closed"
  by code_simp+

lemma sample_steps: "store_step DOMAINS sample_view sample_asked" "store_step DOMAINS sample_view sample_closed"
  using sample_moves by (blast intro: store_step.commit door.move)+

lemma sample_closed_reachable: "store_reachable DOMAINS sample_closed"
  using sample_reachable sample_steps(2) by (rule store_reachable.step)

text \<open>What is there at an id, as a test that evaluates.\<close>

definition item_at :: "view \<Rightarrow> string \<Rightarrow> obj" where
  "item_at v i = lazyd (oget (v_work v) i)"

lemma item_at: "oget (v_work v) i \<noteq> None \<Longrightarrow> oget (v_work v) i = Some (item_at v i)"
  by (auto simp: item_at_def)

lemma sample_items:
  "oget (v_work sample_view) ''a'' = Some (item_at sample_view ''a'')"
  "oget (v_work sample_closed) ''a'' = Some (item_at sample_closed ''a'')"
  "oget (item_at sample_view ''a'') ''status'' = Some (JStr ''todo'')"
  "oget (item_at sample_closed ''a'') ''status'' = Some (JStr ''wontfix'')"
  by (code_simp)+

text \<open>The view in which the holder of the item has called the reviewer.\<close>

definition sample_call :: raw_event where
  "sample_call = projr (callEvent DOMAINS (JObj [(''id'', JStr ''w1'')]) sample_view ''a'' ''reviewer'' ''review'' None None 0)"

definition sample_called :: view where
  "sample_called = sample_commit sample_view [sample_call]"

lemma sample_call:
  "callEvent DOMAINS (JObj [(''id'', JStr ''w1'')]) sample_view ''a'' ''reviewer'' ''review'' None None 0 = Inr sample_call"
  "commit DOMAINS sample_place sample_view [sample_call] = Inr sample_called"
  "oget (v_work sample_called) ''a'' = Some (item_at sample_called ''a'')"
  by code_simp+

lemmas sample_called_item = sample_call(3)

lemma sample_called_reachable: "store_reachable DOMAINS sample_called"
  using sample_reachable sample_call by (blast intro: store_reachable.step store_step.commit door.call)

end
