(* ===== verification/Store_Properties.thy ===== *)
theory Store_Properties
  imports Sample_Log
begin

text \<open>
  What the write door of the store guarantees, on every view it can reach and over every sequence of
  operations: the soundness of the item map, the status machine, batches that always apply, the gates
  of a delivery, and the ownership of a claim.
\<close>

section \<open>Every reachable view\<close>

text \<open>
  C1: Whatever sequence of store operations (adds, edits, moves, settles, steps, hand-offs, verdicts, ...)
  led from the empty log to a view, its items have distinct ids, each item sits under its own kebab-case
  id of at most 30 characters with a status of the vocabulary and depends only on items that are there, and
  the graph of what blocks what (dependencies, parents, merge order) has no cycle.
\<close>

theorem reachable_view_sound:
  assumes "store_reachable ds v"
  shows "distinct (okeys (v_work v)) \<and> acyclic (unified_edges (v_work v))
     \<and> (\<forall>i w. oget (v_work v) i = Some w \<longrightarrow>
          oget w ''id'' = Some (JStr i) \<and> ID_PATTERN i \<and> length i \<le> MAX_ID_LENGTH
          \<and> (\<exists>s \<in> set STATUSES. oget w ''status'' = Some (JStr s))
          \<and> (\<forall>d \<in> set (jarr_or (oget w ''deps'') []). \<exists>j. d = JStr j \<and> oget (v_work v) j \<noteq> None))"
  using reachable_sound[OF assms]
  by (auto simp: sound_works_def sound_item_def known_deps_def deps_known_def list_all_iff oget_None_iff)

theorem reachable_view_sound_witness:
  "acyclic (unified_edges (v_work sample_view)) \<and> okeys (v_work sample_view) = [''a'']"
proof
  show "acyclic (unified_edges (v_work sample_view))"
    using reachable_view_sound[OF sample_reachable] by blast
  show "okeys (v_work sample_view) = [''a'']" by code_simp
qed

text \<open>
  C2: One store operation never loses an item, and changes its status at most once, along an edge of the
  transition table: whichever door runs (a batch that moves, a settle that edits, attempts and moves, a
  hand-off), the item is still there and its status is the old one or a legal next one.
\<close>

theorem operation_follows_table:
  assumes "store_reachable ds v" "store_step ds v v'"
    and "oget (v_work v) i = Some w" "oget w ''status'' = Some (JStr s)"
  shows "\<exists>w' t. oget (v_work v') i = Some w' \<and> oget w' ''status'' = Some (JStr t)
     \<and> (t = s \<or> status_step s t)"
proof -
  have "has_status i (next_statuses (Some (JStr s))) (v_work v')"
    using step_status[OF assms(2) reachable_sound[OF assms(1)] assms(3)] assms(4) by simp
  then show ?thesis by (auto simp: has_status_def next_statuses_def)
qed

theorem operation_follows_table_witness:
  "\<exists>w' t. oget (v_work sample_asked) ''a'' = Some w' \<and> oget w' ''status'' = Some (JStr t)
     \<and> (t = ''todo'' \<or> status_step ''todo'' t)"
  by (rule operation_follows_table[OF sample_reachable sample_steps(1) sample_items(1,3)])

text \<open>
  An item that is done or wontfix stays so through every sequence of store operations.
\<close>

theorem terminal_is_final:
  assumes "store_reachable ds v" "store_run ds v v'" "s \<in> {''done'', ''wontfix''}"
    and "oget (v_work v) i = Some w" "oget w ''status'' = Some (JStr s)"
  shows "\<exists>w'. oget (v_work v') i = Some w' \<and> oget w' ''status'' = Some (JStr s)"
  using run_terminal[OF assms(2) reachable_sound[OF assms(1)] _ assms(3), of i] assms(4,5)
  by (auto simp: has_status_def)

theorem terminal_is_final_witness:
  "store_run DOMAINS sample_closed sample_closed
     \<and> (\<exists>w'. oget (v_work sample_closed) ''a'' = Some w' \<and> oget w' ''status'' = Some (JStr ''wontfix''))"
  using terminal_is_final[OF sample_closed_reachable store_run.refl _ sample_items(2,4)] store_run.refl by simp

text \<open>
  C3: Whatever door built a batch on a reachable view, the batch applies to it: the preconditions the
  writer put on its events (the item exists, and still has the status the earlier events of the same
  batch leave it in) all hold when the events are folded in order, so committing neither stops the fold
  nor records a conflict. Only a payload that brings a precondition of its own is left out.
\<close>

theorem own_batch_applies:
  assumes "store_reachable ds v" "door ds v rs" "\<forall>r \<in> set rs. oget (snd r) ''precondition'' = None"
  shows "\<exists>v'. commit ds en v rs = Inr v' \<and> v_conflicts v' = v_conflicts v \<and> store_reachable ds v'"
  using door_applies[OF assms(2) reachable_sound[OF assms(1)] assms(3), of en] assms(1,2)
  by (blast intro: store_reachable.step store_step.commit)

theorem own_batch_applies_witness:
  "\<exists>v'. commit DOMAINS sample_place empty_view [sample_added (sample_item ''a'' ''todo'' [])] = Inr v'
     \<and> v_conflicts v' = v_conflicts empty_view \<and> store_reachable DOMAINS v'"
proof (rule own_batch_applies[OF store_reachable.start])
  show "door DOMAINS empty_view [sample_added (sample_item ''a'' ''todo'' [])]"
    by (rule door.add[OF sample_add])
  show "\<forall>r \<in> set [sample_added (sample_item ''a'' ''todo'' [])]. oget (snd r) ''precondition'' = None"
    by code_simp
qed

text \<open>
  C9: The store never deadlocks: in every reachable view that holds an open item, some open item is free,
  all its dependencies resolved and no open item below it.
\<close>

theorem some_open_item_is_free:
  assumes "store_reachable ds v" "oget (v_work v) i = Some w" "\<not> isResolvedStatus (Some w)"
  shows "\<exists>j x. oget (v_work v) j = Some x \<and> \<not> isResolvedStatus (Some x) \<and> isDepsAndLineageReady (v_work v) j"
proof -
  have "acyclic (unified_edges (v_work v))" "known_deps (v_work v)"
    using reachable_sound[OF assms(1)] by (simp_all add: sound_works_def)
  moreover have "open_item (v_work v) i" using assms(2,3) by (simp add: open_item_def)
  ultimately show ?thesis using free_item unfolding open_item_def by blast
qed

theorem some_open_item_is_free_witness:
  "\<exists>j x. oget (v_work sample_view) j = Some x \<and> \<not> isResolvedStatus (Some x) \<and> isDepsAndLineageReady (v_work sample_view) j"
proof -
  have "\<not> isResolvedStatus (Some (item_at sample_view ''a''))" by code_simp
  from some_open_item_is_free[OF sample_reachable sample_items(1) this] show ?thesis .
qed

section \<open>Moving and asking\<close>




text \<open>
  C16: Asking and answering is a round trip. When a move parked an item for a human, an answer that is not
  blank is always accepted on the view the question left, whoever gives it, and once it is committed the
  item is back in todo: an answer never leaves an item stuck in awaiting-human.
\<close>

theorem answer_resumes_question:
  assumes "store_reachable ds v"
    and "moveWorkOnce ds pt None prior v cs snapshot a = Inr (Batch rs)"
      "oget a ''to'' = Some (JStr ''awaiting-human'')" "commit ds en v rs = Inr v1"
    and "nonblank (oget b ''answer'')" "pkey b = pkey a"
      "oget b ''expectedStatus'' \<in> {None, Some (JStr ''awaiting-human'')}"
  shows "\<exists>m v2. moveWorkOnce ds pt2 None prior2 v1 cs2 snapshot2 (answerAwaiting v1 b) = Inr (Batch [(''work.move'', m)])
     \<and> commit ds en2 v1 [(''work.move'', m)] = Inr v2
     \<and> (\<exists>w. oget (v_work v2) (pkey a) = Some w \<and> oget w ''status'' = Some (JStr ''todo''))"
  using ask_answer[OF reachable_sound[OF assms(1)]] assms(2-) by blast

theorem answer_resumes_question_witness:
  "\<exists>m v2. moveWorkOnce DOMAINS sample_ports None None sample_asked [] None
       (answerAwaiting sample_asked [(''id'', JStr ''a''), (''answer'', JStr ''this one'')]) = Inr (Batch [(''work.move'', m)])
     \<and> commit DOMAINS sample_place sample_asked [(''work.move'', m)] = Inr v2
     \<and> (\<exists>w. oget (v_work v2) ''a'' = Some w \<and> oget w ''status'' = Some (JStr ''todo''))"
proof -
  have "pkey sample_ask = ''a''" "oget sample_ask ''to'' = Some (JStr ''awaiting-human'')"
    by (simp_all add: sample_ask_def pkey_def)
  moreover have "nonblank (oget [(''id'', JStr ''a''), (''answer'', JStr ''this one'')] ''answer'')"
    by code_simp
  ultimately show ?thesis
    using answer_resumes_question[OF sample_reachable sample_moves(1) _ sample_moves(3),
        of "[(''id'', JStr ''a''), (''answer'', JStr ''this one'')]"] by (simp add: pkey_def)
qed

text \<open>
  A delivery whose plan evidence keeps changing is retried exactly three times: the answer is the
  first attempt that is not stale, among the first three, and the conflict error when none is; every
  other move runs once.
\<close>

theorem delivery_retries:
  "moveWork to attempt =
     (if to \<noteq> Some (JStr ''delivered'') then attempt 0
      else if \<forall>k < 3. attempt k = Inl Plan_evidence_stale then Inl (Conflict ''plan evidence kept changing'')
      else attempt (LEAST k. attempt k \<noteq> Inl Plan_evidence_stale))"
  unfolding moveWork_def plan_attempts_spec add_0 by (rule HOL.refl)

theorem delivery_retries_witness:
  "moveWork (Some (JStr ''delivered'')) (\<lambda>k. if k < 2 then Inl Plan_evidence_stale else Inr k) = Inr (2 :: nat)"
proof -
  have "(LEAST k :: nat. \<not> k < 2) = 2" by (rule Least_equality) auto
  then show ?thesis unfolding delivery_retries by (auto split: if_splits)
qed

text \<open>
  After a delivery the loop that closes the calls left open on the item ends with no call open, unless
  the return of the deepest one is refused: one round per open call is enough.
\<close>

theorem delivery_closes_calls:
  assumes "store_reachable ds v" "oget (v_work v) i = Some w"
    and "roleGraphFor (getDomain ds (oget w ''domain'')) \<noteq> None"
  shows "openCallStack (thread_of (after_delivery ds pt en i v) i) = []
     \<or> (\<exists>e. recordCallReturn (JObj (pt_writer pt)) (after_delivery ds pt en i v) i
             (Some (JStr ''auto-closed at delivered (tsk-2t9c D16)'')) = Inl e)"
  using close_calls_ends[OF _ reachable_sound[OF assms(1)] HOL.refl, where i = i and n = "length (openCallStack (thread_of v i))" and pt = pt and en = en and ds = ds]
    assms(2,3) by (auto simp: after_delivery_def)

theorem delivery_closes_calls_witness:
  "length (openCallStack (thread_of sample_called ''a'')) = 1
     \<and> (openCallStack (thread_of (after_delivery DOMAINS sample_ports (\<lambda>_. sample_place) ''a'' sample_called) ''a'') = []
        \<or> (\<exists>e. recordCallReturn (JObj (pt_writer sample_ports))
             (after_delivery DOMAINS sample_ports (\<lambda>_. sample_place) ''a'' sample_called) ''a''
             (Some (JStr ''auto-closed at delivered (tsk-2t9c D16)'')) = Inl e))"
proof
  show "length (openCallStack (thread_of sample_called ''a'')) = 1" by code_simp
  have "roleGraphFor (getDomain DOMAINS (oget (item_at sample_called ''a'') ''domain'')) \<noteq> None" by code_simp
  then show "openCallStack (thread_of (after_delivery DOMAINS sample_ports (\<lambda>_. sample_place) ''a'' sample_called) ''a'') = []
        \<or> (\<exists>e. recordCallReturn (JObj (pt_writer sample_ports))
             (after_delivery DOMAINS sample_ports (\<lambda>_. sample_place) ''a'' sample_called) ''a''
             (Some (JStr ''auto-closed at delivered (tsk-2t9c D16)'')) = Inl e)"
    by (rule delivery_closes_calls[OF sample_called_reachable sample_called_item])
qed

end
