(* ===== verification/Team_Properties.thy ===== *)
theory Team_Properties
  imports Sample_Log
begin

text \<open>
  Who holds an item: the runtime claims and their settlement, the effective view readers see, the calls
  between roles, and the ceiling of worker slots.
\<close>

section \<open>Claims\<close>

text \<open>
  C14: Mutual exclusion. While an item is claimed by one writer, no sequence of acquires and releases by
  ordinary actors (no force, no admin override) with other identities changes its claim: whatever they
  do, the record stays exactly as it is.
\<close>

theorem claim_is_exclusive:
  assumes "(\<lambda>cs cs'. \<exists>me. me \<noteq> owner \<and> claim_step me cs cs')\<^sup>*\<^sup>* cs cs'" "held_by cs i owner"
  shows "oget cs' i = oget cs i \<and> held_by cs' i owner"
  using assms(1)
proof (induction rule: rtranclp_induct)
  case (step y z)
  then have "oget z i = oget cs i" using step_keeps_other by fastforce
  then show ?case using assms(2) unfolding held_by_def by metis
qed (use assms(2) in simp)

definition sample_claims :: claims where
  "sample_claims = snd (projr (acquireClaimTx [] [(''id'', JStr ''a'')] ''c1'' ''w1'' (JStr ''t1'')))"

theorem claim_is_exclusive_witness:
  "oget (snd (projr (acquireClaimTx sample_claims [(''id'', JStr ''b'')] ''c2'' ''w2'' (JStr ''t2'')))) ''a'' = oget sample_claims ''a''"
proof -
  let ?r = "acquireClaimTx sample_claims [(''id'', JStr ''b'')] ''c2'' ''w2'' (JStr ''t2'')"
  have "?r = Inr (fst (projr ?r), snd (projr ?r))" by code_simp
  moreover have "\<not> truthy (oget [(''id'', JStr ''b'')] ''force'')" by simp
  ultimately have "claim_step ''w2'' sample_claims (snd (projr ?r))" by (rule claim_step.acquire[rotated])
  moreover have "held_by sample_claims ''a'' ''w1''"
    unfolding held_by_def by (rule exI[of _ "the (the (oget sample_claims ''a''))"]) code_simp
  moreover have "''w2'' \<noteq> ''w1''" by simp
  ultimately have "\<exists>me. me \<noteq> ''w1'' \<and> claim_step me sample_claims (snd (projr ?r))"
    and h: "held_by sample_claims ''a'' ''w1''" by metis+
  from claim_is_exclusive[OF r_into_rtranclp[of "\<lambda>cs cs'. \<exists>me. me \<noteq> ''w1'' \<and> claim_step me cs cs'", OF this(1)] h]
  show ?thesis by simp
qed

text \<open>
  An unforced acquire succeeds only when the item is unclaimed, records the caller as the writer of the
  new claim, touches no other claim, and makes every later unforced acquire of the item a conflict,
  whoever asks, until it is released.
\<close>

theorem acquire_takes_free_item:
  assumes "acquireClaimTx cs a cid me now = Inr (c, cs')" "\<not> truthy (oget a ''force'')"
    and "pkey b = pkey a" "nonempty_str (oget b ''id'')" "\<not> truthy (oget b ''force'')"
  shows "oget cs (pkey a) = None \<and> oget cs' (pkey a) = Some (Some c) \<and> oget c ''writerId'' = Some (JStr me)
     \<and> (\<forall>j. j \<noteq> pkey a \<longrightarrow> oget cs' j = oget cs j)
     \<and> acquireClaimTx cs' b cid2 other later = Inl (Claim_conflict ''claimed'')"
  using acquire_Inr[OF assms(1,2)] assms(3-5)
  by (auto simp: acquireClaimTx_def readClaim_def claim_record_def Let_def)

theorem acquire_takes_free_item_witness:
  "acquireClaimTx sample_claims [(''id'', JStr ''a'')] ''c2'' ''w2'' (JStr ''t2'') = Inl (Claim_conflict ''claimed'')"
proof -
  have a: "acquireClaimTx [] [(''id'', JStr ''a'')] ''c1'' ''w1'' (JStr ''t1'') =
      Inr (fst (projr (acquireClaimTx [] [(''id'', JStr ''a'')] ''c1'' ''w1'' (JStr ''t1''))), sample_claims)"
    by code_simp
  show ?thesis
    using acquire_takes_free_item[OF a, of "[(''id'', JStr ''a'')]"] by (simp add: nonempty_str_def)
qed





text \<open>
  In the view readers see, an item is doing exactly when it is claimed and its durable status is still
  the one it was claimed in (or durably doing); otherwise it shows its durable status, and no field but
  the eight a claim overlays differs from the durable item.
\<close>

theorem effective_status:
  assumes "currentEffectiveView v cs = Inr u" "oget (v_work v) i = Some w"
  shows "\<exists>x. oget (v_work u) i = Some x
     \<and> oget x ''status'' = (case oget cs i of Some (Some c) \<Rightarrow>
           if claim_stale c w then oget w ''status'' else Some (JStr ''doing'') | _ \<Rightarrow> oget w ''status'')
     \<and> (\<forall>k. k \<notin> {''status'', ''statusCategory'', ''claimRole'', ''activeClaim'', ''staleClaim'', ''headAtTake'',
            ''branchHeadAtTake'', ''claimTrigger''} \<longrightarrow> oget x k = oget w k)"
proof -
  obtain m where m: "readClaims cs = Inr m" "u = buildEffectiveView v m"
    using assms(1) by (auto simp: currentEffectiveView_def e_bind_Inr)
  have x: "oget (v_work u) i = Some (overlay (Option.bind (oget cs i) id) w)"
    using assms(2) by (simp add: m(2) effective_item readClaims_oget[OF m(1)])
  have "oget (overlay (Option.bind (oget cs i) id) w) ''status'' = (case oget cs i of Some (Some c) \<Rightarrow>
           if claim_stale c w then oget w ''status'' else Some (JStr ''doing'') | _ \<Rightarrow> oget w ''status'')"
    by (simp add: status_overlay split: option.split)
  with x show ?thesis by (intro exI[of _ "overlay (Option.bind (oget cs i) id) w"] conjI allI impI overlay_other) simp_all
qed

theorem effective_status_witness:
  "\<exists>x. oget (v_work (projr (currentEffectiveView sample_view sample_claims))) ''a'' = Some x
     \<and> oget x ''status'' = Some (JStr ''doing'') \<and> oget x ''title'' = Some (JStr ''a title'')"
proof -
  have v: "currentEffectiveView sample_view sample_claims = Inr (projr (currentEffectiveView sample_view sample_claims))"
    by code_simp
  have st: "(case oget sample_claims ''a'' of Some (Some c) \<Rightarrow>
      if claim_stale c (item_at sample_view ''a'') then oget (item_at sample_view ''a'') ''status'' else Some (JStr ''doing'')
      | _ \<Rightarrow> oget (item_at sample_view ''a'') ''status'') = Some (JStr ''doing'')" by code_simp
  have ti: "oget (item_at sample_view ''a'') ''title'' = Some (JStr ''a title'')" by code_simp
  obtain x where x: "oget (v_work (projr (currentEffectiveView sample_view sample_claims))) ''a'' = Some x"
    "oget x ''status'' = Some (JStr ''doing'')" "oget x ''title'' = oget (item_at sample_view ''a'') ''title''"
    using effective_status[OF v sample_items(1), unfolded st] by fastforce
  then show ?thesis by (simp only: ti) simp
qed

section \<open>Calls and worker slots\<close>

text \<open>
  A call a role may make opens exactly one call on the thread of the item, on top of the ones that
  are open, and the number of open calls never passes the cap the domain's role graph declares.
\<close>

theorem call_depth_capped:
  assumes "callEvent ds writer v i to reason note outcome sdepth = Inr (''work.handoff'', p)"
    and "e_type e = ''work.handoff''" "e_payload e = p"
    and "oget (v_work v) i = Some w"
    and "Option.bind (roleGraphFor (getDomain ds (oget w ''domain''))) rg_callstackCap = Some cap"
  shows "openCallStack (thread_of (apply_plain ds e v) i) = openCallStack (thread_of v i) @ [handoff_record e]
     \<and> int (length (openCallStack (thread_of (apply_plain ds e v) i))) \<le> cap"
  using call_depth[OF assms(1-3)] assms(4,5) by blast

theorem call_depth_capped_witness:
  "int (length (openCallStack (thread_of (apply_plain DOMAINS (event_at sample_place 0 sample_call) sample_view) ''a''))) \<le> 3"
proof -
  have c: "callEvent DOMAINS (JObj [(''id'', JStr ''w1'')]) sample_view ''a'' ''reviewer'' ''review'' None None 0 =
      Inr (''work.handoff'', snd sample_call)" by code_simp
  have "fst sample_call = ''work.handoff''" by code_simp
  then have ty: "e_type (event_at sample_place 0 sample_call) = ''work.handoff''" by simp
  have "Option.bind (roleGraphFor (getDomain DOMAINS (oget (item_at sample_view ''a'') ''domain''))) rg_callstackCap = Some 3"
    by code_simp
  from call_depth_capped[OF c ty _ sample_items(1) this] show ?thesis by (rule conjunct2) simp
qed

text \<open>
  A call and its return are a round trip: on the view an accepted call leaves, the return is accepted,
  closes that very call (the stack of open calls is what it was before) and gives the item back to the
  role that held it.
\<close>

theorem call_then_return:
  assumes "callEvent ds writer v i to reason note outcome sdepth = Inr (''work.handoff'', p)"
    and "e_type e = ''work.handoff''" "e_payload e = p"
    and "to \<noteq> ''human-advisor''" "oget (v_work v) i = Some w" "holder_role ds w = Some h" "h \<noteq> ''human-advisor''"
  shows "\<exists>q. recordCallReturn writer (apply_plain ds e v) i note' = Inr (''work.handoff'', q)
     \<and> (\<forall>r. e_type r = ''work.handoff'' \<longrightarrow> e_payload r = q \<longrightarrow>
          openCallStack (thread_of (apply_plain ds r (apply_plain ds e v)) i) = openCallStack (thread_of v i)
          \<and> Option.bind (oget (v_work (apply_plain ds r (apply_plain ds e v))) i) (\<lambda>x. oget x ''holder'') = Some (JStr h))"
  using call_return[OF assms HOL.refl] by blast

theorem call_then_return_witness:
  "\<exists>q. recordCallReturn (JObj [(''id'', JStr ''w1'')]) (apply_plain DOMAINS (event_at sample_place 0 sample_call) sample_view) ''a'' None
       = Inr (''work.handoff'', q)"
proof -
  have c: "callEvent DOMAINS (JObj [(''id'', JStr ''w1'')]) sample_view ''a'' ''reviewer'' ''review'' None None 0 =
      Inr (''work.handoff'', snd sample_call)" by code_simp
  have "fst sample_call = ''work.handoff''" "holder_role DOMAINS (item_at sample_view ''a'') = Some ''implementer''"
    by code_simp+
  then have "e_type (event_at sample_place 0 sample_call) = ''work.handoff''"
    "holder_role DOMAINS (item_at sample_view ''a'') = Some ''implementer''" by simp_all
  from call_then_return[OF c this(1) _ _ sample_items(1) this(2)] show ?thesis by auto
qed

text \<open>
  The worker ceiling is never passed: what the slot ledger grants, added to the items already doing
  (the excluded one apart), stays within a ceiling that is armed, is at most what was asked for, and is
  positive exactly when the answer is yes.
\<close>

theorem slots_within_ceiling:
  assumes "0 < c"
  shows "sa_granted (hasWorkerSlotRoom work (Some (JNum c)) batch ex) \<ge> 0
     \<and> (sa_allowed (hasWorkerSlotRoom work (Some (JNum c)) batch ex) \<longleftrightarrow>
          0 < sa_granted (hasWorkerSlotRoom work (Some (JNum c)) batch ex))
     \<and> (sa_allowed (hasWorkerSlotRoom work (Some (JNum c)) batch ex) \<longleftrightarrow>
          int (length (countWorkerSlots work ex)) < c)
     \<and> (sa_allowed (hasWorkerSlotRoom work (Some (JNum c)) batch ex) \<longrightarrow>
          int (length (countWorkerSlots work ex)) + sa_granted (hasWorkerSlotRoom work (Some (JNum c)) batch ex) \<le> c)
     \<and> sa_granted (hasWorkerSlotRoom work (Some (JNum c)) batch ex) \<le> (case batch of Some (JNum n) \<Rightarrow> max 1 n | _ \<Rightarrow> 1)"
proof -
  define occ where "occ = int (length (countWorkerSlots work ex))"
  define size :: int where "size = (case batch of Some (JNum n) \<Rightarrow> if n > 0 then n else 1 | _ \<Rightarrow> 1)"
  have s: "0 < size" "size \<le> (case batch of Some (JNum n) \<Rightarrow> max 1 n | _ \<Rightarrow> 1)"
    by (auto simp: size_def split: option.split jval.split)
  have "hasWorkerSlotRoom work (Some (JNum c)) batch ex =
    (if c \<le> occ then \<lparr>sa_allowed = False, sa_occupied = length (countWorkerSlots work ex), sa_ceiling = Some c,
        sa_free = Some 0, sa_granted = 0, sa_reason = ''ceiling-reached''\<rparr>
     else \<lparr>sa_allowed = True, sa_occupied = length (countWorkerSlots work ex), sa_ceiling = Some c,
        sa_free = Some (c - occ), sa_granted = min size (c - occ), sa_reason = ''room-available''\<rparr>)"
    using assms by (auto simp: hasWorkerSlotRoom_def Let_def occ_def size_def max_def)
  with s show ?thesis unfolding occ_def[symmetric] by (auto simp: min_def split: if_splits)
qed

theorem slots_within_ceiling_witness:
  "sa_granted (hasWorkerSlotRoom [(''a'', [(''status'', JStr ''doing'')])] (Some (JNum 2)) (Some (JNum 5)) None) = 1"
proof -
  let ?r = "hasWorkerSlotRoom [(''a'', [(''status'', JStr ''doing'')])] (Some (JNum 2)) (Some (JNum 5)) None"
  have "sa_allowed ?r" "length (countWorkerSlots [(''a'', [(''status'', JStr ''doing'')])] None) = 1" by code_simp+
  with slots_within_ceiling[of 2 "[(''a'', [(''status'', JStr ''doing'')])]" "Some (JNum 5)" None]
  have "0 < sa_granted ?r" "1 + sa_granted ?r \<le> 2" by simp_all
  then show ?thesis by linarith
qed

end
