(* ===== verification/Log_Properties.thy ===== *)
theory Log_Properties
  imports Sample_Log
begin

text \<open>
  What the folds guarantee of every log: the knowledge registry's invariants, and those of the replay
  (incremental folds, conflicted events, capacity, consent, provenance of items).
\<close>

section \<open>The knowledge registry\<close>


definition sample_topic :: kevent where
  "sample_topic = \<lparr>ke_type = ''topic.register'', ke_payload = [(''topicId'', JStr ''t''), (''purposeSlug'', JStr ''use'')],
     ke_ts = JNum 1\<rparr>"

definition sample_doc :: "string \<Rightarrow> string \<Rightarrow> string \<Rightarrow> string \<Rightarrow> kevent" where
  "sample_doc ty i r path = \<lparr>ke_type = ty, ke_payload = [(''docId'', JStr i), (''topicId'', JStr ''t''), (''role'', JStr r),
     (''currentPath'', JStr path)], ke_ts = JNum 2\<rparr>"

definition sample_docs :: "kevent list" where
  "sample_docs = [sample_topic, sample_doc ''doc.reserve'' ''d1'' ''guide'' ''docs/a.md'',
     sample_doc ''doc.mark-rendered'' ''d1'' ''guide'' ''docs/a.md'', sample_doc ''doc.promote'' ''d1'' ''guide'' ''docs/a.md'',
     sample_doc ''doc.register'' ''d2'' ''notes'' ''docs/b.md'']"

definition sample_registry :: kstate where
  "sample_registry = projr (foldKnowledgeEvents empty_registry sample_docs)"

lemma sample_registry: "foldKnowledgeEvents empty_registry sample_docs = Inr sample_registry"
  "\<forall>e \<in> set sample_docs. pstr (ke_payload e) ''docId'' \<noteq> Some []"
  by code_simp+


text \<open>
  At most one document is active in a slot, in every registry a log folds to.
\<close>

theorem one_active_doc:
  assumes "foldKnowledgeEvents empty_registry es = Inr k" "\<forall>e \<in> set es. pstr (ke_payload e) ''docId'' \<noteq> Some []"
  shows "length (getActiveDocs k t r) \<le> 1"
proof -
  have ok: "registry_ok k" using fold_ok[OF assms(1) registry_ok_empty] assms(2) by (simp add: named_ok_def)
  have one: "length (filter (\<lambda>(i, d). kd_topic d = t \<and> kd_role d = r \<and> kd_life d = ''active'') (k_docs k)) \<le> 1"
  proof (rule at_most_one_pair)
    show "distinct (okeys (k_docs k))" using ok by (simp add: registry_ok_def)
    fix i j d e
    assume d: "oget (k_docs k) i = Some d" "oget (k_docs k) j = Some e"
      and P: "kd_topic d = t \<and> kd_role d = r \<and> kd_life d = ''active''" "kd_topic e = t \<and> kd_role e = r \<and> kd_life e = ''active''"
    show "i = j"
    proof (rule ccontr)
      assume "i \<noteq> j"
      with ok d have "apart d e" unfolding registry_ok_def by blast
      with P show False by (simp add: apart_def live_def isLiveDocLifecycle_def)
    qed
  qed
  have "getActiveDocs k t r = map snd (filter (\<lambda>(i, d). kd_topic d = t \<and> kd_role d = r \<and> kd_life d = ''active'') (k_docs k))"
    by (simp add: getActiveDocs_def docs_of_def filter_map comp_def case_prod_unfold)
  with one show ?thesis by simp
qed

theorem one_active_doc_witness: "map kd_id (getActiveDocs sample_registry ''t'' ''guide'') = [''d1'']
     \<and> length (getActiveDocs sample_registry ''t'' ''guide'') \<le> 1"
proof
  show "map kd_id (getActiveDocs sample_registry ''t'' ''guide'') = [''d1'']" by code_simp
  show "length (getActiveDocs sample_registry ''t'' ''guide'') \<le> 1" by (rule one_active_doc[OF sample_registry])
qed

text \<open>
  A registry only grows: no event removes a topic or a document, a document keeps its id and its role,
  and one that is retired or superseded never becomes live again.
\<close>

theorem dead_docs_stay_dead:
  assumes "foldKnowledgeEvents k es = Inr k'" "registry_ok k" "\<forall>e \<in> set es. pstr (ke_payload e) ''docId'' \<noteq> Some []"
    and "oget (k_docs k) i = Some d"
  shows "\<exists>d'. oget (k_docs k') i = Some d' \<and> kd_id d' = kd_id d \<and> kd_role d' = kd_role d
     \<and> (\<not> isLiveDocLifecycle (kd_life d) \<longrightarrow> \<not> isLiveDocLifecycle (kd_life d'))"
  using fold_evolves[OF assms(1,2) _ assms(4)] assms(3) by (simp add: named_ok_def)

theorem dead_docs_stay_dead_witness:
  "\<exists>d'. oget (k_docs (projr (foldKnowledgeEvents sample_registry [sample_doc ''doc.retire'' ''d1'' ''guide'' [],
       sample_doc ''doc.supersede'' ''d1'' ''guide'' []]))) ''d1'' = Some d' \<and> kd_role d' = ''guide''"
proof -
  let ?es = "[sample_doc ''doc.retire'' ''d1'' ''guide'' [], sample_doc ''doc.supersede'' ''d1'' ''guide'' []]"
  have f: "foldKnowledgeEvents sample_registry ?es = Inr (projr (foldKnowledgeEvents sample_registry ?es))"
    "\<forall>e \<in> set ?es. pstr (ke_payload e) ''docId'' \<noteq> Some []" by code_simp+
  have ok: "registry_ok sample_registry"
    using fold_ok[OF sample_registry(1) registry_ok_empty] sample_registry(2) by (simp add: named_ok_def)
  have d: "oget (k_docs sample_registry) ''d1'' = Some (the (oget (k_docs sample_registry) ''d1''))"
    "kd_role (the (oget (k_docs sample_registry) ''d1'')) = ''guide''" by code_simp+
  from dead_docs_stay_dead[OF f(1) ok f(2) d(1)] d(2) show ?thesis by auto
qed

section \<open>Replay\<close>

text \<open>
  Folding a log in two parts, the second onto the view the first left (a cached view and the events
  appended since), gives what folding it at once gives, errors included.
\<close>

theorem incremental_fold:
  "foldEvents ds v (xs @ ys) = e_bind (foldEvents ds v xs) (\<lambda>u. foldEvents ds u ys)"
  by (rule foldEvents_append)

text \<open>
  C11: An event that lost its race leaves no trace but the record of its conflict: folding again only the
  events that took effect gives the same view, item for item and channel for channel (the stream heads
  and the conflict records apart). Event identities are distinct.
\<close>

theorem conflicted_events_leave_no_trace:
  assumes "foldEvents ds empty_view es = Inr v" "distinct (hs_of es)"
  shows "\<exists>u. foldEvents ds empty_view (appliedEvents es v) = Inr u
     \<and> u\<lparr>v_streamHeads := None, v_conflicts := None\<rparr> = v\<lparr>v_streamHeads := None, v_conflicts := None\<rparr>"
  using refold_applied[OF assms(1) HOL.refl assms(2)]
  by (simp add: core_def conflict_hs_def empty_view_def)

text \<open>Two writers that each add the item \<open>a\<close>, neither having seen the other.\<close>

definition racing :: "string \<Rightarrow> string \<Rightarrow> event" where
  "racing origin h = \<lparr>e_type = ''work.add'', e_payload = oset ''precondition'' (JObj [(''exists'', JBool False)])
       (sample_item ''a'' ''todo'' []), e_ts = JStr ''t1'', e_v = Some (JNum 4), e_origin = Some origin,
     e_stream = Some ''project'', e_seq = Some 1, e_seen = [], e_h = Some h\<rparr>"

definition race :: "event list" where
  "race = [racing ''o1'' ''h1'', racing ''o2'' ''h2'']"

theorem conflicted_events_leave_no_trace_witness:
  "map e_h (appliedEvents race (projr (foldEvents DOMAINS empty_view race))) = [Some ''h1'']
     \<and> (\<exists>u. foldEvents DOMAINS empty_view (appliedEvents race (projr (foldEvents DOMAINS empty_view race))) = Inr u)"
proof
  show "map e_h (appliedEvents race (projr (foldEvents DOMAINS empty_view race))) = [Some ''h1'']" by code_simp
  have f: "foldEvents DOMAINS empty_view race = Inr (projr (foldEvents DOMAINS empty_view race))"
    "distinct (hs_of race)" by code_simp+
  show "\<exists>u. foldEvents DOMAINS empty_view (appliedEvents race (projr (foldEvents DOMAINS empty_view race))) = Inr u"
    using conflicted_events_leave_no_trace[OF f] by blast
qed

text \<open>
  C17: A capacity is never exceeded, whatever the interleaving: when every event that can put an item into a
  status asks for room there, and the status held at most that many items, it never holds more.
\<close>

theorem capacity_bounds_status:
  assumes "foldEvents ds v es = Inr v'" "length (in_status (Some (JStr s)) v) \<le> m"
    and "\<forall>e \<in> set es. enters_status ds e s \<longrightarrow> asks_room e s m"
  shows "length (in_status (Some (JStr s)) v') \<le> m"
proof -
  have "counted s v' \<le> m"
  proof (rule foldEvents_induct[where P = "\<lambda>u. counted s u \<le> m", OF assms(1)])
    show "counted s v \<le> m" using assms(2) by (simp add: counted_def)
    show "counted s u' \<le> m" if "e \<in> set es" "counted s u \<le> m" "foldEvent ds u e = Inr u'" for u e u'
      using capacity_event[OF that(3,2)] assms(3) that(1) by blast
  qed
  then show ?thesis by (simp add: counted_def)
qed

definition asking :: "string \<Rightarrow> string \<Rightarrow> event" where
  "asking i h = \<lparr>e_type = ''work.move'', e_payload = [(''id'', JStr i), (''from'', JStr ''todo''), (''to'', JStr ''doing''),
       (''precondition'', JObj [(''capacity'', JObj [(''status'', JStr ''doing''), (''max'', JNum 1)])])],
     e_ts = JStr ''t2'', e_v = Some (JNum 4), e_origin = Some h, e_stream = Some ''project'', e_seq = Some 1,
     e_seen = [], e_h = Some h\<rparr>"

definition two_items :: view where
  "two_items = empty_view\<lparr>v_work := [(''a'', sample_item ''a'' ''todo'' []), (''b'', sample_item ''b'' ''todo'' [])]\<rparr>"

theorem capacity_bounds_status_witness:
  "length (in_status (Some (JStr ''doing'')) (projr (foldEvents DOMAINS two_items [asking ''a'' ''h1'', asking ''b'' ''h2'']))) \<le> 1"
proof (rule capacity_bounds_status)
  show "foldEvents DOMAINS two_items [asking ''a'' ''h1'', asking ''b'' ''h2''] =
      Inr (projr (foldEvents DOMAINS two_items [asking ''a'' ''h1'', asking ''b'' ''h2'']))" by code_simp
  show "length (in_status (Some (JStr ''doing'')) two_items) \<le> 1" by code_simp
  show "\<forall>e \<in> set [asking ''a'' ''h1'', asking ''b'' ''h2'']. enters_status DOMAINS e ''doing'' \<longrightarrow> asks_room e ''doing'' 1"
    by (simp add: asking_def asks_room_def guarded_event_def condition_of_def truthy_str_def)
qed

text \<open>
  C18: Consent is never carried over: if the view of a log shows an item as approved, then some event in it
  answered the item's question with an explicit approval, and no question or answer of the item that
  took effect came after it.
\<close>

theorem consent_is_fresh:
  assumes "foldEvents ds empty_view es = Inr v" "\<forall>e \<in> set es. gate_named e"
    and "oget (lazyd (oget (lazyd (v_gates v)) i)) ''approved'' \<noteq> None"
  shows "\<exists>xs e ys. es = xs @ e # ys \<and> approves e i \<and> (\<forall>f \<in> set (appliedEvents ys v). \<not> asks_or_answers f i)"
  by (rule consent_fold[OF assms(1) _ assms(2)]) (use assms(3) in \<open>simp_all add: approved_flag_def empty_view_def\<close>)

definition answered :: event where
  "answered = \<lparr>e_type = ''work.move'', e_payload = [(''id'', JStr ''a''), (''from'', JStr ''awaiting-human''),
       (''to'', JStr ''todo''), (''answer'', JStr ''go on''), (''approved'', JBool True)],
     e_ts = JStr ''t2'', e_v = None, e_origin = None, e_stream = None, e_seq = None, e_seen = [], e_h = None\<rparr>"

theorem consent_is_fresh_witness:
  "\<exists>xs e ys. [racing ''o1'' ''h1'', answered] = xs @ e # ys \<and> approves e ''a''"
proof -
  have "foldEvents DOMAINS empty_view [racing ''o1'' ''h1'', answered] =
      Inr (projr (foldEvents DOMAINS empty_view [racing ''o1'' ''h1'', answered]))"
    "\<forall>e \<in> set [racing ''o1'' ''h1'', answered]. gate_named e"
    "oget (lazyd (oget (lazyd (v_gates (projr (foldEvents DOMAINS empty_view [racing ''o1'' ''h1'', answered])))) ''a''))
       ''approved'' \<noteq> None" by code_simp+
  from consent_is_fresh[OF this] show ?thesis by blast
qed

text \<open>
  Items come only from work.add: an id that a log added to the items of a view was named by a work.add
  event of that log, and no event ever removes an item.
\<close>

theorem items_come_from_add:
  assumes "foldEvents ds v es = Inr v'"
  shows "set (okeys (v_work v)) \<subseteq> set (okeys (v_work v'))
     \<and> (\<forall>i \<in> set (okeys (v_work v')) - set (okeys (v_work v)).
          \<exists>e \<in> set es. e_type e = ''work.add'' \<and> oget (e_payload e) ''id'' = Some (JStr i))"
  using fold_new_keys[OF assms] by blast

theorem items_come_from_add_witness:
  "\<exists>e \<in> set race. e_type e = ''work.add'' \<and> oget (e_payload e) ''id'' = Some (JStr ''a'')"
proof -
  have f: "foldEvents DOMAINS empty_view race = Inr (projr (foldEvents DOMAINS empty_view race))"
    "''a'' \<in> set (okeys (v_work (projr (foldEvents DOMAINS empty_view race)))) - set (okeys (v_work empty_view))" by code_simp+
  from items_come_from_add[OF f(1)] f(2) show ?thesis by blast
qed

end
