(* ===== verification/Lifecycle_Properties.thy ===== *)
theory Lifecycle_Properties
  imports Sample_Log
begin

text \<open>
  The life of one item: what a transition accepts and how statuses follow each other, the steps of the
  coding workflow, and the schema every stored item passes.
\<close>

section \<open>Transitions\<close>

text \<open>
  A transition of an item is accepted exactly when the item has an id and a status, the caller's expected
  status (when given) is that status, the pair is an edge of the table, and what the edge asks for is there:
  a reason where one is required, a complete question on the way into awaiting-human, an answer on the way
  out; the event then records the item, both statuses and the trimmed texts.
\<close>

theorem transition_accepted_iff:
  "transitionWork missing (Some (JObj w)) a = Inr ev \<longleftrightarrow>
     (\<exists>from to. nonempty_str (oget w ''id'') \<and> oget w ''status'' = Some (JStr from) \<and> fa_to a = Some (JStr to)
        \<and> fa_expected a \<in> {None, Some (JStr from)} \<and> (from, to) \<in> set TRANSITIONS
        \<and> (reasonRequired from to \<longrightarrow> nonblank (fa_reason a))
        \<and> (to = ''awaiting-human'' \<longrightarrow> nonblank (fa_ask a)
             \<and> missing (the (as_str (fa_ask a))) (requiredPartsForStage (oget w ''workflowStep'')) = [])
        \<and> (from = ''awaiting-human'' \<longrightarrow> nonblank (fa_answer a))
        \<and> ev = (''work.move'', move_payload w a from to))"
  unfolding transitionWork_Inr move_accepted_def by auto

theorem transition_accepted_iff_witness:
  "\<exists>p. transitionWork (\<lambda>_ _. []) (Some (JObj (sample_item ''a'' ''awaiting-approval'' [])))
     \<lparr>fa_to = Some (JStr ''todo''), fa_expected = None, fa_reason = Some (JStr ''redo''), fa_ask = None, fa_answer = None\<rparr>
       = Inr (''work.move'', p)"
  by (intro exI, subst transition_accepted_iff, intro exI[of _ "''awaiting-approval''"] exI[of _ "''todo''"])
    (auto simp: sample_item_def nonempty_str_def TRANSITIONS_def trim_def is_ws_def)

text \<open>
  The one way to done is through delivery: a history of statuses that starts elsewhere than in the last
  four and ends in done ends in delivered, retrospective, cleanup, done.
\<close>

theorem done_through_delivery:
  assumes "status_path ss" "ss \<noteq> []" "last ss = ''done''"
    and "hd ss \<notin> {''delivered'', ''retrospective'', ''cleanup'', ''done''}"
  shows "\<exists>pre. pre \<noteq> [] \<and> ss = pre @ [''delivered'', ''retrospective'', ''cleanup'', ''done'']"
proof -
  obtain p1 where p1: "ss = p1 @ [''cleanup'', ''done'']" "status_path (p1 @ [''cleanup''])"
    using chain_back[OF assms(1,2,3), of "''cleanup''"] assms(4) into_done by auto
  have "hd (p1 @ [''cleanup'']) = hd ss" by (simp add: p1(1) hd_append)
  then obtain p2 where p2: "p1 @ [''cleanup''] = p2 @ [''retrospective'', ''cleanup'']" "status_path (p2 @ [''retrospective''])"
    using chain_back[OF p1(2), of "''cleanup''" "''retrospective''"] assms(4) into_cleanup by auto
  have "hd (p2 @ [''retrospective'']) = hd ss" using p2(1) p1(1) by (cases p2) auto
  then obtain p3 where p3: "p2 @ [''retrospective''] = p3 @ [''delivered'', ''retrospective'']"
    using chain_back[OF p2(2), of "''retrospective''" "''delivered''"] assms(4) into_retrospective by auto
  have ss: "ss = p3 @ [''delivered'', ''retrospective'', ''cleanup'', ''done'']" using p1(1) p2(1) p3 by simp
  moreover have "p3 \<noteq> []" using ss assms(4) by auto
  ultimately show ?thesis by blast
qed

theorem done_through_delivery_witness:
  "\<exists>pre. pre \<noteq> [] \<and> [''todo'', ''awaiting-approval'', ''delivered'', ''retrospective'', ''cleanup'', ''done''] =
     pre @ [''delivered'', ''retrospective'', ''cleanup'', ''done'']"
  by (rule done_through_delivery) (simp_all add: TRANSITIONS_def)

text \<open>
  No transition makes an item doing or sends it back to the backlog: a durable doing is only ever where a
  log began, the claim being what shows an item as doing.
\<close>

theorem doing_is_never_entered:
  assumes "status_step\<^sup>*\<^sup>* s t" "t \<in> {''doing'', ''backlog''}"
  shows "s = t"
  using reach_not_into[OF assms(1)] into_doing into_backlog assms(2) by blast

theorem doing_is_never_entered_witness: "status_step\<^sup>*\<^sup>* ''doing'' ''doing'' \<and> \<not> status_step\<^sup>*\<^sup>* ''todo'' ''doing''"
  using doing_is_never_entered[of "''todo''" "''doing''"] by auto

text \<open>
  No status is a dead end but the two terminal ones: from every other status of the vocabulary a
  sequence of transitions leads to done.
\<close>

theorem every_item_can_finish:
  assumes "s \<in> set STATUSES - {''done'', ''wontfix''}"
  shows "status_step\<^sup>*\<^sup>* s ''done''"
proof -
  have e: "status_step\<^sup>*\<^sup>* f t" if "(f, t) \<in> set TRANSITIONS" for f t
    using that by (blast intro: status_step.edge)
  have "status_step\<^sup>*\<^sup>* ''delivered'' ''retrospective''" "status_step\<^sup>*\<^sup>* ''retrospective'' ''cleanup''"
    "status_step\<^sup>*\<^sup>* ''cleanup'' ''done''" by (rule e, simp add: TRANSITIONS_def)+
  then have cl: "status_step\<^sup>*\<^sup>* ''retrospective'' ''done''" and d: "status_step\<^sup>*\<^sup>* ''delivered'' ''done''"
    and c: "status_step\<^sup>*\<^sup>* ''cleanup'' ''done''" by (blast intro: rtranclp_trans)+
  have ap: "status_step\<^sup>*\<^sup>* ''awaiting-approval'' ''done''" "status_step\<^sup>*\<^sup>* ''blocked'' ''done''" "status_step\<^sup>*\<^sup>* ''doing'' ''done''"
    by (rule rtranclp_trans[OF e d], simp add: TRANSITIONS_def)+
  have td: "status_step\<^sup>*\<^sup>* ''todo'' ''done''" by (rule rtranclp_trans[OF e ap(1)]) (simp add: TRANSITIONS_def)
  have "status_step\<^sup>*\<^sup>* ''backlog'' ''done''" "status_step\<^sup>*\<^sup>* ''awaiting-human'' ''done''"
    by (rule rtranclp_trans[OF e td], simp add: TRANSITIONS_def)+
  with cl d c ap td show ?thesis using assms by (auto simp: STATUSES_def)
qed

theorem every_item_can_finish_witness: "status_step\<^sup>*\<^sup>* ''awaiting-human'' ''done''"
  by (rule every_item_can_finish) (simp add: STATUSES_def)

text \<open>
  The Workflow steps of a coding item only advance: an accepted step move leads to a step of higher
  rank (discovery, exploring, planning, executing), so an item makes at most three of them.
\<close>

theorem coding_steps_advance:
  assumes "transitionStep DOMAINS (Some (JObj w)) to expected verify = Inr (ty, p)"
    and "oget w ''domain'' \<in> {None, Some (JStr ''coding'')}"
  shows "\<exists>f t. oget p ''from'' = Some (JStr f) \<and> oget p ''to'' = Some (JStr t) \<and> to = Some (JStr t)
     \<and> coding_rank f < coding_rank t \<and> coding_rank t \<le> 3"
proof -
  have d: "getDomain DOMAINS (oget w ''domain'') = Some coding_domain"
    using assms(2) by (elim insertE emptyE) (simp_all add: getDomain_def resolveDomainName_def DEFAULT_DOMAIN_def DOMAINS_def)
  let ?from = "effectiveStep w (Some coding_domain)"
  have legal: "isLegalStepMove (Some coding_domain) (oget w ''kind'') ?from to"
    and p: "p = oset_opt ''verify'' verify [(''id'', the (oget w ''id'')), (''from'', the ?from), (''to'', the to)]"
    using assms(1) unfolding transitionStep_Inr d by simp_all
  have "resolveWorkflow (Some coding_domain) (oget w ''kind'') = Some coding_workflow"
    by (simp add: resolveWorkflow_def coding_domain_def Let_def)
  with legal obtain f t where "(f, t) \<in> set (wf_transitions coding_workflow)" "?from = Some (JStr f)" "to = Some (JStr t)"
    by (auto simp: isLegalStepMove_def wfIsLegalStepMove_def)
  moreover from this have "coding_rank f < coding_rank t \<and> coding_rank t \<le> 3"
    by (auto simp: coding_workflow_def coding_rank_def)
  ultimately show ?thesis by (simp add: p)
qed

theorem coding_steps_advance_witness:
  "\<exists>f t. oget (snd (projr (transitionStep DOMAINS (Some (JObj (oset ''workflowStep'' (JStr ''discovery'') (sample_item ''a'' ''todo'' []))))
       (Some (JStr ''planning'')) None None))) ''from'' = Some (JStr f) \<and> coding_rank f < coding_rank t \<and> coding_rank t \<le> 3"
proof -
  let ?w = "oset ''workflowStep'' (JStr ''discovery'') (sample_item ''a'' ''todo'' [])"
  let ?r = "transitionStep DOMAINS (Some (JObj ?w)) (Some (JStr ''planning'')) None None"
  have "?r = Inr (fst (projr ?r), snd (projr ?r))" "oget ?w ''domain'' \<in> {None, Some (JStr ''coding'')}" by code_simp+
  from coding_steps_advance[OF this] show ?thesis by blast
qed

section \<open>The schema\<close>

text \<open>
  An item the validator admits is well formed: a kebab-case id of at most 30 characters, a status of the
  vocabulary, dependencies that are known ids other than its own, a parent that is not itself, and a
  Workflow step its domain's Workflow has.
\<close>

theorem valid_item_well_formed:
  assumes "validateWork ds (Some (JObj w)) (Some known) None = None"
  shows "(\<exists>i. oget w ''id'' = Some (JStr i) \<and> ID_PATTERN i \<and> length i \<le> 30)
     \<and> (\<exists>s \<in> set STATUSES. oget w ''status'' = Some (JStr s))
     \<and> (\<exists>xs. oget w ''deps'' = Some (JArr xs) \<and> (\<forall>x \<in> set xs. \<exists>d. x = JStr d \<and> d \<in> set known \<and> oget w ''id'' \<noteq> Some x))
     \<and> (truthy (oget w ''parent'') \<longrightarrow> (\<exists>p. oget w ''parent'' = Some (JStr p) \<and> oget w ''id'' \<noteq> Some (JStr p)))
     \<and> (oget w ''workflowStep'' \<noteq> None \<longrightarrow>
          (\<exists>s \<in> set (domainSteps (item_domain ds w) (oget w ''kind'')). oget w ''workflowStep'' = Some (JStr s)))"
proof -
  have shape: "shape_errors ds w None = None" and deps: "validateDeps w known = None"
    using assms by (auto simp: validateWork_def validateWorkShape_def check_simps)
  obtain xs where xs: "oget w ''deps'' = Some (JArr xs)" "\<forall>x \<in> set xs. \<exists>s. x = JStr s \<and> s \<noteq> []"
    "\<forall>i. oget w ''id'' = Some i \<longrightarrow> i \<notin> set xs"
    using valid_deps[OF shape] by blast
  have "\<forall>x \<in> set xs. \<exists>d. x = JStr d \<and> d \<in> set known \<and> oget w ''id'' \<noteq> Some x"
    using deps xs by (fastforce simp: validateDeps_def known_targets_def check_simps)
  with xs(1) valid_id[OF shape] valid_status[OF shape] valid_parent[OF shape] valid_workflowStep[OF shape]
  show ?thesis by (auto simp: MAX_ID_LENGTH_def)
qed

theorem valid_item_well_formed_witness:
  "\<exists>i. oget (sample_item ''a'' ''todo'' [''b'']) ''id'' = Some (JStr i) \<and> ID_PATTERN i \<and> length i \<le> 30"
proof -
  have "validateWork DOMAINS (Some (JObj (sample_item ''a'' ''todo'' [''b'']))) (Some [''b'']) None = None" by code_simp
  from valid_item_well_formed[OF this] show ?thesis by blast
qed

text \<open>
  Checking only the fields an edit touches is enough: if the stored item passes the whole schema and the
  edited one passes the checks of the touched fields, the edited one passes the whole schema, provided the
  patch does not rewrite the id, the domain or the step, and rewrites the kind only of an item that records
  no step.
\<close>

theorem partial_check_is_enough:
  assumes "shape_errors ds w None = None" "shape_errors ds (omerge w p) (Some (okeys p)) = None"
    and "set (okeys p) \<inter> {''id'', ''domain'', ''workflowStep''} = {}"
    and "''kind'' \<in> set (okeys p) \<longrightarrow> oget w ''workflowStep'' = None"
  shows "shape_errors ds (omerge w p) None = None"
  using assms by (rule edit_keeps_shape)

theorem partial_check_is_enough_witness:
  "shape_errors DOMAINS (omerge (sample_item ''a'' ''todo'' []) [(''urgent'', JStr ''high''), (''kind'', JStr ''bug'')]) None = None"
  by (rule partial_check_is_enough) code_simp+

text \<open>
  A truncated title has at most 100 characters, truncating twice changes nothing more, and a title that
  fits is left as it is.
\<close>

theorem truncated_title:
  "length (truncate_text t) \<le> 100 \<and> truncateTitle (truncateTitle v) = truncateTitle v
     \<and> (length t \<le> 100 \<longrightarrow> truncateTitle (Some (JStr t)) = Some (JStr t))"
  using truncate_text_bound[of t] truncateTitle_idem_aux[of v] truncate_text_short[of t]
  by (simp add: MAX_TITLE_LENGTH_def)

theorem truncated_title_witness:
  "truncateTitle (Some (JStr ''short'')) = Some (JStr ''short'') \<and> length (truncate_text (replicate 120 CHR ''x'')) = 100"
proof
  show "truncateTitle (Some (JStr ''short'')) = Some (JStr ''short'')" using truncated_title[of "''short''"] by simp
  show "length (truncate_text (replicate 120 CHR ''x'')) = 100" by code_simp
qed

end
