(* ===== verification/Graph_Properties.thy ===== *)
theory Graph_Properties
  imports Sample_Log
begin

text \<open>
  What the graph of items promises: the cycle guards, the frontier and its order, the roots and their
  owners, the wave schedule, the components, and the merge buckets.
\<close>

section \<open>Cycles\<close>

text \<open>
  The cycle finder decides: it finds nothing exactly when the graph of what blocks what has no cycle,
  and what it finds is a cycle of that graph, listed from an item back to itself.
\<close>

theorem cycle_finder_decides:
  "(findUnifiedCycle W = None \<longleftrightarrow> acyclic (unified_edges W))
     \<and> (\<forall>c. findUnifiedCycle W = Some c \<longrightarrow> is_cycle (unified_edges W) c)"
  using findUnifiedCycle_None first_cycle_sound[of "buildUnifiedAdjacency W"]
  by (auto simp: findUnifiedCycle_def edges_buildUnifiedAdjacency)

definition looping_items :: works where
  "looping_items = [(''a'', sample_item ''a'' ''todo'' [''b'']), (''b'', sample_item ''b'' ''todo'' [''a''])]"

theorem cycle_finder_decides_witness:
  "findUnifiedCycle looping_items = Some [''a'', ''b'', ''a''] \<and> is_cycle (unified_edges looping_items) [''a'', ''b'', ''a'']"
proof -
  have "findUnifiedCycle looping_items = Some [''a'', ''b'', ''a'']" by code_simp
  with cycle_finder_decides[of looping_items] show ?thesis by blast
qed

text \<open>
  C4: The guard of a write is exact: on a store whose graph has no cycle, it lets an item through exactly
  when the graph with the item written has none, for additions, edits and replacements alike.
\<close>

theorem write_guard_is_exact:
  assumes "acyclic (unified_edges W)"
  shows "assertNoUnifiedCycle i w W = None \<longleftrightarrow> acyclic (unified_edges (oset i w W))"
proof
  assume "assertNoUnifiedCycle i w W = None"
  with assms show "acyclic (unified_edges (oset i w W))" by (intro unified_door.admitted_acyclic) simp_all
next
  assume "acyclic (unified_edges (oset i w W))"
  then show "assertNoUnifiedCycle i w W = None" using unified_door.refused_cycle by blast
qed

theorem write_guard_is_exact_witness:
  "acyclic (unified_edges (oset ''b'' (sample_item ''b'' ''todo'' []) [(''a'', sample_item ''a'' ''todo'' [''b''])]))"
proof -
  have "findUnifiedCycle [(''a'', sample_item ''a'' ''todo'' [''b''])] = None" by code_simp
  then have "acyclic (unified_edges [(''a'', sample_item ''a'' ''todo'' [''b''])])" by (simp add: findUnifiedCycle_None)
  moreover have "assertNoUnifiedCycle ''b'' (sample_item ''b'' ''todo'' []) [(''a'', sample_item ''a'' ''todo'' [''b''])] = None"
    by code_simp
  ultimately show ?thesis using write_guard_is_exact by blast
qed

section \<open>The frontier\<close>

text \<open>
  C25: The frontier of a phase holds exactly the todo items at the phase's step whose dependencies are all
  resolved and that have no open item anywhere below them, each as often as the store does, sorted by
  priority and intent.
\<close>

theorem frontier_exact:
  "(w \<in> set (frontier ds work phase) \<longleftrightarrow>
      (\<exists>i. (i, w) \<in> set work \<and> isTodoStatus w \<and> at_step ds phase w \<and> deps_resolved work w
         \<and> (\<nexists>d x. (i, d) \<in> (child_edges work)\<^sup>+ \<and> oget work d = Some x \<and> \<not> isResolvedStatus (Some x))))
     \<and> mset (frontier ds work phase) = mset (map snd (filter (\<lambda>(i, w). is_ready ds work phase i w) work))
     \<and> sorted_wrt (\<lambda>a b. compareReadyOrder a b \<le> 0) (frontier ds work phase)"
proof (intro conjI)
  show "mset (frontier ds work phase) = mset (map snd (filter (\<lambda>(i, w). is_ready ds work phase i w) work))"
    by (simp add: frontier_def)
  show "sorted_wrt (\<lambda>a b. compareReadyOrder a b \<le> 0) (frontier ds work phase)"
    unfolding frontier_def by (rule ready_order.sorted_js_sort)
qed (auto simp: set_frontier is_ready_def hasOpenDescendant_iff)

text \<open>
  Picking over several phases lists no item twice and loses none: the ids are distinct, and they are the
  ids of the frontiers of the phases.
\<close>

theorem frontier_across_steps:
  "distinct (map id_of (frontierAcrossSteps ds work phases))
     \<and> id_of ` set (frontierAcrossSteps ds work phases) = (\<Union>p \<in> set phases. id_of ` set (frontier ds work p))"
proof
  let ?ws = "concat (map (frontier ds work) phases)"
  have "mset (map id_of (frontierAcrossSteps ds work phases)) = mset (map id_of (dedupe_by_id [] ?ws))"
    by (simp add: frontierAcrossSteps_def)
  then show "distinct (map id_of (frontierAcrossSteps ds work phases))"
    using dedupe_by_id_distinct[of "[]" ?ws] mset_eq_imp_distinct_iff by blast
  have "id_of ` set (dedupe_by_id [] ?ws) \<subseteq> id_of ` set ?ws" using dedupe_by_id_set by (rule image_mono)
  moreover have "id_of w \<in> id_of ` set (dedupe_by_id [] ?ws)" if "w \<in> set ?ws" for w
    using dedupe_by_id_covers[OF that, of "[]"] by simp
  ultimately have eq: "id_of ` set (dedupe_by_id [] ?ws) = id_of ` set ?ws" by blast
  have "set (frontierAcrossSteps ds work phases) = set (dedupe_by_id [] ?ws)" by (simp add: frontierAcrossSteps_def)
  then show "id_of ` set (frontierAcrossSteps ds work phases) = (\<Union>p \<in> set phases. id_of ` set (frontier ds work p))"
    using eq by (simp add: image_UN)
qed

section \<open>Roots\<close>

text \<open>
  The root of an item is where its chain of parents ends: reached by parent links, without a parent of
  its own in the store, the only such item, and the same for every item on the way.
\<close>

theorem root_of_item:
  assumes "acyclic (unified_edges work)"
  shows "(i, resolveRoot work i) \<in> (up work)\<^sup>* \<and> resolveRoot work i \<notin> Domain (up work)
     \<and> (\<forall>r. (i, r) \<in> (up work)\<^sup>* \<and> r \<notin> Domain (up work) \<longrightarrow> r = resolveRoot work i)
     \<and> (\<forall>p. (i, p) \<in> (up work)\<^sup>* \<longrightarrow> resolveRoot work i = resolveRoot work p)"
  using resolveRoot_spec[OF acyclic_up[OF assms]] resolveRoot_up[OF acyclic_up[OF assms]] up_end_unique by metis

definition family :: works where
  "family = [(''a'', sample_item ''a'' ''todo'' []), (''b'', oset ''parent'' (JStr ''a'') (sample_item ''b'' ''todo'' []))]"

theorem root_of_item_witness: "resolveRoot family ''b'' = ''a'' \<and> (''b'', ''a'') \<in> (up family)\<^sup>*"
proof -
  have r: "resolveRoot family ''b'' = ''a''" by code_simp
  have "findUnifiedCycle family = None" by code_simp
  then have "acyclic (unified_edges family)" by (simp add: findUnifiedCycle_None)
  from root_of_item[OF this, of "''b''"] r show ?thesis by simp
qed

text \<open>
  One owner per tree: once a root has an owner, any other agent that claims an item of its tree is
  refused with that owner named, no item of the tree is steered to it, and the owner keeps seeing them all.
\<close>

theorem one_owner_per_tree:
  assumes "acyclic (unified_edges work)" "(i, r) \<in> (up work)\<^sup>*" "r \<notin> Domain (up work)"
  shows "claimRoot (setOwner r me owners) work i other = (if me = other then Noop_root r else Reject_root r me)
     \<and> (\<forall>w \<in> set ready. id_of w = i \<longrightarrow>
          (w \<in> set (steerFrontier ready work (setOwner r me owners) other) \<longleftrightarrow> me = other))"
proof -
  have "resolveRoot work i = r"
    using resolveRoot_spec[OF acyclic_up[OF assms(1)]] up_end_unique assms(2,3) by metis
  then show ?thesis by (auto simp: claimRoot_def steerFrontier_def setOwner_def)
qed

theorem one_owner_per_tree_witness:
  "claimRoot (setOwner ''a'' ''me'' []) family ''b'' ''you'' = Reject_root ''a'' ''me''"
proof -
  have "findUnifiedCycle family = None" by code_simp
  then have ac: "acyclic (unified_edges family)" by (simp add: findUnifiedCycle_None)
  have "(''b'', ''a'') \<in> up family" by (simp add: up_def) code_simp
  moreover have "''a'' \<notin> Domain (up family)"
  proof -
    have "Option.bind (oget family ''a'') parent_of = None" by code_simp
    then show ?thesis by (simp add: up_def)
  qed
  ultimately show ?thesis using one_owner_per_tree[OF ac, of "''b''" "''a''" "''me''" "[]" "''you''"] by auto
qed

section \<open>Schedule and components\<close>

text \<open>
  C28: The schedule is a partition of the execute frontier into waves without a footprint conflict inside:
  every frontier item is placed once, two items whose declared footprints share a path are never in the same
  wave, and an item is put off only because it conflicts with one of the wave before.
\<close>

theorem schedule_waves:
  assumes "conf = conflictsOf (footprintOverlapAmong (frontier ds work ''execute''))"
    and "plan = computeSchedule ds work None"
  shows "mset (concat plan) = mset (map id_of (frontier ds work ''execute''))
     \<and> (\<forall>wave \<in> set plan. wave \<noteq> [] \<and> (\<forall>k j. k < j \<and> j < length wave \<longrightarrow> \<not> conf (wave ! j) (wave ! k)))
     \<and> (\<forall>k y. Suc k < length plan \<and> y \<in> set (plan ! Suc k) \<longrightarrow> (\<exists>x \<in> set (plan ! k). conf y x))"
proof -
  have w: "plan = waves conf (frontier ds work ''execute'')"
    by (simp add: assms computeSchedule_def Let_def)
  show ?thesis
  proof (intro conjI)
    show "mset (concat plan) = mset (map id_of (frontier ds work ''execute''))" by (simp add: w waves_ids)
    show "\<forall>wave \<in> set plan. wave \<noteq> [] \<and> (\<forall>k j. k < j \<and> j < length wave \<longrightarrow> \<not> conf (wave ! j) (wave ! k))"
      using waves_free unfolding w by (fastforce simp: sorted_wrt_iff_nth_less)
    show "\<forall>k y. Suc k < length plan \<and> y \<in> set (plan ! Suc k) \<longrightarrow> (\<exists>x \<in> set (plan ! k). conf y x)"
      unfolding w using waves_tight by blast
  qed
qed

definition sharing :: works where
  "sharing = map (\<lambda>(i, f). (i, oset ''footprint'' (JArr [JStr f]) (sample_item i ''todo'' [])))
     [(''a'', ''src/x''), (''b'', ''./src/x''), (''c'', ''src/y'')]"

theorem schedule_waves_witness:
  "computeSchedule DOMAINS sharing None = [[''a'', ''c''], [''b'']]
     \<and> mset (concat (computeSchedule DOMAINS sharing None)) = mset (map id_of (frontier DOMAINS sharing ''execute''))"
proof
  show "computeSchedule DOMAINS sharing None = [[''a'', ''c''], [''b'']]" by code_simp
  show "mset (concat (computeSchedule DOMAINS sharing None)) = mset (map id_of (frontier DOMAINS sharing ''execute''))"
    using schedule_waves[OF HOL.refl HOL.refl, of DOMAINS sharing] by blast
qed

text \<open>
  The components are those of the graph: every item is in one, none in two, and two items of the store
  are in the same one exactly when they are connected by blocking links, in either direction.
\<close>

theorem components_are_classes:
  assumes "x \<in> set (okeys work)"
  shows "distinct (concat (connectedComponents work)) \<and> set (concat (connectedComponents work)) = set (okeys work)
     \<and> ((\<exists>c \<in> set (connectedComponents work). x \<in> set c \<and> y \<in> set c)
          \<longleftrightarrow> (x, y) \<in> (known_edges work \<union> (known_edges work)\<inverse>)\<^sup>*)"
  using connectedComponents_spec(2,3)[of work] components_known[of _ work] same_component[OF assms]
  by (intro conjI) auto

theorem components_are_classes_witness:
  "connectedComponents (family @ [(''c'', sample_item ''c'' ''todo'' [])]) = [[''a'', ''b''], [''c'']]
     \<and> distinct (concat (connectedComponents (family @ [(''c'', sample_item ''c'' ''todo'' [])])))"
proof
  show "connectedComponents (family @ [(''c'', sample_item ''c'' ''todo'' [])]) = [[''a'', ''b''], [''c'']]" by code_simp
  have "''a'' \<in> set (okeys (family @ [(''c'', sample_item ''c'' ''todo'' [])]))" by code_simp
  then show "distinct (concat (connectedComponents (family @ [(''c'', sample_item ''c'' ''todo'' [])])))"
    using components_are_classes by blast
qed

section \<open>Merging\<close>

text \<open>
  Merge readiness sorts: on a store whose items sit under their own ids, each open item that waits for
  approval is listed in exactly one bucket, the one its dependencies, its root's drift, its conflicts and
  what supersedes it determine.
\<close>

theorem merge_buckets_are_exact:
  assumes "keyed_view work" "(i, w) \<in> set work" "oget w ''status'' = Some (JStr ''awaiting-approval'')"
    and "\<not> isResolvedStatus (Some w)"
  shows "i \<in> set (bucket_ids (mergeReadiness ds needsSync work) b) \<longleftrightarrow> b = bucket_of needsSync work w"
proof -
  have p: "w \<in> set (proposed work)" using assms(2,3) by (auto simp: set_proposed)
  have "id_of w = i" using assms(1,2) by (auto simp: keyed_view_def)
  with bucket_exact[OF assms(1) p assms(4)] show ?thesis by simp
qed

definition proposals :: works where
  "proposals = map (\<lambda>(i, f). (i, oset ''footprint'' (JArr [JStr f]) (sample_item i ''awaiting-approval'' [])))
     [(''a'', ''src/x''), (''b'', ''src/x''), (''c'', ''src/y'')]"

lemma keyed_proposals: "keyed_view proposals"
  by (simp add: keyed_view_def proposals_def okeys_def sample_item_def id_of_def)

theorem merge_buckets_are_exact_witness:
  "mr_ready (mergeReadiness DOMAINS (\<lambda>_. False) proposals) = [''c'']
     \<and> ''a'' \<in> set (bucket_ids (mergeReadiness DOMAINS (\<lambda>_. False) proposals) B_conflicted)"
proof
  show "mr_ready (mergeReadiness DOMAINS (\<lambda>_. False) proposals) = [''c'']" by code_simp
  let ?w = "oset ''footprint'' (JArr [JStr ''src/x'']) (sample_item ''a'' ''awaiting-approval'' [])"
  have "(''a'', ?w) \<in> set proposals" by (simp add: proposals_def)
  moreover have "oget ?w ''status'' = Some (JStr ''awaiting-approval'')" "\<not> isResolvedStatus (Some ?w)"
    "bucket_of (\<lambda>_. False) proposals ?w = B_conflicted" by code_simp+
  ultimately show "''a'' \<in> set (bucket_ids (mergeReadiness DOMAINS (\<lambda>_. False) proposals) B_conflicted)"
    using merge_buckets_are_exact[OF keyed_proposals, of "''a''" ?w DOMAINS "\<lambda>_. False" B_conflicted] by simp
qed

text \<open>
  What is ready to merge merges without meeting: two items of the ready bucket declare no path in common.
\<close>

theorem ready_items_do_not_meet:
  assumes "keyed_view work" "(i, u) \<in> set work" "(j, w) \<in> set work" "i \<noteq> j"
    and "oget u ''status'' = Some (JStr ''awaiting-approval'')" "oget w ''status'' = Some (JStr ''awaiting-approval'')"
    and "\<not> isResolvedStatus (Some u)" "\<not> isResolvedStatus (Some w)"
    and "i \<in> set (mr_ready (mergeReadiness ds needsSync work))" "j \<in> set (mr_ready (mergeReadiness ds needsSync work))"
  shows "shared_paths u w = []"
proof -
  have p: "u \<in> set (proposed work)" "w \<in> set (proposed work)" using assms(2,3,5,6) by (auto simp: set_proposed)
  have ids: "id_of u = i" "id_of w = j" using assms(1-3) by (auto simp: keyed_view_def)
  have "bucket_of needsSync work u = B_ready" "bucket_of needsSync work w = B_ready"
    using bucket_exact[OF assms(1) p(1) assms(7), of ds needsSync B_ready] bucket_exact[OF assms(1) p(2) assms(8), of ds needsSync B_ready]
      assms(9,10) ids by (simp_all add: bucket_ids_def)
  with ready_disjoint[OF assms(1) p] assms(4) ids show ?thesis by simp
qed

theorem ready_items_do_not_meet_witness:
  "shared_paths (item_at (empty_view\<lparr>v_work := tl proposals\<rparr>) ''b'') (item_at (empty_view\<lparr>v_work := tl proposals\<rparr>) ''c'') = []"
proof (rule ready_items_do_not_meet)
  show "keyed_view (tl proposals)"
    by (simp add: keyed_view_def proposals_def okeys_def sample_item_def id_of_def)
  show "''b'' \<in> set (mr_ready (mergeReadiness DOMAINS (\<lambda>_. False) (tl proposals)))"
    "''c'' \<in> set (mr_ready (mergeReadiness DOMAINS (\<lambda>_. False) (tl proposals)))" by code_simp+
  show "''b'' \<noteq> ''c''" by simp
qed (code_simp+)

end
