(* ===== verification/Write_Scope.thy ===== *)
theory Write_Scope
  imports Prelude
begin

text \<open>
  Write scopes (\<open>src/runner/dispatch/write-scope.mjs\<close>): the canonical spelling of a scope
  entry, the glob match of a path against a scope, with its memo table, and the conservative overlap
  test between two scopes.

  A scope is a list of values, of which the source accepts strings only. A segment pattern is read
  directly instead of through the regular expression the source builds from it: \<open>*\<close> stands for
  \<open>[^/]*\<close>, every other character for itself.
\<close>

datatype scope_error =
    NotAString | AbsolutePath | BackslashOrNul | NoPath | DotDotSegment | PathspecMagic | LooseDoubleStar
  | WritesNotArray
  | WritesEntry nat scope_error    \<comment> \<open>\<open>writes[i]: ...\<close>\<close>

abbreviation fslash :: char where "fslash \<equiv> CHR ''/''"
abbreviation star :: char where "star \<equiv> CHR ''*''"
abbreviation dstar :: string where "dstar \<equiv> ''**''"

section \<open>Strings and segments\<close>

fun join :: "char \<Rightarrow> string list \<Rightarrow> string" where
  "join c [] = []"
| "join c [s] = s"
| "join c (s # ss) = s @ c # join c ss"

definition startsWith :: "string \<Rightarrow> string \<Rightarrow> bool" where
  "startsWith s p = (take (length p) s = p)"

definition hasGlob :: "string \<Rightarrow> bool" where
  "hasGlob segment = (star \<in> set segment)"

fun has_dstar :: "string \<Rightarrow> bool" where
  "has_dstar (a # b # s) = (a = star \<and> b = star \<or> has_dstar (b # s))"
| "has_dstar _ = False"

text \<open>\<open>.filter((segment, i, all) => !(segment === '**' && all[i - 1] === '**'))\<close>\<close>

fun squeeze :: "string list \<Rightarrow> string list" where
  "squeeze (a # b # ss) = (if a = dstar \<and> b = dstar then squeeze (b # ss) else a # squeeze (b # ss))"
| "squeeze ss = ss"

definition real_segment :: "string \<Rightarrow> bool" where
  "real_segment s = (s \<noteq> [] \<and> s \<noteq> ''.'')"

definition entry_segments :: "string \<Rightarrow> string list" where
  "entry_segments trimmed = squeeze (filter real_segment (split_on fslash trimmed))"

definition entry_error :: "string \<Rightarrow> scope_error option" where
  "entry_error trimmed = (let segments = entry_segments trimmed in
     first_err
      [req (\<not> startsWith trimmed [fslash]) AbsolutePath,
       req (CHR 0x5C \<notin> set trimmed \<and> CHR 0x00 \<notin> set trimmed) BackslashOrNul,
       req (segments \<noteq> []) NoPath,
       req (''..'' \<notin> set segments) DotDotSegment,
       req (\<not> startsWith (hd segments) '':'') PathspecMagic,
       req (\<not> list_ex (\<lambda>s. has_dstar s \<and> s \<noteq> dstar) segments) LooseDoubleStar])"

subsection \<open>Joining and splitting\<close>

lemma join_Cons: "ss \<noteq> [] \<Longrightarrow> join c (s # ss) = s @ c # join c ss"
  by (cases ss) auto

lemma join_append: "xs \<noteq> [] \<Longrightarrow> ys \<noteq> [] \<Longrightarrow> join c (xs @ ys) = join c xs @ c # join c ys"
proof (induction xs)
  case Nil
  then show ?case by simp
next
  case (Cons x xs)
  then show ?case by (cases "xs = []") (simp_all add: join_Cons)
qed

lemma join_split_on [simp]: "join c (split_on c s) = s"
proof (induction s)
  case Nil
  show ?case by simp
next
  case (Cons a s)
  then show ?case by (cases "split_on c s"; cases "tl (split_on c s)") (auto simp: join_Cons)
qed

lemma split_on_no_sep: "x \<in> set (split_on c s) \<Longrightarrow> c \<notin> set x"
  by (induction s arbitrary: x) (auto split: if_splits list.splits)

lemma split_on_seg: "c \<notin> set x \<Longrightarrow> split_on c x = [x]"
  by (induction x) auto

lemma split_on_append: "c \<notin> set x \<Longrightarrow> split_on c (x @ c # s) = x # split_on c s"
  by (induction x) auto

lemma split_on_sep: "split_on c (s @ c # t) = split_on c s @ split_on c t"
  by (induction s) (auto split: list.splits simp: neq_Nil_conv)

lemma split_join:
  assumes "\<forall>s \<in> set ss. c \<notin> set s" "ss \<noteq> []"
  shows "split_on c (join c ss) = ss"
  using assms
proof (induction ss)
  case Nil
  then show ?case by simp
next
  case (Cons s ss)
  then show ?case by (cases "ss = []") (simp_all add: join_Cons split_on_append split_on_seg)
qed

lemma set_split_on: "x \<in> set (split_on c s) \<Longrightarrow> set x \<subseteq> set s"
proof (induction s arbitrary: x)
  case Nil
  then show ?case by simp
next
  case (Cons a s)
  then show ?case by (fastforce split: if_splits list.splits)
qed

lemma set_join: "set (join c ss) \<subseteq> insert c (\<Union> (set ` set ss))"
  by (induction c ss rule: join.induct) auto

lemma startsWith_append [simp]: "startsWith (p @ s) p"
  by (simp add: startsWith_def)

lemma startsWith_iff: "startsWith s p \<longleftrightarrow> (\<exists>r. s = p @ r)"
  unfolding startsWith_def by (metis append_eq_conv_conj append_take_drop_id)

subsection \<open>Squeezing and the length of an entry\<close>

lemma squeeze_subset: "set (squeeze ss) \<subseteq> set ss"
  by (induction ss rule: squeeze.induct) auto

lemma squeeze_Nil [simp]: "squeeze ss = [] \<longleftrightarrow> ss = []"
  by (induction ss rule: squeeze.induct) auto

lemma hd_squeeze: "hd (squeeze ss) = hd ss"
  by (induction ss rule: squeeze.induct) auto

lemma squeeze_idem [simp]: "squeeze (squeeze ss) = squeeze ss"
proof (induction ss rule: squeeze.induct)
  case (1 a b ss)
  show ?case
  proof (cases "a = dstar \<and> b = dstar")
    case True
    with 1 show ?thesis by simp
  next
    case False
    obtain r rs where r: "squeeze (b # ss) = r # rs" by (metis list.exhaust squeeze_Nil list.distinct(1))
    have "r = b" using hd_squeeze[of "b # ss"] r by simp
    with r 1(2)[OF False] False show ?thesis by auto
  qed
qed auto

lemma length_join_Cons_le: "length (join c ss) \<le> length (join c (s # ss))"
  by (cases ss) auto

lemma length_join_filter: "length (join c (filter P ss)) \<le> length (join c ss)"
proof (induction ss)
  case Nil
  show ?case by simp
next
  case (Cons s ss)
  show ?case
  proof (cases "P s")
    case True
    with Cons show ?thesis
      by (cases "filter P ss = []"; cases "ss = []") (auto simp: join_Cons)
  next
    case False
    with Cons length_join_Cons_le[of c ss s] show ?thesis by simp
  qed
qed

lemma length_join_squeeze: "length (join c (squeeze ss)) \<le> length (join c ss)"
proof (induction ss rule: squeeze.induct)
  case (1 a b ss)
  show ?case
  proof (cases "a = dstar \<and> b = dstar")
    case True
    with 1(1)[OF True] length_join_Cons_le[of c "b # ss" a] show ?thesis by simp
  next
    case False
    with 1(2)[OF False] show ?thesis by (auto simp: join_Cons)
  qed
qed auto

lemma length_join_entry_segments: "length (join fslash (entry_segments t)) \<le> length t"
proof -
  have "length (join fslash (entry_segments t)) \<le> length (join fslash (filter real_segment (split_on fslash t)))"
    unfolding entry_segments_def by (rule length_join_squeeze)
  also have "\<dots> \<le> length (join fslash (split_on fslash t))" by (rule length_join_filter)
  finally show ?thesis by simp
qed

lemma length_trim_less: "trim s \<noteq> s \<Longrightarrow> length (trim s) < length s"
proof (rule ccontr)
  assume neq: "trim s \<noteq> s" and "\<not> length (trim s) < length s"
  then have len: "length (trim s) = length s" using length_trim_le[of s] by simp
  let ?d = "dropWhile is_ws s"
  have "length (trim s) \<le> length ?d"
    unfolding trim_def length_rev by (metis length_dropWhile_le length_rev)
  then have "length ?d = length s" using len length_dropWhile_le[of is_ws s] by simp
  then have d: "?d = s" by (metis append_eq_conv_conj append_self_conv2 dropWhile_eq_drop drop_all length_drop
        diff_diff_cancel length_takeWhile_le takeWhile_dropWhile_id length_0_conv diff_self_eq_0)
  have "length (dropWhile is_ws (rev s)) = length (rev s)" using len d by (simp add: trim_def)
  then have "dropWhile is_ws (rev s) = rev s"
    by (metis append_self_conv2 length_append takeWhile_dropWhile_id length_0_conv add_cancel_left_left)
  then have "trim s = s" using d by (simp add: trim_def)
  with neq show False by simp
qed

section \<open>The canonical spelling of an entry\<close>

text \<open>\<open>canonicalizeWriteEntry\<close> on a string: read again until the joined segments have no outer white space.\<close>

function canonical_entry :: "string \<Rightarrow> scope_error + string" where
  "canonical_entry raw = (let trimmed = trim raw; joined = join fslash (entry_segments trimmed) in
     guarded (entry_error trimmed)
       (if joined = trim joined then Inr joined else canonical_entry joined))"
  by pat_completeness auto

termination canonical_entry
proof (relation "measure (\<lambda>s. length (trim s))", goal_cases)
  case 1
  show ?case by simp
next
  case (2 raw trimmed joined)
  then have "length (trim joined) < length joined" using length_trim_less by metis
  also have "length joined \<le> length trimmed" using 2 length_join_entry_segments by simp
  finally show ?case using 2 by simp
qed

declare canonical_entry.simps [simp del]

fun canonicalizeWriteEntry :: "jval \<Rightarrow> scope_error + string" where
  "canonicalizeWriteEntry (JStr raw) = canonical_entry raw"
| "canonicalizeWriteEntry _ = Inl NotAString"

fun canonical_list :: "nat \<Rightarrow> string list \<Rightarrow> jval list \<Rightarrow> scope_error + string list" where
  "canonical_list i out [] = Inr out"
| "canonical_list i out (raw # rest) = (case canonicalizeWriteEntry raw of
     Inl e \<Rightarrow> Inl (WritesEntry i e)
   | Inr entry \<Rightarrow> canonical_list (Suc i) (if entry \<in> set out then out else out @ [entry]) rest)"

definition canonicalizeWrites :: "jval \<Rightarrow> scope_error + string list" where
  "canonicalizeWrites list = (case list of JArr xs \<Rightarrow> canonical_list 0 [] xs | _ \<Rightarrow> Inl WritesNotArray)"

subsection \<open>The canonical form is a fixed point\<close>

lemma entry_segments_real:
  assumes "x \<in> set (entry_segments t)"
  shows "real_segment x" "fslash \<notin> set x" "set x \<subseteq> set t"
proof -
  have "x \<in> set (filter real_segment (split_on fslash t))"
    using assms squeeze_subset unfolding entry_segments_def by blast
  then show "real_segment x" "fslash \<notin> set x" "set x \<subseteq> set t"
    using split_on_no_sep[of x fslash t] set_split_on[of x fslash t] by auto
qed

lemma entry_segments_join:
  assumes "entry_segments t \<noteq> []"
  shows "entry_segments (join fslash (entry_segments t)) = entry_segments t"
proof -
  have "split_on fslash (join fslash (entry_segments t)) = entry_segments t"
    using assms entry_segments_real(2) by (intro split_join) auto
  moreover have "filter real_segment (entry_segments t) = entry_segments t"
    using entry_segments_real(1) by (simp add: filter_id_conv)
  moreover have "squeeze (entry_segments t) = entry_segments t" by (simp add: entry_segments_def)
  ultimately show ?thesis by (simp add: entry_segments_def[of "join fslash (entry_segments t)"])
qed

lemma no_leading_slash:
  assumes "entry_segments t \<noteq> []"
  shows "\<not> startsWith (join fslash (entry_segments t)) [fslash]"
proof -
  obtain x xs where x: "entry_segments t = x # xs" using assms by (cases "entry_segments t") auto
  then have "real_segment x" "fslash \<notin> set x" using entry_segments_real[of x t] by auto
  then obtain c x' where "x = c # x'" "c \<noteq> fslash" by (cases x) (auto simp: real_segment_def)
  with x show ?thesis by (cases xs) (auto simp: startsWith_def)
qed

lemma entry_error_join:
  assumes "entry_error t = None"
  shows "entry_error (join fslash (entry_segments t)) = None"
proof -
  let ?j = "join fslash (entry_segments t)"
  have facts: "CHR 0x5C \<notin> set t" "CHR 0x00 \<notin> set t" "entry_segments t \<noteq> []"
    "''..'' \<notin> set (entry_segments t)" "\<not> startsWith (hd (entry_segments t)) '':''"
    "\<not> list_ex (\<lambda>s. has_dstar s \<and> s \<noteq> dstar) (entry_segments t)"
    using assms by (auto simp: entry_error_def Let_def check_simps)
  have seg: "entry_segments ?j = entry_segments t" using facts(3) by (rule entry_segments_join)
  have "set ?j \<subseteq> insert fslash (set t)"
    using set_join[of fslash "entry_segments t"] entry_segments_real(3)[of _ t] by blast
  then have "CHR 0x5C \<notin> set ?j" "CHR 0x00 \<notin> set ?j" using facts(1,2) by auto
  with facts seg no_leading_slash[OF facts(3)] show ?thesis
    by (simp add: entry_error_def Let_def check_simps)
qed

lemma entry_error_segments: "entry_error t = None \<Longrightarrow> entry_segments t \<noteq> []"
  by (simp add: entry_error_def Let_def check_simps)

lemma canonical_entry_form:
  "canonical_entry raw = Inr e \<Longrightarrow>
     trim e = e \<and> entry_error e = None \<and> join fslash (entry_segments e) = e \<and> entry_segments e \<noteq> []"
proof (induction raw rule: canonical_entry.induct)
  case (1 raw)
  let ?t = "trim raw"
  let ?j = "join fslash (entry_segments ?t)"
  from 1(2) have ok: "entry_error ?t = None"
    and res: "(if ?j = trim ?j then Inr ?j else canonical_entry ?j) = Inr e"
    by (subst (asm) canonical_entry.simps, simp add: Let_def check_simps)+
  show ?case
  proof (cases "?j = trim ?j")
    case True
    with res have e: "e = ?j" by simp
    have "entry_segments ?j = entry_segments ?t" using entry_error_segments[OF ok] by (rule entry_segments_join)
    with e True ok entry_error_join[OF ok] entry_error_segments[OF ok] show ?thesis by simp
  next
    case False
    with res have "canonical_entry ?j = Inr e" by (simp only: if_False)
    with 1(1)[OF HOL.refl HOL.refl False] show ?thesis by blast
  qed
qed

lemma canonical_entry_fixed:
  assumes "canonical_entry raw = Inr e"
  shows "canonical_entry e = Inr e"
proof -
  have "trim e = e" "entry_error e = None" "join fslash (entry_segments e) = e"
    using canonical_entry_form[OF assms] by auto
  then show ?thesis by (subst canonical_entry.simps) (simp add: Let_def guarded_def)
qed

section \<open>Matching a path\<close>

text \<open>One segment: \<open>*\<close> matches any characters but the slash.\<close>

fun segment_match :: "string \<Rightarrow> string \<Rightarrow> bool" where
  "segment_match [] s = (s = [])"
| "segment_match (p # ps) [] = (p = star \<and> segment_match ps [])"
| "segment_match (p # ps) (c # s) =
     (if p = star then segment_match ps (c # s) \<or> c \<noteq> fslash \<and> segment_match (p # ps) s
      else p = c \<and> segment_match ps s)"

text \<open>
  \<open>globMatches\<close>: positions in the pattern and in the path, and the memo of the answers found, keyed
  by \<open>p * (pathSegments.length + 1) + s\<close>. The table is passed along in the order of the calls.
\<close>

type_synonym memo = "nat \<rightharpoonup> bool"

function glob_at :: "string list \<Rightarrow> string list \<Rightarrow> nat \<Rightarrow> nat \<Rightarrow> memo \<Rightarrow> bool \<times> memo" where
  "glob_at pat path p s memo = (let key = p * (length path + 1) + s in
     case memo key of
       Some r \<Rightarrow> (r, memo)
     | None \<Rightarrow>
         let (result, memo') =
           (if length pat \<le> p then (s = length path, memo)
            else if pat ! p = dstar then
              (let (a, m1) = glob_at pat path (p + 1) s memo in
               if a then (True, m1)
               else if s < length path then glob_at pat path p (s + 1) m1
               else (False, m1))
            else if s < length path \<and> segment_match (pat ! p) (path ! s) then glob_at pat path (p + 1) (s + 1) memo
            else (False, memo))
         in (result, memo'(key \<mapsto> result)))"
  by pat_completeness auto

termination glob_at
  by (relation "measure (\<lambda>(pat, path, p, s, memo). (length pat - p) + (length path - s))") auto

declare glob_at.simps [simp del]

definition globMatches :: "string list \<Rightarrow> string list \<Rightarrow> bool" where
  "globMatches patternSegments pathSegments = fst (glob_at patternSegments pathSegments 0 0 Map.empty)"

text \<open>The match without positions and without a table.\<close>

fun glob_list :: "string list \<Rightarrow> string list \<Rightarrow> bool" where
  "glob_list [] path = (path = [])"
| "glob_list (q # ps) [] = (q = dstar \<and> glob_list ps [])"
| "glob_list (q # ps) (c # path) =
     (if q = dstar then glob_list ps (c # path) \<or> glob_list (q # ps) path
      else segment_match q c \<and> glob_list ps path)"

text \<open>What a glob means: a segment pattern one segment it matches, \<open>**\<close> any run of segments.\<close>

inductive glob_denotes :: "string list \<Rightarrow> string list \<Rightarrow> bool" where
  nothing: "glob_denotes [] []"
| segment: "q \<noteq> dstar \<Longrightarrow> segment_match q c \<Longrightarrow> glob_denotes ps path \<Longrightarrow> glob_denotes (q # ps) (c # path)"
| run: "glob_denotes ps path \<Longrightarrow> glob_denotes (dstar # ps) (skipped @ path)"

inductive_cases glob_denotes_NilE: "glob_denotes [] path"
inductive_cases glob_denotes_ConsE: "glob_denotes (q # ps) path"

lemma glob_list_denotes: "glob_list pat path \<longleftrightarrow> glob_denotes pat path"
proof
  show "glob_list pat path \<Longrightarrow> glob_denotes pat path"
  proof (induction pat path rule: glob_list.induct)
    case (2 q ps)
    then show ?case using glob_denotes.run[of ps "[]" "[]"] by simp
  next
    case (3 q ps c path)
    show ?case
    proof (cases "q = dstar")
      case True
      show ?thesis
      proof (cases "glob_list ps (c # path)")
        case True
        with 3(1)[OF \<open>q = dstar\<close> True] glob_denotes.run[of ps "c # path" "[]"] \<open>q = dstar\<close> show ?thesis by simp
      next
        case False
        with 3 True have "glob_denotes (dstar # ps) path" by simp
        then obtain sk rest where "path = sk @ rest" "glob_denotes ps rest" by (auto elim: glob_denotes_ConsE)
        with glob_denotes.run[of ps rest "c # sk"] True show ?thesis by simp
      qed
    next
      case False
      with 3 show ?thesis by (simp add: glob_denotes.segment)
    qed
  qed (simp add: glob_denotes.nothing)
next
  have run: "glob_list (dstar # ps) (sk @ path)" if "glob_list ps path" for ps sk path
    using that by (induction sk) (cases path, auto)
  show "glob_denotes pat path \<Longrightarrow> glob_list pat path"
    by (induction rule: glob_denotes.induct) (use run in auto)
qed

text \<open>A table is sound when each answer in it is the one the match without it gives.\<close>

definition memo_key :: "string list \<Rightarrow> nat \<Rightarrow> nat \<Rightarrow> nat" where
  "memo_key path p s = p * (length path + 1) + s"

definition memo_sound :: "string list \<Rightarrow> string list \<Rightarrow> memo \<Rightarrow> bool" where
  "memo_sound pat path memo \<longleftrightarrow> (\<forall>p \<le> length pat. \<forall>s \<le> length path. \<forall>r.
     memo (memo_key path p s) = Some r \<longrightarrow> r = glob_list (drop p pat) (drop s path))"

lemma memo_key_inj:
  assumes "memo_key path p s = memo_key path p' s'" "s \<le> length path" "s' \<le> length path"
  shows "p = p' \<and> s = s'"
proof -
  let ?n = "length path + 1"
  have quot: "(q * ?n + r) div ?n = q" if "r \<le> length path" for q r
    using that div_mult_self3[of ?n q r] by simp
  have "p = (p * ?n + s) div ?n" "p' = (p' * ?n + s') div ?n" using quot assms(2,3) by metis+
  with assms(1) have "p = p'" unfolding memo_key_def by metis
  with assms(1) show ?thesis by (simp add: memo_key_def)
qed

lemma memo_sound_upd:
  assumes "memo_sound pat path memo" "s \<le> length path" "r = glob_list (drop p pat) (drop s path)"
  shows "memo_sound pat path (memo(memo_key path p s \<mapsto> r))"
  using assms memo_key_inj[of path p s] unfolding memo_sound_def by (auto dest: memo_key_inj)

lemma glob_list_dstar:
  "glob_list (dstar # ps) path \<longleftrightarrow> glob_list ps path \<or> (path \<noteq> [] \<and> glob_list (dstar # ps) (tl path))"
  by (cases path) auto

lemma glob_list_segment:
  "q \<noteq> dstar \<Longrightarrow> glob_list (q # ps) path \<longleftrightarrow> (path \<noteq> [] \<and> segment_match q (hd path) \<and> glob_list ps (tl path))"
  by (cases path) auto

lemma glob_at_list:
  assumes "p \<le> length pat" "s \<le> length path" "memo_sound pat path memo"
  shows "fst (glob_at pat path p s memo) = glob_list (drop p pat) (drop s path)
       \<and> memo_sound pat path (snd (glob_at pat path p s memo))"
  using assms
proof (induction pat path p s memo rule: glob_at.induct)
  case (1 pat path p s memo)
  let ?key = "memo_key path p s"
  let ?goal = "glob_list (drop p pat) (drop s path)"
  show ?case
  proof (cases "memo ?key")
    case (Some r)
    then have "glob_at pat path p s memo = (r, memo)"
      by (subst glob_at.simps) (simp add: memo_key_def)
    moreover have "r = ?goal" using 1(4-6) Some by (auto simp: memo_sound_def)
    ultimately show ?thesis using 1(6) by simp
  next
    case None
    note IH = 1(1-3)[OF HOL.refl None[unfolded memo_key_def]]
    let ?body = "if length pat \<le> p then (s = length path, memo)
            else if pat ! p = dstar then
              (let (a, m1) = glob_at pat path (p + 1) s memo in
               if a then (True, m1)
               else if s < length path then glob_at pat path p (s + 1) m1
               else (False, m1))
            else if s < length path \<and> segment_match (pat ! p) (path ! s) then glob_at pat path (p + 1) (s + 1) memo
            else (False, memo)"
    have body: "fst ?body = ?goal \<and> memo_sound pat path (snd ?body)"
    proof (cases "length pat \<le> p")
      case True
      with 1(4-6) show ?thesis by auto
    next
      case p: False
      then have pat: "drop p pat = pat ! p # drop (p + 1) pat" by (simp add: Cons_nth_drop_Suc)
      have path: "drop s path \<noteq> [] \<longleftrightarrow> s < length path" "tl (drop s path) = drop (s + 1) path"
        by (auto simp: drop_Suc drop_tl)
      have hdp: "hd (drop s path) = path ! s" if "s < length path" using that by (simp add: hd_drop_conv_nth)
      show ?thesis
      proof (cases "pat ! p = dstar")
        case True
        obtain a m1 where a: "glob_at pat path (p + 1) s memo = (a, m1)" by fastforce
        have A: "a = glob_list (drop (p + 1) pat) (drop s path)" "memo_sound pat path m1"
          using IH(1)[OF p True _ 1(5,6)] p a by auto
        have B: "fst (glob_at pat path p (s + 1) m1) = glob_list (drop p pat) (drop (s + 1) path)
               \<and> memo_sound pat path (snd (glob_at pat path p (s + 1) m1))" if "\<not> a" "s < length path"
          using IH(2)[OF p True a[symmetric] HOL.refl that(1,2) 1(4) _ A(2)] that(2) by simp
        show ?thesis
          using p True A B a glob_list_dstar[of "drop (p + 1) pat" "drop s path"] path pat by auto
      next
        case False
        then show ?thesis
          using p IH(3)[OF p False] 1(4-6) glob_list_segment[OF False, of "drop (p + 1) pat" "drop s path"] path pat hdp
          by auto
      qed
    qed
    obtain r m where rm: "?body = (r, m)" by fastforce
    have "glob_at pat path p s memo = (let (result, memo') = ?body in (result, memo'(?key \<mapsto> result)))"
      using None by (subst glob_at.simps) (simp add: memo_key_def)
    then have "glob_at pat path p s memo = (r, m(?key \<mapsto> r))" unfolding rm by simp
    moreover have "r = ?goal" "memo_sound pat path m" using body unfolding rm by simp_all
    moreover from this have "memo_sound pat path (m(?key \<mapsto> r))" using memo_sound_upd[OF _ 1(5)] by blast
    ultimately show ?thesis by (simp only: fst_conv snd_conv)
  qed
qed

lemma globMatches_list: "globMatches pat path = glob_list pat path"
  using glob_at_list[of 0 pat 0 path Map.empty] by (simp add: globMatches_def memo_sound_def)

text \<open>
  \<open>matchesWriteScope\<close>. An entry is read canonically when the search over the scope reaches it, and
  an entry that cannot be read throws then.
\<close>

fun scope_some :: "(string \<Rightarrow> bool) \<Rightarrow> jval list \<Rightarrow> scope_error + bool" where
  "scope_some covers [] = Inr False"
| "scope_some covers (raw # scope) = (case canonicalizeWriteEntry raw of
     Inl e \<Rightarrow> Inl e
   | Inr entry \<Rightarrow> if covers entry then Inr True else scope_some covers scope)"

definition STORE_DIR :: string where "STORE_DIR = ''.fgos''"

definition entry_covers :: "string list \<Rightarrow> string \<Rightarrow> bool" where
  "entry_covers pathSegments entry = (let normalized = join fslash pathSegments in
     if \<not> hasGlob entry then normalized = entry \<or> startsWith normalized (entry @ [fslash])
     else globMatches (split_on fslash entry) pathSegments)"

definition path_segments :: "string \<Rightarrow> string list" where
  "path_segments relPath = filter real_segment (split_on fslash relPath)"

definition matchesWriteScope :: "jval \<Rightarrow> jval list \<Rightarrow> scope_error + bool" where
  "matchesWriteScope relPath scope = (case relPath of
     JStr p \<Rightarrow>
       if startsWith p [fslash] \<or> CHR 0x5C \<in> set p \<or> CHR 0x00 \<in> set p then Inr False
       else (let pathSegments = path_segments p in
         if pathSegments = [] \<or> ''..'' \<in> set pathSegments \<or> hd pathSegments = STORE_DIR then Inr False
         else scope_some (entry_covers pathSegments) scope)
   | _ \<Rightarrow> Inr False)"

text \<open>\<open>partitionPaths\<close>: an entry that cannot be read throws out of the loop.\<close>

fun partition_into :: "jval list \<Rightarrow> jval list \<Rightarrow> jval list \<Rightarrow> jval list \<Rightarrow> scope_error + jval list \<times> jval list" where
  "partition_into scope inS outS [] = Inr (inS, outS)"
| "partition_into scope inS outS (p # ps) = e_bind (matchesWriteScope p scope)
     (\<lambda>m. if m then partition_into scope (inS @ [p]) outS ps else partition_into scope inS (outS @ [p]) ps)"

definition partitionPaths :: "jval list \<Rightarrow> jval list \<Rightarrow> scope_error + jval list \<times> jval list" where
  "partitionPaths paths scope = partition_into scope [] [] paths"

section \<open>Overlap of two scopes\<close>

definition literal_segments :: "string \<Rightarrow> string list" where
  "literal_segments entry = takeWhile (\<lambda>s. \<not> hasGlob s) (split_on fslash entry)"

definition literalPrefix :: "string \<Rightarrow> string" where
  "literalPrefix entry = join fslash (literal_segments entry)"

definition literalsOverlap :: "string \<Rightarrow> string \<Rightarrow> bool" where
  "literalsOverlap a b = (a = [] \<or> b = [] \<or> a = b \<or> startsWith a (b @ [fslash]) \<or> startsWith b (a @ [fslash]))"

definition writeScopesOverlap :: "jval list \<Rightarrow> jval list \<Rightarrow> scope_error + bool" where
  "writeScopesOverlap scopeA scopeB =
     e_bind (canonicalizeWrites (JArr scopeA)) (\<lambda>a. e_bind (canonicalizeWrites (JArr scopeB)) (\<lambda>b.
       Inr (list_ex (\<lambda>x. list_ex (\<lambda>y. literalsOverlap (literalPrefix x) (literalPrefix y)) b) a)))"

text \<open>\<open>expandGenerated\<close>: a mapping of generated paths is its \<open>from\<close> and its \<open>also\<close>.\<close>

fun generated_added :: "string list \<Rightarrow> (jval \<times> jval list) list \<Rightarrow> scope_error + jval list" where
  "generated_added scope [] = Inr []"
| "generated_added scope ((from, also) # rest) = e_bind (canonicalizeWriteEntry from) (\<lambda>f.
     e_bind (generated_added scope rest) (\<lambda>added.
       Inr ((if list_ex (\<lambda>entry. literalsOverlap (literalPrefix entry) (literalPrefix f)) scope then also else []) @ added)))"

definition expandGenerated :: "jval \<Rightarrow> (jval \<times> jval list) list \<Rightarrow> scope_error + string list" where
  "expandGenerated writes generatedPaths = e_bind (canonicalizeWrites writes) (\<lambda>scope.
     e_bind (generated_added scope generatedPaths) (\<lambda>added. canonicalizeWrites (JArr (map JStr scope @ added))))"

subsection \<open>An entry that covers a path has its literal segments in front of it\<close>

lemma prefix_overlap:
  assumes "xs @ xs' = zs" "ys @ ys' = zs" "\<forall>s \<in> set zs. fslash \<notin> set s"
  shows "literalsOverlap (join fslash xs) (join fslash ys)"
proof -
  have one: "literalsOverlap (join fslash us) (join fslash (us @ vs)) \<and> literalsOverlap (join fslash (us @ vs)) (join fslash us)"
    for us vs
  proof (cases "us = [] \<or> vs = []")
    case True
    then show ?thesis by (auto simp: literalsOverlap_def)
  next
    case False
    then have "join fslash (us @ vs) = (join fslash us @ [fslash]) @ join fslash vs" by (simp add: join_append)
    then have "startsWith (join fslash (us @ vs)) (join fslash us @ [fslash])" unfolding startsWith_iff by blast
    then show ?thesis by (simp add: literalsOverlap_def)
  qed
  from assms obtain us where "xs = ys @ us \<or> ys = xs @ us" by (metis append_eq_append_conv2)
  with one show ?thesis by auto
qed

lemma glob_denotes_literal:
  "glob_denotes pat path \<Longrightarrow> \<exists>rest. path = takeWhile (\<lambda>s. \<not> hasGlob s) pat @ rest"
proof (induction rule: glob_denotes.induct)
  case (segment q c ps path)
  have "segment_match q c \<Longrightarrow> star \<notin> set q \<Longrightarrow> q = c" for q c :: string
    by (induction q c rule: segment_match.induct) (auto split: if_splits)
  with segment show ?case by (auto simp: hasGlob_def)
qed (auto simp: hasGlob_def)

lemma entry_covers_literal:
  assumes "entry_covers segs entry" "\<forall>s \<in> set segs. fslash \<notin> set s" "segs \<noteq> []"
  shows "\<exists>rest. literal_segments entry @ rest = segs"
proof (cases "hasGlob entry")
  case True
  with assms(1) have "glob_denotes (split_on fslash entry) segs"
    by (simp add: entry_covers_def Let_def globMatches_list glob_list_denotes)
  then show ?thesis using glob_denotes_literal unfolding literal_segments_def by metis
next
  case False
  have split: "split_on fslash (join fslash segs) = segs" using assms(2,3) by (rule split_join)
  have "\<forall>s \<in> set (split_on fslash entry). \<not> hasGlob s"
    using False set_split_on[of _ fslash entry] by (auto simp: hasGlob_def)
  then have lit: "literal_segments entry = split_on fslash entry"
    by (simp add: literal_segments_def takeWhile_eq_all_conv)
  from False assms(1) have "join fslash segs = entry \<or> (\<exists>r. join fslash segs = entry @ fslash # r)"
    by (auto simp: entry_covers_def Let_def startsWith_iff)
  then have "segs = split_on fslash entry \<or> (\<exists>r. segs = split_on fslash entry @ split_on fslash r)"
    using split split_on_sep by metis
  then show ?thesis using lit by auto
qed

text \<open>A scope that covers a path, by one of its entries.\<close>

lemma scope_some_True:
  "scope_some covers scope = Inr True \<Longrightarrow>
     \<exists>raw \<in> set scope. \<exists>e. canonicalizeWriteEntry raw = Inr e \<and> covers e"
  by (induction scope) (auto split: sum.splits if_splits)

lemma canonical_list_set:
  "canonical_list i out xs = Inr ws \<Longrightarrow>
     set ws = set out \<union> {e. \<exists>raw \<in> set xs. canonicalizeWriteEntry raw = Inr e}
     \<and> (\<forall>raw \<in> set xs. \<exists>e. canonicalizeWriteEntry raw = Inr e) \<and> (distinct out \<longrightarrow> distinct ws)"
proof (induction xs arbitrary: i out)
  case Nil
  then show ?case by simp
next
  case (Cons raw xs)
  then obtain e where e: "canonicalizeWriteEntry raw = Inr e" by (auto split: sum.splits)
  with Cons.prems have "canonical_list (Suc i) (if e \<in> set out then out else out @ [e]) xs = Inr ws" by simp
  from Cons.IH[OF this] e show ?case by (auto split: if_splits)
qed

lemma canonicalizeWrites_set:
  assumes "canonicalizeWrites (JArr xs) = Inr ws"
  shows "set ws = {e. \<exists>raw \<in> set xs. canonicalizeWriteEntry raw = Inr e}" "distinct ws"
    "\<forall>raw \<in> set xs. \<exists>e. canonicalizeWriteEntry raw = Inr e"
  using canonical_list_set[of 0 "[]" xs ws] assms by (auto simp: canonicalizeWrites_def)

lemma matches_covers:
  assumes "matchesWriteScope (JStr p) scope = Inr True"
  shows "\<exists>raw \<in> set scope. \<exists>e. canonicalizeWriteEntry raw = Inr e \<and> entry_covers (path_segments p) e"
    and "path_segments p \<noteq> []" "\<forall>s \<in> set (path_segments p). fslash \<notin> set s"
proof -
  show "\<exists>raw \<in> set scope. \<exists>e. canonicalizeWriteEntry raw = Inr e \<and> entry_covers (path_segments p) e"
    using assms by (intro scope_some_True) (auto simp: matchesWriteScope_def Let_def split: if_splits)
  show "path_segments p \<noteq> []" using assms by (auto simp: matchesWriteScope_def Let_def split: if_splits)
  show "\<forall>s \<in> set (path_segments p). fslash \<notin> set s"
    using split_on_no_sep by (auto simp: path_segments_def)
qed

text \<open>The test is conservative: two scopes that can be read and cover one path overlap.\<close>

lemma overlap_if_common_path:
  assumes "canonicalizeWrites (JArr A) = Inr a" "canonicalizeWrites (JArr B) = Inr b"
    and "matchesWriteScope (JStr p) A = Inr True" "matchesWriteScope (JStr p) B = Inr True"
  shows "writeScopesOverlap A B = Inr True"
proof -
  obtain x where x: "x \<in> set a" "entry_covers (path_segments p) x"
    using matches_covers(1)[OF assms(3)] canonicalizeWrites_set(1)[OF assms(1)] by blast
  obtain y where y: "y \<in> set b" "entry_covers (path_segments p) y"
    using matches_covers(1)[OF assms(4)] canonicalizeWrites_set(1)[OF assms(2)] by blast
  note segs = matches_covers(2,3)[OF assms(3)]
  obtain r r' where "literal_segments x @ r = path_segments p" "literal_segments y @ r' = path_segments p"
    using entry_covers_literal[OF x(2) segs(2,1)] entry_covers_literal[OF y(2) segs(2,1)] by blast
  then have "literalsOverlap (literalPrefix x) (literalPrefix y)"
    unfolding literalPrefix_def using segs(2) by (rule prefix_overlap)
  with x(1) y(1) assms(1,2) show ?thesis by (auto simp: writeScopesOverlap_def list_ex_iff)
qed

text \<open>The canonical list is its own canonical list.\<close>

lemma canonical_entries:
  assumes "canonicalizeWrites (JArr xs) = Inr ws" "w \<in> set ws"
  shows "canonical_entry w = Inr w"
proof -
  obtain raw where "canonicalizeWriteEntry raw = Inr w"
    using canonicalizeWrites_set(1)[OF assms(1)] assms(2) by blast
  then show ?thesis by (cases raw) (auto dest: canonical_entry_fixed)
qed

lemma canonical_list_fixed:
  "\<forall>w \<in> set ws. canonical_entry w = Inr w \<Longrightarrow> distinct (out @ ws) \<Longrightarrow>
     canonical_list i out (map JStr ws) = Inr (out @ ws)"
  by (induction ws arbitrary: i out) auto

lemma canonicalizeWrites_fixed:
  assumes "canonicalizeWrites (JArr xs) = Inr ws"
  shows "canonicalizeWrites (JArr (map JStr ws)) = Inr ws"
  using canonical_list_fixed[of ws "[]" 0] canonical_entries[OF assms] canonicalizeWrites_set(2)[OF assms]
  by (simp add: canonicalizeWrites_def)

text \<open>Widening a scope keeps every path it covered; reading the scope canonically changes no answer.\<close>

lemma scope_some_readable:
  "\<forall>raw \<in> set scope. \<exists>e. canonicalizeWriteEntry raw = Inr e \<Longrightarrow>
     scope_some covers scope = Inr (\<exists>raw \<in> set scope. \<exists>e. canonicalizeWriteEntry raw = Inr e \<and> covers e)"
  by (induction scope) (auto split: sum.splits)

lemma matches_mono:
  assumes "matchesWriteScope (JStr p) A = Inr True"
    and "canonicalizeWrites (JArr A) = Inr a" "canonicalizeWrites (JArr B) = Inr b" "set a \<subseteq> set b"
  shows "matchesWriteScope (JStr p) B = Inr True"
proof -
  obtain e where e: "e \<in> set a" "entry_covers (path_segments p) e"
    using matches_covers(1)[OF assms(1)] canonicalizeWrites_set(1)[OF assms(2)] by blast
  with assms(4) have "\<exists>raw \<in> set B. \<exists>e. canonicalizeWriteEntry raw = Inr e \<and> entry_covers (path_segments p) e"
    using canonicalizeWrites_set(1)[OF assms(3)] by blast
  then have "scope_some (entry_covers (path_segments p)) B = Inr True"
    using scope_some_readable[OF canonicalizeWrites_set(3)[OF assms(3)]] by simp
  with assms(1) show ?thesis by (auto simp: matchesWriteScope_def Let_def split: if_splits)
qed

lemma generated_keeps:
  assumes "expandGenerated (JArr A) gs = Inr b" "canonicalizeWrites (JArr A) = Inr a"
  shows "set a \<subseteq> set b"
proof -
  obtain added where "canonicalizeWrites (JArr (map JStr a @ added)) = Inr b"
    using assms by (auto simp: expandGenerated_def e_bind_Inr)
  note b = canonicalizeWrites_set(1)[OF this]
  show ?thesis
  proof
    fix w
    assume w: "w \<in> set a"
    then have "canonicalizeWriteEntry (JStr w) = Inr w" using canonical_entries[OF assms(2)] by simp
    moreover have "JStr w \<in> set (map JStr a @ added)" using w by simp
    ultimately show "w \<in> set b" unfolding b by blast
  qed
qed

lemma generated_wider:
  assumes "matchesWriteScope (JStr p) A = Inr True"
    and "expandGenerated (JArr A) gs = Inr b" "canonicalizeWrites (JArr A) = Inr a"
  shows "matchesWriteScope (JStr p) (map JStr b) = Inr True"
proof (rule matches_mono[OF assms(1,3)])
  obtain xs where "canonicalizeWrites (JArr xs) = Inr b"
    using assms(2) by (auto simp: expandGenerated_def e_bind_Inr)
  then show "canonicalizeWrites (JArr (map JStr b)) = Inr b" by (rule canonicalizeWrites_fixed)
  show "set a \<subseteq> set b" using assms(2,3) by (rule generated_keeps)
qed

text \<open>The store is never inside a scope, and a path that escapes never is.\<close>

lemma matches_never:
  "hd (path_segments p) = STORE_DIR \<or> ''..'' \<in> set (path_segments p) \<or> startsWith p [fslash] \<Longrightarrow>
     matchesWriteScope (JStr p) scope = Inr False"
  by (auto simp: matchesWriteScope_def Let_def)

text \<open>Partition: every path lands on one side, in its order.\<close>

lemma partition_into_filter:
  "partition_into scope inS outS ps = Inr (ins, outs) \<Longrightarrow>
     ins = inS @ filter (\<lambda>p. matchesWriteScope p scope = Inr True) ps
     \<and> outs = outS @ filter (\<lambda>p. matchesWriteScope p scope = Inr False) ps"
proof (induction ps arbitrary: inS outS)
  case Nil
  then show ?case by simp
next
  case (Cons q ps)
  then obtain m where m: "matchesWriteScope q scope = Inr m"
    "(if m then partition_into scope (inS @ [q]) outS ps else partition_into scope inS (outS @ [q]) ps) = Inr (ins, outs)"
    by (auto simp: e_bind_Inr)
  show ?case
  proof (cases m)
    case True
    with m Cons.IH[of "inS @ [q]" outS] show ?thesis by simp
  next
    case False
    with m Cons.IH[of inS "outS @ [q]"] show ?thesis by simp
  qed
qed

end
