(* ===== verification/Run_Control.thy ===== *)
theory Run_Control
  imports Prelude
begin

text \<open>
  Control of a run (\<open>src/run-supervisor/run-lock.mjs\<close>): the append-only ledger of numbered
  generations, the release markers, and the three operations on them - acquire, settle, release -
  first as the functions they are, then as the steps of any number of processes that share the ledger.

  A directory is an association list of file names and contents; a content that does not parse is
  \<open>None\<close>. Installing a file under a name that is free, and refusing a name that is taken, is one
  step (\<open>installOnce\<close>, an exclusive hard link). The judge of a holder's liveness is an argument.
\<close>

section \<open>Names of generations\<close>

definition is_digit :: "char \<Rightarrow> bool" where
  "is_digit c = (48 \<le> (of_char c :: nat) \<and> (of_char c :: nat) \<le> 57)"

definition number_of_digits :: "string \<Rightarrow> nat" where
  "number_of_digits s = foldl (\<lambda>n c. 10 * n + (of_char c - 48)) 0 s"

definition padStart :: "nat \<Rightarrow> char \<Rightarrow> string \<Rightarrow> string" where
  "padStart k c s = replicate (k - length s) c @ s"

definition generationFileName :: "nat \<Rightarrow> string" where
  "generationFileName epoch = padStart 10 CHR ''0'' (digits epoch) @ ''.json''"

text \<open>\<open>GENERATION_FILE_RE\<close> and \<open>Number(match[1])\<close>\<close>

definition generation_epoch :: "string \<Rightarrow> nat option" where
  "generation_epoch name =
     (if length name = 15 \<and> list_all is_digit (take 10 name) \<and> drop 10 name = ''.json''
      then Some (number_of_digits (take 10 name)) else None)"

lemma digit_of_char: "d < 10 \<Longrightarrow> (of_char (char_of (48 + d :: nat)) :: nat) = 48 + d"
  by simp

lemma all_digits: "list_all is_digit (digits n)"
proof (induction n rule: digits.induct)
  case (1 n)
  have last: "is_digit (char_of (48 + m))" if "m < 10" for m :: nat
    using that by (simp add: is_digit_def)
  with 1 show ?case by (subst digits.simps) simp
qed

lemma number_append: "number_of_digits (s @ [c]) = 10 * number_of_digits s + (of_char c - 48)"
  by (simp add: number_of_digits_def)

lemma number_digits [simp]: "number_of_digits (digits n) = n"
proof (induction n rule: digits.induct)
  case (1 n)
  show ?case
  proof (cases "n < 10")
    case True
    then show ?thesis by (subst digits.simps) (simp add: number_of_digits_def)
  next
    case False
    with 1 have "number_of_digits (digits (n div 10)) = n div 10" by simp
    moreover have "(of_char (char_of (48 + n mod 10 :: nat)) :: nat) = 48 + n mod 10" by (rule digit_of_char) simp
    ultimately show ?thesis using False by (subst digits.simps) (simp add: number_append del: of_char_of)
  qed
qed

lemma number_zeros: "number_of_digits (replicate k CHR ''0'' @ s) = number_of_digits s"
  by (induction k) (simp_all add: number_of_digits_def)

lemma length_digits: "length (digits n) \<le> Suc k \<longleftrightarrow> n < 10 ^ Suc k"
proof (induction k arbitrary: n)
  case 0
  have "digits n \<noteq> []" for n by (subst digits.simps) simp
  then have "1 \<le> length (digits (n div 10))" by (simp add: Suc_le_eq)
  then show ?case by (subst digits.simps) auto
next
  case (Suc k)
  have *: "n div 10 < 10 ^ Suc k \<longleftrightarrow> n < 10 ^ Suc (Suc k)"
    by (simp only: power_Suc [of _ "Suc k"] div_less_iff_less_mult mult.commute)
  show ?case
  proof (cases "n < 10")
    case True
    moreover have "(10::nat) \<le> 10 ^ Suc (Suc k)" by simp
    ultimately have "n < 10 ^ Suc (Suc k)" by linarith
    with True show ?thesis by (subst digits.simps) simp
  next
    case False
    then have "length (digits n) = Suc (length (digits (n div 10)))" by (subst digits.simps) simp
    with Suc[of "n div 10"] * show ?thesis by simp
  qed
qed

text \<open>A name is read back as its epoch while the epoch has at most ten digits; beyond that the listing no longer sees it.\<close>

lemma generation_name: "generation_epoch (generationFileName e) = (if e < 10 ^ 10 then Some e else None)"
proof -
  have len: "length (digits e) \<le> 10 \<longleftrightarrow> e < 10 ^ 10" using length_digits[of e 9] by simp
  let ?p = "padStart 10 CHR ''0'' (digits e)"
  show ?thesis
  proof (cases "e < 10 ^ 10")
    case True
    then have "length ?p = 10" using len by (simp add: padStart_def)
    moreover have "list_all is_digit ?p"
      using all_digits[of e] by (auto simp: padStart_def list_all_iff is_digit_def)
    moreover have "number_of_digits ?p = e" by (simp add: padStart_def number_zeros)
    ultimately show ?thesis using True by (simp add: generation_epoch_def generationFileName_def)
  next
    case False
    then have "length ?p > 10" using len by (simp add: padStart_def)
    then show ?thesis using False by (simp add: generation_epoch_def generationFileName_def)
  qed
qed

lemma generationFileName_inj: "generationFileName e = generationFileName e' \<longleftrightarrow> e = e'"
proof
  assume "generationFileName e = generationFileName e'"
  then have "padStart 10 CHR ''0'' (digits e) = padStart 10 CHR ''0'' (digits e')"
    by (simp add: generationFileName_def)
  then have "number_of_digits (padStart 10 CHR ''0'' (digits e)) = number_of_digits (padStart 10 CHR ''0'' (digits e'))"
    by simp
  then show "e = e'" by (simp add: padStart_def number_zeros)
qed simp

lemma number_inj:
  "length s = length t \<Longrightarrow> list_all is_digit s \<Longrightarrow> list_all is_digit t \<Longrightarrow>
     number_of_digits s = number_of_digits t \<Longrightarrow> s = t"
proof (induction s arbitrary: t rule: rev_induct)
  case Nil
  then show ?case by simp
next
  case (snoc c s)
  then obtain t' d where t: "t = t' @ [d]" by (metis length_0_conv rev_exhaust length_append_singleton nat.distinct(1))
  have dig: "48 \<le> (of_char c :: nat)" "(of_char c :: nat) \<le> 57" "48 \<le> (of_char d :: nat)" "(of_char d :: nat) \<le> 57"
    using snoc.prems(2,3) t by (auto simp: is_digit_def)
  have eq: "10 * number_of_digits s + (of_char c - 48) = 10 * number_of_digits t' + (of_char d - 48 :: nat)"
    using snoc.prems(4) t by (simp add: number_append)
  have "number_of_digits s = number_of_digits t'" using eq dig by linarith
  moreover have "(of_char c :: nat) = of_char d" using eq dig calculation by linarith
  ultimately show ?case using snoc.IH[of t'] snoc.prems t by simp
qed

lemma number_less: "list_all is_digit s \<Longrightarrow> number_of_digits s < 10 ^ length s"
proof (induction s rule: rev_induct)
  case Nil
  then show ?case by (simp add: number_of_digits_def)
next
  case (snoc c s)
  then have "(of_char c :: nat) \<le> 57" "number_of_digits s < 10 ^ length s" by (auto simp: is_digit_def)
  then show ?case by (simp add: number_append)
qed

text \<open>Every name the listing reads is the name of the epoch it reads.\<close>

lemma generation_epoch_name: "generation_epoch name = Some e \<Longrightarrow> name = generationFileName e \<and> e < 10 ^ 10"
proof -
  assume *: "generation_epoch name = Some e"
  let ?ds = "take 10 name"
  have ds: "length ?ds = 10" "list_all is_digit ?ds" "drop 10 name = ''.json''" "e = number_of_digits ?ds"
    using * by (auto simp: generation_epoch_def split: if_splits)
  have e: "e < 10 ^ 10" using number_less[OF ds(2)] ds(1,4) by simp
  let ?p = "padStart 10 CHR ''0'' (digits e)"
  have "length ?p = 10" using length_digits[of e 9] e by (simp add: padStart_def)
  moreover have "list_all is_digit ?p" using all_digits[of e] by (auto simp: padStart_def list_all_iff is_digit_def)
  moreover have "number_of_digits ?p = e" by (simp add: padStart_def number_zeros)
  ultimately have "?p = ?ds" using ds by (intro number_inj) auto
  then have "generationFileName e = ?ds @ drop 10 name" using ds(3) by (simp add: generationFileName_def)
  with e show ?thesis by simp
qed

section \<open>The ledger of generations\<close>

type_synonym holder = obj    \<comment> \<open>the identity \<open>buildRunControlHolder\<close> records\<close>

record generation =
  gn_token :: string              \<comment> \<open>\<open>controlToken\<close>\<close>
  gn_holder :: "holder option"    \<comment> \<open>absent in the record of a settlement\<close>
  gn_purpose :: string
  gn_acquiredAt :: int
  gn_settledEpoch :: "nat option"

record marker =
  mk_epoch :: nat
  mk_token :: string
  mk_releasedAt :: int

type_synonym 'c directory = "(string \<times> 'c option) list"

text \<open>\<open>parseJsonFile\<close>: a missing file and one that does not parse both read as null.\<close>

definition parseJsonFile :: "'c directory \<Rightarrow> string \<Rightarrow> 'c option" where
  "parseJsonFile dir name = (case map_of dir name of Some c \<Rightarrow> c | None \<Rightarrow> None)"

definition installOnce :: "'c directory \<Rightarrow> string \<Rightarrow> 'c \<Rightarrow> ('c directory) option" where
  "installOnce dir name c = (if name \<in> set (map fst dir) then None else Some (dir @ [(name, Some c)]))"

definition listGenerations :: "generation directory \<Rightarrow> (nat \<times> generation) list" where
  "listGenerations dir = sort_key fst (List.map_filter
     (\<lambda>(name, _). case generation_epoch name of
        None \<Rightarrow> None
      | Some epoch \<Rightarrow> map_option (\<lambda>record. (epoch, record)) (parseJsonFile dir name)) dir)"

definition currentGeneration :: "generation directory \<Rightarrow> (nat \<times> generation) option" where
  "currentGeneration dir = (let generations = listGenerations dir in
     if generations = [] then None else Some (last generations))"

definition releaseMarkerName :: "nat \<Rightarrow> string" where
  "releaseMarkerName epoch = generationFileName epoch @ ''.release''"

section \<open>The decisions\<close>

datatype answer =
    Acquired nat string
  | Held nat "holder option"
  | Stale "nat option"
  | RunSettled nat                \<comment> \<open>\<open>acquireRunControl\<close> met a settled run\<close>
  | Superseded "nat option"
  | AlreadySettled nat
  | Settled nat                   \<comment> \<open>\<open>settleRunControl\<close> committed\<close>
  | Unreadable nat                \<comment> \<open>the error \<open>generation-unreadable\<close>\<close>

datatype decision = Stop answer | Publish generation

record acquire_args =
  aa_holder :: holder
  aa_purpose :: string
  aa_expected :: "nat option option"    \<comment> \<open>\<open>expectedControlEpoch\<close>; \<open>Some None\<close> is an explicit null\<close>
  aa_ttl :: "int option"
  aa_now :: int

definition decide_acquire ::
  "(holder option \<Rightarrow> bool) \<Rightarrow> marker directory \<Rightarrow> acquire_args \<Rightarrow> string \<Rightarrow> (nat \<times> generation) option \<Rightarrow> decision" where
  "decide_acquire dead marks a token current =
     (if aa_expected a \<noteq> None \<and> map_option fst current \<noteq> the (aa_expected a) then Stop (Stale (map_option fst current))
      else let publish = Publish \<lparr>gn_token = token, gn_holder = Some (aa_holder a), gn_purpose = aa_purpose a,
                                gn_acquiredAt = aa_now a, gn_settledEpoch = None\<rparr> in
        case current of
          None \<Rightarrow> publish
        | Some (epoch, record) \<Rightarrow>
            if gn_purpose record = ''settled'' then Stop (RunSettled epoch)
            else if parseJsonFile marks (releaseMarkerName epoch) \<noteq> None then publish
            else if (case aa_ttl a of Some ttlMs \<Rightarrow> aa_now a - gn_acquiredAt record \<le> ttlMs | None \<Rightarrow> False)
              then Stop (Held epoch (gn_holder record))
            else if \<not> dead (gn_holder record) then Stop (Held epoch (gn_holder record))
            else publish)"

definition decide_settle :: "nat \<Rightarrow> string \<Rightarrow> int \<Rightarrow> (nat \<times> generation) option \<Rightarrow> decision" where
  "decide_settle controlEpoch controlToken now current = (case current of
     None \<Rightarrow> Stop (Superseded None)
   | Some (epoch, record) \<Rightarrow>
       if epoch \<noteq> controlEpoch \<or> gn_token record \<noteq> controlToken then Stop (Superseded (Some epoch))
       else if gn_purpose record = ''settled'' then Stop (AlreadySettled epoch)
       else Publish \<lparr>gn_token = controlToken, gn_holder = None, gn_purpose = ''settled'',
                     gn_acquiredAt = now, gn_settledEpoch = Some controlEpoch\<rparr>)"

definition next_epoch :: "(nat \<times> generation) option \<Rightarrow> nat" where
  "next_epoch current = (case current of None \<Rightarrow> 0 | Some (epoch, _) \<Rightarrow> epoch) + 1"

text \<open>
  One attempt of \<open>publishNextGeneration\<close> to install generation \<open>n\<close>: published, lost to a record that
  reads (read the ledger again), or met a name that is taken and cannot be read (an error).
\<close>

datatype attempt = Published | LostRace | Blocked

definition try_publish :: "generation directory \<Rightarrow> nat \<Rightarrow> generation \<Rightarrow> generation directory \<times> attempt" where
  "try_publish dir n g = (case installOnce dir (generationFileName n) g of
     Some dir' \<Rightarrow> (dir', Published)
   | None \<Rightarrow> (dir, if parseJsonFile dir (generationFileName n) \<noteq> None then LostRace else Blocked))"

text \<open>
  \<open>publishNextGeneration\<close> of a process that is alone: the loop lists again after a lost race. As a
  partial function, so that a loop that never ends has no value.
\<close>

partial_function (option) publishNextGeneration ::
  "((nat \<times> generation) option \<Rightarrow> decision) \<Rightarrow> generation directory \<Rightarrow> (generation directory \<times> (answer + nat \<times> generation)) option"
where
  "publishNextGeneration f dir = (let current = currentGeneration dir in
     case f current of
       Stop a \<Rightarrow> Some (dir, Inl a)
     | Publish g \<Rightarrow> (case try_publish dir (next_epoch current) g of
         (dir', Published) \<Rightarrow> Some (dir', Inr (next_epoch current, g))
       | (_, LostRace) \<Rightarrow> publishNextGeneration f dir
       | (_, Blocked) \<Rightarrow> Some (dir, Inl (Unreadable (next_epoch current)))))"

definition answer_of :: "(nat \<Rightarrow> generation \<Rightarrow> answer) \<Rightarrow> answer + nat \<times> generation \<Rightarrow> answer" where
  "answer_of made r = (case r of Inl a \<Rightarrow> a | Inr (n, g) \<Rightarrow> made n g)"

definition acquireRunControl ::
  "(holder option \<Rightarrow> bool) \<Rightarrow> generation directory \<Rightarrow> marker directory \<Rightarrow> acquire_args \<Rightarrow> string \<Rightarrow> (generation directory \<times> answer) option" where
  "acquireRunControl dead dir marks a token =
     map_option (map_prod id (answer_of (\<lambda>n g. Acquired n (gn_token g))))
       (publishNextGeneration (decide_acquire dead marks a token) dir)"

definition settleRunControl ::
  "generation directory \<Rightarrow> nat \<Rightarrow> string \<Rightarrow> int \<Rightarrow> (generation directory \<times> answer) option" where
  "settleRunControl dir controlEpoch controlToken now =
     map_option (map_prod id (answer_of (\<lambda>n g. Settled n)))
       (publishNextGeneration (decide_settle controlEpoch controlToken now) dir)"

text \<open>\<open>publishMarkerOnce\<close> and the release of a token\<close>

datatype release_answer = UnknownGeneration | TokenMismatch | Released | AlreadyReleased

definition releaseRunControl ::
  "generation directory \<Rightarrow> marker directory \<Rightarrow> nat \<Rightarrow> string \<Rightarrow> int \<Rightarrow> marker directory \<times> release_answer" where
  "releaseRunControl dir marks controlEpoch controlToken now =
     (case parseJsonFile dir (generationFileName controlEpoch) of
        None \<Rightarrow> (marks, UnknownGeneration)
      | Some record \<Rightarrow>
          if gn_token record \<noteq> controlToken then (marks, TokenMismatch)
          else case installOnce marks (releaseMarkerName controlEpoch)
                  \<lparr>mk_epoch = controlEpoch, mk_token = controlToken, mk_releasedAt = now\<rparr> of
            Some marks' \<Rightarrow> (marks', Released)
          | None \<Rightarrow> (marks, AlreadyReleased))"

definition isRunControlCurrent :: "generation directory \<Rightarrow> nat \<Rightarrow> string \<Rightarrow> bool" where
  "isRunControlCurrent dir controlEpoch controlToken = (case currentGeneration dir of
     None \<Rightarrow> False
   | Some (epoch, record) \<Rightarrow> epoch = controlEpoch \<and> gn_token record = controlToken)"

datatype inspection = NotHeld | NotHeldSettled nat | NotHeldAt nat | HeldBy nat "holder option"

definition inspectRunControl :: "(holder option \<Rightarrow> bool) \<Rightarrow> generation directory \<Rightarrow> marker directory \<Rightarrow> inspection" where
  "inspectRunControl dead dir marks = (case currentGeneration dir of
     None \<Rightarrow> NotHeld
   | Some (epoch, record) \<Rightarrow>
       if gn_purpose record = ''settled'' then NotHeldSettled epoch
       else if parseJsonFile marks (releaseMarkerName epoch) \<noteq> None then NotHeldAt epoch
       else if dead (gn_holder record) then NotHeldAt epoch
       else HeldBy epoch (gn_holder record))"

section \<open>Processes that share the ledger\<close>

datatype call = AcquireCall acquire_args | SettleCall nat string int

datatype phase =
    Idle
  | Listing call                                       \<comment> \<open>about to list the generations\<close>
  | Deciding call "(nat \<times> generation) option"         \<comment> \<open>with the generation it listed as current\<close>
  | Installing call nat generation                     \<comment> \<open>about to install its record\<close>
  | Returned answer

record system =
  sy_gens :: "generation directory"
  sy_marks :: "marker directory"
  sy_dead :: "holder set"              \<comment> \<open>the holders whose process has ended\<close>
  sy_tokens :: "string set"            \<comment> \<open>the tokens drawn so far\<close>
  sy_procs :: "nat \<Rightarrow> phase"

definition decide ::
  "(holder option \<Rightarrow> bool) \<Rightarrow> marker directory \<Rightarrow> call \<Rightarrow> string \<Rightarrow> (nat \<times> generation) option \<Rightarrow> decision" where
  "decide dead marks c token current = (case c of
     AcquireCall a \<Rightarrow> decide_acquire dead marks a token current
   | SettleCall epoch tok now \<Rightarrow> decide_settle epoch tok now current)"

definition published_answer :: "call \<Rightarrow> nat \<Rightarrow> generation \<Rightarrow> answer" where
  "published_answer c n g = (case c of AcquireCall _ \<Rightarrow> Acquired n (gn_token g) | SettleCall _ _ _ \<Rightarrow> Settled n)"

text \<open>The judge proves a death only of a process that has ended.\<close>

definition sound_judge :: "(holder option \<Rightarrow> bool) \<Rightarrow> system \<Rightarrow> bool" where
  "sound_judge dead s \<longleftrightarrow> (\<forall>h. dead h \<longrightarrow> (\<exists>i. h = Some i \<and> i \<in> sy_dead s))"

inductive control_step :: "system \<Rightarrow> system \<Rightarrow> bool" where
  begin_call: "sy_procs s p = Idle \<or> (\<exists>a. sy_procs s p = Returned a) \<Longrightarrow>
     control_step s (s\<lparr>sy_procs := (sy_procs s)(p := Listing c)\<rparr>)"
| list_generations: "sy_procs s p = Listing c \<Longrightarrow>
     control_step s (s\<lparr>sy_procs := (sy_procs s)(p := Deciding c (currentGeneration (sy_gens s)))\<rparr>)"
| decide_stop: "sy_procs s p = Deciding c current \<Longrightarrow> sound_judge dead s \<Longrightarrow> token \<notin> sy_tokens s \<Longrightarrow>
     decide dead (sy_marks s) c token current = Stop a \<Longrightarrow>
     control_step s (s\<lparr>sy_procs := (sy_procs s)(p := Returned a)\<rparr>)"
| decide_publish: "sy_procs s p = Deciding c current \<Longrightarrow> sound_judge dead s \<Longrightarrow> token \<notin> sy_tokens s \<Longrightarrow>
     decide dead (sy_marks s) c token current = Publish g \<Longrightarrow>
     control_step s (s\<lparr>sy_tokens := insert token (sy_tokens s),
       sy_procs := (sy_procs s)(p := Installing c (next_epoch current) g)\<rparr>)"
| publish_won: "sy_procs s p = Installing c n g \<Longrightarrow> try_publish (sy_gens s) n g = (dir, Published) \<Longrightarrow>
     control_step s (s\<lparr>sy_gens := dir, sy_procs := (sy_procs s)(p := Returned (published_answer c n g))\<rparr>)"
| publish_lost: "sy_procs s p = Installing c n g \<Longrightarrow> try_publish (sy_gens s) n g = (dir, LostRace) \<Longrightarrow>
     control_step s (s\<lparr>sy_procs := (sy_procs s)(p := Listing c)\<rparr>)"
| publish_blocked: "sy_procs s p = Installing c n g \<Longrightarrow> try_publish (sy_gens s) n g = (dir, Blocked) \<Longrightarrow>
     control_step s (s\<lparr>sy_procs := (sy_procs s)(p := Returned (Unreadable n))\<rparr>)"
| release: "releaseRunControl (sy_gens s) (sy_marks s) epoch token now = (marks, r) \<Longrightarrow>
     control_step s (s\<lparr>sy_marks := marks\<rparr>)"
| process_ends: "control_step s (s\<lparr>sy_dead := insert h (sy_dead s)\<rparr>)"
| foreign_file: "name \<notin> set (map fst (sy_gens s)) \<Longrightarrow>
     control_step s (s\<lparr>sy_gens := sy_gens s @ [(name, None)]\<rparr>)"
| foreign_marker: "name \<notin> set (map fst (sy_marks s)) \<Longrightarrow>
     control_step s (s\<lparr>sy_marks := sy_marks s @ [(name, None)]\<rparr>)"

definition start_system :: system where
  "start_system = \<lparr>sy_gens = [], sy_marks = [], sy_dead = {}, sy_tokens = {}, sy_procs = (\<lambda>_. Idle)\<rparr>"

inductive control_reachable :: "system \<Rightarrow> bool" where
  start: "control_reachable start_system"
| step: "control_reachable s \<Longrightarrow> control_step s t \<Longrightarrow> control_reachable t"

section \<open>What a ledger holds\<close>

definition gen_at :: "system \<Rightarrow> nat \<Rightarrow> generation option" where
  "gen_at s e = parseJsonFile (sy_gens s) (generationFileName e)"

definition listed :: "generation directory \<Rightarrow> nat \<Rightarrow> generation \<Rightarrow> bool" where
  "listed dir e g \<longleftrightarrow> e < 10 ^ 10 \<and> parseJsonFile dir (generationFileName e) = Some g"

definition released :: "system \<Rightarrow> nat \<Rightarrow> bool" where
  "released s e \<longleftrightarrow> parseJsonFile (sy_marks s) (releaseMarkerName e) \<noteq> None"

lemma parse_in_dir: "parseJsonFile dir name = Some c \<Longrightarrow> name \<in> set (map fst dir)"
proof -
  assume "parseJsonFile dir name = Some c"
  then have "map_of dir name = Some (Some c)" by (auto simp: parseJsonFile_def split: option.splits)
  then show ?thesis using map_of_SomeD by force
qed

lemma set_listGenerations: "(e, g) \<in> set (listGenerations dir) \<longleftrightarrow> listed dir e g"
proof
  assume "(e, g) \<in> set (listGenerations dir)"
  then obtain name where "generation_epoch name = Some e" "parseJsonFile dir name = Some g"
    by (auto simp: listGenerations_def List.map_filter_def split: option.splits)
  then show "listed dir e g" using generation_epoch_name unfolding listed_def by metis
next
  assume *: "listed dir e g"
  then have e: "generation_epoch (generationFileName e) = Some e"
    using generation_name[of e] by (simp add: listed_def)
  have p: "parseJsonFile dir (generationFileName e) = Some g" using * by (simp add: listed_def)
  then obtain x where x: "(generationFileName e, x) \<in> set dir" using parse_in_dir by fastforce
  let ?f = "\<lambda>(name, _::generation option). case generation_epoch name of None \<Rightarrow> None
      | Some epoch \<Rightarrow> map_option (\<lambda>record. (epoch, record)) (parseJsonFile dir name)"
  have "?f (generationFileName e, x) = Some (e, g)" using e p by simp
  with x show "(e, g) \<in> set (listGenerations dir)"
    by (force simp: listGenerations_def List.map_filter_def)
qed

lemma last_sorted: "sorted (map fst xs) \<Longrightarrow> xs \<noteq> [] \<Longrightarrow> x \<in> set xs \<Longrightarrow> fst x \<le> fst (last xs)"
  by (induction xs) (auto split: if_splits)

lemma sorted_listGenerations: "sorted (map fst (listGenerations dir))"
  by (simp add: listGenerations_def)

lemma current_Some:
  "currentGeneration dir = Some (e, g) \<longleftrightarrow> listed dir e g \<and> (\<forall>e' g'. listed dir e' g' \<longrightarrow> e' \<le> e)"
proof
  assume *: "currentGeneration dir = Some (e, g)"
  then have ne: "listGenerations dir \<noteq> []" and l: "last (listGenerations dir) = (e, g)"
    by (auto simp: currentGeneration_def Let_def split: if_splits)
  have "listed dir e g" using last_in_set[OF ne] l set_listGenerations by simp
  moreover have "e' \<le> e" if "listed dir e' g'" for e' g'
    using last_sorted[OF sorted_listGenerations ne, of "(e', g')"] that l set_listGenerations by simp
  ultimately show "listed dir e g \<and> (\<forall>e' g'. listed dir e' g' \<longrightarrow> e' \<le> e)" by blast
next
  assume *: "listed dir e g \<and> (\<forall>e' g'. listed dir e' g' \<longrightarrow> e' \<le> e)"
  then have ne: "listGenerations dir \<noteq> []" using set_listGenerations by force
  obtain e' g' where l: "last (listGenerations dir) = (e', g')" by fastforce
  have l': "listed dir e' g'" using last_in_set[OF ne] l set_listGenerations by simp
  have "e \<le> e'" using last_sorted[OF sorted_listGenerations ne, of "(e, g)"] * l set_listGenerations by simp
  then have "e = e'" using * l' by (meson order_antisym)
  moreover have "g = g'" using * l' calculation by (simp add: listed_def)
  ultimately show "currentGeneration dir = Some (e, g)" using ne l by (simp add: currentGeneration_def Let_def)
qed

lemma current_None: "currentGeneration dir = None \<longleftrightarrow> (\<forall>e g. \<not> listed dir e g)"
proof -
  have "listGenerations dir = [] \<longleftrightarrow> (\<forall>e g. (e, g) \<notin> set (listGenerations dir))"
    by (cases "listGenerations dir") auto
  then show ?thesis by (simp add: currentGeneration_def Let_def set_listGenerations)
qed

lemma parse_absent: "name \<notin> set (map fst dir) \<Longrightarrow> parseJsonFile dir name = None"
  by (meson not_None_eq parse_in_dir)

lemma parse_append:
  "parseJsonFile (dir @ [(n, c)]) name =
     (if name = n \<and> n \<notin> set (map fst dir) then c else parseJsonFile dir name)"
proof (cases "name \<in> set (map fst dir)")
  case True
  then obtain x where "map_of dir name = Some x" by (metis map_of_eq_None_iff not_None_eq set_map)
  with True show ?thesis by (auto simp: parseJsonFile_def map_add_def)
next
  case False
  then have "map_of dir name = None" by (simp add: map_of_eq_None_iff)
  with False show ?thesis by (auto simp: parseJsonFile_def map_add_def)
qed

section \<open>The invariant\<close>

text \<open>
  How a generation was taken over: its run was not settled, and it was released, or its holder had
  ended, or the record that follows it is its own settlement.
\<close>

definition handed_over :: "system \<Rightarrow> nat \<Rightarrow> generation \<Rightarrow> generation \<Rightarrow> bool" where
  "handed_over s e g g' \<longleftrightarrow> gn_purpose g \<noteq> ''settled'' \<and>
     (released s e \<or> (\<exists>h \<in> sy_dead s. gn_holder g = Some h)
      \<or> gn_purpose g' = ''settled'' \<and> gn_token g' = gn_token g)"

definition follows :: "system \<Rightarrow> nat \<Rightarrow> generation \<Rightarrow> bool" where
  "follows s n g \<longleftrightarrow> n = 1 \<or> 2 \<le> n \<and> (\<exists>g'. listed (sy_gens s) (n - 1) g' \<and> handed_over s (n - 1) g' g)"

definition control_inv :: "system \<Rightarrow> bool" where
  "control_inv s \<longleftrightarrow> (\<forall>e g. gen_at s e = Some g \<longrightarrow> follows s e g)
     \<and> (\<forall>p c e g. sy_procs s p = Deciding c (Some (e, g)) \<longrightarrow> listed (sy_gens s) e g)
     \<and> (\<forall>p c n g. sy_procs s p = Installing c n g \<longrightarrow> follows s n g)
     \<and> (\<forall>p e t. sy_procs s p = Returned (Acquired e t) \<longrightarrow> (\<exists>g. gen_at s e = Some g \<and> gn_token g = t))
     \<and> (\<forall>p q e t t'. sy_procs s p = Returned (Acquired e t) \<longrightarrow> sy_procs s q = Returned (Acquired e t') \<longrightarrow> p = q)"

definition extends :: "system \<Rightarrow> system \<Rightarrow> bool" where
  "extends s t \<longleftrightarrow> (\<forall>e g. gen_at s e = Some g \<longrightarrow> gen_at t e = Some g) \<and> (\<forall>e. released s e \<longrightarrow> released t e)
     \<and> sy_dead s \<subseteq> sy_dead t"

lemma parse_append_mono:
  "parseJsonFile dir name = Some c \<Longrightarrow> parseJsonFile (dir @ [(n, x)]) name = Some c"
  using parse_in_dir[of dir name c] by (auto simp: parse_append)

lemma releaseRunControl_mono:
  assumes "releaseRunControl dir marks e t now = (marks', r)" "parseJsonFile marks name = Some m"
  shows "parseJsonFile marks' name = Some m"
  using assms parse_append_mono[OF assms(2)]
  by (auto simp: releaseRunControl_def installOnce_def split: option.splits if_splits)

lemma try_publish_Published:
  assumes "try_publish dir n g = (dir', Published)"
  shows "dir' = dir @ [(generationFileName n, Some g)]" "generationFileName n \<notin> set (map fst dir)"
  using assms by (auto simp: try_publish_def installOnce_def split: if_splits)

lemma control_step_extends: "control_step s t \<Longrightarrow> extends s t"
proof (induction rule: control_step.induct)
  case (publish_won s p c n g dir)
  then show ?case
    using try_publish_Published(1)[OF publish_won(2)]
    by (auto simp: extends_def gen_at_def released_def intro: parse_append_mono)
next
  case (release s epoch token now marks r)
  then show ?case
    using releaseRunControl_mono[OF release] by (fastforce simp: extends_def gen_at_def released_def)
next
  case (foreign_file name s)
  then show ?case by (auto simp: extends_def gen_at_def released_def intro: parse_append_mono)
next
  case (foreign_marker name s)
  then show ?case using parse_append_mono by (fastforce simp: extends_def gen_at_def released_def)
qed (auto simp: extends_def gen_at_def released_def)

lemma listed_gen_at: "listed (sy_gens s) e g \<longleftrightarrow> e < 10 ^ 10 \<and> gen_at s e = Some g"
  by (simp add: listed_def gen_at_def)

lemma handed_over_mono: "extends s t \<Longrightarrow> handed_over s e g g' \<Longrightarrow> handed_over t e g g'"
  by (auto simp: extends_def handed_over_def)

lemma follows_mono: "extends s t \<Longrightarrow> follows s n g \<Longrightarrow> follows t n g"
  using handed_over_mono unfolding follows_def listed_gen_at extends_def by meson

text \<open>The decision to publish is what hands the ledger over.\<close>

lemma decide_publish_follows:
  assumes "decide dead (sy_marks s) c token current = Publish g" "sound_judge dead s"
    and "\<forall>e g. current = Some (e, g) \<longrightarrow> listed (sy_gens s) e g"
    and "\<forall>e g. gen_at s e = Some g \<longrightarrow> follows s e g"
  shows "follows s (next_epoch current) g"
proof (cases current)
  case None
  then show ?thesis by (simp add: next_epoch_def follows_def)
next
  case (Some eg)
  then obtain e g' where cur: "current = Some (e, g')" by (cases eg) simp
  then have l: "listed (sy_gens s) e g'" using assms(3) by blast
  then have "follows s e g'" using assms(4) listed_gen_at by blast
  then have e: "1 \<le> e" by (auto simp: follows_def)
  have "handed_over s e g' g"
  proof (cases c)
    case (AcquireCall a)
    then have "decide_acquire dead (sy_marks s) a token (Some (e, g')) = Publish g"
      using assms(1) cur by (simp add: decide_def)
    then have "gn_purpose g' \<noteq> ''settled''" "released s e \<or> dead (gn_holder g')"
      by (auto simp: decide_acquire_def Let_def released_def split: if_splits)
    then show ?thesis using assms(2) by (auto simp: handed_over_def sound_judge_def)
  next
    case (SettleCall epoch tok now)
    then have "decide_settle epoch tok now (Some (e, g')) = Publish g"
      using assms(1) cur by (simp add: decide_def)
    then show ?thesis by (auto simp: decide_settle_def handed_over_def split: if_splits)
  qed
  with l e show ?thesis unfolding cur next_epoch_def follows_def by auto
qed

lemma gen_at_publish:
  assumes "try_publish (sy_gens s) n g = (dir, Published)"
  shows "gen_at (s\<lparr>sy_gens := dir, sy_procs := pr\<rparr>) e = (if e = n then Some g else gen_at s e)"
    and "gen_at s n = None"
  using try_publish_Published[OF assms]
  by (auto simp: gen_at_def parse_append generationFileName_inj parse_absent)

lemma listed_mono: "extends s t \<Longrightarrow> listed (sy_gens s) e g \<Longrightarrow> listed (sy_gens t) e g"
  by (simp add: listed_gen_at extends_def)

lemma control_inv_step:
  assumes "control_step s t" "control_inv s"
  shows "control_inv t"
proof -
  have ext: "extends s t" using assms(1) by (rule control_step_extends)
  have files: "\<forall>e g. gen_at t e = Some g \<longrightarrow> follows t e g"
    if "\<forall>e g. gen_at t e = Some g \<longrightarrow> gen_at s e = Some g \<or> follows s e g"
  proof (intro allI impI)
    fix e g
    assume "gen_at t e = Some g"
    with that have "gen_at s e = Some g \<or> follows s e g" by blast
    then have "follows s e g" using assms(2) unfolding control_inv_def by blast
    then show "follows t e g" by (rule follows_mono[OF ext])
  qed
  have same: "control_inv t"
    if "\<forall>e. gen_at t e = gen_at s e" "sy_procs t = sy_procs s"
    using assms(2) that files follows_mono[OF ext] listed_mono[OF ext] unfolding control_inv_def by simp
  have one: "control_inv t"
    if "\<forall>e. gen_at t e = gen_at s e" "sy_procs t = (sy_procs s)(p := ph)" "\<forall>e t. ph \<noteq> Returned (Acquired e t)"
      "\<forall>c e g. ph = Deciding c (Some (e, g)) \<longrightarrow> listed (sy_gens s) e g"
      "\<forall>c n g. ph = Installing c n g \<longrightarrow> follows s n g" for p ph
    using assms(2) that files follows_mono[OF ext] listed_mono[OF ext] unfolding control_inv_def by simp
  show ?thesis
    using assms(1)
  proof (cases rule: control_step.cases)
    case (begin_call p c)
    then show ?thesis by (intro one[of p "Listing c"]) (auto simp: gen_at_def)
  next
    case (list_generations p c)
    then show ?thesis
      by (intro one[of p "Deciding c (currentGeneration (sy_gens s))"]) (auto simp: gen_at_def current_Some)
  next
    case (decide_stop p c current dead token a)
    have "\<forall>e t. a \<noteq> Acquired e t"
      using decide_stop(5)
      by (auto simp: decide_def decide_acquire_def decide_settle_def Let_def split: call.splits option.splits if_splits)
    with decide_stop show ?thesis by (intro one[of p "Returned a"]) (auto simp: gen_at_def)
  next
    case (decide_publish p c current dead token g)
    have "follows s (next_epoch current) g"
      using decide_publish(5,3) decide_publish(2) assms(2) unfolding control_inv_def
      by (intro decide_publish_follows) auto
    with decide_publish show ?thesis
      by (intro one[of p "Installing c (next_epoch current) g"]) (auto simp: gen_at_def)
  next
    case (publish_lost p c n g dir)
    then show ?thesis by (intro one[of p "Listing c"]) (auto simp: gen_at_def)
  next
    case (publish_blocked p c n g dir)
    then show ?thesis by (intro one[of p "Returned (Unreadable n)"]) (auto simp: gen_at_def)
  next
    case (release epoch token now marks r)
    then show ?thesis by (intro same) (auto simp: gen_at_def)
  next
    case (process_ends h)
    then show ?thesis by (intro same) (auto simp: gen_at_def)
  next
    case (foreign_file name)
    then show ?thesis
      by (intro same) (auto simp: gen_at_def parse_append parse_absent)
  next
    case (foreign_marker name)
    then show ?thesis by (intro same) (auto simp: gen_at_def)
  next
    case (publish_won p c n g dir)
    note at = gen_at_publish[OF publish_won(3)]
    have at_t: "\<forall>e. gen_at t e = (if e = n then Some g else gen_at s e)"
      using at(1) publish_won(1) by blast
    have fol: "follows s n g" using assms(2) publish_won(2) unfolding control_inv_def by blast
    have fresh: "sy_procs s q \<noteq> Returned (Acquired n u)" for q u
      using assms(2) at(2) unfolding control_inv_def by (metis option.distinct(1))
    have ph: "sy_procs t = (sy_procs s)(p := Returned (published_answer c n g))" using publish_won(1) by simp
    have ans: "published_answer c n g = Acquired e u \<Longrightarrow> e = n \<and> u = gn_token g" for e u
      by (auto simp: published_answer_def split: call.splits)
    have alone: "sy_procs s q \<noteq> Returned (Acquired e u')" if "published_answer c n g = Acquired e u" for q e u u'
      using ans[OF that] fresh by blast
    have "\<forall>e g. gen_at t e = Some g \<longrightarrow> follows t e g" using at_t fol assms(2) by (intro files) (auto simp: control_inv_def)
    then show ?thesis
      using assms(2) at_t at(2) ans ph alone fresh follows_mono[OF ext] listed_mono[OF ext]
      unfolding control_inv_def by (intro conjI) auto
  qed
qed

lemma control_inv: "control_reachable s \<Longrightarrow> control_inv s"
proof (induction rule: control_reachable.induct)
  case start
  show ?case by (simp add: control_inv_def start_system_def gen_at_def parseJsonFile_def)
next
  case (step s t)
  then show ?case by (blast intro: control_inv_step)
qed

section \<open>What the invariant gives\<close>

lemma gen_at_below:
  "control_inv s \<Longrightarrow> gen_at s n = Some g \<Longrightarrow> 1 \<le> e \<Longrightarrow> e < n \<Longrightarrow>
     \<exists>g1 g2. listed (sy_gens s) e g1 \<and> gen_at s (e + 1) = Some g2 \<and> handed_over s e g1 g2"
proof (induction n arbitrary: g)
  case 0
  then show ?case by simp
next
  case (Suc n)
  then have "follows s (Suc n) g" by (simp add: control_inv_def)
  with Suc.prems(3,4) obtain g' where g': "listed (sy_gens s) n g'" "handed_over s n g' g"
    by (auto simp: follows_def)
  show ?case
  proof (cases "e = n")
    case True
    with g' Suc.prems(2) show ?thesis by auto
  next
    case False
    with Suc.prems(4) have "e < n" by simp
    with Suc.IH[of g'] Suc.prems(1,3) g'(1) show ?thesis by (simp add: listed_gen_at)
  qed
qed

lemma gen_at_pos: "control_inv s \<Longrightarrow> gen_at s e = Some g \<Longrightarrow> 1 \<le> e"
  by (fastforce simp: control_inv_def follows_def)

lemma taken_over:
  assumes "control_inv s" "listed (sy_gens s) e g" "listed (sy_gens s) e' g'" "e < e'"
  shows "\<exists>g2. gen_at s (e + 1) = Some g2 \<and> handed_over s e g g2"
proof -
  have at: "gen_at s e = Some g" "gen_at s e' = Some g'" using assms(2,3) by (simp_all add: listed_gen_at)
  have "1 \<le> e" using gen_at_pos[OF assms(1) at(1)] .
  from gen_at_below[OF assms(1) at(2) this assms(4)] at(1) show ?thesis by (auto simp: listed_gen_at)
qed

text \<open>A generation that may still write: listed, not a settlement, not released, its holder not known to have ended.\<close>

definition active :: "system \<Rightarrow> nat \<Rightarrow> generation \<Rightarrow> bool" where
  "active s e g \<longleftrightarrow> listed (sy_gens s) e g \<and> gn_purpose g \<noteq> ''settled'' \<and> \<not> released s e
     \<and> (\<forall>h \<in> sy_dead s. gn_holder g \<noteq> Some h)"

lemma active_below_settled:
  assumes "control_inv s" "active s e g" "listed (sy_gens s) e' g'" "e < e'"
  shows "e' = e + 1" "gn_purpose g' = ''settled''" "gn_token g' = gn_token g"
proof -
  have l: "listed (sy_gens s) e g" using assms(2) by (simp add: active_def)
  obtain g2 where g2: "gen_at s (e + 1) = Some g2" "handed_over s e g g2"
    using taken_over[OF assms(1) l assms(3,4)] by blast
  then have set: "gn_purpose g2 = ''settled''" "gn_token g2 = gn_token g"
    using assms(2) by (auto simp: handed_over_def active_def)
  have e': "e' < 10 ^ 10" "gen_at s e' = Some g'" using assms(3) by (simp_all add: listed_gen_at)
  show eq: "e' = e + 1"
  proof (rule ccontr)
    assume "e' \<noteq> e + 1"
    with assms(4) have lt: "e + 1 < e'" by simp
    then have "listed (sy_gens s) (e + 1) g2" using g2(1) e' by (simp add: listed_gen_at)
    from taken_over[OF assms(1) this assms(3) lt] set(1) show False by (auto simp: handed_over_def)
  qed
  show "gn_purpose g' = ''settled''" "gn_token g' = gn_token g" using set g2(1) e'(2) eq by simp_all
qed

lemma active_unique:
  assumes "control_inv s" "active s e g" "active s e' g'"
  shows "e = e'"
proof (rule ccontr)
  assume "e \<noteq> e'"
  then consider "e < e'" | "e' < e" by linarith
  then show False
  proof cases
    case 1
    with active_below_settled(2)[OF assms(1,2) _ 1] assms(3) show False by (auto simp: active_def)
  next
    case 2
    with active_below_settled(2)[OF assms(1,3) _ 2] assms(2) show False by (auto simp: active_def)
  qed
qed

lemma steps_extend: "control_step\<^sup>*\<^sup>* s t \<Longrightarrow> extends s t"
proof (induction rule: rtranclp_induct)
  case base
  show ?case by (simp add: extends_def)
next
  case (step t u)
  then show ?case using control_step_extends[OF step(2)] by (auto simp: extends_def)
qed

lemma steps_reachable: "control_step\<^sup>*\<^sup>* s t \<Longrightarrow> control_reachable s \<Longrightarrow> control_reachable t"
  by (induction rule: rtranclp_induct) (auto intro: control_reachable.step)

lemma settled_stays:
  assumes "control_reachable s" "currentGeneration (sy_gens s) = Some (e, g)" "gn_purpose g = ''settled''"
    and "control_step\<^sup>*\<^sup>* s t"
  shows "currentGeneration (sy_gens t) = Some (e, g)"
proof -
  have inv: "control_inv t" using control_inv steps_reachable[OF assms(4,1)] by blast
  have l: "listed (sy_gens t) e g" using assms(2) listed_mono[OF steps_extend[OF assms(4)]] by (simp add: current_Some)
  have "e' \<le> e" if "listed (sy_gens t) e' g'" for e' g'
    using taken_over[OF inv l that] assms(3) by (fastforce simp: handed_over_def)
  with l show ?thesis by (simp add: current_Some)
qed

section \<open>A process that is alone\<close>

definition room :: "generation directory \<Rightarrow> bool" where
  "room dir \<longleftrightarrow> next_epoch (currentGeneration dir) < 10 ^ 10"

lemma alone_no_race:
  assumes "room dir"
  shows "parseJsonFile dir (generationFileName (next_epoch (currentGeneration dir))) = None"
proof (rule ccontr)
  assume "parseJsonFile dir (generationFileName (next_epoch (currentGeneration dir))) \<noteq> None"
  then obtain g where l: "listed dir (next_epoch (currentGeneration dir)) g"
    using assms by (auto simp: listed_def room_def)
  show False
  proof (cases "currentGeneration dir")
    case None
    with l show False using current_None by metis
  next
    case (Some eg)
    then obtain e g' where c: "currentGeneration dir = Some (e, g')" by (cases eg) simp
    with l have "next_epoch (currentGeneration dir) \<le> e" using current_Some by metis
    with c show False by (simp add: next_epoch_def)
  qed
qed

lemma publish_alone:
  assumes "room dir"
  shows "publishNextGeneration f dir = (let n = next_epoch (currentGeneration dir) in
     case f (currentGeneration dir) of
       Stop a \<Rightarrow> Some (dir, Inl a)
     | Publish g \<Rightarrow> if generationFileName n \<in> set (map fst dir) then Some (dir, Inl (Unreadable n))
                   else Some (dir @ [(generationFileName n, Some g)], Inr (n, g)))"
  using alone_no_race[OF assms]
  by (subst publishNextGeneration.simps) (auto simp: Let_def try_publish_def installOnce_def split: decision.splits)

lemma current_after_publish:
  assumes "room dir" "generationFileName (next_epoch (currentGeneration dir)) \<notin> set (map fst dir)"
  shows "currentGeneration (dir @ [(generationFileName (next_epoch (currentGeneration dir)), Some g)])
     = Some (next_epoch (currentGeneration dir), g)"
proof -
  let ?n = "next_epoch (currentGeneration dir)"
  let ?dir = "dir @ [(generationFileName ?n, Some g)]"
  have listed: "listed ?dir e h \<longleftrightarrow> (if e = ?n then h = g else listed dir e h)" for e h
    using assms by (auto simp: listed_def parse_append room_def generationFileName_inj)
  have "e \<le> ?n" if "listed dir e h" for e h
    using that current_Some[of dir] current_None[of dir]
    by (cases "currentGeneration dir") (auto simp: next_epoch_def split: prod.splits)
  then show ?thesis using listed by (auto simp: current_Some)
qed

end
