(* ===== verification/Guide_Schema.thy ===== *)
theory Guide_Schema
  imports Prelude
begin

text \<open>
  The guide of a Workflow (\<open>src/workflow/guide-schema.mjs\<close>): the model a definition is read into -
  roles, milestones, activities, decision points, MUST rows, frame defaults, closure - and
  \<open>normalizeGuide\<close> with every check it makes, in the order it makes them. The input is the raw
  definition, a value; the steps are those the loader has already normalised.
\<close>

datatype guide_error =
    Not_text string | Not_array string | Not_object string
  | Expression_key string string        \<comment> \<open>label, key\<close>
  | Listed_routes_only string
  | Duplicate_id string string          \<comment> \<open>list, id\<close>
  | Unknown_settledBy string string     \<comment> \<open>milestone, step\<close>
  | Generated_milestone string
  | Unknown_milestone string string     \<comment> \<open>label, milestone\<close>
  | Bad_effects string | Bad_unit string | Bad_flag string | Bad_gate string
  | Should_without_reason string
  | Not_a_check string | Subject_missing string | Reason_missing string
  | Unenforced_empty string
  | Rigor_ceiling | Unknown_frame_key string | Frame_key_missing string | Bad_count string | Bad_floor
  | Bad_kind

record g_role =
  gr_id :: string
  gr_consults :: "string list"

record g_milestone =
  gm_id :: string
  gm_subject :: "string option"
  gm_evidence :: "string option"
  gm_acceptedBy :: "string option"
  gm_settledBy :: "string option"

record g_activity =
  ga_id :: string
  ga_entry :: "string list"
  ga_produces :: "string list"
  ga_effects :: string
  ga_operation :: "string option"
  ga_unit :: "obj option"

record g_decision =
  gd_at :: string
  gd_should :: "string list"
  gd_reason :: "string option"
  gd_mayInstead :: "string list"
  gd_listedRoutesOnly :: bool
  gd_gate :: "string option"

record g_must =
  gu_id :: string
  gu_guard :: string
  gu_subject :: "string option"
  gu_reason :: string

record g_unenforced =
  gx_id :: string
  gx_becomes :: "string option"
  gx_note :: "string option"

record guide =
  g_id :: string
  g_kind :: string
  g_purpose :: "string option"
  g_roles :: "g_role list"
  g_milestones :: "g_milestone list"
  g_activities :: "g_activity list"
  g_decisions :: "g_decision list"
  g_must :: "g_must list"
  g_unenforced :: "g_unenforced list"
  g_frameDefaults :: "obj option"
  g_closure :: "string list"

text \<open>A normalised step: what the guide reads of it.\<close>

record g_step =
  gs_id :: string
  gs_dependsOn :: "string list"
  gs_kind :: string
  gs_target :: "string option"
  gs_gate :: "(string \<times> string option) option"       \<comment> \<open>mode and question\<close>
  gs_units :: "(string \<times> string list) list"           \<comment> \<open>id and the writes of its template\<close>

section \<open>The catalogs\<close>

definition GUARD_PRIMITIVES :: "string list" where
  "GUARD_PRIMITIVES = [''milestone-reached'', ''human-consent'', ''verify-receipt'', ''write-scope-isolation'',
     ''independence-blind'', ''frame-allowance'']"

definition PLATFORM_GUARDS :: "string list" where
  "PLATFORM_GUARDS = [''g2'', ''bind-floor'', ''persona-lock'', ''harness-commit'', ''worktree-mutation-gate'',
     ''confinement'', ''consent-gate'', ''human-only-op'', ''approve-door'', ''lifecycle-transition'']"

definition PLATFORM_PREFIX :: string where "PLATFORM_PREFIX = ''platform:''"

definition GUIDE_KINDS :: "string list" where "GUIDE_KINDS = [''playbook'', ''guide'']"
definition EFFECTS :: "string list" where "EFFECTS = [''none'', ''writes'']"
definition GATE_MODES :: "string list" where "GATE_MODES = [''consent'', ''input'']"
definition RIGORS :: "string list" where "RIGORS = [''low'', ''standard'', ''high'', ''critical'']"

definition SUBJECT_GUARDS :: "string list" where
  "SUBJECT_GUARDS = [''milestone-reached'', ''human-consent'', ''verify-receipt'', ''independence-blind'']"

definition SET_AT_APPROVAL :: string where "SET_AT_APPROVAL = ''set-at-approval''"

definition COUNT_DEFAULTS :: "string list" where
  "COUNT_DEFAULTS = [''dispatches'', ''mutatingDispatches'', ''fallbackPerSeat'', ''deviationsBeforeAsk'']"

definition FRAME_DEFAULT_KEYS :: "string list" where
  "FRAME_DEFAULT_KEYS = COUNT_DEFAULTS @ [''seatLaunchesPerDispatch'', ''rigorFloor'']"

definition EXPRESSION_KEYS :: "string list" where
  "EXPRESSION_KEYS = [''when'', ''if'', ''unless'', ''expr'', ''expression'', ''condition'', ''predicate'']"

definition GUIDE_HEAD_KEYS :: "string list" where
  "GUIDE_HEAD_KEYS = [''roles'', ''milestones'', ''activities'', ''decisions'', ''must'', ''unenforced'', ''frameDefaults'', ''closure'']"

section \<open>Reading values\<close>

definition at_index :: "string \<Rightarrow> nat \<Rightarrow> string" where
  "at_index label i = label @ ''['' @ digits i @ '']''"

definition text_of :: "jval option \<Rightarrow> string \<Rightarrow> guide_error + string" where
  "text_of v label = (case as_str v of
     Some s \<Rightarrow> if trim s \<noteq> [] then Inr (trim s) else Inl (Not_text label)
   | None \<Rightarrow> Inl (Not_text label))"

definition optionalText :: "jval option \<Rightarrow> string \<Rightarrow> guide_error + string option" where
  "optionalText v label = (if nullish v then Inr None else e_bind (text_of v label) (\<lambda>s. Inr (Some s)))"

definition list_of :: "jval option \<Rightarrow> string \<Rightarrow> guide_error + jval list" where
  "list_of v label = (if nullish v then Inr [] else case as_arr v of Some xs \<Rightarrow> Inr xs | None \<Rightarrow> Inl (Not_array label))"

text \<open>\<open>xs.map((x, i) => f(x, i))\<close> where \<open>f\<close> may throw.\<close>

fun e_map :: "(nat \<Rightarrow> 'a \<Rightarrow> 'e + 'b) \<Rightarrow> nat \<Rightarrow> 'a list \<Rightarrow> 'e + 'b list" where
  "e_map f i [] = Inr []"
| "e_map f i (x # xs) = e_bind (f i x) (\<lambda>y. e_bind (e_map f (Suc i) xs) (\<lambda>ys. Inr (y # ys)))"

definition text_list :: "jval list \<Rightarrow> string \<Rightarrow> guide_error + string list" where
  "text_list xs label = e_map (\<lambda>i x. text_of (Some x) (at_index label i)) 0 xs"

definition idList :: "jval option \<Rightarrow> string \<Rightarrow> guide_error + string list" where
  "idList v label = e_bind (list_of v label) (\<lambda>xs. text_list xs label)"

definition optional_field :: "jval option \<Rightarrow> string \<Rightarrow> guide_error + string option" where
  "optional_field v label = (if v = None then Inr None else e_bind (text_of v label) (\<lambda>s. Inr (Some s)))"

text \<open>No expression anywhere below the value; what a \<open>unit\<close> holds is not looked at.\<close>

fun rejectExpressionKeys :: "jval \<Rightarrow> string \<Rightarrow> guide_error option"
and reject_array :: "jval list \<Rightarrow> nat \<Rightarrow> string \<Rightarrow> guide_error option"
and reject_fields :: "(string \<times> jval) list \<Rightarrow> string \<Rightarrow> guide_error option" where
  "rejectExpressionKeys (JArr xs) label = reject_array xs 0 label"
| "rejectExpressionKeys (JObj ob) label = reject_fields ob label"
| "rejectExpressionKeys _ label = None"
| "reject_array [] i label = None"
| "reject_array (x # xs) i label = first_err [rejectExpressionKeys x (at_index label i), reject_array xs (Suc i) label]"
| "reject_fields [] label = None"
| "reject_fields ((k, v) # ob) label =
     (if k \<in> set EXPRESSION_KEYS then Some (Expression_key label k)
      else first_err [if k \<noteq> ''unit'' then rejectExpressionKeys v (label @ ''.'' @ k) else None, reject_fields ob label])"

definition rejectListedRoutesOnly :: "jval \<Rightarrow> string \<Rightarrow> guide_error option" where
  "rejectListedRoutesOnly row label = (case row of
     JObj ob \<Rightarrow> req (oget ob ''listedRoutesOnly'' = None) (Listed_routes_only label)
   | _ \<Rightarrow> None)"

fun unique_from :: "string list \<Rightarrow> string list \<Rightarrow> string \<Rightarrow> guide_error option" where
  "unique_from seen [] label = None"
| "unique_from seen (i # ids) label = (if i \<in> set seen then Some (Duplicate_id label i) else unique_from (i # seen) ids label)"

definition uniqueIds :: "string list \<Rightarrow> string \<Rightarrow> guide_error option" where
  "uniqueIds ids label = unique_from [] ids label"

definition row_of :: "jval \<Rightarrow> string \<Rightarrow> guide_error + obj" where
  "row_of entry label = (case entry of JObj ob \<Rightarrow> Inr ob | _ \<Rightarrow> Inl (Not_object label))"

text \<open>A row that is an object and carries no \<open>listedRoutesOnly\<close>.\<close>

definition plain_row :: "jval \<Rightarrow> string \<Rightarrow> guide_error + obj" where
  "plain_row entry label = e_bind (row_of entry label) (\<lambda>ob. guarded (rejectListedRoutesOnly entry label) (Inr ob))"

section \<open>The parts\<close>

definition normalize_role :: "nat \<Rightarrow> jval \<Rightarrow> guide_error + g_role" where
  "normalize_role i entry = (let label = at_index ''roles'' i in
     case entry of
       JStr s \<Rightarrow> e_bind (text_of (Some entry) label) (\<lambda>r. Inr \<lparr>gr_id = r, gr_consults = []\<rparr>)
     | JObj ob \<Rightarrow> e_bind (text_of (oget ob ''id'') (label @ ''.id'')) (\<lambda>r.
         e_bind (idList (oget ob ''consults'') (label @ ''.consults'')) (\<lambda>cs. Inr \<lparr>gr_id = r, gr_consults = cs\<rparr>))
     | _ \<Rightarrow> Inl (Not_object label))"

definition normalizeRoles :: "jval option \<Rightarrow> guide_error + g_role list" where
  "normalizeRoles raw = e_bind (list_of raw ''roles'') (\<lambda>xs. e_bind (e_map normalize_role 0 xs) (\<lambda>roles.
     guarded (uniqueIds (map gr_id roles) ''roles'') (Inr roles)))"

definition normalize_milestone :: "nat \<Rightarrow> jval \<Rightarrow> guide_error + g_milestone" where
  "normalize_milestone i entry = (let label = at_index ''milestones'' i in
     e_bind (plain_row entry label) (\<lambda>ob.
     e_bind (text_of (oget ob ''id'') (label @ ''.id'')) (\<lambda>m.
     e_bind (optionalText (oget ob ''subject'') (label @ ''.subject'')) (\<lambda>subject.
     e_bind (optionalText (oget ob ''evidence'') (label @ ''.evidence'')) (\<lambda>evidence.
     e_bind (optionalText (oget ob ''acceptedBy'') (label @ ''.acceptedBy'')) (\<lambda>acceptedBy.
     e_bind (optional_field (oget ob ''settledBy'') (label @ ''.settledBy'')) (\<lambda>settledBy.
       Inr \<lparr>gm_id = m, gm_subject = subject, gm_evidence = evidence, gm_acceptedBy = acceptedBy, gm_settledBy = settledBy\<rparr>)))))))"

definition normalizeMilestones :: "jval option \<Rightarrow> guide_error + g_milestone list" where
  "normalizeMilestones raw = e_bind (list_of raw ''milestones'') (\<lambda>xs. e_bind (e_map normalize_milestone 0 xs) (\<lambda>ms.
     guarded (uniqueIds (map gm_id ms) ''milestones'') (Inr ms)))"

definition settled_id :: "string \<Rightarrow> string" where
  "settled_id step = step @ ''.settled''"

text \<open>The milestones that say a step settles them, by step (\<open>settledBy\<close>).\<close>

definition settled_by :: "g_milestone list \<Rightarrow> string \<Rightarrow> string list" where
  "settled_by ms step = map gm_id (filter (\<lambda>m. gm_settledBy m = Some step) ms)"

definition settledBy_error :: "g_step list \<Rightarrow> g_milestone list \<Rightarrow> guide_error option" where
  "settledBy_error steps ms = first_err (map (\<lambda>m. case gm_settledBy m of
     None \<Rightarrow> None
   | Some step \<Rightarrow> req (step \<in> set (map gs_id steps)) (Unknown_settledBy (gm_id m) step)) ms)"

definition step_milestone :: "g_step \<Rightarrow> g_milestone" where
  "step_milestone step = \<lparr>gm_id = settled_id (gs_id step), gm_subject = Some (''unit reports of '' @ gs_id step),
     gm_evidence = Some ''unit-report'', gm_acceptedBy = Some ''runner'', gm_settledBy = None\<rparr>"

definition step_activity :: "g_milestone list \<Rightarrow> g_step \<Rightarrow> g_activity" where
  "step_activity ms step = (let writes = (gs_kind step = ''integrate'' \<or> list_ex (\<lambda>(_, w). w \<noteq> []) (gs_units step)) in
     \<lparr>ga_id = gs_id step, ga_entry = map settled_id (gs_dependsOn step),
      ga_produces = settled_id (gs_id step) # settled_by ms (gs_id step),
      ga_effects = (if writes then ''writes'' else ''none''), ga_operation = None,
      ga_unit = (if gs_kind step = ''integrate''
          then Some ((''kind'', JStr ''integrate'') # (case gs_target step of
                       Some t \<Rightarrow> if t \<noteq> [] then [(''target'', JStr t)] else [] | None \<Rightarrow> []))
        else if gs_units step \<noteq> []
          then Some [(''step'', JStr (gs_id step)), (''units'', JArr (map (JStr \<circ> fst) (gs_units step)))]
        else None)\<rparr>)"

definition step_decisions :: "g_step \<Rightarrow> g_decision list" where
  "step_decisions step = (case gs_gate step of
     None \<Rightarrow> []
   | Some (mode, question) \<Rightarrow>
       [\<lparr>gd_at = settled_id (gs_id step), gd_should = [''gate:'' @ gs_id step],
         gd_reason = Some (case question of Some q \<Rightarrow> q
           | None \<Rightarrow> ''a person answers the '' @ mode @ '' gate of step '' @ gs_id step),
         gd_mayInstead = [], gd_listedRoutesOnly = True, gd_gate = Some mode\<rparr>])"

definition normalize_activity :: "string list \<Rightarrow> nat \<Rightarrow> jval \<Rightarrow> guide_error + g_activity" where
  "normalize_activity known i entry = (let label = at_index ''activities'' i;
       refs = (\<lambda>ids. first_err (map (\<lambda>r. req (r \<in> set known) (Unknown_milestone label r)) ids)) in
     e_bind (plain_row entry label) (\<lambda>ob.
     e_bind (text_of (oget ob ''id'') (label @ ''.id'')) (\<lambda>a.
     e_bind (idList (oget ob ''entry'') (label @ ''.entry'')) (\<lambda>ent.
     e_bind (idList (oget ob ''produces'') (label @ ''.produces'')) (\<lambda>produces.
     guarded (first_err
       [refs ent, refs produces,
        req (case as_str (oget ob ''effects'') of Some e \<Rightarrow> e \<in> set EFFECTS | None \<Rightarrow> False) (Bad_effects label),
        req (oget ob ''unit'' = None \<or> as_obj (oget ob ''unit'') \<noteq> None) (Bad_unit label)])
     (e_bind (optional_field (oget ob ''operation'') (label @ ''.operation'')) (\<lambda>operation.
       Inr \<lparr>ga_id = a, ga_entry = ent, ga_produces = produces, ga_effects = the (as_str (oget ob ''effects'')),
            ga_operation = operation, ga_unit = as_obj (oget ob ''unit'')\<rparr>)))))))"

definition normalizeActivities :: "jval option \<Rightarrow> string list \<Rightarrow> guide_error + g_activity list" where
  "normalizeActivities raw known = e_bind (list_of raw ''activities'') (\<lambda>xs. e_bind (e_map (normalize_activity known) 0 xs) (\<lambda>acts.
     guarded (uniqueIds (map ga_id acts) ''activities'') (Inr acts)))"

definition routes_of :: "jval option \<Rightarrow> string \<Rightarrow> guide_error + string list" where
  "routes_of v label = (case v of
     None \<Rightarrow> Inr []
   | Some x \<Rightarrow> e_map (\<lambda>r route. guarded (rejectListedRoutesOnly route (at_index label r)) (text_of (Some route) (at_index label r))) 0
       (case x of JArr xs \<Rightarrow> xs | _ \<Rightarrow> [x]))"

definition normalize_decision :: "string list \<Rightarrow> bool \<Rightarrow> nat \<Rightarrow> jval \<Rightarrow> guide_error + g_decision" where
  "normalize_decision known byDefault i entry = (let label = at_index ''decisions'' i in
     e_bind (row_of entry label) (\<lambda>ob.
     e_bind (text_of (oget ob ''at'') (label @ ''.at'')) (\<lambda>at.
     guarded (req (at \<in> set known) (Unknown_milestone label at))
     (e_bind (routes_of (oget ob ''should'') (label @ ''.should'')) (\<lambda>should.
     e_bind (routes_of (oget ob ''mayInstead'') (label @ ''.mayInstead'')) (\<lambda>mayInstead.
     guarded (first_err
       [req (case oget ob ''listedRoutesOnly'' of None \<Rightarrow> True | Some (JBool _) \<Rightarrow> True | _ \<Rightarrow> False) (Bad_flag label),
        req (case oget ob ''gate'' of None \<Rightarrow> True | Some (JStr g) \<Rightarrow> g \<in> set GATE_MODES | _ \<Rightarrow> False) (Bad_gate label)])
     (e_bind (optionalText (oget ob ''reason'') (label @ ''.reason'')) (\<lambda>reason.
     guarded (req (should = [] \<or> reason \<noteq> None) (Should_without_reason label))
     (Inr \<lparr>gd_at = at, gd_should = should, gd_reason = reason, gd_mayInstead = mayInstead,
           gd_listedRoutesOnly = (case oget ob ''listedRoutesOnly'' of Some (JBool b) \<Rightarrow> b | _ \<Rightarrow> byDefault),
           gd_gate = as_str (oget ob ''gate'')\<rparr>)))))))))"

definition normalizeDecisions :: "jval option \<Rightarrow> string list \<Rightarrow> bool \<Rightarrow> guide_error + g_decision list" where
  "normalizeDecisions raw known byDefault =
     e_bind (list_of raw ''decisions'') (\<lambda>xs. e_map (normalize_decision known byDefault) 0 xs)"

definition is_check :: "string \<Rightarrow> bool" where
  "is_check guard = (guard \<in> set GUARD_PRIMITIVES
     \<or> take (length PLATFORM_PREFIX) guard = PLATFORM_PREFIX \<and> drop (length PLATFORM_PREFIX) guard \<in> set PLATFORM_GUARDS)"

definition normalize_must :: "string list \<Rightarrow> nat \<Rightarrow> jval \<Rightarrow> guide_error + g_must" where
  "normalize_must known i entry = (let label = at_index ''must'' i in
     e_bind (plain_row entry label) (\<lambda>ob.
     e_bind (text_of (oget ob ''id'') (label @ ''.id'')) (\<lambda>m.
     e_bind (optional_field (oget ob ''guard'') (label @ ''.guard'')) (\<lambda>guard.
     guarded (req (case guard of Some g \<Rightarrow> is_check g | None \<Rightarrow> False) (Not_a_check label))
     (e_bind (optionalText (oget ob ''subject'') (label @ ''.subject'')) (\<lambda>subject.
     guarded (first_err
       [req (\<not> (the guard \<in> set SUBJECT_GUARDS \<and> subject = None)) (Subject_missing label),
        req (case subject of Some s \<Rightarrow> s \<in> set known | None \<Rightarrow> True) (Unknown_milestone label (the subject))])
     (e_bind (optionalText (if nullish (oget ob ''reason'') then oget ob ''note'' else oget ob ''reason'') (label @ ''.reason'')) (\<lambda>reason.
     guarded (req (reason \<noteq> None) (Reason_missing label))
     (Inr \<lparr>gu_id = m, gu_guard = the guard, gu_subject = subject, gu_reason = the reason\<rparr>)))))))))"

definition normalizeMust :: "jval option \<Rightarrow> string list \<Rightarrow> guide_error + g_must list" where
  "normalizeMust raw known = e_bind (list_of raw ''must'') (\<lambda>xs. e_bind (e_map (normalize_must known) 0 xs) (\<lambda>rows.
     guarded (uniqueIds (map gu_id rows) ''must'') (Inr rows)))"

definition normalize_unenforced :: "nat \<Rightarrow> jval \<Rightarrow> guide_error + g_unenforced" where
  "normalize_unenforced i entry = (let label = at_index ''unenforced'' i in
     e_bind (plain_row entry label) (\<lambda>ob.
     e_bind (optionalText (oget ob ''becomes'') (label @ ''.becomes'')) (\<lambda>becomes.
     e_bind (optionalText (oget ob ''note'') (label @ ''.note'')) (\<lambda>nt.
     guarded (req (\<not> (becomes = None \<and> nt = None)) (Unenforced_empty label))
     (e_bind (text_of (oget ob ''id'') (label @ ''.id'')) (\<lambda>x. Inr \<lparr>gx_id = x, gx_becomes = becomes, gx_note = nt\<rparr>))))))"

definition normalizeUnenforced :: "jval option \<Rightarrow> guide_error + g_unenforced list" where
  "normalizeUnenforced raw = e_bind (list_of raw ''unenforced'') (\<lambda>xs. e_bind (e_map normalize_unenforced 0 xs) (\<lambda>rows.
     guarded (uniqueIds (map gx_id rows) ''unenforced'') (Inr rows)))"

text \<open>A count of the frame: a natural number, or left to the approver.\<close>

fun is_count :: "jval \<Rightarrow> bool" where
  "is_count (JNum n) = (n \<ge> 0)"
| "is_count _ = False"

definition count_default :: "jval \<Rightarrow> bool" where
  "count_default v = (v = JStr SET_AT_APPROVAL \<or> is_count v)"

fun frame_counts :: "string list \<Rightarrow> obj \<Rightarrow> guide_error + obj" where
  "frame_counts [] raw = Inr []"
| "frame_counts (k # ks) raw = (case oget raw k of
     None \<Rightarrow> if k \<noteq> ''seatLaunchesPerDispatch'' then Inl (Frame_key_missing k) else frame_counts ks raw
   | Some v \<Rightarrow> if count_default v then e_bind (frame_counts ks raw) (\<lambda>ob. Inr ((k, v) # ob)) else Inl (Bad_count k))"

definition normalizeFrameDefaults :: "jval option \<Rightarrow> guide_error + obj option" where
  "normalizeFrameDefaults raw = (if nullish raw then Inr None else case raw of
     Some (JObj ob) \<Rightarrow>
       guarded (first_err
         (req (oget ob ''rigorCeiling'' = None) Rigor_ceiling
          # map (\<lambda>k. req (k \<in> set FRAME_DEFAULT_KEYS) (Unknown_frame_key k)) (okeys ob)))
       (e_bind (frame_counts (COUNT_DEFAULTS @ [''seatLaunchesPerDispatch'']) ob) (\<lambda>counts.
         case as_str (oget ob ''rigorFloor'') of
           Some f \<Rightarrow> if f = SET_AT_APPROVAL \<or> f \<in> set RIGORS then Inr (Some (counts @ [(''rigorFloor'', JStr f)])) else Inl Bad_floor
         | None \<Rightarrow> Inl Bad_floor))
   | _ \<Rightarrow> Inl (Not_object ''frameDefaults''))"

section \<open>The guide\<close>

definition head_of :: "obj \<Rightarrow> obj" where
  "head_of raw = (case as_obj (oget raw ''guide'') of Some g \<Rightarrow> g | None \<Rightarrow> raw)"

definition kind_of :: "obj \<Rightarrow> guide_error + string" where
  "kind_of head = (case oget head ''kind'' of
     None \<Rightarrow> Inr (case as_arr (oget head ''activities'') of Some (_ # _) \<Rightarrow> ''guide'' | _ \<Rightarrow> ''playbook'')
   | Some (JStr k) \<Rightarrow> if k \<in> set GUIDE_KINDS then Inr k else Inl Bad_kind
   | _ \<Rightarrow> Inl Bad_kind)"

definition hasActivities :: "obj \<Rightarrow> bool" where
  "hasActivities head = (case as_arr (oget head ''activities'') of Some xs \<Rightarrow> xs \<noteq> [] | None \<Rightarrow> False)"

definition normalizeGuide :: "obj \<Rightarrow> string \<Rightarrow> g_step list \<Rightarrow> guide_error + guide" where
  "normalizeGuide raw i steps = (let head = head_of raw in
     guarded (first_err (map (\<lambda>k. case oget head k of None \<Rightarrow> None
        | Some v \<Rightarrow> rejectExpressionKeys v (''Workflow '' @ i @ '' '' @ k)) GUIDE_HEAD_KEYS))
     (e_bind (normalizeMilestones (oget head ''milestones'')) (\<lambda>explicit.
     e_bind (kind_of head) (\<lambda>kind.
     let fromSteps = \<not> hasActivities head; stepMs = (if fromSteps then map step_milestone steps else []);
         milestones = stepMs @ explicit; known = map gm_id milestones in
     guarded (first_err
       [whenc fromSteps (settledBy_error steps explicit),
        first_err (map (\<lambda>m. req (gm_id m \<notin> set (map gm_id explicit)) (Generated_milestone (gm_id m))) stepMs),
        uniqueIds known ''milestones''])
     (e_bind (if fromSteps then Inr (map (step_activity explicit) steps) else normalizeActivities (oget head ''activities'') known) (\<lambda>activities.
     e_bind (normalizeDecisions (oget head ''decisions'') known (kind = ''playbook'')) (\<lambda>decs.
     let decisions = (if fromSteps then concat (map step_decisions steps) else []) @ decs in
     e_bind (idList (oget head ''closure'') ''closure'') (\<lambda>closure.
     guarded (first_err (map (\<lambda>r. req (r \<in> set known) (Unknown_milestone ''closure'' r)) closure))
     (e_bind (optionalText (oget head ''purpose'') ''purpose'') (\<lambda>purpose.
     e_bind (normalizeRoles (oget head ''roles'')) (\<lambda>roles.
     e_bind (normalizeMust (oget head ''must'') known) (\<lambda>must.
     e_bind (normalizeUnenforced (oget head ''unenforced'')) (\<lambda>unenforced.
     e_bind (normalizeFrameDefaults (oget head ''frameDefaults'')) (\<lambda>frame.
       Inr \<lparr>g_id = i, g_kind = kind, g_purpose = purpose, g_roles = roles, g_milestones = milestones,
            g_activities = activities, g_decisions = decisions, g_must = must, g_unenforced = unenforced,
            g_frameDefaults = frame, g_closure = closure\<rparr>))))))))))))))"

end
