(* ===== verification/Recovery.thy ===== *)
theory Recovery
  imports Prelude
begin

text \<open>
  The runner's guard rails: the visit counts derived from the log and the breaker of consecutive
  misses (\<open>src/runner/anti-loop.mjs\<close>), and the recovery matrix (\<open>src/runner/recovery.mjs\<close>).
  The events of the log are values as the log holds them; a field of something that is no object is
  absent.
\<close>

section \<open>Visits\<close>

definition MAX_VISITS :: nat where "MAX_VISITS = 3"

definition BREAKER_MISSES :: nat where "BREAKER_MISSES = 3"

definition event_field :: "jval \<Rightarrow> string \<Rightarrow> jval option" where
  "event_field e k = oget (lazyd (as_obj (Some e))) k"

definition payload_field :: "jval \<Rightarrow> string \<Rightarrow> jval option" where
  "payload_field e k = oget (lazyd (as_obj (event_field e ''payload''))) k"

text \<open>\<open>work.attempt\<close> of the execute phase for this item: the one kind of event that counts.\<close>

definition is_attempt :: "string \<Rightarrow> jval \<Rightarrow> bool" where
  "is_attempt i e \<longleftrightarrow> truthy (Some e) \<and> truthy (event_field e ''payload'')
     \<and> event_field e ''type'' = Some (JStr ''work.attempt'')
     \<and> payload_field e ''id'' = Some (JStr i) \<and> payload_field e ''phase'' = Some (JStr ''execute'')"

text \<open>A human's answer, or a human's reject or park with a reason.\<close>

definition is_human_event :: "string \<Rightarrow> jval \<Rightarrow> bool" where
  "is_human_event i e \<longleftrightarrow> truthy (Some e)
     \<and> event_field e ''type'' = Some (JStr ''work.move'') \<and> truthy (event_field e ''payload'')
     \<and> payload_field e ''id'' = Some (JStr i) \<and> payload_field e ''role'' = Some (JStr ''human'')
     \<and> (payload_field e ''answer'' \<noteq> None \<or> payload_field e ''reason'' \<noteq> None)"

fun indexes_from :: "(jval \<Rightarrow> bool) \<Rightarrow> nat \<Rightarrow> jval list \<Rightarrow> nat list" where
  "indexes_from P i [] = []"
| "indexes_from P i (e # es) = (if P e then i # indexes_from P (Suc i) es else indexes_from P (Suc i) es)"

definition countableDoingMoveIndexes :: "jval list \<Rightarrow> string \<Rightarrow> nat list" where
  "countableDoingMoveIndexes events i = indexes_from (is_attempt i) 0 events"

definition visitCount :: "jval \<Rightarrow> jval \<Rightarrow> nat" where
  "visitCount events i = (case (events, i) of
     (JArr es, JStr s) \<Rightarrow> if s = [] then 0 else length (countableDoingMoveIndexes es s)
   | _ \<Rightarrow> 0)"

text \<open>\<open>lastHumanIndex\<close>, \<open>-1\<close> when there is none.\<close>

definition lastHumanIndex :: "jval list \<Rightarrow> string \<Rightarrow> int" where
  "lastHumanIndex es i = fold (\<lambda>(k, e) last. if is_human_event i e then int k else last) (enumerate 0 es) (-1)"

definition visitsSinceLastHumanEvent :: "jval \<Rightarrow> jval \<Rightarrow> nat" where
  "visitsSinceLastHumanEvent events i = (case (events, i) of
     (JArr es, JStr s) \<Rightarrow>
       if s = [] then 0
       else length (filter (\<lambda>k. int k > lastHumanIndex es s) (countableDoingMoveIndexes es s))
   | _ \<Rightarrow> 0)"

definition hasExceededMaxVisits :: "nat \<Rightarrow> nat \<Rightarrow> bool" where
  "hasExceededMaxVisits visits limit = (visits \<ge> limit)"

lemma is_human_not_attempt: "is_human_event i e \<Longrightarrow> \<not> is_attempt i e"
  by (auto simp: is_human_event_def is_attempt_def)

lemma length_indexes: "length (indexes_from P i es) = length (filter P es)"
  by (induction es arbitrary: i) auto

lemma indexes_append: "indexes_from P i (es @ fs) = indexes_from P i es @ indexes_from P (i + length es) fs"
  by (induction es arbitrary: i) auto

lemma indexes_range: "k \<in> set (indexes_from P i es) \<Longrightarrow> i \<le> k \<and> k < i + length es"
  by (induction es arbitrary: i) (force split: if_splits)+

lemma last_human_append:
  "lastHumanIndex (es @ [e]) i = (if is_human_event i e then int (length es) else lastHumanIndex es i)"
  by (simp add: lastHumanIndex_def enumerate_append_eq)

lemma last_human_less: "lastHumanIndex es i < int (length es)"
  by (induction es rule: rev_induct) (auto simp: last_human_append, simp add: lastHumanIndex_def)

text \<open>The budget is what came after the last human event: counted from the end of the log.\<close>

lemma visits_suffix:
  "length (filter (\<lambda>k. int k > lastHumanIndex es i) (countableDoingMoveIndexes es i)) =
   length (filter (is_attempt i) (takeWhile (\<lambda>e. \<not> is_human_event i e) (rev es)))"
proof (induction es rule: rev_induct)
  case Nil
  show ?case by (simp add: countableDoingMoveIndexes_def)
next
  case (snoc e es)
  let ?ks = "countableDoingMoveIndexes es i"
  have app: "countableDoingMoveIndexes (es @ [e]) i = ?ks @ (if is_attempt i e then [length es] else [])"
    by (simp add: countableDoingMoveIndexes_def indexes_append)
  show ?case
  proof (cases "is_human_event i e")
    case True
    have "\<not> int k > int (length es)" if "k \<in> set ?ks" for k
      using indexes_range[of k "is_attempt i" 0 es] that by (simp add: countableDoingMoveIndexes_def)
    then have "filter (\<lambda>k. int k > int (length es)) ?ks = []" by (simp add: filter_empty_conv)
    with True app is_human_not_attempt[OF True] show ?thesis by (simp add: last_human_append)
  next
    case False
    with snoc app last_human_less[of es i] show ?thesis by (simp add: last_human_append)
  qed
qed

section \<open>The breaker\<close>

text \<open>
  The streaks are keyed by item id, the calls without one by a key of their own. \<open>threshold\<close> is the
  argument of \<open>createMissBreaker\<close>.
\<close>

type_synonym breaker = "string option \<rightharpoonup> nat"

definition createMissBreaker :: breaker where
  "createMissBreaker = Map.empty"

definition consecutiveMissesFor :: "breaker \<Rightarrow> string option \<Rightarrow> nat" where
  "consecutiveMissesFor streaks item = (case streaks item of Some n \<Rightarrow> n | None \<Rightarrow> 0)"

definition recordMiss :: "breaker \<Rightarrow> string option \<Rightarrow> breaker \<times> nat" where
  "recordMiss streaks item = (let n = consecutiveMissesFor streaks item + 1 in (streaks(item \<mapsto> n), n))"

definition recordHit :: "breaker \<Rightarrow> string option \<Rightarrow> breaker \<times> nat" where
  "recordHit streaks item = (streaks(item \<mapsto> 0), 0)"

definition isTripped :: "nat \<Rightarrow> breaker \<Rightarrow> string option \<Rightarrow> bool" where
  "isTripped threshold streaks item = (consecutiveMissesFor streaks item \<ge> threshold)"

datatype breaker_call = Miss "string option" | Hit "string option"

definition breaker_run :: "breaker_call list \<Rightarrow> breaker" where
  "breaker_run calls = fold (\<lambda>c b. case c of Miss i \<Rightarrow> fst (recordMiss b i) | Hit i \<Rightarrow> fst (recordHit b i)) calls createMissBreaker"

fun about_item :: "string option \<Rightarrow> breaker_call \<Rightarrow> bool" where
  "about_item i (Miss j) = (i = j)"
| "about_item i (Hit j) = (i = j)"

text \<open>The streak of an item is the run of misses at the end of its own calls.\<close>

definition trailing_misses :: "string option \<Rightarrow> breaker_call list \<Rightarrow> nat" where
  "trailing_misses i calls = length (takeWhile (\<lambda>c. c = Miss i) (rev (filter (about_item i) calls)))"

lemma breaker_streak: "consecutiveMissesFor (breaker_run calls) i = trailing_misses i calls"
proof (induction calls rule: rev_induct)
  case Nil
  show ?case by (simp add: breaker_run_def createMissBreaker_def consecutiveMissesFor_def trailing_misses_def)
next
  case (snoc c calls)
  then show ?case
    by (cases c)
      (auto simp: breaker_run_def consecutiveMissesFor_def trailing_misses_def recordMiss_def recordHit_def Let_def)
qed

section \<open>The recovery matrix\<close>

datatype action = Retry | Park | Halt

definition ERROR_CLASSES :: "string list" where
  "ERROR_CLASSES = [''worker-spawn-fail'', ''worker-timeout'', ''verify-miss'', ''verify-timeout'', ''worktree-fail'',
     ''corrupt-log'', ''reject-returned'', ''stale-doing'', ''state-conflict'', ''dispatch-in-flight'',
     ''dispatch-depth-exceeded'', ''custody-required'', ''custody-domain-required'', ''custody-predecessor-unknown'',
     ''provider-limit'', ''worker-failed'', ''no-executor'']"

definition DEFAULT_MAX_RETRIES :: nat where "DEFAULT_MAX_RETRIES = 2"

text \<open>An entry is its action and, for a retry, its \<open>maxRetries\<close>.\<close>

definition RECOVERY :: "(string \<times> action \<times> nat option) list" where
  "RECOVERY =
    [(''worker-spawn-fail'', Retry, Some DEFAULT_MAX_RETRIES),
     (''worker-timeout'', Retry, Some DEFAULT_MAX_RETRIES),
     (''verify-miss'', Retry, Some DEFAULT_MAX_RETRIES),
     (''verify-timeout'', Retry, Some DEFAULT_MAX_RETRIES),
     (''worktree-fail'', Retry, Some DEFAULT_MAX_RETRIES),
     (''corrupt-log'', Halt, None),
     (''reject-returned'', Retry, Some DEFAULT_MAX_RETRIES),
     (''stale-doing'', Park, None),
     (''state-conflict'', Halt, None),
     (''dispatch-in-flight'', Retry, Some DEFAULT_MAX_RETRIES),
     (''dispatch-depth-exceeded'', Park, None),
     (''custody-required'', Park, None),
     (''custody-domain-required'', Park, None),
     (''custody-predecessor-unknown'', Park, None),
     (''provider-limit'', Park, None),
     (''worker-failed'', Retry, Some DEFAULT_MAX_RETRIES),
     (''no-executor'', Park, None)]"

record resolution =
  rs_action :: action
  rs_class :: string
  rs_attempt :: "nat option"
  rs_reason :: "string option"

definition resolveAction :: "string \<Rightarrow> nat \<Rightarrow> resolution" where
  "resolveAction errorClass attempt = (case map_of RECOVERY errorClass of
     None \<Rightarrow> \<lparr>rs_action = Halt, rs_class = errorClass, rs_attempt = None, rs_reason = Some ''unknown-error-class''\<rparr>
   | Some (a, maxRetries) \<Rightarrow>
       if a \<noteq> Retry then \<lparr>rs_action = a, rs_class = errorClass, rs_attempt = None, rs_reason = None\<rparr>
       else if attempt < the maxRetries
         then \<lparr>rs_action = Retry, rs_class = errorClass, rs_attempt = Some attempt, rs_reason = None\<rparr>
       else \<lparr>rs_action = Park, rs_class = errorClass, rs_attempt = Some attempt, rs_reason = Some ''max-retries-exceeded''\<rparr>)"

definition resolveStaleDoing :: "bool \<Rightarrow> bool \<Rightarrow> string \<times> string option" where
  "resolveStaleDoing hasCommit verifyPassed =
     (if hasCommit \<and> verifyPassed then (''awaiting-approval'', None)
      else (''blocked'', Some ''runner-crash-reclaim''))"

text \<open>Every declared class has its row and no row is for another.\<close>

lemma recovery_rows: "map_of RECOVERY c \<noteq> None \<longleftrightarrow> c \<in> set ERROR_CLASSES"
proof -
  have "set (map fst RECOVERY) = set ERROR_CLASSES" by code_simp
  then show ?thesis by (metis map_of_eq_None_iff set_map)
qed

lemma recovery_entry: "map_of RECOVERY c = Some (a, m) \<Longrightarrow> m = (if a = Retry then Some DEFAULT_MAX_RETRIES else None)"
  by (drule map_of_SomeD) (auto simp: RECOVERY_def)

lemma resolve_retry: "rs_action (resolveAction c n) = Retry \<Longrightarrow> n < DEFAULT_MAX_RETRIES \<and> c \<in> set ERROR_CLASSES"
proof -
  assume r: "rs_action (resolveAction c n) = Retry"
  show ?thesis
  proof (cases "map_of RECOVERY c")
    case None
    with r show ?thesis by (simp add: resolveAction_def)
  next
    case (Some am)
    then obtain a m where am: "map_of RECOVERY c = Some (a, m)" by (cases am) simp
    with r recovery_entry[OF am] recovery_rows[of c] show ?thesis
      by (auto simp: resolveAction_def split: if_splits)
  qed
qed

section \<open>One claimed item through its attempts\<close>

text \<open>
  The loop of \<open>dispatchClaimedItem\<close> (\<open>src/runner/loop.mjs\<close>) over what each attempt comes to: the
  goal check passed with a commit on the branch, the check missed or timed out (a miss of the breaker), or
  the attempt failed with an error of the matrix's vocabulary. What it settles, and its terminal report.
\<close>

datatype attempt_result = Passed | GoalMiss bool | Failed string    \<comment> \<open>\<open>GoalMiss timedOut\<close>\<close>

record dispatch_end =
  de_outcome :: string
  de_status :: string               \<comment> \<open>\<open>finalStatus\<close> of the settle\<close>
  de_reason :: "string option"      \<comment> \<open>the reason given to the settle\<close>
  de_attempts :: nat
  de_errorClass :: "string option"
  de_exitCode :: nat
  de_layer :: "string option"       \<comment> \<open>the failure layer of the friction record\<close>

definition FRICTION_LAYER :: "(string \<times> string) list" where
  "FRICTION_LAYER = [(''verify-miss'', ''verification''), (''verify-timeout'', ''verification''),
     (''worker-spawn-fail'', ''environment''), (''worker-timeout'', ''environment''), (''worktree-fail'', ''environment''),
     (''provider-limit'', ''environment''), (''worker-failed'', ''executor''), (''no-executor'', ''executor''),
     (''corrupt-log'', ''state''), (''stale-doing'', ''state''), (''state-conflict'', ''state''), (''reject-returned'', ''context'')]"

definition failure_of :: "attempt_result \<Rightarrow> string" where
  "failure_of r = (case r of GoalMiss timedOut \<Rightarrow> (if timedOut then ''verify-timeout'' else ''verify-miss'') | Failed c \<Rightarrow> c | Passed \<Rightarrow> [])"

definition dispatch_stop :: "nat \<Rightarrow> breaker \<Rightarrow> string \<Rightarrow> nat \<Rightarrow> string \<Rightarrow> dispatch_end option" where
  "dispatch_stop threshold b item attempt errorClass =
     (let decision = resolveAction errorClass attempt; tripped = isTripped threshold b (Some item) in
      if rs_action decision = Retry \<and> \<not> tripped then None
      else let halted = (tripped \<or> rs_action decision = Halt) in
        Some \<lparr>de_outcome = (if halted then ''halted'' else ''parked''), de_status = ''blocked'',
              de_reason = Some (if tripped then ''breaker-tripped'' else errorClass), de_attempts = attempt,
              de_errorClass = Some errorClass, de_exitCode = (if halted then 1 else 0),
              de_layer = Some (case map_of FRICTION_LAYER errorClass of Some l \<Rightarrow> l | None \<Rightarrow> ''task-spec'')\<rparr>)"

text \<open>\<open>None\<close>: the attempts given ran out while the loop still asks for one.\<close>

fun dispatchClaimedItem :: "nat \<Rightarrow> string \<Rightarrow> breaker \<Rightarrow> nat \<Rightarrow> attempt_result list \<Rightarrow> (breaker \<times> dispatch_end) option" where
  "dispatchClaimedItem threshold item b attempt [] = None"
| "dispatchClaimedItem threshold item b attempt (Passed # rest) =
     Some (fst (recordHit b (Some item)),
       \<lparr>de_outcome = ''awaiting-approval'', de_status = ''awaiting-approval'', de_reason = None,
        de_attempts = attempt + 1, de_errorClass = None, de_exitCode = 0, de_layer = None\<rparr>)"
| "dispatchClaimedItem threshold item b attempt (r # rest) =
     (let b' = (case r of GoalMiss _ \<Rightarrow> fst (recordMiss b (Some item)) | _ \<Rightarrow> b) in
      case dispatch_stop threshold b' item (attempt + 1) (failure_of r) of
        Some e \<Rightarrow> Some (b', e)
      | None \<Rightarrow> dispatchClaimedItem threshold item b' (attempt + 1) rest)"

lemma dispatch_stop_late:
  "DEFAULT_MAX_RETRIES \<le> attempt \<Longrightarrow> dispatch_stop threshold b item attempt c \<noteq> None"
  using resolve_retry[of c attempt] by (auto simp: dispatch_stop_def Let_def)

lemma dispatch_stop_shape:
  "dispatch_stop threshold b item attempt c = Some e \<Longrightarrow>
     de_status e = ''blocked'' \<and> de_reason e \<noteq> None \<and> de_attempts e = attempt \<and> de_errorClass e = Some c"
  by (auto simp: dispatch_stop_def Let_def split: if_splits)

text \<open>The loop ends within the attempts the matrix allows, whatever they come to.\<close>

lemma dispatch_ends:
  assumes "length rs \<ge> DEFAULT_MAX_RETRIES"
  shows "\<exists>b' e. dispatchClaimedItem threshold item b 0 rs = Some (b', e) \<and> 1 \<le> de_attempts e \<and> de_attempts e \<le> DEFAULT_MAX_RETRIES"
proof -
  from assms obtain r1 r2 rest where rs: "rs = r1 # r2 # rest"
    by (auto simp: DEFAULT_MAX_RETRIES_def numeral_2_eq_2 Suc_le_length_iff)
  have second: "\<exists>b' e. dispatchClaimedItem threshold item b 1 (r2 # rest) = Some (b', e) \<and> de_attempts e = 2" for b
  proof (cases "r2 = Passed")
    case True
    then show ?thesis by simp
  next
    case False
    let ?b = "case r2 of GoalMiss _ \<Rightarrow> fst (recordMiss b (Some item)) | _ \<Rightarrow> b"
    obtain e where e: "dispatch_stop threshold ?b item 2 (failure_of r2) = Some e"
      using dispatch_stop_late[of 2 threshold ?b item "failure_of r2"] by (auto simp: DEFAULT_MAX_RETRIES_def)
    then have "dispatchClaimedItem threshold item b 1 (r2 # rest) = Some (?b, e)"
      using False by (cases r2) (auto simp: Let_def numeral_2_eq_2)
    with dispatch_stop_shape[OF e] show ?thesis by simp
  qed
  show ?thesis
  proof (cases "r1 = Passed")
    case True
    then show ?thesis using rs by (simp add: DEFAULT_MAX_RETRIES_def)
  next
    case False
    let ?b = "case r1 of GoalMiss _ \<Rightarrow> fst (recordMiss b (Some item)) | _ \<Rightarrow> b"
    have step: "dispatchClaimedItem threshold item b 0 rs = (case dispatch_stop threshold ?b item 1 (failure_of r1) of
        Some e \<Rightarrow> Some (?b, e) | None \<Rightarrow> dispatchClaimedItem threshold item ?b 1 (r2 # rest))"
      using False rs by (cases r1) (simp_all add: Let_def cong: option.case_cong)
    show ?thesis
    proof (cases "dispatch_stop threshold ?b item 1 (failure_of r1)")
      case None
      with step second[of ?b] show ?thesis by (auto simp: DEFAULT_MAX_RETRIES_def)
    next
      case (Some e)
      with step dispatch_stop_shape[OF Some] show ?thesis by (simp add: DEFAULT_MAX_RETRIES_def)
    qed
  qed
qed

text \<open>An item is proposed exactly when an attempt passed; otherwise it is blocked, with a reason.\<close>

lemma dispatch_status:
  "dispatchClaimedItem threshold item b n rs = Some (b', e) \<Longrightarrow>
     (de_status e = ''awaiting-approval'' \<and> Passed \<in> set rs) \<or> (de_status e = ''blocked'' \<and> de_reason e \<noteq> None)"
proof (induction rs arbitrary: b n)
  case (Cons r rs)
  then show ?case using dispatch_stop_shape
    by (cases r) (fastforce simp: Let_def split: option.splits)+
qed simp

end
