(* ===== verification/Runner_Loop.thy ===== *)
theory Runner_Loop
  imports Recovery Frontier Team
begin

text \<open>
  The decisions of the runner's loop (\<open>src/runner/loop.mjs\<close>): what the startup reap makes of a claim
  nobody works on, which leftover branches it deletes, and how one poll of a drain-run goes from the
  frontier to the items it dispatches. What git, the goal check and the attestation say is an argument.
\<close>

section \<open>The startup reap\<close>

datatype goal_run = GoalPassed | GoalFailed bool | Worktree_fail    \<comment> \<open>the throwaway check; \<open>GoalFailed timedOut\<close>\<close>

record reap_facts =
  rf_hasCommit :: bool                  \<comment> \<open>the branch exists and is ahead\<close>
  rf_attested :: "string option"        \<comment> \<open>the reason of a refused attestation; \<open>None\<close> when it is fine\<close>
  rf_goal :: goal_run

definition reap_resolution :: "reap_facts \<Rightarrow> string \<times> string option" where
  "reap_resolution f = (case rf_attested f of
     Some reason \<Rightarrow> (''blocked'', Some reason)
   | None \<Rightarrow>
       if rf_hasCommit f \<and> rf_goal f = Worktree_fail then (''blocked'', Some ''runner-crash-reclaim'')
       else resolveStaleDoing (rf_hasCommit f) (rf_hasCommit f \<and> rf_goal f = GoalPassed))"

text \<open>With \<open>dryRun\<close> nothing is written: the plan only.\<close>

definition reap_planned :: "reap_facts \<Rightarrow> string" where
  "reap_planned f = (if rf_attested f \<noteq> None then ''blocked''
     else if rf_hasCommit f then ''verify-then-resolve'' else ''blocked'')"

definition of_person :: "obj \<Rightarrow> string \<Rightarrow> bool" where
  "of_person c k = (oget c k = Some (JStr ''human'') \<or> oget c k = Some (JStr ''session''))"

text \<open>The claims the reap resolves: of an item that exists, held by no person.\<close>

definition reaped_claims :: "works \<Rightarrow> (string \<times> obj) list \<Rightarrow> (string \<times> obj) list" where
  "reaped_claims work claims = filter (\<lambda>(i, c).
     (case as_str (oget c ''id'') of Some k \<Rightarrow> ohas work k | None \<Rightarrow> False)
     \<and> \<not> of_person c ''claimRole'' \<and> \<not> of_person c ''actor'') claims"

text \<open>The items a durable \<open>doing\<close> left behind without a claim.\<close>

definition legacy_doing :: "works \<Rightarrow> (string \<times> obj) list \<Rightarrow> (string \<times> obj) list" where
  "legacy_doing work claims = filter (\<lambda>(i, w).
     i \<notin> set (List.map_filter (\<lambda>(_, c). as_str (oget c ''id'')) claims)
     \<and> oget w ''status'' = Some (JStr ''doing'') \<and> \<not> of_person w ''claimRole'') work"

definition reap_writes :: "works \<Rightarrow> (string \<times> obj) list \<Rightarrow> (string \<Rightarrow> reap_facts) \<Rightarrow> (string \<times> string \<times> string option) list" where
  "reap_writes work claims facts =
     map (\<lambda>i. (i, reap_resolution (facts i)))
       (List.map_filter (\<lambda>(_, c). as_str (oget c ''id'')) (reaped_claims work claims)
        @ map fst (legacy_doing work claims))"

section \<open>Leftover branches\<close>

text \<open>
  \<open>hasStillNeededDescendant\<close>: a search down the children with no mark on what was seen, so a partial
  function; it ends where the parents make no cycle.
\<close>

definition is_child :: "string \<Rightarrow> obj \<Rightarrow> bool" where
  "is_child i w = (oget w ''parent'' = Some (JStr i))"

definition closed_item :: "obj \<Rightarrow> bool" where
  "closed_item w = (oget w ''status'' = Some (JStr ''done'') \<or> oget w ''status'' = Some (JStr ''wontfix''))"

partial_function (option) still_needed :: "works \<Rightarrow> string \<Rightarrow> works \<Rightarrow> bool option" where
  "still_needed work i rest = (case rest of
     [] \<Rightarrow> Some False
   | (c, w) # rest' \<Rightarrow>
       if \<not> is_child i w then still_needed work i rest'
       else if \<not> closed_item w then Some True
       else Option.bind (still_needed work c work) (\<lambda>b. if b then Some True else still_needed work i rest'))"

definition hasStillNeededDescendant :: "string \<Rightarrow> works \<Rightarrow> bool option" where
  "hasStillNeededDescendant i work = still_needed work i work"

record leftover =
  lo_id :: string              \<comment> \<open>the branch name without \<open>fgw/\<close>\<close>
  lo_ahead :: nat
  lo_checkedOut :: bool

datatype branch_fate =
    Pruned_wontfix | Kept_needed | Kept_checked_out | Pruned_empty | Kept_commits

definition branch_fate :: "works \<Rightarrow> adjacency \<Rightarrow> leftover \<Rightarrow> branch_fate option" where
  "branch_fate work idx b =
     (if Option.bind (oget work (lo_id b)) (\<lambda>w. oget w ''status'') = Some (JStr ''wontfix'')
         \<and> \<not> hasOpenDescendant (lo_id b) work idx then Some Pruned_wontfix
      else if lo_ahead b \<noteq> 0 then Some Kept_commits
      else Option.bind (hasStillNeededDescendant (lo_id b) work) (\<lambda>needed. Some
        (if needed then Kept_needed
         else if lo_checkedOut b then Kept_checked_out
         else Pruned_empty)))"

section \<open>One poll of the drain\<close>

definition DEFAULT_MAX_ROOTS :: nat where "DEFAULT_MAX_ROOTS = 4"
definition DEFAULT_MAX_LEAVES_PER_ROOT :: nat where "DEFAULT_MAX_LEAVES_PER_ROOT = 4"

definition positiveIntOr :: "jval option \<Rightarrow> nat \<Rightarrow> nat" where
  "positiveIntOr value fallback = (case value of Some (JNum n) \<Rightarrow> if n > 0 then nat n else fallback | _ \<Rightarrow> fallback)"

definition resolveParallel :: "obj \<Rightarrow> nat \<times> nat" where
  "resolveParallel config = (let parallel = lazyd (as_obj (oget config ''parallel'')) in
     (positiveIntOr (oget parallel ''maxRoots'') DEFAULT_MAX_ROOTS,
      positiveIntOr (oget parallel ''maxLeavesPerRoot'') DEFAULT_MAX_LEAVES_PER_ROOT))"

definition by_root :: "works \<Rightarrow> obj list \<Rightarrow> (string \<times> obj list) list" where
  "by_root work steered = fold (\<lambda>w g. let root = resolveRoot work (id_of w) in
     oset root (lazyd (oget g root) @ [w]) g) steered []"

definition selectWave :: "works \<Rightarrow> nat \<Rightarrow> nat \<Rightarrow> obj list \<Rightarrow> obj list" where
  "selectWave work maxRoots maxLeavesPerRoot steered =
     concat (map (\<lambda>(root, items). take maxLeavesPerRoot items) (take maxRoots (by_root work steered)))"

datatype poll =
    Park_over_limit "obj list"       \<comment> \<open>blocked for \<open>anti-loop-max-visits\<close>; the poll is taken again\<close>
  | Drained                          \<comment> \<open>nothing to dispatch\<close>
  | No_room                          \<comment> \<open>the worker-slot lane is full\<close>
  | Dispatch "obj list" bool         \<comment> \<open>the admitted items, and whether the wave was trimmed\<close>

definition over_limit :: "jval list \<Rightarrow> nat \<Rightarrow> obj \<Rightarrow> bool" where
  "over_limit events maxVisits w =
     hasExceededMaxVisits (visitsSinceLastHumanEvent (JArr events) (JStr (id_of w))) maxVisits"

definition poll_once ::
  "works \<Rightarrow> obj list \<Rightarrow> jval list \<Rightarrow> nat \<Rightarrow> owners \<Rightarrow> string \<Rightarrow> nat \<times> nat \<Rightarrow> jval option \<Rightarrow> poll" where
  "poll_once work frontierItems events maxVisits owners me parallel ceiling =
     (let overLimit = filter (over_limit events maxVisits) frontierItems in
      if overLimit \<noteq> [] then Park_over_limit overLimit
      else let steered = steerFrontier frontierItems work owners me;
               wave = selectWave work (fst parallel) (snd parallel) steered in
        if wave = [] then Drained
        else let room = hasWorkerSlotRoom work ceiling (Some (JNum (int (length wave)))) None in
          if \<not> sa_allowed room then No_room
          else let admitted = take (nat (sa_granted room)) wave in Dispatch admitted (length admitted < length wave))"

section \<open>Facts\<close>

definition kids :: "works \<Rightarrow> (string \<times> string) set" where
  "kids work = {(i, c). \<exists>w. (c, w) \<in> set work \<and> is_child i w}"

definition open_kid :: "works \<Rightarrow> string \<Rightarrow> bool" where
  "open_kid work i \<longleftrightarrow> (\<exists>d w. (i, d) \<in> (kids work)\<^sup>+ \<and> (d, w) \<in> set work \<and> \<not> closed_item w)"

lemma open_kid_step:
  "open_kid work i \<longleftrightarrow> (\<exists>(c, w) \<in> set work. is_child i w \<and> (\<not> closed_item w \<or> open_kid work c))"
  if "distinct (okeys work)"
proof
  have key: "(c, w) \<in> set work \<Longrightarrow> (c, w') \<in> set work \<Longrightarrow> w = w'" for c w w'
    using that by (auto simp: okeys_def dest: eq_key_imp_eq_value)
  assume "open_kid work i"
  then obtain d w where d: "(i, d) \<in> (kids work)\<^sup>+" "(d, w) \<in> set work" "\<not> closed_item w" by (auto simp: open_kid_def)
  from d(1) obtain c where c: "(i, c) \<in> kids work" "c = d \<or> (c, d) \<in> (kids work)\<^sup>+" by (metis tranclD rtranclD)
  then obtain u where u: "(c, u) \<in> set work" "is_child i u" by (auto simp: kids_def)
  from c(2) have "\<not> closed_item u \<or> open_kid work c" using d u key by (auto simp: open_kid_def)
  with u show "\<exists>(c, w) \<in> set work. is_child i w \<and> (\<not> closed_item w \<or> open_kid work c)" by blast
next
  assume "\<exists>(c, w) \<in> set work. is_child i w \<and> (\<not> closed_item w \<or> open_kid work c)"
  then obtain c w where c: "(c, w) \<in> set work" "is_child i w" "\<not> closed_item w \<or> open_kid work c" by blast
  then have e: "(i, c) \<in> kids work" by (auto simp: kids_def)
  from c(3) show "open_kid work i"
  proof
    assume "\<not> closed_item w"
    with c(1) e show ?thesis by (auto simp: open_kid_def)
  next
    assume "open_kid work c"
    then obtain d w where "(c, d) \<in> (kids work)\<^sup>+" "(d, w) \<in> set work" "\<not> closed_item w" by (auto simp: open_kid_def)
    with e show ?thesis unfolding open_kid_def by (meson trancl_into_trancl2)
  qed
qed

lemma still_needed_sound:
  assumes "still_needed work i rest = Some b" "distinct (okeys work)" "set rest \<subseteq> set work"
  shows "b \<longleftrightarrow> (\<exists>(c, w) \<in> set rest. is_child i w \<and> (\<not> closed_item w \<or> open_kid work c))"
proof -
  have "distinct (okeys work) \<longrightarrow> set rest \<subseteq> set work \<longrightarrow>
      b = (\<exists>(c, w) \<in> set rest. is_child i w \<and> (\<not> closed_item w \<or> open_kid work c))"
  proof (rule still_needed.raw_induct[OF _ assms(1), where P = "\<lambda>work i rest b. distinct (okeys work) \<longrightarrow>
        set rest \<subseteq> set work \<longrightarrow> b = (\<exists>(c, w) \<in> set rest. is_child i w \<and> (\<not> closed_item w \<or> open_kid work c))"])
    fix f work i rest b
    assume IH: "\<And>work i rest b. f work i rest = Some b \<Longrightarrow> distinct (okeys work) \<longrightarrow> set rest \<subseteq> set work \<longrightarrow>
        b = (\<exists>(c, w) \<in> set rest. is_child i w \<and> (\<not> closed_item w \<or> open_kid work c))"
      and body: "(case rest of [] \<Rightarrow> Some False
        | (c, w) # rest' \<Rightarrow> if \<not> is_child i w then f work i rest'
            else if \<not> closed_item w then Some True
            else Option.bind (f work c work) (\<lambda>b. if b then Some True else f work i rest')) = Some b"
    show "distinct (okeys work) \<longrightarrow> set rest \<subseteq> set work \<longrightarrow>
        b = (\<exists>(c, w) \<in> set rest. is_child i w \<and> (\<not> closed_item w \<or> open_kid work c))"
    proof (intro impI)
      assume d: "distinct (okeys work)" and sub: "set rest \<subseteq> set work"
      show "b = (\<exists>(c, w) \<in> set rest. is_child i w \<and> (\<not> closed_item w \<or> open_kid work c))"
      proof (cases rest)
        case Nil
        with body show ?thesis by simp
      next
        case (Cons x rest')
        obtain c w where x: "x = (c, w)" by (cases x)
        have sub': "set rest' \<subseteq> set work" using sub Cons by simp
        have tail: "f work i rest' = Some b' \<Longrightarrow>
            b' = (\<exists>(c, w) \<in> set rest'. is_child i w \<and> (\<not> closed_item w \<or> open_kid work c))" for b'
          using IH d sub' by blast
        show ?thesis
        proof (cases "\<not> is_child i w \<or> \<not> closed_item w")
          case True
          with body tail Cons x show ?thesis by (auto split: if_splits)
        next
          case False
          with body Cons x obtain b1 where b1: "f work c work = Some b1"
            "(if b1 then Some True else f work i rest') = Some b"
            by (auto simp: bind_eq_Some_conv split: if_splits)
          have "b1 = open_kid work c" using IH[OF b1(1)] d open_kid_step[OF d, of c] by simp
          with b1(2) tail False Cons x show ?thesis by (auto split: if_splits)
        qed
      qed
    qed
  qed
  with assms(2,3) show ?thesis by blast
qed

lemma still_needed_ends:
  assumes "wf ((kids work)\<inverse>)"
  shows "set rest \<subseteq> set work \<longrightarrow> still_needed work i rest \<noteq> None"
  using assms
proof (induction i arbitrary: rest rule: wf_induct_rule)
  case (less i)
  show ?case
  proof (induction rest)
    case Nil
    show ?case by (subst still_needed.simps) simp
  next
    case (Cons x rest)
    obtain c w where x: "x = (c, w)" by (cases x)
    show ?case
    proof
      assume sub: "set (x # rest) \<subseteq> set work"
      then have tail: "still_needed work i rest \<noteq> None" using Cons by simp
      have "still_needed work c work \<noteq> None" if "is_child i w"
        using less[of c work] that sub x by (auto simp: kids_def)
      then have "is_child i w \<Longrightarrow> \<exists>b. still_needed work c work = Some b" by blast
      moreover obtain b' where "still_needed work i rest = Some b'" using tail by blast
      moreover have "still_needed work i (x # rest) = (if \<not> is_child i w then still_needed work i rest
          else if \<not> closed_item w then Some True
          else Option.bind (still_needed work c work) (\<lambda>b. if b then Some True else still_needed work i rest))"
        unfolding x by (subst still_needed.simps) simp
      ultimately show "still_needed work i (x # rest) \<noteq> None" by (cases "is_child i w") auto
    qed
  qed
qed

lemma hasStillNeededDescendant_exact:
  assumes "wf ((kids work)\<inverse>)" "distinct (okeys work)"
  shows "hasStillNeededDescendant i work = Some (open_kid work i)"
proof -
  obtain b where b: "still_needed work i work = Some b" using still_needed_ends[OF assms(1), of work i] by auto
  with still_needed_sound[OF b assms(2)] open_kid_step[OF assms(2), of i] show ?thesis
    by (simp add: hasStillNeededDescendant_def)
qed

text \<open>What a deleted branch was: nobody's work is in it.\<close>

lemma branch_fate_pruned:
  "branch_fate work idx b = Some Pruned_empty \<Longrightarrow>
     lo_ahead b = 0 \<and> \<not> lo_checkedOut b \<and> hasStillNeededDescendant (lo_id b) work = Some False"
  by (auto simp: branch_fate_def bind_eq_Some_conv split: if_splits)

subsection \<open>The wave\<close>

lemma by_root_facts:
  "distinct (okeys (by_root work ws)) \<and> (\<forall>(r, items) \<in> set (by_root work ws).
     items \<noteq> [] \<and> items = filter (\<lambda>w. resolveRoot work (id_of w) = r) ws)"
proof (induction ws rule: rev_induct)
  case Nil
  show ?case by (simp add: by_root_def okeys_def)
next
  case (snoc w ws)
  let ?g = "by_root work ws" and ?r = "resolveRoot work (id_of w)"
  have g: "by_root work (ws @ [w]) = oset ?r (lazyd (oget ?g ?r) @ [w]) ?g" by (simp add: by_root_def Let_def)
  have d: "distinct (okeys ?g)" using snoc by simp
  have read: "oget ?g r = Some items \<Longrightarrow> items = filter (\<lambda>w. resolveRoot work (id_of w) = r) ws" for r items
    using snoc by (auto simp: oget_def dest: map_of_SomeD)
  have none: "filter (\<lambda>u. resolveRoot work (id_of u) = ?r) ws = []" if "oget ?g ?r = None"
  proof (rule ccontr)
    assume "filter (\<lambda>u. resolveRoot work (id_of u) = ?r) ws \<noteq> []"
    then obtain u where u: "u \<in> set ws" "resolveRoot work (id_of u) = ?r" by (auto simp: filter_empty_conv)
    have "u \<in> set ws \<Longrightarrow> oget (by_root work ws) (resolveRoot work (id_of u)) \<noteq> None" for u ws
      by (induction ws rule: rev_induct) (auto simp: by_root_def Let_def)
    with u that show False by metis
  qed
  have new: "lazyd (oget ?g ?r) @ [w] = filter (\<lambda>u. resolveRoot work (id_of u) = ?r) (ws @ [w])"
    using read none by (cases "oget ?g ?r") auto
  have d': "distinct (okeys (by_root work (ws @ [w])))" using d g by simp
  show ?case
  proof (intro conjI d' ballI)
    fix ri assume ri: "ri \<in> set (by_root work (ws @ [w]))"
    obtain r items where r: "ri = (r, items)" by (cases ri)
    have "oget (by_root work (ws @ [w])) r = Some items"
      using ri r d' by (simp add: oget_def okeys_def)
    then have "(r = ?r \<and> items = lazyd (oget ?g ?r) @ [w]) \<or> (r \<noteq> ?r \<and> oget ?g r = Some items)"
      unfolding g by (auto split: if_splits)
    then show "case ri of (r, items) \<Rightarrow> items \<noteq> [] \<and> items = filter (\<lambda>w. resolveRoot work (id_of w) = r) (ws @ [w])"
    proof
      assume "r = ?r \<and> items = lazyd (oget ?g ?r) @ [w]"
      with new r show ?thesis by auto
    next
      assume *: "r \<noteq> ?r \<and> oget ?g r = Some items"
      then have "(r, items) \<in> set ?g" by (auto simp: oget_def dest: map_of_SomeD)
      with * read snoc r show ?thesis by auto
    qed
  qed
qed

lemma selectWave_subset: "set (selectWave work mr ml ws) \<subseteq> set ws"
proof
  fix w assume "w \<in> set (selectWave work mr ml ws)"
  then obtain r items where "(r, items) \<in> set (by_root work ws)" "w \<in> set items"
    by (fastforce simp: selectWave_def dest: in_set_takeD)
  then show "w \<in> set ws" using by_root_facts[of work ws] by fastforce
qed

lemma length_concat_take: "length (concat (map (\<lambda>(r, xs). take m xs) gs)) \<le> length gs * m"
  by (induction gs) auto

lemma selectWave_length: "length (selectWave work mr ml ws) \<le> mr * ml"
proof -
  have "length (selectWave work mr ml ws) \<le> length (take mr (by_root work ws)) * ml"
    unfolding selectWave_def by (rule length_concat_take)
  also have "\<dots> \<le> mr * ml" by (intro mult_le_mono1) simp
  finally show ?thesis .
qed

text \<open>Within one root never more than its share.\<close>

lemma filter_other_root:
  "(r', items) \<in> set (by_root work ws) \<Longrightarrow> r' \<noteq> r \<Longrightarrow>
     filter (\<lambda>w. resolveRoot work (id_of w) = r) (take n items) = []"
  using by_root_facts[of work ws] by (auto simp: filter_empty_conv dest!: in_set_takeD)

lemma selectWave_per_root:
  "length (filter (\<lambda>w. resolveRoot work (id_of w) = r) (selectWave work mr ml ws)) \<le> ml"
proof -
  let ?P = "\<lambda>w. resolveRoot work (id_of w) = r"
  have "length (filter ?P (concat (map (\<lambda>(r, items). take ml items) gs))) \<le> ml"
    if "set gs \<subseteq> set (by_root work ws)" "distinct (map fst gs)" for gs
    using that
  proof (induction gs)
    case Nil
    then show ?case by simp
  next
    case (Cons x gs)
    obtain r' items where x: "x = (r', items)" by (cases x)
    show ?case
    proof (cases "r' = r")
      case True
      have "filter ?P (concat (map (\<lambda>(r, items). take ml items) gs)) = []"
      proof -
        have "filter ?P (take ml it) = []" if "(q, it) \<in> set gs" for q it
        proof (rule filter_other_root[of q it])
          show "(q, it) \<in> set (by_root work ws)" using that Cons.prems(1) by auto
          show "q \<noteq> r" using that Cons.prems(2) x True by force
        qed
        then show ?thesis by (induction gs) auto
      qed
      moreover have "length (filter ?P (take ml items)) \<le> ml" by (metis length_filter_le length_take min.boundedE order_trans)
      ultimately show ?thesis using x by simp
    next
      case False
      then have "filter ?P (take ml items) = []" using Cons.prems(1) x by (intro filter_other_root) auto
      with Cons x show ?thesis by simp
    qed
  qed
  moreover have "set (take mr (by_root work ws)) \<subseteq> set (by_root work ws)" by (rule set_take_subset)
  moreover have "distinct (map fst (take mr (by_root work ws)))"
    using by_root_facts[of work ws] by (simp add: okeys_def take_map[symmetric])
  ultimately show ?thesis unfolding selectWave_def by blast
qed

lemma poll_dispatch:
  assumes "poll_once work frontierItems events maxVisits owners me parallel ceiling = Dispatch admitted trimmed"
  shows "set admitted \<subseteq> set (steerFrontier frontierItems work owners me)"
    and "\<forall>w \<in> set admitted. \<not> over_limit events maxVisits w"
    and "length admitted \<le> fst parallel * snd parallel"
    and "\<exists>room. room = hasWorkerSlotRoom work ceiling (Some (JNum (int (length
           (selectWave work (fst parallel) (snd parallel) (steerFrontier frontierItems work owners me)))))) None
         \<and> sa_allowed room \<and> int (length admitted) \<le> max 0 (sa_granted room)"
proof -
  let ?wave = "selectWave work (fst parallel) (snd parallel) (steerFrontier frontierItems work owners me)"
  let ?room = "hasWorkerSlotRoom work ceiling (Some (JNum (int (length ?wave)))) None"
  have facts: "filter (over_limit events maxVisits) frontierItems = []" "sa_allowed ?room"
    "admitted = take (nat (sa_granted ?room)) ?wave"
    using assms by (auto simp: poll_once_def Let_def split: if_splits)
  have sub: "set admitted \<subseteq> set ?wave" using facts(3) by (simp add: set_take_subset)
  then show s: "set admitted \<subseteq> set (steerFrontier frontierItems work owners me)" using selectWave_subset by blast
  show "\<forall>w \<in> set admitted. \<not> over_limit events maxVisits w"
    using s facts(1) by (auto simp: filter_empty_conv steerFrontier_def)
  have "length admitted \<le> length ?wave" using facts(3) by simp
  then show "length admitted \<le> fst parallel * snd parallel" using selectWave_length order_trans by blast
  show "\<exists>room. room = ?room \<and> sa_allowed room \<and> int (length admitted) \<le> max 0 (sa_granted room)"
    using facts by auto
qed

end
