(* ===== verification/Workflow_State.thy ===== *)
theory Workflow_State
  imports Guide_Schema
begin

text \<open>
  The ledger of a Workflow run and the state its events fold to (\<open>projectWorkflowState\<close> of
  \<open>src/workflow/store.mjs\<close>). An event is its type with the payload the code writes; a field the
  payload may lack is an option. A step's state is kept in an association list by step id, in the order of
  the definition.
\<close>

section \<open>Events\<close>

text \<open>The definition as the start event pins it: its own guide if it carries one, its raw head and its steps.\<close>

record workflow_snapshot =
  wk_id :: "string option"
  wk_guide :: "guide option"
  wk_raw :: obj
  wk_steps :: "g_step list"

record start_payload =
  sp_workflowId :: string
  sp_workflowRunId :: string
  sp_workflow :: "workflow_snapshot option"
  sp_request :: "string option"

record receipt =
  rc_evaluator :: string
  rc_passed :: bool                        \<comment> \<open>\<open>passed === true\<close>\<close>
  rc_milestone :: "string option"
  rc_subjectDigest :: "string option"

record achieved_item =
  ai_milestone :: string
  ai_subjectDigest :: "string option"
  ai_receipts :: "receipt list"            \<comment> \<open>of an inherited milestone\<close>
  ai_outcome :: "string option"

record opened_payload =
  op_kind :: "string option"
  op_frame :: "obj option"
  op_guideSha :: "string option"
  op_requestDigest :: "string option"
  op_inherits :: "achieved_item list"
  op_parent :: "string option"             \<comment> \<open>\<open>parent.caseId\<close>\<close>

record gate_answer =
  gw_stepId :: string
  gw_answer :: string
  gw_approved :: bool                      \<comment> \<open>\<open>approved === true\<close>\<close>
  gw_mode :: "string option"
  gw_milestones :: "string list option"
  gw_subjectDigest :: "string option"
  gw_occurrence :: nat
  gw_round :: nat

record reservation =
  rv_id :: string
  rv_activity :: "string option"
  rv_unitId :: "string option"
  rv_writes :: "string list"
  rv_worktree :: "string option"
  rv_dispatches :: "int option"            \<comment> \<open>\<open>counters.dispatches\<close>\<close>
  rv_mutating :: "int option"
  rv_ceiling :: "int option"
  rv_blind :: bool
  rv_nested :: bool
  rv_unitRunId :: "string option"

record settle_payload =
  st_reservationId :: string
  st_activity :: "string option"
  st_unitRunId :: "string option"
  st_outcome :: string
  st_receipts :: "receipt list"
  st_achieved :: "achieved_item list"
  st_seatLaunchesUsed :: int
  st_frameExhausted :: bool
  st_blind :: bool

record route_payload =
  ro_decisionPoint :: "string option"
  ro_activity :: string
  ro_unitId :: "string option"
  ro_routeKind :: string
  ro_reason :: "string option"
  ro_guideVersion :: "string option"
  ro_reservationId :: string
  ro_claimedRoute :: "string option"

record binding_payload =
  bp_caseId :: string
  bp_generation :: "nat option"
  bp_key :: "string option"
  bp_worktreeRoot :: string
  bp_commonDir :: "string option"
  bp_ref :: "string option"
  bp_unbound :: bool                       \<comment> \<open>\<open>state === 'unbound'\<close>\<close>

datatype wf_event =
    Workflow_start start_payload
  | Step_start string
  | Unit_scheduled string string "(string \<times> string option) option" "(string \<times> string option) option"
      \<comment> \<open>step, unit, worktree with its branch, base ref with its sha\<close>
  | Unit_started string string string                                   \<comment> \<open>step, unit, run\<close>
  | Unit_complete string string "string option" string "jval list" "jval list" "jval list"
      \<comment> \<open>step, unit, run, outcome, results, paths out of scope, and those on the branch\<close>
  | Gate_park string string "string option"                             \<comment> \<open>step, question, header\<close>
  | Gate_answer gate_answer
  | Step_complete string "string option" "string option"                \<comment> \<open>step, outcome, subject digest\<close>
  | Step_fail string "string option" "string option"                    \<comment> \<open>step, outcome, reason\<close>
  | Workflow_worktrees "jval list" "jval list"
  | Workflow_fail "string option"
  | Workflow_complete "string option"
  | Case_opened opened_payload
  | Binding binding_payload
  | Route route_payload
  | Reservation reservation
  | Settle settle_payload
  | Case_closed "string option"
  | Other_event string

section \<open>The state\<close>

record unit_state =
  us_status :: string
  us_worktree :: "(string \<times> string option) option"
  us_base :: "(string \<times> string option) option"
  us_unitRunId :: "string option"
  us_outcome :: "string option"
  us_results :: "jval list"
  us_outOfScope :: "jval list"
  us_outOfScopeOnBranch :: "jval list"

record step_state =
  ss_status :: string
  ss_dependsOn :: "string list"
  ss_kind :: string
  ss_gate :: "(string \<times> string option) option"
  ss_units :: "(string \<times> unit_state) list"
  ss_answer :: "string option"
  ss_lastClarification :: "string option"
  ss_approved :: "bool option"
  ss_outcome :: "string option"
  ss_reason :: "string option"

record question =
  qu_stepId :: string
  qu_question :: string
  qu_header :: "string option"

record wf_state =
  wf_status :: string
  wf_outcome :: "string option"
  wf_workflowId :: "string option"
  wf_workflowRunId :: "string option"
  wf_workflow :: "workflow_snapshot option"
  wf_request :: "string option"
  wf_worktrees :: "(jval list \<times> jval list) option"
  wf_steps :: "(string \<times> step_state) list"
  wf_questions :: "question list"

definition wf_initial :: wf_state where
  "wf_initial = \<lparr>wf_status = ''running'', wf_outcome = None, wf_workflowId = None, wf_workflowRunId = None,
     wf_workflow = None, wf_request = None, wf_worktrees = None, wf_steps = [], wf_questions = []\<rparr>"

definition fresh_step :: "g_step \<Rightarrow> step_state" where
  "fresh_step s = \<lparr>ss_status = ''pending'', ss_dependsOn = gs_dependsOn s,
     ss_kind = (if gs_kind s = [] then ''standard'' else gs_kind s), ss_gate = gs_gate s, ss_units = [],
     ss_answer = None, ss_lastClarification = None, ss_approved = None, ss_outcome = None, ss_reason = None\<rparr>"

text \<open>\<open>if (steps[id]) ...\<close>: an unknown step is left alone.\<close>

definition on_step :: "string \<Rightarrow> (step_state \<Rightarrow> step_state) \<Rightarrow> wf_state \<Rightarrow> wf_state" where
  "on_step i f s = (case oget (wf_steps s) i of None \<Rightarrow> s | Some x \<Rightarrow> s\<lparr>wf_steps := oset i (f x) (wf_steps s)\<rparr>)"

definition on_unit :: "string \<Rightarrow> (unit_state \<Rightarrow> unit_state) \<Rightarrow> step_state \<Rightarrow> step_state" where
  "on_unit u f x = (case oget (ss_units x) u of None \<Rightarrow> x | Some y \<Rightarrow> x\<lparr>ss_units := oset u (f y) (ss_units x)\<rparr>)"

text \<open>A gate with no mode is a consent gate.\<close>

definition consent_gate :: "(string \<times> string option) option \<Rightarrow> bool" where
  "consent_gate g = (case g of None \<Rightarrow> True | Some (mode, _) \<Rightarrow> mode = [] \<or> mode = ''consent'')"

fun remove_first :: "('a \<Rightarrow> bool) \<Rightarrow> 'a list \<Rightarrow> 'a list" where
  "remove_first P [] = []"
| "remove_first P (x # xs) = (if P x then xs else x # remove_first P xs)"

definition or_text :: "string option \<Rightarrow> string \<Rightarrow> string" where
  "or_text v d = (case v of Some s \<Rightarrow> if s = [] then d else s | None \<Rightarrow> d)"

definition apply_gate_answer :: "gate_answer \<Rightarrow> wf_state \<Rightarrow> wf_state" where
  "apply_gate_answer p s =
     (let s1 = (case oget (wf_steps s) (gw_stepId p) of
          None \<Rightarrow> s
        | Some x \<Rightarrow>
            if consent_gate (ss_gate x) \<and> \<not> gw_approved p then
              (on_step (gw_stepId p) (\<lambda>x. x\<lparr>ss_answer := Some (gw_answer p), ss_status := ''parked'',
                 ss_lastClarification := Some (gw_answer p)\<rparr>) s)\<lparr>wf_status := ''parked''\<rparr>
            else
              (on_step (gw_stepId p) (\<lambda>x. x\<lparr>ss_answer := Some (gw_answer p), ss_status := ''answered'',
                 ss_approved := Some (gw_approved p)\<rparr>) s)
                \<lparr>wf_questions := remove_first (\<lambda>q. qu_stepId q = gw_stepId p) (wf_questions s)\<rparr>)
      in if wf_questions s1 = [] \<and> wf_status s1 = ''parked'' then s1\<lparr>wf_status := ''running''\<rparr> else s1)"

fun apply_wf :: "wf_event \<Rightarrow> wf_state \<Rightarrow> wf_state" where
  "apply_wf (Workflow_start p) s = s\<lparr>wf_workflowId := Some (sp_workflowId p), wf_workflowRunId := Some (sp_workflowRunId p),
     wf_workflow := sp_workflow p, wf_request := sp_request p,
     wf_steps := fold (\<lambda>g. oset (gs_id g) (fresh_step g)) (case sp_workflow p of Some w \<Rightarrow> wk_steps w | None \<Rightarrow> []) (wf_steps s)\<rparr>"
| "apply_wf (Step_start i) s = on_step i (\<lambda>x. x\<lparr>ss_status := ''running''\<rparr>) s"
| "apply_wf (Unit_scheduled i u wt base) s = on_step i (\<lambda>x. x\<lparr>ss_units := oset u
     \<lparr>us_status = ''running'', us_worktree = wt, us_base = base, us_unitRunId = None, us_outcome = None,
      us_results = [], us_outOfScope = [], us_outOfScopeOnBranch = []\<rparr> (ss_units x)\<rparr>) s"
| "apply_wf (Unit_started i u r) s = on_step i (on_unit u (\<lambda>y. y\<lparr>us_unitRunId := Some r\<rparr>)) s"
| "apply_wf (Unit_complete i u r out results outside onBranch) s = on_step i (on_unit u (\<lambda>y. y\<lparr>us_status := ''completed'',
     us_unitRunId := r, us_outcome := Some out, us_results := results,
     us_outOfScope := (if outside = [] then us_outOfScope y else outside),
     us_outOfScopeOnBranch := (if onBranch = [] then us_outOfScopeOnBranch y else onBranch)\<rparr>)) s"
| "apply_wf (Gate_park i q h) s =
     (let s1 = on_step i (\<lambda>x. x\<lparr>ss_status := ''parked''\<rparr>) s;
          s2 = (if oget (wf_steps s) i \<noteq> None \<and> \<not> list_ex (\<lambda>x. qu_stepId x = i) (wf_questions s)
                then s1\<lparr>wf_questions := wf_questions s1 @ [\<lparr>qu_stepId = i, qu_question = q, qu_header = h\<rparr>]\<rparr> else s1)
      in s2\<lparr>wf_status := ''parked''\<rparr>)"
| "apply_wf (Gate_answer p) s = apply_gate_answer p s"
| "apply_wf (Step_complete i out _) s = on_step i (\<lambda>x. x\<lparr>ss_status := ''completed'', ss_outcome := Some (or_text out ''pass'')\<rparr>) s"
| "apply_wf (Step_fail i out reason) s = on_step i (\<lambda>x. x\<lparr>ss_status := ''failed'', ss_outcome := Some (or_text out ''failed''),
     ss_reason := reason\<rparr>) s"
| "apply_wf (Workflow_worktrees removed kept) s = s\<lparr>wf_worktrees := Some (removed, kept)\<rparr>"
| "apply_wf (Workflow_fail out) s = s\<lparr>wf_status := ''failed'', wf_outcome := Some (or_text out ''failed'')\<rparr>"
| "apply_wf (Workflow_complete out) s = s\<lparr>wf_status := ''completed'', wf_outcome := Some (or_text out ''pass'')\<rparr>"
| "apply_wf _ s = s"

definition projectWorkflowState :: "wf_event list \<Rightarrow> wf_state" where
  "projectWorkflowState events = (if events = [] then wf_initial\<lparr>wf_status := ''not-started''\<rparr>
     else fold apply_wf events wf_initial)"

text \<open>\<open>writeBranches\<close>: step, unit, branch, worktree and base of every unit that writes, in step order.\<close>

definition writeBranches :: "wf_state \<Rightarrow> (string \<times> string \<times> string \<times> string \<times> (string \<times> string option) option) list" where
  "writeBranches s = concat (map (\<lambda>(i, x). List.map_filter (\<lambda>(u, y). case us_worktree y of
       Some (wt, Some br) \<Rightarrow> if br = [] then None else Some (i, u, br, wt, us_base y)
     | _ \<Rightarrow> None) (ss_units x)) (wf_steps s))"

section \<open>Appending\<close>

text \<open>
  \<open>appendWorkflowEvent\<close> and \<open>readWorkflowEvents\<close> over the lines of the file: a line carries its
  sequence number, and a file whose numbers do not count from one is refused.
\<close>

type_synonym ledger_file = "(nat \<times> wf_event) list"

definition ledger_ok :: "ledger_file \<Rightarrow> bool" where
  "ledger_ok file = (map fst file = [1..<Suc (length file)])"

definition readWorkflowEvents :: "ledger_file \<Rightarrow> wf_event list option" where
  "readWorkflowEvents file = (if ledger_ok file then Some (map snd file) else None)"

definition appendWorkflowEvent :: "wf_event \<Rightarrow> ledger_file \<Rightarrow> ledger_file option" where
  "appendWorkflowEvent e file = (case readWorkflowEvents file of
     None \<Rightarrow> None
   | Some existing \<Rightarrow> Some (file @ [(length existing + 1, e)]))"

lemma append_read: "readWorkflowEvents file = Some es \<Longrightarrow>
   \<exists>file'. appendWorkflowEvent e file = Some file' \<and> readWorkflowEvents file' = Some (es @ [e])"
  by (auto simp: readWorkflowEvents_def appendWorkflowEvent_def ledger_ok_def split: if_splits)

section \<open>Facts\<close>

lemma wf_questions_on_step [simp]: "wf_questions (on_step i f s) = wf_questions s"
  by (simp add: on_step_def split: option.splits)

lemma wf_status_on_step [simp]: "wf_status (on_step i f s) = wf_status s"
  by (simp add: on_step_def split: option.splits)

lemma oget_on_step [simp]: "oget (wf_steps (on_step i f s)) j = (if i = j then map_option f (oget (wf_steps s) j) else oget (wf_steps s) j)"
  by (auto simp: on_step_def split: option.splits)

lemma remove_first_set: "set (remove_first P xs) \<subseteq> set xs"
  by (induction xs) auto

lemma remove_first_distinct:
  "distinct (map f xs) \<Longrightarrow> set (map f (remove_first (\<lambda>x. f x = k) xs)) = set (map f xs) - {k}
     \<and> distinct (map f (remove_first (\<lambda>x. f x = k) xs))"
  by (induction xs) (auto, metis image_eqI)

text \<open>
  One open question per step, every one of a step the definition declares, and the run parked while
  one is open unless it has ended.
\<close>

definition questions_sound :: "wf_state \<Rightarrow> bool" where
  "questions_sound s \<longleftrightarrow> distinct (map qu_stepId (wf_questions s))
     \<and> (\<forall>q \<in> set (wf_questions s). oget (wf_steps s) (qu_stepId q) \<noteq> None)
     \<and> (wf_questions s \<noteq> [] \<longrightarrow> wf_status s \<in> {''parked'', ''failed'', ''completed''})"

lemma fold_fresh_keeps: "oget st i \<noteq> None \<Longrightarrow> oget (fold (\<lambda>g. oset (gs_id g) (fresh_step g)) gs st) i \<noteq> None"
  by (induction gs arbitrary: st) auto

lemma questions_sound_on_step: "questions_sound s \<Longrightarrow> questions_sound (on_step i f s)"
  by (auto simp: questions_sound_def)

lemma questions_sound_apply:
  assumes "questions_sound s"
  shows "questions_sound (apply_wf e s)"
proof (cases e)
  case (Workflow_start p)
  then show ?thesis using assms fold_fresh_keeps by (simp add: questions_sound_def)
next
  case (Gate_park i q h)
  let ?s1 = "on_step i (\<lambda>x. x\<lparr>ss_status := ''parked''\<rparr>) s"
  have *: "apply_wf e s = (if oget (wf_steps s) i \<noteq> None \<and> \<not> list_ex (\<lambda>x. qu_stepId x = i) (wf_questions s)
      then ?s1\<lparr>wf_questions := wf_questions s @ [\<lparr>qu_stepId = i, qu_question = q, qu_header = h\<rparr>], wf_status := ''parked''\<rparr>
      else ?s1\<lparr>wf_status := ''parked''\<rparr>)"
    by (simp add: Gate_park Let_def)
  show ?thesis
  proof (cases "oget (wf_steps s) i \<noteq> None \<and> \<not> list_ex (\<lambda>x. qu_stepId x = i) (wf_questions s)")
    case True
    then have "i \<notin> set (map qu_stepId (wf_questions s))" by (auto simp: list_ex_iff)
    with True assms * show ?thesis by (auto simp: questions_sound_def)
  next
    case False
    with assms have "apply_wf e s = ?s1\<lparr>wf_status := ''parked''\<rparr>" using * by metis
    with assms show ?thesis by (auto simp: questions_sound_def)
  qed
next
  case (Gate_answer p)
  note rf = remove_first_distinct[of qu_stepId "wf_questions s" "gw_stepId p"]
  have sub: "set (remove_first (\<lambda>q. qu_stepId q = gw_stepId p) (wf_questions s)) \<subseteq> set (wf_questions s)"
    by (rule remove_first_set)
  show ?thesis
    using assms rf sub unfolding Gate_answer apply_wf.simps apply_gate_answer_def questions_sound_def Let_def
    by (cases "oget (wf_steps s) (gw_stepId p)") (auto split: if_splits)
qed (use assms questions_sound_on_step in \<open>simp_all add: questions_sound_def\<close>)

lemma questions_sound_project: "questions_sound (projectWorkflowState events)"
proof -
  have "questions_sound s \<Longrightarrow> questions_sound (fold apply_wf es s)" for es s
    by (induction es arbitrary: s) (auto intro: questions_sound_apply)
  moreover have "questions_sound wf_initial" "questions_sound (wf_initial\<lparr>wf_status := ''not-started''\<rparr>)"
    by (simp_all add: questions_sound_def wf_initial_def)
  ultimately show ?thesis by (simp add: projectWorkflowState_def)
qed

end
