(* ===== verification/Case_Projection.thy ===== *)
theory Case_Projection
  imports Workflow_State
begin

text \<open>
  What the events of a case fold to (\<open>src/workflow/case-projection.mjs\<close>): its milestones with the
  digests they were reached for, its reservations, its routes, and what they leave of the frame. The
  digest a subject has now is an argument, as it is in the code.
\<close>

definition RECEIPT_EVALUATORS :: "string list" where
  "RECEIPT_EVALUATORS = [''harness-verify'', ''reviewer-verdict'', ''gate-answer'']"

definition RIGOR_ORDER :: "string list" where
  "RIGOR_ORDER = [''low'', ''standard'', ''high'', ''critical'']"

text \<open>A receipt of a named evaluator that passed, for this milestone and this digest.\<close>

definition isValidReceipt :: "receipt \<Rightarrow> string \<Rightarrow> string option \<Rightarrow> bool" where
  "isValidReceipt r milestone subjectDigest =
     (rc_evaluator r \<in> set RECEIPT_EVALUATORS \<and> rc_passed r \<and> rc_milestone r = Some milestone
      \<and> rc_subjectDigest r \<noteq> None \<and> rc_subjectDigest r = subjectDigest)"

definition isDeliveryMilestone :: "guide option \<Rightarrow> string \<Rightarrow> bool" where
  "isDeliveryMilestone guide m = (case guide of None \<Rightarrow> False
     | Some g \<Rightarrow> list_ex (\<lambda>row. gu_guard row = ''verify-receipt'' \<and> gu_subject row = Some m) (g_must g))"

definition guideOf :: "start_payload option \<Rightarrow> guide option" where
  "guideOf start = (case Option.bind start sp_workflow of
     None \<Rightarrow> None
   | Some w \<Rightarrow> (case wk_guide w of
       Some g \<Rightarrow> Some g
     | None \<Rightarrow> (case normalizeGuide (wk_raw w)
           (case wk_id w of Some i \<Rightarrow> i | None \<Rightarrow> sp_workflowId (the start)) (wk_steps w) of
         Inr g \<Rightarrow> Some g | Inl _ \<Rightarrow> None)))"

definition frameOf :: "opened_payload option \<Rightarrow> guide option \<Rightarrow> obj option" where
  "frameOf opened guide = (case Option.bind opened op_frame of
     Some f \<Rightarrow> Some f
   | None \<Rightarrow> Option.bind guide g_frameDefaults)"

fun count_of :: "jval option \<Rightarrow> int option" where
  "count_of (Some (JNum n)) = (if n \<ge> 0 then Some n else None)"
| "count_of _ = None"

definition remaining :: "jval option \<Rightarrow> int \<Rightarrow> int option" where
  "remaining limit used = map_option (\<lambda>n. max 0 (n - used)) (count_of limit)"

section \<open>The fold\<close>

datatype m_state = Unreached | Achieved | Blocked | Outdated    \<comment> \<open>\<open>stale\<close> is \<open>Outdated\<close>\<close>

record milestone_entry =
  me_state :: m_state
  me_digest :: "string option"
  me_receipts :: "receipt list"
  me_outcome :: "string option"
  me_consent :: bool
  me_inherited :: bool
  me_question :: "string option"
  me_current :: "string option"        \<comment> \<open>the digest found now, of a stale one\<close>
  me_reason :: "string option"

definition unreached_entry :: milestone_entry where
  "unreached_entry = \<lparr>me_state = Unreached, me_digest = None, me_receipts = [], me_outcome = None, me_consent = False,
     me_inherited = False, me_question = None, me_current = None, me_reason = None\<rparr>"

record case_reservation =
  cr_rv :: reservation
  cr_settled :: bool
  cr_outcome :: "string option"
  cr_used :: "int option"

record refused_achievement =
  rf_milestone :: string
  rf_reservationId :: string
  rf_reason :: string

record case_fold =
  cf_milestones :: "(string \<times> milestone_entry) list"
  cf_reservations :: "(string \<times> case_reservation) list"
  cf_bindings :: "(string \<times> binding_payload) list"
  cf_routes :: "route_payload list"
  cf_blind :: "(string \<times> string option) list"
  cf_refused :: "refused_achievement list"
  cf_closed :: "string option option"          \<comment> \<open>the reason of the last close\<close>
  cf_exhausted :: bool

type_synonym milestones = "(string \<times> milestone_entry) list"

definition achieve :: "string \<Rightarrow> milestone_entry \<Rightarrow> milestones \<Rightarrow> milestones" where
  "achieve i e ms = (if ohas ms i then oset i (e\<lparr>me_state := Achieved\<rparr>) ms else ms)"

definition reached :: "string option \<Rightarrow> milestone_entry" where
  "reached digest = unreached_entry\<lparr>me_state := Achieved, me_digest := digest\<rparr>"

definition achieveIfUnreached :: "string \<Rightarrow> string option \<Rightarrow> milestones \<Rightarrow> milestones" where
  "achieveIfUnreached i digest ms = (case oget ms i of
     Some e \<Rightarrow> if me_state e = Unreached then achieve i (reached digest) ms else ms
   | None \<Rightarrow> ms)"

definition activityOf :: "guide option \<Rightarrow> string \<Rightarrow> g_activity option" where
  "activityOf guide i = Option.bind guide (\<lambda>g. List.find (\<lambda>a. ga_id a = i) (g_activities g))"

definition produces_of :: "guide option \<Rightarrow> string \<Rightarrow> string list" where
  "produces_of guide i = (case activityOf guide i of Some a \<Rightarrow> ga_produces a | None \<Rightarrow> [])"

definition gate_mode :: "(string \<times> step_state) list \<Rightarrow> string \<Rightarrow> string option" where
  "gate_mode steps i = Option.bind (oget steps i) (\<lambda>x. map_option fst (ss_gate x))"

text \<open>Whether a settle's claim on a milestone is accepted.\<close>

definition accepted :: "guide option \<Rightarrow> settle_payload \<Rightarrow> achieved_item \<Rightarrow> bool" where
  "accepted guide p item = (let delivery = isDeliveryMilestone guide (ai_milestone item) in
     st_outcome p = ''pass'' \<and> (\<not> delivery
         \<or> list_ex (\<lambda>r. isValidReceipt r (ai_milestone item) (ai_subjectDigest item)) (st_receipts p))
     \<or> st_outcome p = ''findings'' \<and> \<not> delivery)"

definition settle_item :: "guide option \<Rightarrow> settle_payload \<Rightarrow> achieved_item \<Rightarrow> case_fold \<Rightarrow> case_fold" where
  "settle_item guide p item c =
     (if accepted guide p item
      then c\<lparr>cf_milestones := achieve (ai_milestone item)
             ((reached (ai_subjectDigest item))\<lparr>me_receipts := st_receipts p, me_outcome := Some (st_outcome p)\<rparr>) (cf_milestones c)\<rparr>
      else c\<lparr>cf_refused := cf_refused c @ [\<lparr>rf_milestone = ai_milestone item, rf_reservationId = st_reservationId p,
             rf_reason = (if isDeliveryMilestone guide (ai_milestone item) \<and> st_outcome p = ''pass''
                          then ''receipt-missing'' else ''outcome-'' @ st_outcome p)\<rparr>]\<rparr>)"

definition settle_reservation :: "settle_payload \<Rightarrow> case_reservation \<Rightarrow> case_reservation" where
  "settle_reservation p r = r\<lparr>cr_settled := True, cr_outcome := Some (st_outcome p), cr_used := Some (st_seatLaunchesUsed p),
     cr_rv := (cr_rv r)\<lparr>rv_unitRunId := (case st_unitRunId p of Some u \<Rightarrow> Some u | None \<Rightarrow> rv_unitRunId (cr_rv r))\<rparr>\<rparr>"

definition apply_settle :: "guide option \<Rightarrow> settle_payload \<Rightarrow> case_fold \<Rightarrow> case_fold" where
  "apply_settle guide p c =
     (let res = oget (cf_reservations c) (st_reservationId p);
          c1 = (case res of Some r \<Rightarrow> c\<lparr>cf_reservations := oset (st_reservationId p) (settle_reservation p r) (cf_reservations c)\<rparr>
                | None \<Rightarrow> c);
          c2 = c1\<lparr>cf_exhausted := (cf_exhausted c1 \<or> st_frameExhausted p)\<rparr>;
          c3 = (case st_unitRunId p of
                  Some u \<Rightarrow> if st_blind p \<and> u \<noteq> [] then c2\<lparr>cf_blind := oset u
                      (case st_activity p of Some a \<Rightarrow> Some a | None \<Rightarrow> Option.bind res (\<lambda>r. rv_activity (cr_rv r))) (cf_blind c2)\<rparr>
                    else c2
                | None \<Rightarrow> c2)
      in fold (settle_item guide p) (st_achieved p) c3)"

definition answer_settles :: "(string \<times> step_state) list \<Rightarrow> gate_answer \<Rightarrow> string \<times> bool" where
  "answer_settles steps p = (let mode = (case gate_mode steps (gw_stepId p) of
       Some m \<Rightarrow> m | None \<Rightarrow> (case gw_mode p of Some m \<Rightarrow> m | None \<Rightarrow> ''consent''))
     in (mode, mode = ''input'' \<or> gw_approved p))"

fun apply_case :: "(string \<times> step_state) list \<Rightarrow> guide option \<Rightarrow> wf_event \<Rightarrow> case_fold \<Rightarrow> case_fold" where
  "apply_case steps guide (Case_opened p) c =
     c\<lparr>cf_milestones := fold (\<lambda>item. achieve (ai_milestone item)
          ((reached (ai_subjectDigest item))\<lparr>me_receipts := ai_receipts item, me_outcome := ai_outcome item, me_inherited := True\<rparr>))
        (op_inherits p) (achieve ''request-received'' (reached (op_requestDigest p)) (cf_milestones c))\<rparr>"
| "apply_case steps guide (Step_complete i _ digest) c =
     c\<lparr>cf_milestones := fold (\<lambda>m. achieveIfUnreached m digest) (produces_of guide i) (cf_milestones c)\<rparr>"
| "apply_case steps guide (Gate_answer p) c =
     (let (mode, settles) = answer_settles steps p in
      if \<not> settles then c
      else c\<lparr>cf_milestones := fold (\<lambda>m. achieve m ((reached (gw_subjectDigest p))\<lparr>me_consent := (mode = ''consent'')\<rparr>))
          (case gw_milestones p of Some ms \<Rightarrow> ms | None \<Rightarrow> produces_of guide (gw_stepId p)) (cf_milestones c)\<rparr>)"
| "apply_case steps guide (Reservation r) c =
     c\<lparr>cf_reservations := oset (rv_id r) \<lparr>cr_rv = r, cr_settled = False, cr_outcome = None, cr_used = None\<rparr> (cf_reservations c)\<rparr>"
| "apply_case steps guide (Settle p) c = apply_settle guide p c"
| "apply_case steps guide (Route r) c = c\<lparr>cf_routes := cf_routes c @ [r]\<rparr>"
| "apply_case steps guide (Binding p) c =
     (let key = (case bp_key p of Some k \<Rightarrow> k | None \<Rightarrow> bp_worktreeRoot p) in
      c\<lparr>cf_bindings := (if bp_unbound p then odel key (cf_bindings c) else oset key p (cf_bindings c))\<rparr>)"
| "apply_case steps guide (Case_closed reason) c = c\<lparr>cf_closed := Some reason\<rparr>"
| "apply_case steps guide _ c = c"

definition start_fold :: "guide option \<Rightarrow> case_fold" where
  "start_fold guide = \<lparr>cf_milestones = (case guide of None \<Rightarrow> []
       | Some g \<Rightarrow> fold (\<lambda>m. oset (gm_id m) unreached_entry) (g_milestones g) []),
     cf_reservations = [], cf_bindings = [], cf_routes = [], cf_blind = [], cf_refused = [], cf_closed = None, cf_exhausted = False\<rparr>"

section \<open>After the fold\<close>

definition block_milestones :: "guide option \<Rightarrow> question list \<Rightarrow> milestones \<Rightarrow> milestones" where
  "block_milestones guide qs ms = fold (\<lambda>q. fold (\<lambda>i ms. case oget ms i of
       Some e \<Rightarrow> if me_state e = Unreached
         then oset i (unreached_entry\<lparr>me_state := Blocked, me_question := Some (qu_question q)\<rparr>) ms else ms
     | None \<Rightarrow> ms) (produces_of guide (qu_stepId q))) qs ms"

text \<open>The digest of a subject as it is now: no entry, or an entry that is null.\<close>

type_synonym digests = "(string \<times> string option) list"

definition stale_entry :: "digests \<Rightarrow> string \<Rightarrow> milestone_entry \<Rightarrow> milestone_entry" where
  "stale_entry current i e = (case oget current i of
     None \<Rightarrow> e
   | Some now \<Rightarrow> if me_state e \<noteq> Achieved \<or> me_digest e = None \<or> now = me_digest e then e
       else e\<lparr>me_state := Outdated, me_current := now,
              me_reason := (if now = None then Some ''current-digest-unknown'' else None)\<rparr>)"

definition mark_stale :: "digests \<Rightarrow> milestones \<Rightarrow> milestones" where
  "mark_stale current ms = map (\<lambda>(i, e). (i, stale_entry current i e)) ms"

definition gave_back :: "case_reservation \<Rightarrow> bool" where
  "gave_back r = (cr_settled r \<and> (cr_outcome r = Some ''refunded'' \<or> cr_outcome r = Some ''not-started''))"

definition used_dispatches :: "(string \<times> case_reservation) list \<Rightarrow> int" where
  "used_dispatches rs = sum_list (map (\<lambda>(_, r). case rv_dispatches (cr_rv r) of Some n \<Rightarrow> n | None \<Rightarrow> 1)
     (filter (\<lambda>(_, r). \<not> gave_back r) rs))"

definition used_mutating :: "(string \<times> case_reservation) list \<Rightarrow> int" where
  "used_mutating rs = sum_list (map (\<lambda>(_, r). case rv_mutating (cr_rv r) of Some n \<Rightarrow> n | None \<Rightarrow> 0)
     (filter (\<lambda>(_, r). \<not> gave_back r) rs))"

record frame_remaining =
  fr_dispatches :: "int option"
  fr_mutating :: "int option"
  fr_deviations :: "int option"
  fr_seatLaunches :: "int option"
  fr_fallback :: "int option"
  fr_rigorFloor :: "jval option"

record route_point =
  pt_at :: string
  pt_open :: bool
  pt_should :: "string list"
  pt_mayInstead :: "string list"
  pt_reason :: "string option"
  pt_listedRoutesOnly :: bool
  pt_gate :: "string option"

record case_view =
  cv_caseId :: "string option"
  cv_kind :: string
  cv_guide :: "guide option"
  cv_guideSha :: "string option"
  cv_frame :: "obj option"
  cv_status :: string
  cv_closed :: "string option option"
  cv_milestones :: milestones
  cv_refused :: "refused_achievement list"
  cv_reservations :: "(string \<times> case_reservation) list"
  cv_blind :: "(string \<times> string option) list"
  cv_dispatchesUsed :: int
  cv_mutatingUsed :: int
  cv_remaining :: frame_remaining
  cv_exhausted :: bool
  cv_deviations :: nat
  cv_routes :: "route_payload list"
  cv_eligible :: "string list"
  cv_points :: "route_point list"
  cv_questions :: "question list"
  cv_bindings :: "(string \<times> binding_payload) list"
  cv_closureReasons :: "string list"

definition achieved_in :: "milestones \<Rightarrow> string \<Rightarrow> bool" where
  "achieved_in ms i = (case oget ms i of Some e \<Rightarrow> me_state e = Achieved | None \<Rightarrow> False)"

definition live_reservations :: "(string \<times> case_reservation) list \<Rightarrow> case_reservation list" where
  "live_reservations rs = map snd (filter (\<lambda>(_, r). \<not> cr_settled r \<and> \<not> rv_nested (cr_rv r)) rs)"

definition deviations_of :: "route_payload list \<Rightarrow> nat" where
  "deviations_of routes = length (filter (\<lambda>r. ro_routeKind r = ''unlisted'') routes)"

definition remaining_of :: "obj option \<Rightarrow> case_fold \<Rightarrow> frame_remaining" where
  "remaining_of frame c = (let f = lazyd frame in
     \<lparr>fr_dispatches = remaining (oget f ''dispatches'') (used_dispatches (cf_reservations c)),
      fr_mutating = remaining (oget f ''mutatingDispatches'') (used_mutating (cf_reservations c)),
      fr_deviations = remaining (oget f ''deviationsBeforeAsk'') (int (deviations_of (cf_routes c))),
      fr_seatLaunches = count_of (oget f ''seatLaunchesPerDispatch''),
      fr_fallback = count_of (oget f ''fallbackPerSeat''),
      fr_rigorFloor = oget f ''rigorFloor''\<rparr>)"

definition closure_reasons :: "guide option \<Rightarrow> wf_state \<Rightarrow> bool \<Rightarrow> milestones \<Rightarrow> string list" where
  "closure_reasons guide legacy is_closed ms =
     (if is_closed then [''case-closed''] else [])
     @ map (\<lambda>i. ''closure-milestone-stale:'' @ i)
         (filter (\<lambda>i. case oget ms i of Some e \<Rightarrow> me_state e = Outdated | None \<Rightarrow> False) (case guide of Some g \<Rightarrow> g_closure g | None \<Rightarrow> []))
     @ map (\<lambda>q. ''consent-gate-parked:'' @ qu_stepId q)
         (filter (\<lambda>q. (case gate_mode (wf_steps legacy) (qu_stepId q) of Some m \<Rightarrow> m | None \<Rightarrow> ''consent'') = ''consent'') (wf_questions legacy))"

fun first_start :: "wf_event list \<Rightarrow> start_payload option" where
  "first_start [] = None"
| "first_start (Workflow_start p # es) = Some p"
| "first_start (_ # es) = first_start es"

fun first_opened :: "wf_event list \<Rightarrow> opened_payload option" where
  "first_opened [] = None"
| "first_opened (Case_opened p # es) = Some p"
| "first_opened (_ # es) = first_opened es"

definition case_folded :: "wf_event list \<Rightarrow> case_fold" where
  "case_folded events = (let guide = guideOf (first_start events) in
     fold (apply_case (wf_steps (projectWorkflowState events)) guide) events (start_fold guide))"

definition case_guide :: "wf_event list \<Rightarrow> guide option" where
  "case_guide events = guideOf (first_start events)"

definition case_frame :: "wf_event list \<Rightarrow> obj option" where
  "case_frame events = frameOf (first_opened events) (case_guide events)"

definition projectCase :: "wf_event list \<Rightarrow> digests \<Rightarrow> case_view" where
  "projectCase events currentDigests =
     (let legacy = projectWorkflowState events; opened = first_opened events; guide = case_guide events;
          kind = (case Option.bind opened op_kind of Some k \<Rightarrow> k | None \<Rightarrow> (case guide of Some g \<Rightarrow> g_kind g | None \<Rightarrow> ''playbook''));
          frame = case_frame events; c = case_folded events;
          ms = mark_stale currentDigests (block_milestones guide (wf_questions legacy) (cf_milestones c))
      in \<lparr>cv_caseId = wf_workflowRunId legacy, cv_kind = kind, cv_guide = guide, cv_guideSha = Option.bind opened op_guideSha,
          cv_frame = frame, cv_status = wf_status legacy, cv_closed = cf_closed c, cv_milestones = ms, cv_refused = cf_refused c,
          cv_reservations = cf_reservations c, cv_blind = cf_blind c,
          cv_dispatchesUsed = used_dispatches (cf_reservations c), cv_mutatingUsed = used_mutating (cf_reservations c),
          cv_remaining = remaining_of frame c, cv_exhausted = cf_exhausted c,
          cv_deviations = deviations_of (cf_routes c), cv_routes = cf_routes c,
          cv_eligible = (if cf_closed c \<noteq> None then [] else map ga_id (filter (\<lambda>a. list_all (achieved_in ms) (ga_entry a))
             (case guide of Some g \<Rightarrow> g_activities g | None \<Rightarrow> []))),
          cv_points = map (\<lambda>d. \<lparr>pt_at = gd_at d, pt_open = achieved_in ms (gd_at d), pt_should = gd_should d,
             pt_mayInstead = gd_mayInstead d, pt_reason = gd_reason d, pt_listedRoutesOnly = gd_listedRoutesOnly d,
             pt_gate = gd_gate d\<rparr>) (case guide of Some g \<Rightarrow> g_decisions g | None \<Rightarrow> []),
          cv_questions = wf_questions legacy, cv_bindings = cf_bindings c,
          cv_closureReasons = closure_reasons guide legacy (cf_closed c \<noteq> None) ms\<rparr>)"

section \<open>Receipts of a Unit run\<close>

record unit_result =
  ur_seat :: string             \<comment> \<open>\<open>String(seatKeyOf(result) ?? '')\<close>\<close>
  ur_verdict :: "bool option"   \<comment> \<open>\<open>posture.verdict === true\<close>, of a result with a posture\<close>
  ur_outcome :: string

definition isVerifyResult :: "unit_result \<Rightarrow> bool" where
  "isVerifyResult r = (ur_seat r = ''verify'' \<or> ur_seat r = ''verifier'')"

definition isVerdictResult :: "unit_result \<Rightarrow> bool" where
  "isVerdictResult r = (case ur_verdict r of
     Some v \<Rightarrow> v
   | None \<Rightarrow> list_ex (\<lambda>p. take (length p) (ur_seat r) = p) [''reviewer'', ''red-team'', ''checker''])"

definition receiptsFromResults :: "unit_result list \<Rightarrow> string option \<Rightarrow> string option \<Rightarrow> receipt list" where
  "receiptsFromResults results milestone subjectDigest = List.map_filter (\<lambda>r.
     if isVerifyResult r \<and> ur_outcome r = ''pass'' then
       Some \<lparr>rc_evaluator = ''harness-verify'', rc_passed = True, rc_milestone = milestone, rc_subjectDigest = subjectDigest\<rparr>
     else if isVerdictResult r \<and> (ur_outcome r = ''pass'' \<or> ur_outcome r = ''findings'') then
       Some \<lparr>rc_evaluator = ''reviewer-verdict'', rc_passed = (ur_outcome r = ''pass''), rc_milestone = milestone, rc_subjectDigest = subjectDigest\<rparr>
     else None) results"

end
