(* ===== verification/Case_Admission.thy ===== *)
theory Case_Admission
  imports Case_Projection Write_Scope
begin

text \<open>
  Whether a proposed activity may run now (\<open>src/workflow/case-admission.mjs\<close>): an answer over the
  projection of the case, the bindings of its worktrees and the live reservations, that names every hard
  rule the proposal breaks or gives the events of the admission. Beside it the doors that write
  reservations and settles on the ledger of a case (\<open>case-frame.mjs\<close>, \<open>case-runtime.mjs\<close>,
  \<open>case-close.mjs\<close>). The text of a refusal is not modelled; its code, rule and milestone are.
\<close>

record violation =
  vi_code :: string
  vi_rule :: string
  vi_milestone :: "string option"

record proposal =
  pr_activity :: string
  pr_unitId :: "string option"
  pr_decisionPoint :: "string option"
  pr_reason :: "string option"
  pr_writes :: "jval list"
  pr_worktree :: "string option"
  pr_blind :: bool                          \<comment> \<open>\<open>blind === true\<close>\<close>
  pr_handoffRefs :: "string list"
  pr_rigor :: "string option"
  pr_seatLaunches :: "int option"
  pr_unitRunId :: "string option"
  pr_proposer :: "string option"
  pr_claimedRoute :: "string option"

datatype admission =
    Admitted reservation "(string \<times> string) list" "wf_event list"
      \<comment> \<open>the bindings are worktree and action\<close>
  | Refused "violation list"

section \<open>The order of activities\<close>

definition listed :: "string list \<Rightarrow> string \<Rightarrow> bool" where
  "listed routes i = list_ex (\<lambda>route. route = i \<or> startsWith route (i @ '' '')) routes"

definition producersOf :: "guide \<Rightarrow> string \<Rightarrow> g_activity list" where
  "producersOf g m = filter (\<lambda>a. m \<in> set (ga_produces a)) (g_activities g)"

definition builds_on :: "guide \<Rightarrow> g_activity \<Rightarrow> g_activity list" where
  "builds_on g a = concat (map (producersOf g) (ga_entry a))"

text \<open>
  \<open>walk\<close> of \<open>ancestorsOf\<close>: the activities still to visit, the nearest first, and the ids
  seen so far.
\<close>

definition activity_ids :: "guide \<Rightarrow> string set" where
  "activity_ids g = set (map ga_id (g_activities g))"

lemma builds_on_ids: "ga_id ` set (builds_on g a) \<subseteq> activity_ids g"
  by (auto simp: builds_on_def producersOf_def activity_ids_def)

function ancestors_walk :: "guide \<Rightarrow> g_activity list \<Rightarrow> string list \<Rightarrow> string list" where
  "ancestors_walk g [] seen = seen"
| "ancestors_walk g (a # todo) seen =
     (if ga_id a \<in> set seen then ancestors_walk g todo seen
      else ancestors_walk g (builds_on g a @ todo) (ga_id a # seen))"
  by pat_completeness auto

termination ancestors_walk
proof (relation "measures [\<lambda>(g, todo, seen). card (activity_ids g \<union> ga_id ` set todo - set seen), \<lambda>(g, todo, seen). length todo]",
    goal_cases)
  case 1
  show ?case by simp
next
  case (2 g a todo seen)
  then have "activity_ids g \<union> ga_id ` set (a # todo) - set seen = activity_ids g \<union> ga_id ` set todo - set seen" by auto
  then show ?case by simp
next
  case (3 g a todo seen)
  have "activity_ids g \<union> ga_id ` set (builds_on g a @ todo) - set (ga_id a # seen)
      \<subset> activity_ids g \<union> ga_id ` set (a # todo) - set seen"
    using 3 builds_on_ids[of g a] by auto
  moreover have "finite (activity_ids g)" by (simp add: activity_ids_def)
  ultimately have "card (activity_ids g \<union> ga_id ` set (builds_on g a @ todo) - set (ga_id a # seen))
      < card (activity_ids g \<union> ga_id ` set (a # todo) - set seen)"
    by (intro psubset_card_mono) simp_all
  then show ?case by simp
qed

definition ancestorsOf :: "guide \<Rightarrow> g_activity \<Rightarrow> string list" where
  "ancestorsOf g a = ancestors_walk g (builds_on g a) []"

definition isDownstream :: "guide \<Rightarrow> g_activity \<Rightarrow> string \<Rightarrow> bool" where
  "isDownstream g a m = (m \<in> set (ga_entry a)
     \<or> list_ex (\<lambda>p. ga_id p \<in> set (ancestorsOf g a)) (producersOf g m))"

section \<open>The checks\<close>

definition milestone_of :: "case_view \<Rightarrow> string option \<Rightarrow> milestone_entry option" where
  "milestone_of v subject = (case subject of Some s \<Rightarrow> if s = [] then None else oget (cv_milestones v) s | None \<Rightarrow> None)"

definition in_state :: "milestone_entry option \<Rightarrow> m_state \<Rightarrow> bool" where
  "in_state m st = (case m of Some e \<Rightarrow> me_state e = st | None \<Rightarrow> False)"

definition entry_violation :: "case_view \<Rightarrow> string \<Rightarrow> violation list" where
  "entry_violation v i = (let m = oget (cv_milestones v) i; row = (\<lambda>code. [\<lparr>vi_code = code, vi_rule = ''milestone-reached'', vi_milestone = Some i\<rparr>]) in
     if in_state m Achieved then []
     else if in_state m Outdated then row ''entry-milestone-stale''
     else if in_state m Blocked then row ''entry-milestone-blocked''
     else row ''entry-milestone-unmet'')"

definition has_subject :: "string list \<Rightarrow> string option \<Rightarrow> bool" where
  "has_subject ms subject = (case subject of Some s \<Rightarrow> s \<in> set ms | None \<Rightarrow> False)"

definition comes_after :: "guide \<Rightarrow> g_activity \<Rightarrow> string option \<Rightarrow> bool" where
  "comes_after g a subject = (case subject of Some s \<Rightarrow> isDownstream g a s | None \<Rightarrow> False)"

text \<open>The run a handoff ref names: what follows \<open>unit-run:\<close> up to the next slash.\<close>

definition handed_run :: "string \<Rightarrow> string option" where
  "handed_run ref = (if startsWith ref ''unit-run:'' then
     (let run = takeWhile (\<lambda>c. c \<noteq> fslash) (drop 9 ref) in if run = [] then None else Some run) else None)"

definition blind_refs :: "case_view \<Rightarrow> guide \<Rightarrow> proposal \<Rightarrow> string option \<Rightarrow> string list" where
  "blind_refs v g p subject = filter (\<lambda>ref. case Option.bind (handed_run ref) (oget (cv_blind v)) of
       Some (Some owner) \<Rightarrow> (case subject of Some s \<Rightarrow> owner \<in> set (map ga_id (producersOf g s)) | None \<Rightarrow> False)
     | _ \<Rightarrow> False) (pr_handoffRefs p)"

definition must_violations :: "case_view \<Rightarrow> guide \<Rightarrow> g_activity \<Rightarrow> proposal \<Rightarrow> bool \<Rightarrow> g_must \<Rightarrow> violation list" where
  "must_violations v g a p writing row =
     (let subject = gu_subject row; m = milestone_of v subject;
          bad = (\<lambda>code. [\<lparr>vi_code = code, vi_rule = gu_id row, vi_milestone = subject\<rparr>]);
          bare = (\<lambda>code. [\<lparr>vi_code = code, vi_rule = gu_id row, vi_milestone = None\<rparr>]) in
      if gu_guard row = ''milestone-reached'' then
        (if writing \<and> \<not> has_subject (ga_produces a) subject \<and> \<not> in_state m Achieved then bad ''milestone-not-reached'' else [])
      else if gu_guard row = ''human-consent'' then
        (if writing \<and> comes_after g a subject then
           (if in_state m Outdated \<and> Option.bind m me_reason = Some ''current-digest-unknown'' then bad ''consent-subject-unknown''
            else if in_state m Outdated then bad ''consent-stale''
            else if \<not> in_state m Achieved \<or> \<not> me_consent (the m) then bad ''consent-missing''
            else [])
         else [])
      else if gu_guard row = ''verify-receipt'' then
        (if \<not> has_subject (ga_entry a) subject \<and> comes_after g a subject \<and> \<not> in_state m Achieved
         then bad (if in_state m Outdated then ''receipt-stale'' else ''receipt-missing'') else [])
      else if gu_guard row = ''independence-blind'' then
        (if has_subject (ga_produces a) subject
         then (if \<not> pr_blind p then bare ''independence-not-encapsulated'' else [])
            @ (if blind_refs v g p subject \<noteq> [] then bare ''independence-blind-handoff'' else [])
         else [])
      else [])"

definition live_of :: "case_view \<Rightarrow> reservation list" where
  "live_of v = map cr_rv (live_reservations (cv_reservations v))"

definition overlapping :: "string list \<Rightarrow> string list \<Rightarrow> scope_error + bool" where
  "overlapping a b = (if b = [] then Inr False else writeScopesOverlap (map JStr a) (map JStr b))"

fun overlap_violations :: "string list \<Rightarrow> reservation list \<Rightarrow> scope_error + violation list" where
  "overlap_violations writes [] = Inr []"
| "overlap_violations writes (other # others) =
     e_bind (overlapping writes (rv_writes other)) (\<lambda>hit.
     e_bind (overlap_violations writes others) (\<lambda>vs.
       Inr ((if hit then [\<lparr>vi_code = ''writes-overlap'', vi_rule = ''write-scope-isolation'', vi_milestone = None\<rparr>] else []) @ vs)))"

text \<open>The bindings to make or to keep, or why there is none; an answer that is neither is its own code.\<close>

definition binding_check :: "proposal \<Rightarrow> (string \<times> string) list \<Rightarrow> violation list \<times> (string \<times> string) list" where
  "binding_check p answers = (let bad = (\<lambda>code. ([\<lparr>vi_code = code, vi_rule = ''binding'', vi_milestone = None\<rparr>], [])) in
     case pr_worktree p of
       None \<Rightarrow> bad ''writes-need-worktree''
     | Some wt \<Rightarrow> if wt = [] then bad ''writes-need-worktree'' else
         (case oget answers wt of
            None \<Rightarrow> bad ''binding-unresolved''
          | Some answer \<Rightarrow> if answer = ''unbound'' then ([], [(wt, ''create'')])
              else if answer = ''bound'' then ([], [(wt, ''have'')]) else bad answer))"

definition rigor_below :: "string option \<Rightarrow> jval option \<Rightarrow> bool" where
  "rigor_below rigor floor = (case (rigor, floor) of
     (Some r, Some (JStr f)) \<Rightarrow> f \<in> set RIGOR_ORDER \<and> r \<in> set RIGOR_ORDER
       \<and> length (takeWhile (\<lambda>x. x \<noteq> r) RIGOR_ORDER) < length (takeWhile (\<lambda>x. x \<noteq> f) RIGOR_ORDER)
   | _ \<Rightarrow> False)"

definition frame_row :: "string \<Rightarrow> violation list" where
  "frame_row code = [\<lparr>vi_code = code, vi_rule = ''frame-allowance'', vi_milestone = None\<rparr>]"

definition frame_violations :: "frame_remaining \<Rightarrow> proposal \<Rightarrow> bool \<Rightarrow> violation list" where
  "frame_violations left p writing =
     (if fr_dispatches left = Some 0 then frame_row ''frame-exhausted'' else [])
     @ (if writing then
          (if fr_dispatches left = None \<or> fr_mutating left = None then frame_row ''frame-remaining-unknown''
           else if fr_mutating left = Some 0 then frame_row ''frame-exhausted'' else [])
        else [])
     @ (case fr_seatLaunches left of
          None \<Rightarrow> []
        | Some perDispatch \<Rightarrow> (case pr_seatLaunches p of
            None \<Rightarrow> if writing then frame_row ''frame-remaining-unknown'' else []
          | Some n \<Rightarrow> if n > perDispatch then frame_row ''seat-launch-ceiling-exceeded''
              else if fr_fallback left = None \<and> writing then frame_row ''frame-remaining-unknown'' else []))
     @ (if rigor_below (pr_rigor p) (fr_rigorFloor left) then frame_row ''rigor-below-floor'' else [])"

definition seat_ceiling :: "frame_remaining \<Rightarrow> proposal \<Rightarrow> int option" where
  "seat_ceiling left p = (case (pr_seatLaunches p, fr_fallback left) of (Some n, Some k) \<Rightarrow> Some (n * k) | _ \<Rightarrow> None)"

definition governing_points :: "case_view \<Rightarrow> g_activity \<Rightarrow> proposal \<Rightarrow> route_point list" where
  "governing_points v a p = filter (\<lambda>pt. pt_open pt \<and> (pr_decisionPoint p = None \<or> pr_decisionPoint p = Some (pt_at pt))
     \<and> (listed (pt_should pt) (ga_id a) \<or> listed (pt_mayInstead pt) (ga_id a) \<or> pt_at pt \<in> set (ga_entry a))) (cv_points v)"

definition routeKindOf :: "case_view \<Rightarrow> g_activity \<Rightarrow> proposal \<Rightarrow> string" where
  "routeKindOf v a p = (let gov = governing_points v a p in
     if cv_kind v = ''playbook'' \<and> pr_proposer p = Some ''playbook'' then ''should''
     else if list_ex (\<lambda>pt. listed (pt_should pt) (ga_id a)) gov then ''should''
     else if list_ex (\<lambda>pt. listed (pt_mayInstead pt) (ga_id a)) gov then ''may-instead''
     else if gov \<noteq> [] then ''unlisted'' else ''eligible'')"

definition no_text :: "string option \<Rightarrow> bool" where
  "no_text r = (case r of None \<Rightarrow> True | Some s \<Rightarrow> trim s = [])"

definition route_violations :: "case_view \<Rightarrow> g_activity \<Rightarrow> proposal \<Rightarrow> violation list" where
  "route_violations v a p = (let row = (\<lambda>code. [\<lparr>vi_code = code, vi_rule = ''route'', vi_milestone = None\<rparr>]) in
     if routeKindOf v a p \<noteq> ''unlisted'' then []
     else (if no_text (pr_reason p) then row ''route-reason-required'' else [])
       @ (if list_ex pt_listedRoutesOnly (governing_points v a p) then row ''unlisted-route-refused'' else [])
       @ (if fr_deviations (cv_remaining v) = Some 0 then frame_row ''deviation-limit-reached'' else []))"

section \<open>Admission\<close>

definition admitted_reservation :: "case_view \<Rightarrow> g_activity \<Rightarrow> proposal \<Rightarrow> string list \<Rightarrow> string \<Rightarrow> reservation" where
  "admitted_reservation v a p writes rid =
     \<lparr>rv_id = rid, rv_activity = Some (ga_id a), rv_unitId = pr_unitId p, rv_writes = writes, rv_worktree = pr_worktree p,
      rv_dispatches = Some 1, rv_mutating = Some (if writes \<noteq> [] then 1 else 0),
      rv_ceiling = (if cv_frame v = None then None else seat_ceiling (cv_remaining v) p),
      rv_blind = pr_blind p, rv_nested = False, rv_unitRunId = pr_unitRunId p\<rparr>"

definition admission_events :: "case_view \<Rightarrow> g_activity \<Rightarrow> proposal \<Rightarrow> reservation \<Rightarrow> wf_event list" where
  "admission_events v a p r =
     [Route \<lparr>ro_decisionPoint = (case governing_points v a p of [] \<Rightarrow> None | pt # _ \<Rightarrow> Some (pt_at pt)),
        ro_activity = ga_id a, ro_unitId = pr_unitId p, ro_routeKind = routeKindOf v a p,
        ro_reason = (case pr_reason p of Some s \<Rightarrow> if s = [] then None else Some s | None \<Rightarrow> None),
        ro_guideVersion = cv_guideSha v, ro_reservationId = rv_id r,
        ro_claimedRoute = (case pr_claimedRoute p of Some s \<Rightarrow> if s = [] then None else Some s | None \<Rightarrow> None)\<rparr>,
      Reservation r]"

definition bare_refusal :: "string \<Rightarrow> string \<Rightarrow> admission" where
  "bare_refusal code rule = Refused [\<lparr>vi_code = code, vi_rule = rule, vi_milestone = None\<rparr>]"

definition all_violations ::
  "case_view \<Rightarrow> guide \<Rightarrow> g_activity \<Rightarrow> proposal \<Rightarrow> (string \<times> string) list \<Rightarrow> string list \<Rightarrow> violation list \<Rightarrow> violation list" where
  "all_violations v g a p answers writes overlaps = (let writing = (writes \<noteq> []) in
     (if writing \<and> ga_effects a \<noteq> ''writes'' then [\<lparr>vi_code = ''activity-has-no-write-effect'', vi_rule = ''guide'', vi_milestone = None\<rparr>] else [])
     @ concat (map (entry_violation v) (ga_entry a))
     @ concat (map (must_violations v g a p writing) (g_must g))
     @ (if writing then overlaps @ fst (binding_check p answers) else [])
     @ (if cv_frame v \<noteq> None then frame_violations (cv_remaining v) p writing else [])
     @ route_violations v a p)"

definition admitProposal :: "case_view \<Rightarrow> proposal \<Rightarrow> (string \<times> string) list \<Rightarrow> string \<Rightarrow> scope_error + admission" where
  "admitProposal v p answers rid = (case cv_guide v of
     None \<Rightarrow> Inr (bare_refusal ''no-guide'' ''guide'')
   | Some g \<Rightarrow> if cv_closed v \<noteq> None then Inr (bare_refusal ''case-closed'' ''case'') else
       (case List.find (\<lambda>a. ga_id a = pr_activity p) (g_activities g) of
          None \<Rightarrow> Inr (bare_refusal ''unknown-activity'' ''guide'')
        | Some a \<Rightarrow>
            e_bind (canonicalizeWrites (JArr (pr_writes p))) (\<lambda>writes.
            e_bind (if writes \<noteq> [] then overlap_violations writes (live_of v) else Inr []) (\<lambda>overlaps.
              let vs = all_violations v g a p answers writes overlaps; r = admitted_reservation v a p writes rid in
              if vs \<noteq> [] then Inr (Refused vs)
              else Inr (Admitted r (if writes \<noteq> [] then snd (binding_check p answers) else []) (admission_events v a p r))))))"

text \<open>\<open>recheckReservation\<close>: what the admission stood on, asked again without the frame and without itself.\<close>

definition RECHECK_CODES :: "string list" where
  "RECHECK_CODES = [''consent-stale'', ''consent-missing'', ''consent-subject-unknown'',
     ''entry-milestone-stale'', ''entry-milestone-unmet'', ''entry-milestone-blocked'',
     ''milestone-not-reached'', ''receipt-stale'', ''receipt-missing'',
     ''independence-not-encapsulated'', ''independence-blind-handoff'']"

definition recheck_proposal :: "reservation \<Rightarrow> proposal" where
  "recheck_proposal r = \<lparr>pr_activity = (case rv_activity r of Some a \<Rightarrow> a | None \<Rightarrow> []), pr_unitId = None, pr_decisionPoint = None,
     pr_reason = Some ''recheck'', pr_writes = map JStr (rv_writes r), pr_worktree = rv_worktree r, pr_blind = rv_blind r,
     pr_handoffRefs = [], pr_rigor = None, pr_seatLaunches = None, pr_unitRunId = None, pr_proposer = None, pr_claimedRoute = None\<rparr>"

definition recheck_view :: "case_view \<Rightarrow> reservation \<Rightarrow> case_view" where
  "recheck_view v r = v\<lparr>cv_frame := None,
     cv_reservations := filter (\<lambda>(i, x). rv_id (cr_rv x) \<noteq> rv_id r) (cv_reservations v)\<rparr>"

definition recheckReservation :: "case_view \<Rightarrow> reservation \<Rightarrow> scope_error + violation list" where
  "recheckReservation v r =
     e_bind (admitProposal (recheck_view v r) (recheck_proposal r)
         (case rv_worktree r of Some wt \<Rightarrow> if wt = [] then [] else [(wt, ''bound'')] | None \<Rightarrow> []) (rv_id r))
       (\<lambda>a. Inr (case a of Admitted _ _ _ \<Rightarrow> [] | Refused vs \<Rightarrow> filter (\<lambda>x. vi_code x \<in> set RECHECK_CODES) vs))"

section \<open>The doors of the ledger\<close>

definition has_reservation :: "wf_event list \<Rightarrow> string \<Rightarrow> bool" where
  "has_reservation events rid = list_ex (\<lambda>e. case e of Reservation r \<Rightarrow> rv_id r = rid | _ \<Rightarrow> False) events"

definition has_settle :: "wf_event list \<Rightarrow> string \<Rightarrow> bool" where
  "has_settle events rid = list_ex (\<lambda>e. case e of Settle p \<Rightarrow> st_reservationId p = rid | _ \<Rightarrow> False) events"

datatype charge = Charged "wf_event list" | Already | Not_charged string

definition reserveParentFrame :: "wf_event list \<Rightarrow> string \<Rightarrow> int \<Rightarrow> int \<Rightarrow> charge" where
  "reserveParentFrame events rid dispatches mutating =
     (if has_reservation events rid then Already
      else let v = projectCase events []; left = cv_remaining v in
        if cv_closed v \<noteq> None then Not_charged ''case-closed''
        else if cv_frame v \<noteq> None \<and> (fr_dispatches left = None \<or> mutating > 0 \<and> fr_mutating left = None)
        then Not_charged ''frame-remaining-unknown''
        else if cv_frame v \<noteq> None \<and> (the (fr_dispatches left) < dispatches \<or> mutating > 0 \<and> the (fr_mutating left) < mutating)
        then Not_charged ''frame-exhausted''
        else Charged [Reservation \<lparr>rv_id = rid, rv_activity = None, rv_unitId = None, rv_writes = [], rv_worktree = None,
               rv_dispatches = Some dispatches, rv_mutating = Some mutating, rv_ceiling = None, rv_blind = False,
               rv_nested = True, rv_unitRunId = None\<rparr>])"

definition refund_settle :: "string \<Rightarrow> settle_payload" where
  "refund_settle rid = \<lparr>st_reservationId = rid, st_activity = None, st_unitRunId = None, st_outcome = ''refunded'',
     st_receipts = [], st_achieved = [], st_seatLaunchesUsed = 0, st_frameExhausted = False, st_blind = False\<rparr>"

definition refundParentFrame :: "wf_event list \<Rightarrow> string \<Rightarrow> charge" where
  "refundParentFrame events rid =
     (if \<not> has_reservation events rid then Not_charged ''no-reservation''
      else if has_settle events rid then Already else Charged [Settle (refund_settle rid)])"

text \<open>\<open>applySettle\<close>: what it appends, and whether it did.\<close>

definition applySettle :: "settle_payload \<Rightarrow> wf_event list \<Rightarrow> wf_event list \<times> bool" where
  "applySettle p events = (let fresh = \<not> has_settle events (st_reservationId p) in
     (if fresh then events @ [Settle p] else events, fresh))"

text \<open>The settles of \<open>drainCaseInbox\<close>: every pending file in its order, and how many were appended.\<close>

fun drain_settles :: "settle_payload list \<Rightarrow> wf_event list \<Rightarrow> wf_event list \<times> nat" where
  "drain_settles [] events = (events, 0)"
| "drain_settles (p # pending) events =
     (let (events1, fresh) = applySettle p events; (events2, n) = drain_settles pending events1
      in (events2, (if fresh then 1 else 0) + n))"

definition closeCaseUnderHold :: "wf_event list \<Rightarrow> digests \<Rightarrow> string option \<Rightarrow> string list + wf_event list" where
  "closeCaseUnderHold events current reason = (let v = projectCase events current in
     if cv_closed v \<noteq> None then Inl [''case-closed'']
     else if cv_closureReasons v \<noteq> [] then Inl (cv_closureReasons v)
     else Inr (events @ [Case_closed (case reason of Some s \<Rightarrow> if s = [] then None else Some s | None \<Rightarrow> None)]))"

end
