(* ===== verification/Case_Ledger.thy ===== *)
theory Case_Ledger
  imports Case_Admission
begin

text \<open>
  The ledger of a case as the doors write it: the step relation \<open>case_step\<close>, one rule per door, and
  what every reachable ledger keeps - the frame is never overspent, live reservations never write the
  same path, a reservation is settled once, a closed case admits nothing.
\<close>

section \<open>The steps\<close>

definition openCaseOnLedger :: "opened_payload \<Rightarrow> wf_event list \<Rightarrow> wf_event list" where
  "openCaseOnLedger p events = (if first_opened events \<noteq> None then events else events @ [Case_opened p])"

text \<open>The events the admission, charge, settle, open and close doors alone write.\<close>

fun door_event :: "wf_event \<Rightarrow> bool" where
  "door_event (Workflow_start _) = True"
| "door_event (Case_opened _) = True"
| "door_event (Route _) = True"
| "door_event (Reservation _) = True"
| "door_event (Settle _) = True"
| "door_event (Case_closed _) = True"
| "door_event _ = False"

inductive case_step :: "wf_event list \<Rightarrow> wf_event list \<Rightarrow> bool" where
  admit: "admitProposal (projectCase es current) p answers rid = Inr (Admitted r bindings evs) \<Longrightarrow>
     \<not> has_reservation es rid \<Longrightarrow> case_step es (es @ evs)"
| charge: "reserveParentFrame es rid d m = Charged evs \<Longrightarrow> 0 \<le> d \<Longrightarrow> 0 \<le> m \<Longrightarrow> case_step es (es @ evs)"
| refund: "refundParentFrame es rid = Charged evs \<Longrightarrow> case_step es (es @ evs)"
| settle: "case_step es (fst (applySettle p es))"
| close: "closeCaseUnderHold es current reason = Inr es' \<Longrightarrow> case_step es es'"
| advance: "\<not> door_event e \<Longrightarrow> case_step es (es @ [e])"

inductive case_reachable :: "start_payload \<Rightarrow> opened_payload \<Rightarrow> wf_event list \<Rightarrow> bool" for s opn where
  opened: "case_reachable s opn (openCaseOnLedger opn [Workflow_start s])"
| step: "case_reachable s opn es \<Longrightarrow> case_step es es' \<Longrightarrow> case_reachable s opn es'"

section \<open>The parts of the fold\<close>

definition res_step :: "wf_event \<Rightarrow> (string \<times> case_reservation) list \<Rightarrow> (string \<times> case_reservation) list" where
  "res_step e rs = (case e of
     Reservation r \<Rightarrow> oset (rv_id r) \<lparr>cr_rv = r, cr_settled = False, cr_outcome = None, cr_used = None\<rparr> rs
   | Settle p \<Rightarrow> (case oget rs (st_reservationId p) of
       Some r \<Rightarrow> oset (st_reservationId p) (settle_reservation p r) rs | None \<Rightarrow> rs)
   | _ \<Rightarrow> rs)"

definition reservations_of :: "wf_event list \<Rightarrow> (string \<times> case_reservation) list" where
  "reservations_of es = fold res_step es []"

definition routes_in :: "wf_event list \<Rightarrow> route_payload list" where
  "routes_in es = List.map_filter (\<lambda>e. case e of Route r \<Rightarrow> Some r | _ \<Rightarrow> None) es"

definition is_close :: "wf_event \<Rightarrow> bool" where
  "is_close e = (case e of Case_closed _ \<Rightarrow> True | _ \<Rightarrow> False)"

lemma settle_item_parts [simp]:
  "cf_reservations (fold (settle_item g p) xs c) = cf_reservations c"
  "cf_routes (fold (settle_item g p) xs c) = cf_routes c"
  "cf_closed (fold (settle_item g p) xs c) = cf_closed c"
  by (induction xs arbitrary: c) (simp_all add: settle_item_def)

lemma apply_case_parts:
  "cf_reservations (apply_case steps g e c) = res_step e (cf_reservations c)"
  "cf_routes (apply_case steps g e c) = cf_routes c @ routes_in [e]"
  "cf_closed (apply_case steps g e c) = None \<longleftrightarrow> cf_closed c = None \<and> \<not> is_close e"
  by (cases e; simp add: res_step_def apply_settle_def routes_in_def map_filter_simps is_close_def Let_def
      split: option.splits prod.splits)+

lemma fold_parts:
  "cf_reservations (fold (apply_case steps g) es c) = fold res_step es (cf_reservations c)"
  "cf_routes (fold (apply_case steps g) es c) = cf_routes c @ routes_in es"
  "cf_closed (fold (apply_case steps g) es c) = None \<longleftrightarrow> cf_closed c = None \<and> \<not> list_ex is_close es"
  by (induction es arbitrary: c) (simp_all add: apply_case_parts routes_in_def map_filter_simps split: option.splits)

lemma folded_parts:
  "cf_reservations (case_folded es) = reservations_of es"
  "cf_routes (case_folded es) = routes_in es"
  "cf_closed (case_folded es) = None \<longleftrightarrow> \<not> list_ex is_close es"
  by (simp_all add: case_folded_def Let_def fold_parts start_fold_def reservations_of_def)

lemma projection_parts [simp]:
  "cv_reservations (projectCase es ds) = reservations_of es"
  "cv_routes (projectCase es ds) = routes_in es"
  "cv_closed (projectCase es ds) = None \<longleftrightarrow> \<not> list_ex is_close es"
  "cv_guide (projectCase es ds) = case_guide es"
  "cv_frame (projectCase es ds) = case_frame es"
  "cv_remaining (projectCase es ds) = remaining_of (case_frame es) (case_folded es)"
  "cv_dispatchesUsed (projectCase es ds) = used_dispatches (reservations_of es)"
  "cv_mutatingUsed (projectCase es ds) = used_mutating (reservations_of es)"
  "cv_deviations (projectCase es ds) = deviations_of (routes_in es)"
  by (simp_all add: projectCase_def Let_def folded_parts)

lemma reservations_append [simp]: "reservations_of (es @ es') = fold res_step es' (reservations_of es)"
  by (simp add: reservations_of_def)

lemma routes_append [simp]: "routes_in (es @ es') = routes_in es @ routes_in es'"
  by (simp add: routes_in_def map_filter_def)

lemma first_start_append: "first_start es = Some s \<Longrightarrow> first_start (es @ es') = Some s"
  by (induction es rule: first_start.induct) auto

lemma first_opened_append: "first_opened es = Some s \<Longrightarrow> first_opened (es @ es') = Some s"
  by (induction es rule: first_opened.induct) auto

section \<open>What a reservation list keeps\<close>

definition sound_entry :: "wf_event list \<Rightarrow> string \<times> case_reservation \<Rightarrow> bool" where
  "sound_entry es = (\<lambda>(i, x). rv_id (cr_rv x) = i \<and> has_reservation es i \<and> (cr_settled x \<longrightarrow> has_settle es i)
     \<and> (case rv_dispatches (cr_rv x) of Some n \<Rightarrow> 0 \<le> n | None \<Rightarrow> False)
     \<and> (case rv_mutating (cr_rv x) of Some n \<Rightarrow> 0 \<le> n | None \<Rightarrow> False)
     \<and> canonicalizeWrites (JArr (map JStr (rv_writes (cr_rv x)))) = Inr (rv_writes (cr_rv x)))"

definition sound_reservations :: "wf_event list \<Rightarrow> bool" where
  "sound_reservations es \<longleftrightarrow> distinct (okeys (reservations_of es)) \<and> list_all (sound_entry es) (reservations_of es)"

lemma has_append [simp]:
  "has_reservation (es @ es') i \<longleftrightarrow> has_reservation es i \<or> has_reservation es' i"
  "has_settle (es @ es') i \<longleftrightarrow> has_settle es i \<or> has_settle es' i"
  by (simp_all add: has_reservation_def has_settle_def)

lemma sound_entry_mono: "sound_entry es x \<Longrightarrow> sound_entry (es @ es') x"
  by (auto simp: sound_entry_def split: prod.splits)

lemma oset_new: "k \<notin> set (okeys ob) \<Longrightarrow> oset k v ob = ob @ [(k, v)]"
  unfolding oset_def okeys_def by (induction ob) auto

lemma oset_split:
  "oget ob k = Some w \<Longrightarrow> distinct (okeys ob) \<Longrightarrow>
     \<exists>xs ys. ob = xs @ (k, w) # ys \<and> oset k v ob = xs @ (k, v) # ys \<and> k \<notin> set (okeys xs) \<and> k \<notin> set (okeys ys)"
proof (induction ob)
  case Nil
  then show ?case by simp
next
  case (Cons kv ob)
  obtain k' v' where kv: "kv = (k', v')" by (cases kv)
  show ?case
  proof (cases "k' = k")
    case True
    with Cons.prems kv show ?thesis
      by - (rule exI[where x = "[]"], rule exI[where x = ob], simp add: oset_def okeys_def)
  next
    case False
    with Cons kv obtain xs ys where
      "ob = xs @ (k, w) # ys \<and> oset k v ob = xs @ (k, v) # ys \<and> k \<notin> set (okeys xs) \<and> k \<notin> set (okeys ys)"
      by (auto simp: okeys_def)
    moreover have "oset k v (kv # ob) = kv # oset k v ob" using False kv by (simp add: oset_def)
    moreover have "k \<notin> set (okeys (kv # zs)) \<longleftrightarrow> k \<notin> set (okeys zs)" for zs :: "(string \<times> 'a) list"
      using False kv by (simp add: okeys_def)
    ultimately show ?thesis by (metis append_Cons)
  qed
qed

text \<open>The three ways the reservations change: a new one, a first settle, nothing.\<close>

definition new_entry :: "reservation \<Rightarrow> case_reservation" where
  "new_entry r = \<lparr>cr_rv = r, cr_settled = False, cr_outcome = None, cr_used = None\<rparr>"

lemma key_has_reservation:
  assumes "sound_reservations es" "\<not> has_reservation es i"
  shows "i \<notin> set (okeys (reservations_of es))"
  using assms by (auto simp: sound_reservations_def sound_entry_def list_all_iff okeys_def)

lemma new_reservation:
  assumes "sound_reservations es" "\<not> has_reservation es (rv_id r)"
  shows "reservations_of (es @ [Reservation r]) = reservations_of es @ [(rv_id r, new_entry r)]"
  using key_has_reservation[OF assms] by (simp add: res_step_def oset_new new_entry_def)

lemma first_settle:
  assumes "sound_reservations es" "\<not> has_settle es (st_reservationId p)"
  shows "reservations_of (es @ [Settle p]) = reservations_of es
     \<or> (\<exists>xs x ys. reservations_of es = xs @ (st_reservationId p, x) # ys \<and> \<not> cr_settled x
          \<and> reservations_of (es @ [Settle p]) = xs @ (st_reservationId p, settle_reservation p x) # ys)"
proof (cases "oget (reservations_of es) (st_reservationId p)")
  case None
  then show ?thesis by (simp add: res_step_def)
next
  case (Some x)
  with assms obtain xs ys where s: "reservations_of es = xs @ (st_reservationId p, x) # ys"
    "oset (st_reservationId p) (settle_reservation p x) (reservations_of es) = xs @ (st_reservationId p, settle_reservation p x) # ys"
    using oset_split by (metis sound_reservations_def)
  then have "sound_entry es (st_reservationId p, x)" using assms(1) by (simp add: sound_reservations_def)
  then have "\<not> cr_settled x" using assms(2) by (auto simp: sound_entry_def)
  with s Some show ?thesis by (auto simp: res_step_def)
qed

lemma settle_reservation_parts [simp]:
  "rv_id (cr_rv (settle_reservation p x)) = rv_id (cr_rv x)"
  "rv_dispatches (cr_rv (settle_reservation p x)) = rv_dispatches (cr_rv x)"
  "rv_mutating (cr_rv (settle_reservation p x)) = rv_mutating (cr_rv x)"
  "rv_writes (cr_rv (settle_reservation p x)) = rv_writes (cr_rv x)"
  "rv_nested (cr_rv (settle_reservation p x)) = rv_nested (cr_rv x)"
  "cr_settled (settle_reservation p x)"
  by (simp_all add: settle_reservation_def)

section \<open>What an admission says\<close>

lemma admitted_shape:
  assumes "admitProposal v p answers rid = Inr (Admitted r bs evs)"
  obtains g a writes overlaps where "cv_guide v = Some g" "cv_closed v = None"
    "List.find (\<lambda>a. ga_id a = pr_activity p) (g_activities g) = Some a"
    "canonicalizeWrites (JArr (pr_writes p)) = Inr writes"
    "(if writes \<noteq> [] then overlap_violations writes (live_of v) else Inr []) = Inr overlaps"
    "all_violations v g a p answers writes overlaps = []"
    "r = admitted_reservation v a p writes rid" "evs = admission_events v a p r"
  using assms unfolding admitProposal_def bare_refusal_def
  by (auto simp: e_bind_Inr Let_def split: option.splits if_splits)

lemma admitted_parts [simp]:
  "rv_id (admitted_reservation v a p writes rid) = rid"
  "rv_writes (admitted_reservation v a p writes rid) = writes"
  "rv_dispatches (admitted_reservation v a p writes rid) = Some 1"
  "rv_mutating (admitted_reservation v a p writes rid) = Some (if writes \<noteq> [] then 1 else 0)"
  "rv_nested (admitted_reservation v a p writes rid) = False"
  by (simp_all add: admitted_reservation_def)

lemma admitted_route: "routes_in (admission_events v a p r) \<noteq> []"
  "map ro_routeKind (routes_in (admission_events v a p r)) = [routeKindOf v a p]"
  by (simp_all add: admission_events_def routes_in_def map_filter_simps)

lemma admission_events_res: "\<exists>ro. admission_events v a p r = [Route ro, Reservation r] \<and> ro_routeKind ro = routeKindOf v a p"
  by (simp add: admission_events_def)

section \<open>A step, by what it appends\<close>

lemma case_step_appends:
  assumes "case_step es es'"
  obtains (admitted) current p answers rid r bs ro where
      "admitProposal (projectCase es current) p answers rid = Inr (Admitted r bs [Route ro, Reservation r])"
      "\<not> has_reservation es rid" "es' = es @ [Route ro, Reservation r]"
  | (charged) rid d m r where "reserveParentFrame es rid d m = Charged [Reservation r]" "0 \<le> d" "0 \<le> m"
      "es' = es @ [Reservation r]"
  | (settled) p where "\<not> has_settle es (st_reservationId p)" "es' = es @ [Settle p]"
  | (unchanged) "es' = es"
  | (closed) current reason where "closeCaseUnderHold es current reason = Inr es'" "es' = es @ [Case_closed reason]"
  | (other) e where "\<not> door_event e" "es' = es @ [e]"
  using assms
proof cases
  case (admit current p answers rid r bindings evs)
  obtain g a writes overlaps where "r = admitted_reservation (projectCase es current) a p writes rid"
    "evs = admission_events (projectCase es current) a p r"
    using admit(2) by (rule admitted_shape)
  with admit admitted show thesis using admission_events_res by metis
next
  case (charge rid d m evs)
  then obtain r where "evs = [Reservation r]"
    by (auto simp: reserveParentFrame_def Let_def split: if_splits)
  with charge charged show thesis by blast
next
  case (refund rid evs)
  then have "\<not> has_settle es (st_reservationId (refund_settle rid))" "evs = [Settle (refund_settle rid)]"
    by (auto simp: refundParentFrame_def refund_settle_def split: if_splits)
  with refund settled show thesis by blast
next
  case (settle p)
  then show thesis using settled[of p] unchanged by (auto simp: applySettle_def Let_def split: if_splits)
next
  case (close current reason)
  then have "\<exists>r. es' = es @ [Case_closed r] \<and> closeCaseUnderHold es current r = Inr es'"
    by (auto simp: closeCaseUnderHold_def Let_def split: if_splits option.splits intro!: exI)
  with closed show thesis by blast
next
  case (advance e)
  with other show thesis by blast
qed

lemma reachable_opened:
  assumes "case_reachable s opn es"
  shows "first_start es = Some s \<and> first_opened es = Some opn"
  using assms
proof induction
  case opened
  then show ?case by (simp add: openCaseOnLedger_def)
next
  case (step es es')
  from step(2) obtain suff where "es' = es @ suff" by (cases rule: case_step_appends) auto
  with step(3) show ?case by (simp add: first_start_append first_opened_append)
qed

lemma reachable_frame:
  assumes "case_reachable s opn es"
  shows "case_frame es = frameOf (Some opn) (guideOf (Some s))" "case_guide es = guideOf (Some s)"
  using reachable_opened[OF assms] by (simp_all add: case_frame_def case_guide_def)

section \<open>Soundness is kept\<close>

lemma charged_parts:
  assumes "reserveParentFrame es rid d m = Charged [Reservation r]"
  shows "rv_id r = rid" "rv_dispatches r = Some d" "rv_mutating r = Some m" "rv_writes r = []" "rv_nested r"
    "\<not> has_reservation es rid" "\<not> list_ex is_close es"
    "case_frame es \<noteq> None \<Longrightarrow> \<exists>n. fr_dispatches (remaining_of (case_frame es) (case_folded es)) = Some n \<and> d \<le> n"
    "case_frame es \<noteq> None \<Longrightarrow> 0 < m \<Longrightarrow> \<exists>n. fr_mutating (remaining_of (case_frame es) (case_folded es)) = Some n \<and> m \<le> n"
  using assms by (auto simp: reserveParentFrame_def Let_def split: if_splits)

lemma admitted_ledger:
  assumes "admitProposal (projectCase es current) p answers rid = Inr (Admitted r bs evs)"
  shows "rv_id r = rid" "rv_dispatches r = Some 1" "rv_mutating r = Some (if rv_writes r \<noteq> [] then 1 else 0)" "\<not> rv_nested r"
    "canonicalizeWrites (JArr (map JStr (rv_writes r))) = Inr (rv_writes r)" "\<not> list_ex is_close es"
proof -
  from assms obtain g a writes overlaps where w: "canonicalizeWrites (JArr (pr_writes p)) = Inr writes"
    "r = admitted_reservation (projectCase es current) a p writes rid" "cv_closed (projectCase es current) = None"
    by (rule admitted_shape) blast
  then show "rv_id r = rid" "rv_dispatches r = Some 1" "rv_mutating r = Some (if rv_writes r \<noteq> [] then 1 else 0)" "\<not> rv_nested r"
    "canonicalizeWrites (JArr (map JStr (rv_writes r))) = Inr (rv_writes r)" "\<not> list_ex is_close es"
    using canonicalizeWrites_fixed[OF w(1)] by simp_all
qed

lemma canonicalizeWrites_Nil [simp]: "canonicalizeWrites (JArr []) = Inr []"
  by (simp add: canonicalizeWrites_def)

lemma reservations_unchanged: "res_step e = id \<Longrightarrow> reservations_of (es @ [e]) = reservations_of es"
  by simp

lemma res_step_other [simp]: "\<not> door_event e \<Longrightarrow> res_step e rs = rs" "res_step (Route ro) rs = rs" "res_step (Case_closed x) rs = rs"
  by (cases e; simp add: res_step_def)+

lemma sound_new:
  assumes "sound_reservations es" "\<not> has_reservation es (rv_id r)" "reservations_of es' = reservations_of es @ [(rv_id r, new_entry r)]"
    "es' = es @ suff" "has_reservation suff (rv_id r)"
    "rv_dispatches r = Some d" "0 \<le> d" "rv_mutating r = Some m" "0 \<le> m"
    "canonicalizeWrites (JArr (map JStr (rv_writes r))) = Inr (rv_writes r)"
  shows "sound_reservations es'"
proof -
  have "distinct (okeys (reservations_of es'))"
    using assms(1,3) key_has_reservation[OF assms(1,2)] by (simp add: sound_reservations_def okeys_def)
  moreover have "list_all (sound_entry es') (reservations_of es)"
    using assms(1,4) by (auto simp: sound_reservations_def list_all_iff sound_entry_mono)
  moreover have "sound_entry es' (rv_id r, new_entry r)"
    using assms(4-) by (simp add: sound_entry_def new_entry_def)
  ultimately show ?thesis using assms(3) by (simp add: sound_reservations_def)
qed

lemma sound_step:
  assumes "case_step es es'" "sound_reservations es"
  shows "sound_reservations es'"
  using assms(1)
proof (cases rule: case_step_appends)
  case (admitted current p answers rid r bs ro)
  note a = admitted_ledger[OF admitted(1)]
  have "reservations_of es' = reservations_of es @ [(rv_id r, new_entry r)]"
    using new_reservation[OF assms(2)] admitted(2,3) a(1) by simp
  then show ?thesis
    by (rule sound_new[OF assms(2), of r es' "[Route ro, Reservation r]" 1 "if rv_writes r \<noteq> [] then 1 else 0", rotated])
      (use admitted(2,3) a in \<open>simp_all add: has_reservation_def\<close>)
next
  case (charged rid d m r)
  note c = charged_parts[OF charged(1)]
  have "reservations_of es' = reservations_of es @ [(rv_id r, new_entry r)]"
    using new_reservation[OF assms(2)] charged(4) c(1,6) by simp
  then show ?thesis
    by (rule sound_new[OF assms(2), of r es' "[Reservation r]" d m, rotated])
      (use charged(2-4) c in \<open>simp_all add: has_reservation_def\<close>)
next
  case (settled p)
  from first_settle[OF assms(2) settled(1)] show ?thesis
  proof (elim disjE exE conjE)
    assume "reservations_of (es @ [Settle p]) = reservations_of es"
    with assms(2) settled(2) show ?thesis by (auto simp: sound_reservations_def list_all_iff sound_entry_mono)
  next
    fix xs x ys
    assume "reservations_of es = xs @ (st_reservationId p, x) # ys"
      "reservations_of (es @ [Settle p]) = xs @ (st_reservationId p, settle_reservation p x) # ys"
    moreover have "sound_entry es (st_reservationId p, x) \<Longrightarrow> sound_entry es' (st_reservationId p, settle_reservation p x)"
      using settled(2) by (auto simp: sound_entry_def has_settle_def)
    ultimately show ?thesis using assms(2) settled(2)
      by (auto simp: sound_reservations_def list_all_iff sound_entry_mono okeys_def)
  qed
next
  case (closed current reason)
  with assms(2) show ?thesis by (auto simp: sound_reservations_def list_all_iff sound_entry_mono)
next
  case (other e)
  with assms(2) show ?thesis by (auto simp: sound_reservations_def list_all_iff sound_entry_mono)
qed (use assms in simp)

lemma sound_reachable: "case_reachable s opn es \<Longrightarrow> sound_reservations es"
proof (induction rule: case_reachable.induct)
  case opened
  then show ?case by (simp add: openCaseOnLedger_def sound_reservations_def reservations_of_def res_step_def okeys_def)
qed (rule sound_step)

section \<open>The frame is never overspent\<close>

definition within :: "int option \<Rightarrow> int \<Rightarrow> bool" where
  "within limit used = (case limit of Some n \<Rightarrow> used \<le> n | None \<Rightarrow> True)"

definition frame_kept :: "obj option \<Rightarrow> wf_event list \<Rightarrow> bool" where
  "frame_kept frame es \<longleftrightarrow> within (count_of (oget (lazyd frame) ''dispatches'')) (used_dispatches (reservations_of es))
     \<and> within (count_of (oget (lazyd frame) ''mutatingDispatches'')) (used_mutating (reservations_of es))
     \<and> within (count_of (oget (lazyd frame) ''deviationsBeforeAsk'')) (int (deviations_of (routes_in es)))"

lemma count_of_nonneg: "count_of v = Some n \<Longrightarrow> 0 \<le> n"
  by (cases v rule: count_of.cases) (auto split: if_splits)

lemma remaining_room:
  assumes "remaining limit used = Some n" "k \<le> n" "0 < k"
  shows "within (count_of limit) (used + k)"
  using assms by (cases "count_of limit") (auto simp: remaining_def within_def max_def split: if_splits)

lemma remaining_pos:
  assumes "remaining limit used \<noteq> Some 0"
  shows "within (count_of limit) (used + 1)"
proof (cases "remaining limit used")
  case None
  then show ?thesis by (simp add: remaining_def within_def)
next
  case (Some n)
  with assms have "1 \<le> n" by (auto simp: remaining_def max_def split: if_splits)
  then show ?thesis using remaining_room[OF Some] by simp
qed

lemma within_le: "within limit b \<Longrightarrow> a \<le> b \<Longrightarrow> within limit a"
  by (auto simp: within_def split: option.splits)

lemma used_append [simp]:
  "used_dispatches (xs @ ys) = used_dispatches xs + used_dispatches ys"
  "used_mutating (xs @ ys) = used_mutating xs + used_mutating ys"
  by (simp_all add: used_dispatches_def used_mutating_def)

lemma used_new [simp]:
  "rv_dispatches r = Some d \<Longrightarrow> used_dispatches [(i, new_entry r)] = d"
  "rv_mutating r = Some m \<Longrightarrow> used_mutating [(i, new_entry r)] = m"
  by (simp_all add: used_dispatches_def used_mutating_def new_entry_def gave_back_def)

lemma used_settled:
  assumes "sound_entry es (i, x)" "\<not> cr_settled x"
  shows "used_dispatches ((i, settle_reservation p x) # ys) \<le> used_dispatches ((i, x) # ys)"
    "used_mutating ((i, settle_reservation p x) # ys) \<le> used_mutating ((i, x) # ys)"
  using assms by (auto simp: used_dispatches_def used_mutating_def gave_back_def sound_entry_def split: option.splits)

lemma routes_in_simps [simp]:
  "routes_in [] = []" "routes_in (Route r # es) = r # routes_in es" "routes_in (Reservation x # es) = routes_in es"
  "routes_in (Settle p # es) = routes_in es" "routes_in (Case_closed c # es) = routes_in es"
  "routes_in (Workflow_start st # es) = routes_in es" "routes_in (Case_opened op # es) = routes_in es"
  by (simp_all add: routes_in_def map_filter_simps)

lemma routes_other [simp]: "\<not> door_event e \<Longrightarrow> routes_in [e] = []"
  by (cases e) (simp_all add: routes_in_def map_filter_simps)

lemma frame_row_not [simp]: "frame_row c \<noteq> []"
  by (simp add: frame_row_def)

lemma admitted_within:
  assumes "admitProposal (projectCase es current) p answers rid = Inr (Admitted r bs [Route ro, Reservation r])"
    "frame_kept (case_frame es) es"
  shows "within (count_of (oget (lazyd (case_frame es)) ''dispatches'')) (used_dispatches (reservations_of es) + 1)"
    "within (count_of (oget (lazyd (case_frame es)) ''mutatingDispatches''))
       (used_mutating (reservations_of es) + (if rv_writes r \<noteq> [] then 1 else 0))"
    "within (count_of (oget (lazyd (case_frame es)) ''deviationsBeforeAsk'')) (int (deviations_of (routes_in es @ [ro])))"
proof -
  let ?v = "projectCase es current" and ?F = "lazyd (case_frame es)"
  obtain g a writes overlaps where w: "all_violations ?v g a p answers writes overlaps = []"
    "r = admitted_reservation ?v a p writes rid" "[Route ro, Reservation r] = admission_events ?v a p r"
    using assms(1) by (rule admitted_shape)
  have fr: "case_frame es \<noteq> None \<Longrightarrow> frame_violations (cv_remaining ?v) p (writes \<noteq> []) = []"
    and rt: "route_violations ?v a p = []"
    using w(1) by (simp_all add: all_violations_def Let_def split: if_splits)
  have none: "within (count_of (oget ?F k)) u" if "case_frame es = None" for k u
    using that by (simp add: within_def)
  show "within (count_of (oget ?F ''dispatches'')) (used_dispatches (reservations_of es) + 1)"
  proof (cases "case_frame es = None")
    case False
    then have "fr_dispatches (cv_remaining ?v) \<noteq> Some 0" using fr by (auto simp: frame_violations_def)
    then show ?thesis by (intro remaining_pos) (simp add: remaining_of_def Let_def folded_parts)
  qed (rule none)
  show "within (count_of (oget ?F ''mutatingDispatches'')) (used_mutating (reservations_of es) + (if rv_writes r \<noteq> [] then 1 else 0))"
  proof (cases "case_frame es = None \<or> writes = []")
    case True
    then show ?thesis using none assms(2) w(2) by (auto simp: frame_kept_def)
  next
    case False
    then have "fr_mutating (cv_remaining ?v) \<noteq> Some 0" using fr by (auto simp: frame_violations_def split: if_splits)
    then have "within (count_of (oget ?F ''mutatingDispatches'')) (used_mutating (reservations_of es) + 1)"
      by (intro remaining_pos) (simp add: remaining_of_def Let_def folded_parts)
    with False w(2) show ?thesis by simp
  qed
  have kind: "ro_routeKind ro = routeKindOf ?v a p" using w(3) by (simp add: admission_events_def)
  show "within (count_of (oget ?F ''deviationsBeforeAsk'')) (int (deviations_of (routes_in es @ [ro])))"
  proof (cases "ro_routeKind ro = ''unlisted''")
    case False
    then show ?thesis using assms(2) by (simp add: frame_kept_def deviations_of_def)
  next
    case True
    then have "fr_deviations (cv_remaining ?v) \<noteq> Some 0" using rt kind by (auto simp: route_violations_def Let_def split: if_splits)
    then have "within (count_of (oget ?F ''deviationsBeforeAsk'')) (int (deviations_of (routes_in es)) + 1)"
      by (intro remaining_pos) (simp add: remaining_of_def Let_def folded_parts)
    with True show ?thesis by (simp add: deviations_of_def add.commute)
  qed
qed

lemma frame_step:
  assumes "case_step es es'" "sound_reservations es" "frame_kept (case_frame es) es"
  shows "frame_kept (case_frame es) es'"
  using assms(1)
proof (cases rule: case_step_appends)
  case (admitted current p answers rid r bs ro)
  note a = admitted_ledger[OF admitted(1)] and w = admitted_within[OF admitted(1) assms(3)]
  have "reservations_of es' = reservations_of es @ [(rv_id r, new_entry r)]"
    using new_reservation[OF assms(2)] admitted(2,3) a(1) by simp
  then show ?thesis using a w admitted(3) by (simp add: frame_kept_def)
next
  case (charged rid d m r)
  note c = charged_parts[OF charged(1)]
  let ?F = "lazyd (case_frame es)"
  have new: "reservations_of es' = reservations_of es @ [(rv_id r, new_entry r)]"
    using new_reservation[OF assms(2)] charged(4) c(1,6) by simp
  have "within (count_of (oget ?F ''dispatches'')) (used_dispatches (reservations_of es) + d)"
  proof (cases "case_frame es = None \<or> d = 0")
    case True
    then show ?thesis using assms(3) by (cases "d = 0") (simp_all add: frame_kept_def within_def)
  next
    case False
    with c(8) charged(2) show ?thesis
      by (auto simp: remaining_of_def Let_def folded_parts intro: remaining_room)
  qed
  moreover have "within (count_of (oget ?F ''mutatingDispatches'')) (used_mutating (reservations_of es) + m)"
  proof (cases "case_frame es = None \<or> m = 0")
    case True
    then show ?thesis using assms(3) by (cases "m = 0") (simp_all add: frame_kept_def within_def)
  next
    case False
    with c(9) charged(3) show ?thesis
      by (auto simp: remaining_of_def Let_def folded_parts intro: remaining_room)
  qed
  ultimately show ?thesis using new assms(3) c charged(4) by (simp add: frame_kept_def)
next
  case (settled p)
  have "used_dispatches (reservations_of es') \<le> used_dispatches (reservations_of es)
      \<and> used_mutating (reservations_of es') \<le> used_mutating (reservations_of es)"
    using first_settle[OF assms(2) settled(1)]
  proof (elim disjE exE conjE)
    fix xs x ys
    assume rs: "reservations_of es = xs @ (st_reservationId p, x) # ys" "\<not> cr_settled x"
      "reservations_of (es @ [Settle p]) = xs @ (st_reservationId p, settle_reservation p x) # ys"
    then have "sound_entry es (st_reservationId p, x)" using assms(2) by (simp add: sound_reservations_def)
    then show ?thesis using rs settled(2) used_settled by simp
  qed (use settled(2) in simp)
  moreover have "routes_in es' = routes_in es" using settled(2) by simp
  ultimately show ?thesis using assms(3) by (auto simp: frame_kept_def intro: within_le)
next
  case (closed current reason)
  with assms(3) show ?thesis by (simp add: frame_kept_def)
next
  case (other e)
  with assms(3) show ?thesis by (simp add: frame_kept_def)
qed (use assms in simp)

lemma within_zero [simp]: "within (count_of v) 0"
  by (auto simp: within_def dest: count_of_nonneg split: option.splits)

lemma frame_reachable: "case_reachable s opn es \<Longrightarrow> frame_kept (case_frame es) es"
proof (induction rule: case_reachable.induct)
  case opened
  have "reservations_of [Workflow_start s, Case_opened opn] = []" by (simp add: reservations_of_def res_step_def)
  moreover have "openCaseOnLedger opn [Workflow_start s] = [Workflow_start s, Case_opened opn]" by (simp add: openCaseOnLedger_def)
  ultimately show ?case by (simp add: frame_kept_def used_dispatches_def used_mutating_def deviations_of_def)
next
  case (step es es')
  then have "case_frame es' = case_frame es"
    using reachable_frame(1) case_reachable.step by metis
  with step show ?case using frame_step sound_reachable by metis
qed

end
