(* ===== verification/Case_Safety.thy ===== *)
theory Case_Safety
  imports Case_Ledger
begin

text \<open>
  What the ledger of a case promises beyond its counts: which paths live reservations may write, what a
  consent or a delivery milestone stands on, which activities come after which, and that an admission
  passes the recheck made before its effect.
\<close>

section \<open>Live reservations write disjoint paths\<close>

definition may_write :: "reservation \<Rightarrow> string \<Rightarrow> bool" where
  "may_write r path = (matchesWriteScope (JStr path) (map JStr (rv_writes r)) = Inr True)"

definition live_in :: "wf_event list \<Rightarrow> reservation list" where
  "live_in es = map cr_rv (live_reservations (reservations_of es))"

definition disjoint_writes :: "wf_event list \<Rightarrow> bool" where
  "disjoint_writes es \<longleftrightarrow> (\<forall>r \<in> set (live_in es). \<forall>r' \<in> set (live_in es). rv_id r \<noteq> rv_id r' \<longrightarrow>
     (\<forall>path. \<not> (may_write r path \<and> may_write r' path)))"

lemma live_of_projection: "live_of (projectCase es current) = live_in es"
  by (simp add: live_of_def live_in_def)

lemma nothing_writable: "rv_writes r = [] \<Longrightarrow> \<not> may_write r path"
  by (auto simp: may_write_def matchesWriteScope_def Let_def)

lemma overlap_violations_Nil:
  "overlap_violations ws rs = Inr [] \<Longrightarrow> r \<in> set rs \<Longrightarrow> overlapping ws (rv_writes r) = Inr False"
  by (induction rs) (auto simp: e_bind_Inr split: if_splits)

lemma admitted_disjoint:
  assumes "admitProposal (projectCase es current) p answers rid = Inr (Admitted r bs evs)"
    "r' \<in> set (live_in es)" "sound_reservations es"
  shows "\<not> (may_write r path \<and> may_write r' path)"
proof
  assume w: "may_write r path \<and> may_write r' path"
  then have ne: "rv_writes r \<noteq> []" "rv_writes r' \<noteq> []" using nothing_writable by metis+
  obtain g a writes overlaps where a: "(if writes \<noteq> [] then overlap_violations writes (live_of (projectCase es current)) else Inr []) = Inr overlaps"
    "all_violations (projectCase es current) g a p answers writes overlaps = []"
    "r = admitted_reservation (projectCase es current) a p writes rid"
    using assms(1) by (rule admitted_shape)
  then have wr: "rv_writes r = writes" "writes \<noteq> []" using ne(1) by simp_all
  then have "overlaps = []" using a(2) by (simp add: all_violations_def Let_def)
  then have "overlap_violations writes (live_in es) = Inr []" using a(1) wr(2) by (simp add: live_of_projection)
  then have "overlapping writes (rv_writes r') = Inr False" using assms(2) by (rule overlap_violations_Nil)
  then have no: "writeScopesOverlap (map JStr writes) (map JStr (rv_writes r')) = Inr False"
    using ne(2) by (simp add: overlapping_def)
  have "canonicalizeWrites (JArr (map JStr (rv_writes r'))) = Inr (rv_writes r')"
    using assms(2,3) by (auto simp: live_in_def live_reservations_def sound_reservations_def list_all_iff sound_entry_def)
  then have "writeScopesOverlap (map JStr writes) (map JStr (rv_writes r')) = Inr True"
    using overlap_if_common_path[of "map JStr (rv_writes r)" _ "map JStr (rv_writes r')" _ path]
      admitted_ledger(5)[OF assms(1)] w wr(1) by (simp add: may_write_def)
  with no show False by simp
qed

lemma live_append [simp]: "live_reservations (xs @ ys) = live_reservations xs @ live_reservations ys"
  by (simp add: live_reservations_def)

lemma live_new [simp]: "live_reservations [(i, new_entry r)] = (if rv_nested r then [] else [new_entry r])"
  by (simp add: live_reservations_def new_entry_def)

lemma live_settled: "live_reservations ((i, settle_reservation p x) # ys) = live_reservations ys"
  by (simp add: live_reservations_def)

lemma live_subset: "set (live_reservations ys) \<subseteq> set (live_reservations (x # ys))"
  by (auto simp: live_reservations_def)

lemma cr_rv_new [simp]: "cr_rv (new_entry r) = r"
  by (simp add: new_entry_def)

lemma disjoint_subset:
  "disjoint_writes es \<Longrightarrow> set (live_in es') \<subseteq> set (live_in es) \<Longrightarrow> disjoint_writes es'"
  by (auto simp: disjoint_writes_def)

lemma disjoint_step:
  assumes "case_step es es'" "sound_reservations es" "disjoint_writes es"
  shows "disjoint_writes es'"
  using assms(1)
proof (cases rule: case_step_appends)
  case (admitted current p answers rid r bs ro)
  note a = admitted_ledger[OF admitted(1)]
  have "reservations_of es' = reservations_of es @ [(rv_id r, new_entry r)]"
    using new_reservation[OF assms(2)] admitted(2,3) a(1) by simp
  then have live: "live_in es' = live_in es @ [r]" using a(4) by (simp add: live_in_def)
  have new: "\<not> (may_write r path \<and> may_write r' path)" if "r' \<in> set (live_in es)" for r' path
    using admitted_disjoint[OF admitted(1) that assms(2)] .
  show ?thesis
    unfolding disjoint_writes_def live
  proof (intro ballI impI allI)
    fix r1 r2 path
    assume r: "r1 \<in> set (live_in es @ [r])" "r2 \<in> set (live_in es @ [r])" "rv_id r1 \<noteq> rv_id r2"
    then consider "r1 \<in> set (live_in es)" "r2 \<in> set (live_in es)" | "r1 \<in> set (live_in es)" "r2 = r" | "r1 = r" "r2 \<in> set (live_in es)"
      by auto
    then show "\<not> (may_write r1 path \<and> may_write r2 path)"
      using r(3) assms(3) new by cases (auto simp: disjoint_writes_def)
  qed
next
  case (charged rid d m r)
  note c = charged_parts[OF charged(1)]
  have "reservations_of es' = reservations_of es @ [(rv_id r, new_entry r)]"
    using new_reservation[OF assms(2)] charged(4) c(1,6) by simp
  then have "live_in es' = live_in es" using c(5) by (simp add: live_in_def)
  with assms(3) show ?thesis by (simp add: disjoint_writes_def)
next
  case (settled p)
  have "set (live_in es') \<subseteq> set (live_in es)"
    using first_settle[OF assms(2) settled(1)]
  proof (elim disjE exE conjE)
    fix xs x ys
    assume "reservations_of es = xs @ (st_reservationId p, x) # ys"
      "reservations_of (es @ [Settle p]) = xs @ (st_reservationId p, settle_reservation p x) # ys"
    then show ?thesis using settled(2) live_subset[of ys "(st_reservationId p, x)"]
      by (auto simp: live_in_def live_settled)
  qed (use settled(2) in \<open>simp add: live_in_def\<close>)
  with assms(3) show ?thesis by (rule disjoint_subset)
qed (use assms in \<open>simp_all add: disjoint_writes_def live_in_def\<close>)

lemma disjoint_reachable: "case_reachable s opn es \<Longrightarrow> disjoint_writes es"
proof (induction rule: case_reachable.induct)
  case opened
  then show ?case
    by (simp add: openCaseOnLedger_def disjoint_writes_def live_in_def reservations_of_def res_step_def live_reservations_def)
next
  case (step es es')
  then show ?case using disjoint_step sound_reachable by metis
qed

section \<open>Settled once, and a closed case admits nothing\<close>

definition settles_in :: "wf_event list \<Rightarrow> string list" where
  "settles_in es = List.map_filter (\<lambda>e. case e of Settle p \<Rightarrow> Some (st_reservationId p) | _ \<Rightarrow> None) es"

definition reserved_in :: "wf_event list \<Rightarrow> string list" where
  "reserved_in es = List.map_filter (\<lambda>e. case e of Reservation r \<Rightarrow> Some (rv_id r) | _ \<Rightarrow> None) es"

lemma id_lists_append [simp]:
  "settles_in (es @ es') = settles_in es @ settles_in es'" "reserved_in (es @ es') = reserved_in es @ reserved_in es'"
  by (simp_all add: settles_in_def reserved_in_def map_filter_def)

lemma has_settle_iff: "has_settle es i \<longleftrightarrow> i \<in> set (settles_in es)"
proof (induction es)
  case (Cons e es)
  then show ?case by (cases e) (auto simp: has_settle_def settles_in_def map_filter_simps)
qed (simp add: has_settle_def settles_in_def map_filter_simps)

lemma has_reservation_iff: "has_reservation es i \<longleftrightarrow> i \<in> set (reserved_in es)"
proof (induction es)
  case (Cons e es)
  then show ?case by (cases e) (auto simp: has_reservation_def reserved_in_def map_filter_simps)
qed (simp add: has_reservation_def reserved_in_def map_filter_simps)

lemma id_lists_simps [simp]:
  "settles_in [] = []" "settles_in (Settle p # es) = st_reservationId p # settles_in es"
  "settles_in (Route x # es) = settles_in es" "settles_in (Reservation r # es) = settles_in es"
  "settles_in (Case_closed c # es) = settles_in es" "\<not> door_event e \<Longrightarrow> settles_in [e] = []"
  "reserved_in [] = []" "reserved_in (Settle p # es) = reserved_in es"
  "reserved_in (Route x # es) = reserved_in es" "reserved_in (Reservation r # es) = rv_id r # reserved_in es"
  "reserved_in (Case_closed c # es) = reserved_in es" "\<not> door_event e \<Longrightarrow> reserved_in [e] = []"
  "settles_in (Workflow_start st # es) = settles_in es" "settles_in (Case_opened op # es) = settles_in es"
  "reserved_in (Workflow_start st # es) = reserved_in es" "reserved_in (Case_opened op # es) = reserved_in es"
  by (simp_all add: settles_in_def reserved_in_def map_filter_simps) (cases e; simp add: map_filter_simps)+

lemma ids_once_step:
  assumes "case_step es es'" "distinct (settles_in es) \<and> distinct (reserved_in es)"
  shows "distinct (settles_in es') \<and> distinct (reserved_in es')"
  using assms(1)
proof (cases rule: case_step_appends)
  case (admitted current p answers rid r bs ro)
  then show ?thesis using assms(2) admitted_ledger(1)[OF admitted(1)] by (simp add: has_reservation_iff)
next
  case (charged rid d m r)
  then show ?thesis using assms(2) charged_parts(1,6)[OF charged(1)] by (simp add: has_reservation_iff)
qed (use assms(2) in \<open>simp_all add: has_settle_iff\<close>)

lemma ids_once_reachable: "case_reachable s opn es \<Longrightarrow> distinct (settles_in es) \<and> distinct (reserved_in es)"
  by (induction rule: case_reachable.induct) (simp add: openCaseOnLedger_def, rule ids_once_step)

lemma closed_step:
  assumes "case_step es es'" "list_ex is_close es"
  shows "list_ex is_close es' \<and> reserved_in es' = reserved_in es \<and> routes_in es' = routes_in es"
  using assms(1)
proof (cases rule: case_step_appends)
  case (admitted current p answers rid r bs ro)
  then show ?thesis using assms(2) admitted_ledger(6)[OF admitted(1)] by simp
next
  case (charged rid d m r)
  then show ?thesis using assms(2) charged_parts(7)[OF charged(1)] by simp
qed (use assms(2) in simp_all)

lemma drain_settles_again:
  assumes "drain_settles ps es = (es', n)"
  shows "drain_settles ps es' = (es', 0)" "n = length es' - length es" "\<forall>p \<in> set ps. has_settle es' (st_reservationId p)"
proof -
  have step: "fst (drain_settles (q # ps) es) = fst (drain_settles ps (fst (applySettle q es)))" for q ps es
    by (simp split: prod.splits)
  have grows: "\<exists>suff. fst (drain_settles ps es) = es @ suff" for ps es
  proof (induction ps arbitrary: es)
    case (Cons q ps)
    obtain suff where "fst (drain_settles ps (fst (applySettle q es))) = fst (applySettle q es) @ suff" using Cons by blast
    then show ?case unfolding step by (auto simp: applySettle_def Let_def)
  qed simp
  have all: "p \<in> set ps \<Longrightarrow> has_settle (fst (drain_settles ps es)) (st_reservationId p)" for p ps es
  proof (induction ps arbitrary: es)
    case (Cons q ps)
    let ?es1 = "fst (applySettle q es)"
    have "has_settle ?es1 (st_reservationId q)" by (auto simp: applySettle_def Let_def has_settle_def)
    moreover obtain suff where "fst (drain_settles ps ?es1) = ?es1 @ suff" using grows by blast
    ultimately have "has_settle (fst (drain_settles ps ?es1)) (st_reservationId q)" by simp
    with Cons show ?case unfolding step by auto
  qed simp
  have idle: "\<forall>p \<in> set ps. has_settle es (st_reservationId p) \<Longrightarrow> drain_settles ps es = (es, 0)" for ps es
    by (induction ps) (simp_all add: applySettle_def)
  have count: "snd (drain_settles ps es) = length (fst (drain_settles ps es)) - length es" for ps es
  proof (induction ps arbitrary: es)
    case (Cons q ps)
    obtain suff where "fst (drain_settles ps (fst (applySettle q es))) = fst (applySettle q es) @ suff" using grows by blast
    with Cons[of "fst (applySettle q es)"] show ?case by (auto simp: applySettle_def Let_def split: prod.splits)
  qed simp
  show "\<forall>p \<in> set ps. has_settle es' (st_reservationId p)" using all[of _ ps es] assms by simp
  then show "drain_settles ps es' = (es', 0)" by (rule idle)
  show "n = length es' - length es" using count[of ps es] assms by simp
qed

section \<open>Where a milestone comes from\<close>

definition all_entries :: "(string \<Rightarrow> milestone_entry \<Rightarrow> bool) \<Rightarrow> milestones \<Rightarrow> bool" where
  "all_entries P ms \<longleftrightarrow> (\<forall>(i, e) \<in> set ms. P i e)"

lemma set_oset_sub: "set (oset k v ob) \<subseteq> insert (k, v) (set ob)"
  unfolding oset_def by (induction ob) auto

lemma all_oset: "all_entries P ms \<Longrightarrow> P i e \<Longrightarrow> all_entries P (oset i e ms)"
  using set_oset_sub[of i e ms] by (fastforce simp: all_entries_def)

lemma all_achieve: "all_entries P ms \<Longrightarrow> P i (e\<lparr>me_state := Achieved\<rparr>) \<Longrightarrow> all_entries P (achieve i e ms)"
  by (simp add: achieve_def all_oset)

lemma all_fold:
  "(\<And>x ms. x \<in> set xs \<Longrightarrow> all_entries P ms \<Longrightarrow> all_entries P (f x ms)) \<Longrightarrow> all_entries P ms \<Longrightarrow> all_entries P (fold f xs ms)"
  by (induction xs arbitrary: ms) auto

lemma all_entries_oget: "all_entries P ms \<Longrightarrow> oget ms i = Some e \<Longrightarrow> P i e"
  by (auto simp: all_entries_def oget_def dest: map_of_SomeD)

text \<open>The event an entry was made by: an approved answer of a consent gate, or a settle that was accepted.\<close>

definition answered_by :: "guide option \<Rightarrow> gate_answer \<Rightarrow> string \<Rightarrow> bool" where
  "answered_by guide p i = (gw_approved p \<and>
     i \<in> set (case gw_milestones p of Some ms \<Rightarrow> ms | None \<Rightarrow> produces_of guide (gw_stepId p)))"

definition entry_origin :: "guide option \<Rightarrow> wf_event list \<Rightarrow> string \<Rightarrow> milestone_entry \<Rightarrow> bool" where
  "entry_origin guide es i e \<longleftrightarrow>
     (me_consent e \<longrightarrow> (\<exists>p. Gate_answer p \<in> set es \<and> answered_by guide p i \<and> me_digest e = gw_subjectDigest p))
     \<and> (me_outcome e \<noteq> None \<and> \<not> me_inherited e \<longrightarrow>
          (\<exists>p item. Settle p \<in> set es \<and> item \<in> set (st_achieved p) \<and> accepted guide p item \<and> ai_milestone item = i
             \<and> me_digest e = ai_subjectDigest item \<and> me_receipts e = st_receipts p))"

lemma origin_plain: "\<not> me_consent e \<Longrightarrow> me_outcome e = None \<or> me_inherited e \<Longrightarrow> entry_origin g es i e"
  by (auto simp: entry_origin_def)

lemma reached_parts [simp]:
  "me_state (reached d) = Achieved" "me_digest (reached d) = d" "me_outcome (reached d) = None" "\<not> me_consent (reached d)"
  "\<not> me_inherited (reached d)"
  by (simp_all add: reached_def unreached_entry_def)

lemma settle_items_origin:
  assumes "Settle p \<in> set es" "set xs \<subseteq> set (st_achieved p)" "all_entries (entry_origin g es) (cf_milestones c)"
  shows "all_entries (entry_origin g es) (cf_milestones (fold (settle_item g p) xs c))"
  using assms
proof (induction xs arbitrary: c)
  case (Cons item xs)
  have "all_entries (entry_origin g es) (cf_milestones (settle_item g p item c))"
  proof (cases "accepted g p item")
    case True
    let ?e = "(reached (ai_subjectDigest item))\<lparr>me_receipts := st_receipts p, me_outcome := Some (st_outcome p)\<rparr>"
    have "entry_origin g es (ai_milestone item) (?e\<lparr>me_state := Achieved\<rparr>)"
      using True Cons.prems(1,2) unfolding entry_origin_def
      by (intro conjI impI exI[where x = p] exI[where x = item]) simp_all
    then show ?thesis using True Cons.prems(3) by (simp add: settle_item_def all_achieve)
  next
    case False
    then show ?thesis using Cons.prems by (simp add: settle_item_def)
  qed
  with Cons show ?case by simp
qed simp

lemma apply_origin:
  assumes "e \<in> set es" "all_entries (entry_origin g es) (cf_milestones c)"
  shows "all_entries (entry_origin g es) (cf_milestones (apply_case steps g e c))"
proof (cases e)
  case (Case_opened p)
  then show ?thesis using assms(2) by (auto intro!: all_fold all_achieve origin_plain)
next
  case (Step_complete i out d)
  have "all_entries (entry_origin g es) ms \<Longrightarrow> all_entries (entry_origin g es) (achieveIfUnreached m d ms)" for m ms
    by (auto simp: achieveIfUnreached_def intro!: all_achieve origin_plain split: option.splits)
  with Step_complete show ?thesis using assms(2) by (auto intro!: all_fold)
next
  case (Gate_answer p)
  obtain mode settles where ms: "answer_settles steps p = (mode, settles)" by (cases "answer_settles steps p")
  show ?thesis
  proof (cases settles)
    case False
    then show ?thesis using Gate_answer ms assms(2) by simp
  next
    case True
    have "entry_origin g es m ((reached (gw_subjectDigest p))\<lparr>me_consent := (mode = ''consent''), me_state := Achieved\<rparr>)"
      if "m \<in> set (case gw_milestones p of Some ms \<Rightarrow> ms | None \<Rightarrow> produces_of g (gw_stepId p))" for m
    proof -
      have "mode = ''consent'' \<Longrightarrow> gw_approved p" using ms True by (auto simp: answer_settles_def Let_def)
      with that assms(1) Gate_answer show ?thesis by (auto simp: entry_origin_def answered_by_def)
    qed
    with Gate_answer ms True assms(2) show ?thesis by (auto intro!: all_fold all_achieve)
  qed
next
  case (Settle p)
  have "all_entries (entry_origin g es) (cf_milestones (apply_settle g p c))"
    unfolding apply_settle_def Let_def
    by (rule settle_items_origin) (use assms Settle in \<open>auto split: option.splits\<close>)
  with Settle show ?thesis by simp
qed (use assms(2) in \<open>simp_all add: Let_def\<close>)

lemma projected_origin: "all_entries (entry_origin (case_guide es) es) (cv_milestones (projectCase es current))"
proof -
  let ?P = "entry_origin (case_guide es) es"
  have fold_all: "set evs \<subseteq> set es \<Longrightarrow> all_entries ?P (cf_milestones c) \<Longrightarrow>
      all_entries ?P (cf_milestones (fold (apply_case steps (case_guide es)) evs c))" for evs c steps
    by (induction evs arbitrary: c) (auto intro: apply_origin)
  have unr: "?P i unreached_entry" for i by (rule origin_plain) (simp_all add: unreached_entry_def)
  have "all_entries ?P (cf_milestones (start_fold (case_guide es)))"
    using unr by (cases "case_guide es") (auto simp: start_fold_def all_entries_def[of _ "[]"] intro!: all_fold all_oset)
  then have folded: "all_entries ?P (cf_milestones (case_folded es))"
    using fold_all by (simp add: case_folded_def Let_def case_guide_def)
  have "all_entries ?P (block_milestones (case_guide es) qs ms)" if "all_entries ?P ms" for qs ms
    unfolding block_milestones_def using that
    by (intro all_fold) (auto intro!: all_oset origin_plain simp: unreached_entry_def split: option.splits)
  moreover have "all_entries ?P (mark_stale current ms)" if "all_entries ?P ms" for ms
    proof -
    have "?P i (stale_entry current i e)" if "?P i e" for i e
      using that by (simp add: stale_entry_def entry_origin_def split: option.splits)
    with that show ?thesis by (auto simp: all_entries_def mark_stale_def)
  qed
  ultimately show ?thesis using folded by (simp add: projectCase_def Let_def)
qed

text \<open>A milestone that is achieved has the digest its subject has now, where both are known.\<close>

lemma achieved_current:
  assumes "oget (mark_stale current ms) i = Some e" "me_state e = Achieved"
  shows "oget ms i = Some e \<and> (me_digest e = None \<or> oget current i = None \<or> oget current i = Some (me_digest e))"
proof -
  have "oget (mark_stale current ms) i = map_option (stale_entry current i) (oget ms i)"
    by (simp add: oget_def mark_stale_def map_of_map_snd)
  with assms obtain e0 where "oget ms i = Some e0" "e = stale_entry current i e0" by auto
  with assms(2) show ?thesis by (auto simp: stale_entry_def split: if_splits option.splits)
qed

section \<open>An admission, rule by rule\<close>

lemma admitted_rules:
  assumes "admitProposal v p answers rid = Inr (Admitted r bs evs)" "cv_guide v = Some g"
  obtains a where "List.find (\<lambda>a. ga_id a = pr_activity p) (g_activities g) = Some a"
    "rv_activity r = Some (ga_id a)" "rv_blind r = pr_blind p" "rv_worktree r = pr_worktree p"
    "canonicalizeWrites (JArr (pr_writes p)) = Inr (rv_writes r)"
    "\<forall>i \<in> set (ga_entry a). entry_violation v i = []"
    "\<forall>row \<in> set (g_must g). must_violations v g a p (rv_writes r \<noteq> []) row = []"
    "rv_writes r \<noteq> [] \<Longrightarrow> ga_effects a = ''writes'' \<and> overlap_violations (rv_writes r) (live_of v) = Inr []
       \<and> fst (binding_check p answers) = []"
proof -
  obtain g' a writes overlaps where w: "cv_guide v = Some g'"
    "List.find (\<lambda>a. ga_id a = pr_activity p) (g_activities g') = Some a"
    "canonicalizeWrites (JArr (pr_writes p)) = Inr writes"
    "(if writes \<noteq> [] then overlap_violations writes (live_of v) else Inr []) = Inr overlaps"
    "all_violations v g' a p answers writes overlaps = []" "r = admitted_reservation v a p writes rid"
    using assms(1) by (rule admitted_shape)
  have "overlaps = []" if "writes \<noteq> []" using w(5) that by (simp add: all_violations_def Let_def)
  moreover have "rv_writes r = writes" using w(6) by simp
  ultimately show thesis
    using w assms(2) by (intro that[of a]) (auto simp: all_violations_def Let_def admitted_reservation_def split: if_splits)
qed

lemma entry_violation_Nil: "entry_violation v i = [] \<longleftrightarrow> achieved_in (cv_milestones v) i"
  by (simp add: entry_violation_def Let_def in_state_def achieved_in_def split: option.splits)

lemma consent_of_admission:
  assumes "must_violations v g a p True row = []" "gu_guard row = ''human-consent''" "gu_subject row = Some i" "isDownstream g a i"
  obtains e where "oget (cv_milestones v) i = Some e" "me_state e = Achieved" "me_consent e"
  using assms by (auto simp: must_violations_def Let_def comes_after_def milestone_of_def in_state_def split: if_splits option.splits)

section \<open>The walk finds the ancestors, all of them and nothing else\<close>

definition built_on :: "guide \<Rightarrow> g_activity \<Rightarrow> g_activity \<Rightarrow> bool" where
  "built_on g a b = (b \<in> set (builds_on g a))"

lemma built_on_activity: "built_on g a b \<Longrightarrow> b \<in> set (g_activities g)"
  by (auto simp: built_on_def builds_on_def producersOf_def)

lemma walk_keeps: "set seen \<union> ga_id ` set todo \<subseteq> set (ancestors_walk g todo seen)"
  by (induction g todo seen rule: ancestors_walk.induct) auto

lemma walk_sound:
  "i \<in> set (ancestors_walk g todo seen) \<Longrightarrow> i \<in> set seen \<or> (\<exists>t \<in> set todo. \<exists>b. (built_on g)\<^sup>*\<^sup>* t b \<and> ga_id b = i)"
proof (induction g todo seen rule: ancestors_walk.induct)
  case (2 g a todo seen)
  show ?case
  proof (cases "ga_id a \<in> set seen")
    case True
    with 2 show ?thesis by auto
  next
    case False
    with 2 have "i \<in> set (ga_id a # seen) \<or> (\<exists>t \<in> set (builds_on g a @ todo). \<exists>b. (built_on g)\<^sup>*\<^sup>* t b \<and> ga_id b = i)"
      by simp
    moreover have "t \<in> set (builds_on g a) \<Longrightarrow> (built_on g)\<^sup>*\<^sup>* t b \<Longrightarrow> (built_on g)\<^sup>*\<^sup>* a b" for t b
      by (simp add: built_on_def converse_rtranclp_into_rtranclp)
    ultimately show ?thesis by auto
  qed
qed simp

definition walk_closed :: "guide \<Rightarrow> string set \<Rightarrow> string set \<Rightarrow> bool" where
  "walk_closed g ids all_ids \<longleftrightarrow> (\<forall>b \<in> set (g_activities g). ga_id b \<in> ids \<longrightarrow> ga_id ` set (builds_on g b) \<subseteq> all_ids)"

lemma walk_complete:
  assumes "distinct (map ga_id (g_activities g))" "set todo \<subseteq> set (g_activities g)"
    "walk_closed g (set seen) (set seen \<union> ga_id ` set todo)"
  shows "walk_closed g (set (ancestors_walk g todo seen)) (set (ancestors_walk g todo seen))"
  using assms
proof (induction g todo seen rule: ancestors_walk.induct)
  case (2 g a todo seen)
  show ?case
  proof (cases "ga_id a \<in> set seen")
    case True
    then have "set seen \<union> ga_id ` set (a # todo) = set seen \<union> ga_id ` set todo" by auto
    with 2 True show ?thesis by simp
  next
    case False
    have same: "b = a" if "b \<in> set (g_activities g)" "ga_id b = ga_id a" for b
      using that 2(3,4) by (auto simp: distinct_map dest: inj_onD)
    have "walk_closed g (set (ga_id a # seen)) (set (ga_id a # seen) \<union> ga_id ` set (builds_on g a @ todo))"
      unfolding walk_closed_def
    proof (intro ballI impI)
      fix b
      assume b: "b \<in> set (g_activities g)" "ga_id b \<in> set (ga_id a # seen)"
      show "ga_id ` set (builds_on g b) \<subseteq> set (ga_id a # seen) \<union> ga_id ` set (builds_on g a @ todo)"
      proof (cases "b = a")
        case False
        then have "ga_id b \<in> set seen" using b same by auto
        then have "ga_id ` set (builds_on g b) \<subseteq> set seen \<union> ga_id ` set (a # todo)"
          using 2(5) b(1) by (auto simp: walk_closed_def)
        then show ?thesis by auto
      qed auto
    qed
    moreover have "set (builds_on g a @ todo) \<subseteq> set (g_activities g)"
      using 2(4) built_on_activity[of g a] by (auto simp: built_on_def)
    ultimately show ?thesis using 2(2)[OF False 2(3)] False by simp
  qed
qed simp

lemma ancestorsOf_exact:
  assumes "distinct (map ga_id (g_activities g))"
  shows "i \<in> set (ancestorsOf g a) \<longleftrightarrow> (\<exists>b. (built_on g)\<^sup>+\<^sup>+ a b \<and> ga_id b = i)"
proof
  assume "i \<in> set (ancestorsOf g a)"
  then obtain t b where "built_on g a t" "(built_on g)\<^sup>*\<^sup>* t b" "ga_id b = i"
    using walk_sound[of i g "builds_on g a" "[]"] by (auto simp: ancestorsOf_def built_on_def)
  then show "\<exists>b. (built_on g)\<^sup>+\<^sup>+ a b \<and> ga_id b = i" by (metis rtranclp_into_tranclp2)
next
  have start: "set (builds_on g a) \<subseteq> set (g_activities g)" using built_on_activity[of g a] by (auto simp: built_on_def)
  have closed: "walk_closed g (set (ancestorsOf g a)) (set (ancestorsOf g a))"
    unfolding ancestorsOf_def by (rule walk_complete[OF assms start]) (simp add: walk_closed_def)
  assume "\<exists>b. (built_on g)\<^sup>+\<^sup>+ a b \<and> ga_id b = i"
  then obtain b where b: "(built_on g)\<^sup>+\<^sup>+ a b" "ga_id b = i" by blast
  from b(1) have "ga_id b \<in> set (ancestorsOf g a)"
  proof induction
    case (base c)
    then show ?case using walk_keeps[of "[]" "builds_on g a" g] by (auto simp: ancestorsOf_def built_on_def)
  next
    case (step c d)
    then have "c \<in> set (g_activities g)" by (metis built_on_activity tranclp.cases)
    with step closed show ?case by (auto simp: walk_closed_def built_on_def)
  qed
  with b(2) show "i \<in> set (ancestorsOf g a)" by simp
qed

lemma isDownstream_iff:
  assumes "distinct (map ga_id (g_activities g))"
  shows "isDownstream g a m \<longleftrightarrow> m \<in> set (ga_entry a) \<or> (\<exists>b. (built_on g)\<^sup>+\<^sup>+ a b \<and> m \<in> set (ga_produces b))"
proof -
  have "(\<exists>p \<in> set (producersOf g m). ga_id p \<in> set (ancestorsOf g a)) \<longleftrightarrow> (\<exists>b. (built_on g)\<^sup>+\<^sup>+ a b \<and> m \<in> set (ga_produces b))"
  proof
    assume "\<exists>p \<in> set (producersOf g m). ga_id p \<in> set (ancestorsOf g a)"
    then obtain p b where p: "p \<in> set (g_activities g)" "m \<in> set (ga_produces p)" "(built_on g)\<^sup>+\<^sup>+ a b" "ga_id b = ga_id p"
      using ancestorsOf_exact[OF assms] by (auto simp: producersOf_def)
    then have "b \<in> set (g_activities g)" by (metis built_on_activity tranclp.cases)
    then have "b = p" using p assms by (auto simp: distinct_map dest: inj_onD)
    with p show "\<exists>b. (built_on g)\<^sup>+\<^sup>+ a b \<and> m \<in> set (ga_produces b)" by blast
  next
    assume "\<exists>b. (built_on g)\<^sup>+\<^sup>+ a b \<and> m \<in> set (ga_produces b)"
    then obtain b where b: "(built_on g)\<^sup>+\<^sup>+ a b" "m \<in> set (ga_produces b)" by blast
    then have "b \<in> set (g_activities g)" by (metis built_on_activity tranclp.cases)
    then have "b \<in> set (producersOf g m)" using b(2) by (simp add: producersOf_def)
    moreover have "ga_id b \<in> set (ancestorsOf g a)" using b(1) ancestorsOf_exact[OF assms] by blast
    ultimately show "\<exists>p \<in> set (producersOf g m). ga_id p \<in> set (ancestorsOf g a)" by blast
  qed
  then show ?thesis by (simp add: isDownstream_def list_ex_iff)
qed

section \<open>An admission passes its own recheck\<close>

lemma projection_after:
  assumes "es \<noteq> []" "first_start es = Some s" "first_opened es = Some opn"
  shows "cv_milestones (projectCase (es @ [Route ro, Reservation r]) current) = cv_milestones (projectCase es current)"
    "cv_guide (projectCase (es @ [Route ro, Reservation r]) current) = case_guide es"
proof -
  have wf: "projectWorkflowState (es @ [Route ro, Reservation r]) = projectWorkflowState es"
    using assms(1) by (simp add: projectWorkflowState_def)
  have g: "case_guide (es @ [Route ro, Reservation r]) = case_guide es"
    using assms(2) by (simp add: case_guide_def first_start_append)
  have "cf_milestones (case_folded (es @ [Route ro, Reservation r])) = cf_milestones (case_folded es)"
    using wf assms(2) by (simp add: case_folded_def Let_def first_start_append)
  with wf g show "cv_milestones (projectCase (es @ [Route ro, Reservation r]) current) = cv_milestones (projectCase es current)"
    by (simp add: projectCase_def Let_def)
  from g show "cv_guide (projectCase (es @ [Route ro, Reservation r]) current) = case_guide es" by simp
qed

lemma route_codes: "x \<in> set (route_violations v a p) \<Longrightarrow> vi_code x \<notin> set RECHECK_CODES"
  by (auto simp: route_violations_def Let_def frame_row_def RECHECK_CODES_def split: if_splits)

lemma must_violations_view:
  assumes "cv_milestones v' = cv_milestones v" "pr_blind p' = pr_blind p" "pr_handoffRefs p' = []"
    "must_violations v g a p writing row = []"
  shows "must_violations v' g a p' writing row = []"
proof -
  have m: "milestone_of v' sub = milestone_of v sub" for sub unfolding milestone_of_def assms(1) ..
  have b: "blind_refs v' g p' sub = []" for sub using assms(3) by (simp add: blind_refs_def)
  show ?thesis using assms(4) unfolding must_violations_def Let_def m b assms(2) by (auto split: if_splits)
qed

lemma recheck_live:
  assumes "sound_reservations es" "\<not> has_reservation es (rv_id r)"
  shows "live_of (recheck_view (projectCase (es @ [Route ro, Reservation r]) current) r) = live_in es"
proof -
  have new: "reservations_of (es @ [Route ro, Reservation r]) = reservations_of es @ [(rv_id r, new_entry r)]"
    using new_reservation[OF assms] by simp
  have "filter (\<lambda>(i, x). rv_id (cr_rv x) \<noteq> rv_id r) (reservations_of es) = reservations_of es"
    using assms by (auto simp: sound_reservations_def list_all_iff sound_entry_def intro!: filter_True)
  then show ?thesis unfolding recheck_view_def live_of_def live_in_def
    by (simp add: new del: reservations_append)
qed

lemma recheck_admitted:
  assumes "case_reachable s opn es" "\<not> has_reservation es rid"
    "admitProposal (projectCase es current) p answers rid = Inr (Admitted r bs [Route ro, Reservation r])"
  shows "recheckReservation (projectCase (es @ [Route ro, Reservation r]) current) r = Inr []"
proof -
  let ?v = "projectCase es current" and ?v' = "projectCase (es @ [Route ro, Reservation r]) current"
  let ?w = "recheck_view ?v' r" and ?q = "recheck_proposal r" and ?ws = "rv_writes r"
  let ?ans = "case rv_worktree r of Some wt \<Rightarrow> if wt = [] then [] else [(wt, ''bound'')] | None \<Rightarrow> []"
  note so = reachable_opened[OF assms(1)]
  have "es \<noteq> []" using so by auto
  note after = projection_after[OF this conjunct1[OF so] conjunct2[OF so], of ro r current]
  obtain g where g: "case_guide es = Some g" using assms(3) by (auto elim!: admitted_shape)
  obtain a where a: "List.find (\<lambda>a. ga_id a = pr_activity p) (g_activities g) = Some a"
    "rv_activity r = Some (ga_id a)" "rv_blind r = pr_blind p" "rv_worktree r = pr_worktree p"
    "canonicalizeWrites (JArr (pr_writes p)) = Inr ?ws"
    "\<forall>i \<in> set (ga_entry a). entry_violation ?v i = []"
    "\<forall>row \<in> set (g_must g). must_violations ?v g a p (?ws \<noteq> []) row = []"
    "?ws \<noteq> [] \<Longrightarrow> ga_effects a = ''writes'' \<and> overlap_violations ?ws (live_of ?v) = Inr [] \<and> fst (binding_check p answers) = []"
    using admitted_rules[OF assms(3), of g] g by auto
  have found: "List.find (\<lambda>b. ga_id b = pr_activity ?q) (g_activities g) = Some a"
  proof -
    have "ga_id a = pr_activity p" using a(1) by (auto simp: find_Some_iff)
    then show ?thesis using a(1,2) by (simp add: recheck_proposal_def)
  qed
  have writes: "canonicalizeWrites (JArr (pr_writes ?q)) = Inr ?ws"
    using canonicalizeWrites_fixed[OF a(5)] by (simp add: recheck_proposal_def)
  have rid: "rv_id r = rid" using admitted_ledger(1)[OF assms(3)] .
  have live: "live_of ?w = live_of ?v"
    using recheck_live[OF sound_reachable[OF assms(1)]] assms(2) rid by (simp add: live_of_projection)
  have over: "(if ?ws \<noteq> [] then overlap_violations ?ws (live_of ?w) else Inr []) = Inr []" using a(8) live by simp
  have guide: "cv_guide ?w = Some g" using after(2) g by (simp add: recheck_view_def)
  have "entry_violation ?w i = entry_violation ?v i" for i
    using after(1) by (simp add: entry_violation_def recheck_view_def)
  then have ent: "concat (map (entry_violation ?w) (ga_entry a)) = []" using a(6) by simp
  have "must_violations ?w g a ?q (?ws \<noteq> []) row = []" if "row \<in> set (g_must g)" for row
    by (rule must_violations_view[of _ ?v _ p]) (use after(1) a(3,7) that in \<open>simp_all add: recheck_view_def recheck_proposal_def\<close>)
  then have must: "concat (map (must_violations ?w g a ?q (?ws \<noteq> [])) (g_must g)) = []" by simp
  have bind: "?ws \<noteq> [] \<Longrightarrow> fst (binding_check ?q ?ans) = []"
    using a(4,8) by (auto simp: binding_check_def Let_def recheck_proposal_def split: option.splits if_splits)
  have "all_violations ?w g a ?q ?ans ?ws [] = route_violations ?w a ?q"
    using ent must bind a(8) by (simp add: all_violations_def Let_def recheck_view_def)
  then have "\<exists>bs evs. admitProposal ?w ?q ?ans (rv_id r) = Inr (Admitted (admitted_reservation ?w a ?q ?ws (rv_id r)) bs evs)
      \<or> admitProposal ?w ?q ?ans (rv_id r) = Inr (Refused (route_violations ?w a ?q))
      \<or> admitProposal ?w ?q ?ans (rv_id r) = Inr (bare_refusal ''case-closed'' ''case'')"
    unfolding admitProposal_def guide option.case found writes over e_bind_simps Let_def by auto
  then show ?thesis
    using route_codes[of _ ?w a ?q]
    by (auto simp: recheckReservation_def bare_refusal_def RECHECK_CODES_def filter_empty_conv)
qed

end
