(* ===== verification/Case_Bindings.thy ===== *)
theory Case_Bindings
  imports Workflow_State
begin

text \<open>
  Which case owns which worktree (\<open>src/workflow/case-bindings.mjs\<close>): one record file per worktree
  identity, beside the ledgers of the cases. A record goes from pending to committed around the
  \<open>binding\<close> event of its case. What the file system answers (identity and real path of a worktree,
  whether its custody lease is free, whether the directory can be made) is the environment \<open>binding_env\<close>.
\<close>

record binding_env =
  be_ident :: "string \<Rightarrow> string option"      \<comment> \<open>\<open>cwdDevIno\<close>\<close>
  be_real :: "string \<Rightarrow> string"              \<comment> \<open>\<open>realpathSync\<close>\<close>
  be_quiet :: "string \<Rightarrow> bool"               \<comment> \<open>\<open>dispatchCwdHolder(...) === null\<close>\<close>
  be_host :: bool                            \<comment> \<open>dispatch depth 0, and the directory can be made\<close>

record binding_record =
  br_state :: string
  br_caseId :: string
  br_generation :: nat
  br_worktreeRoot :: string
  br_commonDir :: "string option"
  br_ref :: "string option"
  br_key :: string

datatype binding_file = Unreadable | Readable binding_record

record bindings_world =
  bw_files :: "(string \<times> binding_file) list"
  bw_sentinel :: bool
  bw_ledger :: "string \<Rightarrow> wf_event list"

datatype binding_answer =
    Worktree_missing
  | View_unavailable string
  | Unbound string
  | Unsettled string "binding_record option"
  | Already_bound string binding_record
  | Bound string binding_record

definition ensureBindingsSentinel :: "binding_env \<Rightarrow> bindings_world \<Rightarrow> bool \<times> bindings_world" where
  "ensureBindingsSentinel env w = (if bw_sentinel w then (True, w)
     else if \<not> be_host env then (False, w) else (True, w\<lparr>bw_sentinel := True\<rparr>))"

fun parseRecord :: "binding_file \<Rightarrow> binding_record option" where
  "parseRecord Unreadable = None"
| "parseRecord (Readable r) = Some r"

definition readBinding :: "binding_env \<Rightarrow> string \<Rightarrow> string \<Rightarrow> bindings_world \<Rightarrow> binding_answer \<times> bindings_world" where
  "readBinding env worktree caseId w = (case be_ident env worktree of
     None \<Rightarrow> (Worktree_missing, w)
   | Some key \<Rightarrow> (case oget (bw_files w) key of
       None \<Rightarrow> (let (real, w1) = ensureBindingsSentinel env w in (if real then Unbound key else View_unavailable key, w1))
     | Some file \<Rightarrow> (case parseRecord file of
         None \<Rightarrow> (Unsettled key None, w)
       | Some r \<Rightarrow> if br_state r \<noteq> ''committed'' then (Unsettled key (Some r), w)
           else if br_caseId r \<noteq> caseId then (Already_bound key r, w) else (Bound key r, w))))"

datatype created = Created string binding_record | Not_created binding_answer

definition createPendingBinding ::
  "binding_env \<Rightarrow> string \<Rightarrow> nat \<Rightarrow> string \<Rightarrow> string option \<Rightarrow> string option \<Rightarrow> bindings_world \<Rightarrow> created \<times> bindings_world" where
  "createPendingBinding env caseId generation worktree commonDir ref w = (case be_ident env worktree of
     None \<Rightarrow> (Not_created Worktree_missing, w)
   | Some key \<Rightarrow> (let (real, w1) = ensureBindingsSentinel env w in
       if \<not> real then (Not_created (View_unavailable key), w1)
       else (let record = \<lparr>br_state = ''pending'', br_caseId = caseId, br_generation = generation,
                 br_worktreeRoot = be_real env worktree, br_commonDir = commonDir, br_ref = ref, br_key = key\<rparr> in
         if ohas (bw_files w1) key
         then (let (answer, w2) = readBinding env worktree caseId w1 in (Not_created answer, w2))
         else (Created key record, w1\<lparr>bw_files := oset key (Readable record) (bw_files w1)\<rparr>))))"

definition commitBinding :: "string \<Rightarrow> string \<Rightarrow> nat \<Rightarrow> bindings_world \<Rightarrow> bool \<times> bindings_world" where
  "commitBinding key caseId generation w = (case Option.bind (oget (bw_files w) key) parseRecord of
     None \<Rightarrow> (False, w)
   | Some r \<Rightarrow> if br_caseId r \<noteq> caseId \<or> br_generation r \<noteq> generation \<or> br_state r \<noteq> ''pending'' then (False, w)
       else (True, w\<lparr>bw_files := oset key (Readable (r\<lparr>br_state := ''committed''\<rparr>)) (bw_files w)\<rparr>))"

definition case_bindings :: "wf_event list \<Rightarrow> string \<Rightarrow> binding_payload list" where
  "case_bindings events caseId = List.map_filter
     (\<lambda>e. case e of Binding p \<Rightarrow> if bp_caseId p = caseId then Some p else None | _ \<Rightarrow> None) events"

definition generation_of :: "binding_payload \<Rightarrow> nat" where
  "generation_of p = (case bp_generation p of Some g \<Rightarrow> g | None \<Rightarrow> 0)"

definition nextGeneration :: "wf_event list \<Rightarrow> string \<Rightarrow> nat" where
  "nextGeneration events caseId = fold (\<lambda>p m. max m (generation_of p)) (case_bindings events caseId) 0 + 1"

definition append_to :: "string \<Rightarrow> wf_event \<Rightarrow> bindings_world \<Rightarrow> bindings_world" where
  "append_to caseId e w = w\<lparr>bw_ledger := (bw_ledger w)(caseId := bw_ledger w caseId @ [e])\<rparr>"

definition bound_payload :: "string \<Rightarrow> nat \<Rightarrow> string \<Rightarrow> binding_record \<Rightarrow> binding_payload" where
  "bound_payload caseId generation key r = \<lparr>bp_caseId = caseId, bp_generation = Some generation, bp_key = Some key,
     bp_worktreeRoot = br_worktreeRoot r, bp_commonDir = br_commonDir r, bp_ref = br_ref r, bp_unbound = False\<rparr>"

definition bound_event :: "string \<Rightarrow> nat \<Rightarrow> string \<Rightarrow> binding_record \<Rightarrow> wf_event" where
  "bound_event caseId generation key r = Binding (bound_payload caseId generation key r)"

definition unbound_event :: "string \<Rightarrow> nat \<Rightarrow> string \<Rightarrow> binding_record \<Rightarrow> wf_event" where
  "unbound_event caseId generation key r = Binding \<lparr>bp_caseId = caseId, bp_generation = Some generation, bp_key = Some key,
     bp_worktreeRoot = br_worktreeRoot r, bp_commonDir = None, bp_ref = None, bp_unbound = True\<rparr>"

datatype bound = Bind_ok string nat bool | Bind_refused binding_answer

definition bindWorktree ::
  "binding_env \<Rightarrow> string \<Rightarrow> string \<Rightarrow> string option \<Rightarrow> string option \<Rightarrow> bindings_world \<Rightarrow> bound \<times> bindings_world" where
  "bindWorktree env caseId worktree commonDir ref w = (let (existing, w1) = readBinding env worktree caseId w in
     case existing of
       Bound key r \<Rightarrow> (Bind_ok key (br_generation r) True, w1)
     | Unbound _ \<Rightarrow>
         (let generation = nextGeneration (bw_ledger w1 caseId) caseId;
              (made, w2) = createPendingBinding env caseId generation worktree commonDir ref w1 in
          case made of
            Not_created answer \<Rightarrow> (Bind_refused answer, w2)
          | Created key record \<Rightarrow>
              (Bind_ok key generation False,
               snd (commitBinding key caseId generation (append_to caseId (bound_event caseId generation key record) w2))))
     | answer \<Rightarrow> (Bind_refused answer, w1))"

datatype unbound = No_record | Generation_mismatch | Not_quiet | Released

definition unbindWorktree ::
  "binding_env \<Rightarrow> string \<Rightarrow> nat \<Rightarrow> string \<Rightarrow> string option \<Rightarrow> bindings_world \<Rightarrow> unbound \<times> bindings_world" where
  "unbindWorktree env caseId generation key worktree w = (case oget (bw_files w) key of
     None \<Rightarrow> (No_record, w)
   | Some file \<Rightarrow> (case parseRecord file of
       None \<Rightarrow> (Generation_mismatch, w)
     | Some r \<Rightarrow> if br_caseId r \<noteq> caseId \<or> br_generation r \<noteq> generation then (Generation_mismatch, w)
         else if \<not> be_quiet env (case worktree of Some wt \<Rightarrow> wt | None \<Rightarrow> br_worktreeRoot r) then (Not_quiet, w)
         else (let w1 = append_to caseId (unbound_event caseId generation key r) w
               in (Released, w1\<lparr>bw_files := odel key (bw_files w1)\<rparr>))))"

text \<open>\<open>repairCaseBindings\<close>: the records of one case a crash left pending, each against the ledger as read first.\<close>

definition recorded_generation :: "wf_event list \<Rightarrow> string \<Rightarrow> nat \<Rightarrow> bool" where
  "recorded_generation events caseId generation = list_ex (\<lambda>p. bp_generation p = Some generation \<and> \<not> bp_unbound p)
     (case_bindings events caseId)"

datatype repair = Committed_record string | Removed_record string

definition repair_one :: "wf_event list \<Rightarrow> string \<Rightarrow> string \<times> binding_file \<Rightarrow> bindings_world \<times> repair list \<Rightarrow> bindings_world \<times> repair list" where
  "repair_one events caseId = (\<lambda>(key, file) (w, actions). case parseRecord file of
     None \<Rightarrow> (w, actions)
   | Some r \<Rightarrow> if br_caseId r \<noteq> caseId \<or> br_state r \<noteq> ''pending'' then (w, actions)
       else if recorded_generation events caseId (br_generation r)
         then (snd (commitBinding key caseId (br_generation r) w), actions @ [Committed_record key])
       else (w\<lparr>bw_files := odel key (bw_files w)\<rparr>, actions @ [Removed_record key]))"

definition repairCaseBindings :: "string \<Rightarrow> bindings_world \<Rightarrow> bindings_world \<times> repair list" where
  "repairCaseBindings caseId w = fold (repair_one (bw_ledger w caseId) caseId) (bw_files w) (w, [])"

section \<open>Steps, with a crash between any two of them\<close>

text \<open>
  A bind is three durable writes under the case's own \<open>advance\<close>: the pending record, the event, the
  committed record; a release is two. A crash leaves what was written. \<open>progress\<close> is how far the holder of
  a case's \<open>advance\<close> is.
\<close>

datatype progress = Idle | Made string nat | Recorded string nat | Releasing string nat

type_synonym bindings_state = "bindings_world \<times> (string \<Rightarrow> progress)"

inductive bind_step :: "binding_env \<Rightarrow> string \<Rightarrow> bindings_state \<Rightarrow> bindings_state \<Rightarrow> bool" for env c where
  look: "pr c = Idle \<Longrightarrow> bind_step env c (w, pr) (snd (readBinding env worktree c w), pr)"
| make: "pr c = Idle \<Longrightarrow>
     createPendingBinding env c (nextGeneration (bw_ledger w c) c) worktree commonDir ref w = (Created key r, w') \<Longrightarrow>
     bind_step env c (w, pr) (w', pr(c := Made key (br_generation r)))"
| record_event: "pr c = Made key g \<Longrightarrow> oget (bw_files w) key = Some (Readable r) \<Longrightarrow>
     bind_step env c (w, pr) (append_to c (bound_event c g key r) w, pr(c := Recorded key g))"
| commit: "pr c = Recorded key g \<Longrightarrow> bind_step env c (w, pr) (snd (commitBinding key c g w), pr(c := Idle))"
| release: "pr c = Idle \<Longrightarrow> unbindWorktree env c g key worktree w = (Released, w') \<Longrightarrow> oget (bw_files w) key = Some (Readable r) \<Longrightarrow>
     bind_step env c (w, pr) (append_to c (unbound_event c g key r) w, pr(c := Releasing key g))"
| remove: "pr c = Releasing key g \<Longrightarrow>
     bind_step env c (w, pr) (w\<lparr>bw_files := odel key (bw_files w)\<rparr>, pr(c := Idle))"
| other_event: "pr c = Idle \<Longrightarrow> \<forall>p. e \<noteq> Binding p \<Longrightarrow> bind_step env c (w, pr) (append_to c e w, pr)"
| crash: "bind_step env c (w, pr) (w, pr(c := Idle))"

inductive bindings_reachable :: "binding_env \<Rightarrow> bindings_state \<Rightarrow> bool" for env where
  start: "\<forall>c. case_bindings (ledger c) c = [] \<Longrightarrow>
     bindings_reachable env (\<lparr>bw_files = [], bw_sentinel = sentinel, bw_ledger = ledger\<rparr>, \<lambda>_. Idle)"
| move: "bindings_reachable env s \<Longrightarrow> bind_step env c s s' \<Longrightarrow> bindings_reachable env s'"

inductive_cases bind_step_cases: "bind_step env c (w, pr) s'"

section \<open>What the steps keep\<close>

definition has_bound :: "bindings_world \<Rightarrow> string \<Rightarrow> nat \<Rightarrow> string \<Rightarrow> bool" where
  "has_bound w c g key \<longleftrightarrow> (\<exists>p. Binding p \<in> set (bw_ledger w c) \<and> bp_caseId p = c \<and> bp_generation p = Some g
     \<and> bp_key p = Some key \<and> \<not> bp_unbound p)"

definition file_sound :: "bindings_world \<Rightarrow> string \<Rightarrow> binding_file \<Rightarrow> bool" where
  "file_sound w key fl \<longleftrightarrow> (\<exists>r. fl = Readable r \<and> br_key r = key \<and> br_state r \<in> {''pending'', ''committed''}
     \<and> (br_state r = ''committed'' \<longrightarrow> has_bound w (br_caseId r) (br_generation r) key))"

definition owns :: "bindings_world \<Rightarrow> string \<Rightarrow> string \<Rightarrow> nat \<Rightarrow> bool" where
  "owns w c key g \<longleftrightarrow> (\<exists>r. oget (bw_files w) key = Some (Readable r) \<and> br_caseId r = c \<and> br_generation r = g)"

definition progress_sound :: "bindings_world \<Rightarrow> string \<Rightarrow> progress \<Rightarrow> bool" where
  "progress_sound w c p = (case p of
     Idle \<Rightarrow> True
   | Made key g \<Rightarrow> owns w c key g
   | Recorded key g \<Rightarrow> owns w c key g \<and> has_bound w c g key
   | Releasing key g \<Rightarrow> owns w c key g)"

definition bindings_inv :: "bindings_state \<Rightarrow> bool" where
  "bindings_inv = (\<lambda>(w, pr). (\<forall>key fl. oget (bw_files w) key = Some fl \<longrightarrow> file_sound w key fl)
     \<and> (\<forall>c. progress_sound w c (pr c)))"

text \<open>What a step does to the files and to the ledgers.\<close>

definition grows :: "bindings_world \<Rightarrow> bindings_world \<Rightarrow> bool" where
  "grows w w' \<longleftrightarrow> (\<forall>c. set (bw_ledger w c) \<subseteq> set (bw_ledger w' c))"

lemma has_bound_grows: "has_bound w c g key \<Longrightarrow> grows w w' \<Longrightarrow> has_bound w' c g key"
  by (auto simp: has_bound_def grows_def)

lemma file_sound_grows: "file_sound w key fl \<Longrightarrow> grows w w' \<Longrightarrow> file_sound w' key fl"
  by (auto simp: file_sound_def intro: has_bound_grows)

lemma append_to_parts [simp]:
  "bw_files (append_to c e w) = bw_files w" "grows w (append_to c e w)"
  "bw_ledger (append_to c e w) c' = (if c = c' then bw_ledger w c @ [e] else bw_ledger w c')"
  by (auto simp: append_to_def grows_def)

lemma read_parts [simp]:
  "bw_files (snd (readBinding env wt c w)) = bw_files w" "bw_ledger (snd (readBinding env wt c w)) = bw_ledger w"
  by (simp_all add: readBinding_def ensureBindingsSentinel_def Let_def split: option.splits)

lemma ensure_parts:
  "ensureBindingsSentinel env w = (b, w') \<Longrightarrow> bw_files w' = bw_files w \<and> bw_ledger w' = bw_ledger w"
  by (auto simp: ensureBindingsSentinel_def split: if_splits)

lemma created_parts:
  assumes "createPendingBinding env c g wt commonDir ref w = (Created key r, w')"
  shows "oget (bw_files w) key = None" "bw_files w' = oset key (Readable r) (bw_files w)" "bw_ledger w' = bw_ledger w"
    "br_state r = ''pending''" "br_caseId r = c" "br_generation r = g" "br_key r = key"
proof -
  obtain real w1 where e: "ensureBindingsSentinel env w = (real, w1)" by (cases "ensureBindingsSentinel env w")
  note p = ensure_parts[OF e]
  show "oget (bw_files w) key = None" "bw_files w' = oset key (Readable r) (bw_files w)" "bw_ledger w' = bw_ledger w"
    "br_state r = ''pending''" "br_caseId r = c" "br_generation r = g" "br_key r = key"
    using assms p unfolding createPendingBinding_def e
    by (auto simp: Let_def oget_None_iff split: option.splits if_splits prod.splits)
qed

lemma commit_parts:
  assumes "oget (bw_files w) key = Some (Readable r)" "br_caseId r = c" "br_generation r = g"
  shows "bw_ledger (snd (commitBinding key c g w)) = bw_ledger w"
    "\<exists>st. (st = br_state r \<or> st = ''committed'') \<and>
       bw_files (snd (commitBinding key c g w)) = (if st = br_state r then bw_files w else oset key (Readable (r\<lparr>br_state := st\<rparr>)) (bw_files w))"
   apply (use assms in \<open>simp add: commitBinding_def\<close>)
  apply (rule exI[where x = "if br_state r = ''pending'' then ''committed'' else br_state r"])
  apply (use assms in \<open>simp add: commitBinding_def\<close>)
  done

lemma owns_oset: "owns w c key g \<Longrightarrow> bw_files w' = oset k (Readable r) (bw_files w) \<Longrightarrow>
    k = key \<longrightarrow> br_caseId r = c \<and> br_generation r = g \<Longrightarrow> owns w' c key g"
  by (auto simp: owns_def)

lemma progress_mono:
  assumes "progress_sound w c p" "grows w w'" "\<And>key g. owns w c key g \<Longrightarrow> owns w' c key g"
  shows "progress_sound w' c p"
  using assms by (auto simp: progress_sound_def split: progress.splits intro: has_bound_grows)

lemma bindings_invD:
  assumes "bindings_inv (w, pr)"
  shows "progress_sound w c (pr c)" "oget (bw_files w) key = Some fl \<Longrightarrow> file_sound w key fl"
  using assms by (simp_all add: bindings_inv_def)

lemma bindings_inv_step:
  assumes "bind_step env c s s'" "bindings_inv s"
  shows "bindings_inv s'"
  using assms(1)
proof cases
  case (look pr w worktree)
  have "grows w (snd (readBinding env worktree c w))" by (simp add: grows_def)
  moreover have "owns (snd (readBinding env worktree c w)) = owns w" by (simp add: owns_def fun_eq_iff)
  ultimately show ?thesis using assms(2) look
    by (auto simp: bindings_inv_def intro: file_sound_grows progress_mono)
next
  case (make pr w worktree commonDir ref key r w')
  note k = created_parts[OF make(4)]
  have g: "grows w w'" using k(3) by (simp add: grows_def)
  have "file_sound w' key' fl" if "oget (bw_files w') key' = Some fl" for key' fl
  proof (cases "key' = key")
    case True
    then show ?thesis using that k by (auto simp: file_sound_def)
  next
    case False
    then have "oget (bw_files w) key' = Some fl" using that k(2) by simp
    then show ?thesis using assms(2) make(1) g by (auto simp: bindings_inv_def intro: file_sound_grows)
  qed
  moreover have "progress_sound w' c' ((pr(c := Made key (br_generation r))) c')" for c'
  proof (cases "c' = c")
    case True
    then show ?thesis using k by (auto simp: progress_sound_def owns_def)
  next
    case False
    have "progress_sound w c' (pr c')" using assms(2) make(1) by (simp add: bindings_inv_def)
    moreover have "owns w c' key' g' \<Longrightarrow> owns w' c' key' g'" for key' g'
      using k(1,2) by (auto simp: owns_def)
    ultimately show ?thesis using False g by (auto intro: progress_mono)
  qed
  ultimately show ?thesis using make(2) by (simp add: bindings_inv_def)
next
  case (record_event pr key g w r)
  let ?w' = "append_to c (bound_event c g key r) w"
  have "has_bound ?w' c g key"
    unfolding has_bound_def bound_event_def by (rule exI[where x = "bound_payload c g key r"]) (simp add: bound_payload_def)
  moreover have "owns ?w' = owns w" by (simp add: owns_def fun_eq_iff)
  moreover have "progress_sound w c (Made key g)" using bindings_invD(1)[of w pr c] assms(2) record_event by simp
  ultimately have "progress_sound ?w' c (Recorded key g)" by (simp add: progress_sound_def)
  moreover have "progress_sound ?w' c' (pr c')" for c'
    using assms(2) record_event \<open>owns ?w' = owns w\<close> by (auto simp: bindings_inv_def intro: progress_mono[of w])
  moreover have "file_sound ?w' key' fl" if "oget (bw_files w) key' = Some fl" for key' fl
    using assms(2) record_event that by (auto simp: bindings_inv_def intro: file_sound_grows[of w])
  ultimately show ?thesis using record_event by (simp add: bindings_inv_def)
next
  case (commit pr key g w)
  let ?w' = "snd (commitBinding key c g w)"
  have "progress_sound w c (Recorded key g)" using bindings_invD(1)[of w pr c] assms(2) commit by simp
  then obtain r where r: "oget (bw_files w) key = Some (Readable r)" "br_caseId r = c" "br_generation r = g" "has_bound w c g key"
    by (auto simp: progress_sound_def owns_def)
  note cp = commit_parts[OF r(1-3)]
  have gr: "grows w ?w'" using cp(1) by (simp add: grows_def)
  obtain st where st: "st = br_state r \<or> st = ''committed''"
    "bw_files ?w' = (if st = br_state r then bw_files w else oset key (Readable (r\<lparr>br_state := st\<rparr>)) (bw_files w))"
    using cp(2) by blast
  have "file_sound ?w' key' fl" if "oget (bw_files ?w') key' = Some fl" for key' fl
  proof (cases "oget (bw_files w) key' = Some fl")
    case True
    then show ?thesis using assms(2) commit gr by (auto simp: bindings_inv_def intro: file_sound_grows)
  next
    case False
    then have "key' = key" "fl = Readable (r\<lparr>br_state := ''committed''\<rparr>)" using that st by (auto split: if_splits)
    moreover have "file_sound w key (Readable r)" using assms(2) commit r(1) by (auto simp: bindings_inv_def)
    ultimately show ?thesis using r has_bound_grows[OF r(4) gr] by (auto simp: file_sound_def)
  qed
  moreover have "owns w c' key' g' \<Longrightarrow> owns ?w' c' key' g'" for c' key' g'
    using st r by (auto simp: owns_def split: if_splits)
  then have "progress_sound ?w' c' ((pr(c := Idle)) c')" for c'
    using assms(2) commit gr by (auto simp: bindings_inv_def progress_sound_def[of _ _ Idle] intro: progress_mono)
  ultimately show ?thesis using commit by (simp add: bindings_inv_def)
next
  case (release pr g key worktree w w' r)
  let ?w' = "append_to c (unbound_event c g key r) w"
  have ow: "owns ?w' = owns w" by (simp add: owns_def fun_eq_iff)
  have "owns w c key g" using release by (auto simp: unbindWorktree_def owns_def Let_def split: if_splits)
  then have "progress_sound ?w' c (Releasing key g)" using ow by (simp add: progress_sound_def)
  moreover have "progress_sound ?w' c' (pr c')" for c'
    using assms(2) release ow by (auto simp: bindings_inv_def intro: progress_mono[of w])
  moreover have "file_sound ?w' key' fl" if "oget (bw_files w) key' = Some fl" for key' fl
    using assms(2) release that by (auto simp: bindings_inv_def intro: file_sound_grows[of w])
  ultimately show ?thesis using release by (simp add: bindings_inv_def)
next
  case (remove pr key g w)
  let ?w' = "w\<lparr>bw_files := odel key (bw_files w)\<rparr>"
  have gr: "grows w ?w'" by (simp add: grows_def)
  have "progress_sound w c (Releasing key g)" using bindings_invD(1)[of w pr c] assms(2) remove by simp
  then have own: "owns w c key g" by (simp add: progress_sound_def)
  have "owns w c' key' g' \<Longrightarrow> c' \<noteq> c \<Longrightarrow> owns ?w' c' key' g'" for c' key' g'
    using own by (auto simp: owns_def)
  then have "progress_sound ?w' c' ((pr(c := Idle)) c')" for c'
    using assms(2) remove gr by (auto simp: bindings_inv_def progress_sound_def[of _ _ Idle] intro: progress_mono)
  moreover have "file_sound ?w' key' fl" if "oget (bw_files ?w') key' = Some fl" for key' fl
    using assms(2) remove that gr by (auto simp: bindings_inv_def intro: file_sound_grows split: if_splits)
  ultimately show ?thesis using remove by (simp add: bindings_inv_def)
next
  case (other_event pr e w)
  have "owns (append_to c e w) = owns w" by (simp add: owns_def fun_eq_iff)
  with assms(2) other_event show ?thesis
    by (auto simp: bindings_inv_def intro: progress_mono[of w] file_sound_grows[of w])
next
  case (crash w pr)
  with assms(2) show ?thesis by (auto simp: bindings_inv_def progress_sound_def[of _ _ Idle])
qed

lemma bindings_inv_reachable: "bindings_reachable env s \<Longrightarrow> bindings_inv s"
proof (induction rule: bindings_reachable.induct)
  case (start ledger sentinel)
  then show ?case by (simp add: bindings_inv_def progress_sound_def)
next
  case (move s c s')
  then show ?case using bindings_inv_step by metis
qed

section \<open>A case never touches the record of another\<close>

lemma commit_own:
  assumes "oget (bw_files w) key = Some (Readable r)" "br_caseId r \<noteq> c"
  shows "oget (bw_files (snd (commitBinding k c g w))) key = Some (Readable r)"
  using assms by (auto simp: commitBinding_def split: option.splits)

lemma step_leaves_others:
  assumes "bind_step env c (w, pr) s'" "bindings_inv (w, pr)"
    "oget (bw_files w) key = Some (Readable r)" "br_caseId r \<noteq> c"
  shows "oget (bw_files (fst s')) key = Some (Readable r)"
  using assms(1)
proof cases
  case (make worktree commonDir ref key' r' w')
  note k = created_parts[OF make(3)]
  then have "key' \<noteq> key" using assms(3) by auto
  then show ?thesis using k(2) make(1) assms(3) by simp
next
  case (commit key' g)
  then show ?thesis using commit_own[OF assms(3,4)] by simp
next
  case (remove key' g)
  have "progress_sound w c (Releasing key' g)" using bindings_invD(1)[OF assms(2), of c] remove(2) by simp
  then have "key' \<noteq> key" using assms(3,4) by (auto simp: progress_sound_def owns_def)
  then show ?thesis using remove(1) assms(3) by simp
qed (use assms(3) in simp_all)

definition own_pending :: "string \<Rightarrow> binding_file \<Rightarrow> bool" where
  "own_pending c fl = (case parseRecord fl of None \<Rightarrow> False | Some r \<Rightarrow> br_caseId r = c \<and> br_state r = ''pending'')"

text \<open>What repair makes of one record, when the files are as they were listed.\<close>

definition repaired :: "wf_event list \<Rightarrow> string \<Rightarrow> binding_file \<Rightarrow> binding_file option" where
  "repaired events c fl = (case parseRecord fl of
     None \<Rightarrow> Some fl
   | Some r \<Rightarrow> if \<not> own_pending c fl then Some fl
       else if recorded_generation events c (br_generation r) then Some (Readable (r\<lparr>br_state := ''committed''\<rparr>)) else None)"

lemma repair_one_oget:
  assumes "oget (bw_files w) key = Some fl"
  shows "oget (bw_files (fst (repair_one events c (key, fl) (w, acts)))) k = (if k = key then repaired events c fl else oget (bw_files w) k)"
  using assms by (cases fl) (auto simp: repair_one_def repaired_def own_pending_def commitBinding_def)

lemma repair_fold_oget:
  "distinct (okeys fs) \<Longrightarrow> \<forall>(k, fl) \<in> set fs. oget (bw_files w) k = Some fl \<Longrightarrow>
     oget (bw_files (fst (fold (repair_one events c) fs (w, acts)))) k =
       (case oget fs k of Some fl \<Rightarrow> repaired events c fl | None \<Rightarrow> oget (bw_files w) k)"
proof (induction fs arbitrary: w acts)
  case (Cons x fs)
  obtain key fl where x: "x = (key, fl)" by (cases x)
  obtain w1 acts1 where w1: "repair_one events c (key, fl) (w, acts) = (w1, acts1)" by fastforce
  have key: "oget (bw_files w) key = Some fl" using Cons.prems x by simp
  have one: "oget (bw_files w1) k = (if k = key then repaired events c fl else oget (bw_files w) k)" for k
    using repair_one_oget[OF key, of events c acts k] w1 by simp
  have "key \<notin> set (okeys fs)" using Cons.prems(1) x by (simp add: okeys_def)
  then have rest: "\<forall>(k, fl) \<in> set fs. oget (bw_files w1) k = Some fl"
    using Cons.prems(2) one by (force simp: okeys_def)
  have "distinct (okeys fs)" using Cons.prems(1) by (simp add: okeys_def)
  from Cons.IH[OF this rest, of acts1] show ?case
    using x w1 one \<open>key \<notin> set (okeys fs)\<close> by (auto simp: oget_None_iff[symmetric] split: option.splits)
qed simp

lemma repair_oget:
  assumes "distinct (okeys (bw_files w))"
  shows "oget (bw_files (fst (repairCaseBindings c w))) k = Option.bind (oget (bw_files w) k) (repaired (bw_ledger w c) c)"
proof -
  have "\<forall>(k, fl) \<in> set (bw_files w). oget (bw_files w) k = Some fl"
    using assms by (auto simp: oget_def okeys_def)
  from repair_fold_oget[OF assms this, of "bw_ledger w c" c "[]" k] show ?thesis
    by (cases "oget (bw_files w) k") (simp_all add: repairCaseBindings_def)
qed

section \<open>The bind of the code is the three steps\<close>

lemma bindWorktree_steps:
  assumes "bindWorktree env c wt commonDir ref w = (Bind_ok key g already, w')" "pr c = Idle"
  shows "(bind_step env c)\<^sup>*\<^sup>* (w, pr) (w', pr)"
proof -
  obtain existing w1 where e: "readBinding env wt c w = (existing, w1)" by fastforce
  have one: "bind_step env c (w, pr) (w1, pr)" using bind_step.look[of pr c env w wt] assms(2) e by simp
  show ?thesis
  proof (cases existing)
    case (Unbound k)
    let ?g = "nextGeneration (bw_ledger w1 c) c"
    obtain made w2 where m: "createPendingBinding env c ?g wt commonDir ref w1 = (made, w2)" by fastforce
    with assms(1) e Unbound obtain r where r: "made = Created key r" "g = ?g"
      "w' = snd (commitBinding key c g (append_to c (bound_event c g key r) w2))"
      by (auto simp: bindWorktree_def Let_def split: created.splits)
    note k = created_parts[OF m[unfolded r(1)]]
    have idle: "pr = pr(c := Idle)" using assms(2) by auto
    have "bind_step env c (w1, pr) (w2, pr(c := Made key g))"
      using bind_step.make[of pr c env w1 wt commonDir ref key r w2] assms(2) m k(6) r(1,2) by simp
    moreover have "bind_step env c (w2, pr(c := Made key g)) (append_to c (bound_event c g key r) w2, pr(c := Recorded key g))"
      using bind_step.record_event[of "pr(c := Made key g)" c key g w2 r] k(2) by simp
    moreover have "bind_step env c (append_to c (bound_event c g key r) w2, pr(c := Recorded key g)) (w', pr)"
      using bind_step.commit[of "pr(c := Recorded key g)" c key g] r(3) idle by simp
    ultimately show ?thesis using one by (meson converse_rtranclp_into_rtranclp rtranclp.rtrancl_refl)
  qed (use assms(1) e one in \<open>auto simp: bindWorktree_def\<close>)
qed

lemma bindWorktree_bound:
  assumes "bindWorktree env c wt commonDir ref w = (Bind_ok key g False, w')"
  shows "\<exists>r. readBinding env wt c w' = (Bound key r, w') \<and> br_generation r = g"
proof -
  obtain existing w1 where e: "readBinding env wt c w = (existing, w1)" by fastforce
  then obtain k where k: "existing = Unbound k" using assms by (cases existing) (auto simp: bindWorktree_def)
  let ?g = "nextGeneration (bw_ledger w1 c) c"
  obtain made w2 where m: "createPendingBinding env c ?g wt commonDir ref w1 = (made, w2)" by fastforce
  with assms e k obtain r where r: "made = Created key r" "g = ?g"
    "w' = snd (commitBinding key c g (append_to c (bound_event c g key r) w2))"
    by (auto simp: bindWorktree_def Let_def split: created.splits)
  have ident: "be_ident env wt = Some key"
    using m r(1) by (auto simp: createPendingBinding_def Let_def split: option.splits prod.splits if_splits)
  note cp = created_parts[OF m[unfolded r(1)]]
  have "oget (bw_files w') key = Some (Readable (r\<lparr>br_state := ''committed''\<rparr>))"
    using r(2,3) cp by (simp add: commitBinding_def)
  with ident cp r(2) show ?thesis by (simp add: readBinding_def)
qed

end
