(* ===== verification/Case_Properties.thy ===== *)
theory Case_Properties
  imports Case_Safety Case_Bindings
begin

text \<open>
  The properties of the cases of a Workflow: admission against the frame, the consent and the writes of
  a case, its ledger, and the bindings of worktrees to cases. The sample is one case of a guide with a
  planning and a building activity.
\<close>

section \<open>A case\<close>

definition sample_guide :: guide where
  "sample_guide = \<lparr>g_id = ''deliver'', g_kind = ''guide'', g_purpose = None, g_roles = [],
     g_milestones = map (\<lambda>i. \<lparr>gm_id = i, gm_subject = None, gm_evidence = None, gm_acceptedBy = None, gm_settledBy = None\<rparr>)
       [''request-received'', ''plan'', ''built''],
     g_activities = [
       \<lparr>ga_id = ''plan'', ga_entry = [''request-received''], ga_produces = [''plan''], ga_effects = ''none'', ga_operation = None, ga_unit = None\<rparr>,
       \<lparr>ga_id = ''build'', ga_entry = [''plan''], ga_produces = [''built''], ga_effects = ''writes'', ga_operation = None, ga_unit = None\<rparr>],
     g_decisions = [],
     g_must = [\<lparr>gu_id = ''consent'', gu_guard = ''human-consent'', gu_subject = Some ''plan'', gu_reason = ''r''\<rparr>,
       \<lparr>gu_id = ''verify'', gu_guard = ''verify-receipt'', gu_subject = Some ''built'', gu_reason = ''r''\<rparr>],
     g_unenforced = [], g_frameDefaults = None, g_closure = []\<rparr>"

definition sample_start :: start_payload where
  "sample_start = \<lparr>sp_workflowId = ''deliver'', sp_workflowRunId = ''c'',
     sp_workflow = Some \<lparr>wk_id = Some ''deliver'', wk_guide = Some sample_guide, wk_raw = [], wk_steps = []\<rparr>, sp_request = None\<rparr>"

definition sample_opened :: opened_payload where
  "sample_opened = \<lparr>op_kind = Some ''guide'',
     op_frame = Some [(''dispatches'', JNum 3), (''mutatingDispatches'', JNum 2), (''deviationsBeforeAsk'', JNum 0)],
     op_guideSha = None, op_requestDigest = Some ''d'', op_inherits = [], op_parent = None\<rparr>"

definition sample_answer :: gate_answer where
  "sample_answer = \<lparr>gw_stepId = ''plan'', gw_answer = ''yes'', gw_approved = True, gw_mode = None, gw_milestones = Some [''plan''],
     gw_subjectDigest = Some ''p1'', gw_occurrence = 1, gw_round = 1\<rparr>"

definition sample_ledger :: "wf_event list" where
  "sample_ledger = [Workflow_start sample_start, Case_opened sample_opened, Gate_answer sample_answer]"

definition sample_digests :: digests where
  "sample_digests = [(''plan'', Some ''p1'')]"

definition sample_proposal :: proposal where
  "sample_proposal = \<lparr>pr_activity = ''build'', pr_unitId = None, pr_decisionPoint = None, pr_reason = None,
     pr_writes = [JStr ''a''], pr_worktree = Some ''w'', pr_blind = False, pr_handoffRefs = [], pr_rigor = None,
     pr_seatLaunches = None, pr_unitRunId = None, pr_proposer = None, pr_claimedRoute = None\<rparr>"

definition sample_reservation :: reservation where
  "sample_reservation = \<lparr>rv_id = ''r1'', rv_activity = Some ''build'', rv_unitId = None, rv_writes = [''a''], rv_worktree = Some ''w'',
     rv_dispatches = Some 1, rv_mutating = Some 1, rv_ceiling = None, rv_blind = False, rv_nested = False, rv_unitRunId = None\<rparr>"

definition sample_route :: route_payload where
  "sample_route = \<lparr>ro_decisionPoint = None, ro_activity = ''build'', ro_unitId = None, ro_routeKind = ''eligible'', ro_reason = None,
     ro_guideVersion = None, ro_reservationId = ''r1'', ro_claimedRoute = None\<rparr>"

lemma sample_admission:
  "admitProposal (projectCase sample_ledger sample_digests) sample_proposal [(''w'', ''unbound'')] ''r1''
     = Inr (Admitted sample_reservation [(''w'', ''create'')] [Route sample_route, Reservation sample_reservation])"
  by code_simp

lemma sample_case_reachable: "case_reachable sample_start sample_opened sample_ledger"
proof -
  have "case_reachable sample_start sample_opened [Workflow_start sample_start, Case_opened sample_opened]"
    using case_reachable.opened[of sample_start sample_opened] by (simp add: openCaseOnLedger_def)
  from case_reachable.step[OF this case_step.advance[of "Gate_answer sample_answer"]] show ?thesis
    by (simp add: sample_ledger_def)
qed

definition sample_admitted :: "wf_event list" where
  "sample_admitted = sample_ledger @ [Route sample_route, Reservation sample_reservation]"

lemma sample_fresh: "\<not> has_reservation sample_ledger ''r1''"
  by (simp add: has_reservation_def sample_ledger_def)

lemma sample_admitted_reachable: "case_reachable sample_start sample_opened sample_admitted"
  unfolding sample_admitted_def
  using case_reachable.step[OF sample_case_reachable case_step.admit[OF sample_admission sample_fresh]] .

definition sample_settle :: settle_payload where
  "sample_settle = \<lparr>st_reservationId = ''r1'', st_activity = Some ''build'', st_unitRunId = Some ''u1'', st_outcome = ''pass'',
     st_receipts = [\<lparr>rc_evaluator = ''harness-verify'', rc_passed = True, rc_milestone = Some ''built'', rc_subjectDigest = Some ''b1''\<rparr>],
     st_achieved = [\<lparr>ai_milestone = ''built'', ai_subjectDigest = Some ''b1'', ai_receipts = [], ai_outcome = None\<rparr>],
     st_seatLaunchesUsed = 1, st_frameExhausted = False, st_blind = False\<rparr>"

lemma sample_settled_reachable: "case_reachable sample_start sample_opened (sample_admitted @ [Settle sample_settle])"
proof -
  have "fst (applySettle sample_settle sample_admitted) = sample_admitted @ [Settle sample_settle]" by code_simp
  with case_reachable.step[OF sample_admitted_reachable case_step.settle[of sample_admitted sample_settle]] show ?thesis by simp
qed

definition sample_second :: reservation where
  "sample_second = sample_reservation\<lparr>rv_id := ''r2'', rv_writes := [''b'']\<rparr>"

definition sample_both :: "wf_event list" where
  "sample_both = sample_admitted @ [Route (sample_route\<lparr>ro_reservationId := ''r2''\<rparr>), Reservation sample_second]"

lemma sample_second_reachable: "case_reachable sample_start sample_opened sample_both"
proof -
  have "admitProposal (projectCase sample_admitted sample_digests) (sample_proposal\<lparr>pr_writes := [JStr ''b'']\<rparr>) [(''w'', ''bound'')] ''r2''
      = Inr (Admitted sample_second [(''w'', ''have'')] [Route (sample_route\<lparr>ro_reservationId := ''r2''\<rparr>), Reservation sample_second])"
    by code_simp
  from case_reachable.step[OF sample_admitted_reachable case_step.admit[OF this]] show ?thesis
    by (simp add: sample_both_def has_reservation_def sample_admitted_def sample_ledger_def sample_reservation_def)
qed

section \<open>The frame and the reservations\<close>

text \<open>
  C5: The frame of a case is never overspent: on every ledger the doors can write, what the reservations
  use of the dispatches and of the writing dispatches, and the routes outside the list, stay within the
  counts the frame states (a count left open bounds nothing).
\<close>

theorem frame_never_overspent:
  assumes "case_reachable s opn es"
  shows "let v = projectCase es current; frame = lazyd (cv_frame v); limit = (\<lambda>k. count_of (oget frame k)) in
    (case limit ''dispatches'' of Some n \<Rightarrow> cv_dispatchesUsed v \<le> n | None \<Rightarrow> True)
    \<and> (case limit ''mutatingDispatches'' of Some n \<Rightarrow> cv_mutatingUsed v \<le> n | None \<Rightarrow> True)
    \<and> (case limit ''deviationsBeforeAsk'' of Some n \<Rightarrow> int (cv_deviations v) \<le> n | None \<Rightarrow> True)"
  using frame_reachable[OF assms] by (simp add: frame_kept_def within_def Let_def cong: option.case_cong)

theorem frame_never_overspent_witness:
  "cv_mutatingUsed (projectCase sample_admitted []) \<le> 2 \<and> cv_mutatingUsed (projectCase sample_admitted []) = 1"
proof -
  have f: "case_frame sample_admitted = op_frame sample_opened" by code_simp
  have "cv_mutatingUsed (projectCase sample_admitted []) = 1" by code_simp
  with frame_never_overspent[OF sample_admitted_reachable, of "[]"] f show ?thesis
    by (simp add: sample_opened_def Let_def)
qed

text \<open>
  C6: No path is writable by two live reservations: of two different reservations that are neither
  settled nor nested, no path matches the write scopes of both.
\<close>

theorem live_writes_disjoint:
  assumes "case_reachable s opn es"
    and "r \<in> set (live_of (projectCase es current))" "r' \<in> set (live_of (projectCase es current))" "rv_id r \<noteq> rv_id r'"
    and "matchesWriteScope (JStr path) (map JStr (rv_writes r)) = Inr True"
  shows "matchesWriteScope (JStr path) (map JStr (rv_writes r')) \<noteq> Inr True"
  using disjoint_reachable[OF assms(1)] assms(2-) by (auto simp: live_of_projection disjoint_writes_def may_write_def)

theorem live_writes_disjoint_witness:
  "matchesWriteScope (JStr ''a/x'') (map JStr (rv_writes sample_second)) \<noteq> Inr True"
proof (rule live_writes_disjoint[OF sample_second_reachable])
  show "sample_reservation \<in> set (live_of (projectCase sample_both []))" by code_simp
  show "sample_second \<in> set (live_of (projectCase sample_both []))" by code_simp
  show "rv_id sample_reservation \<noteq> rv_id sample_second" by code_simp
  show "matchesWriteScope (JStr ''a/x'') (map JStr (rv_writes sample_reservation)) = Inr True" by code_simp
qed

text \<open>
  Every reservation id is reserved at most once and settled at most once, and a case that is closed
  gets no further reservation or route by any step.
\<close>

theorem reservations_once:
  assumes "case_reachable s opn es"
  shows "distinct (reserved_in es) \<and> distinct (settles_in es)
    \<and> (cv_closed (projectCase es current) \<noteq> None \<longrightarrow>
         (\<forall>es'. case_step es es' \<longrightarrow> reserved_in es' = reserved_in es \<and> routes_in es' = routes_in es
            \<and> cv_closed (projectCase es' current) \<noteq> None))"
  using ids_once_reachable[OF assms] closed_step[of es] by auto

theorem reservations_once_witness:
  "settles_in (sample_admitted @ [Settle sample_settle]) = [''r1'']
     \<and> distinct (settles_in (sample_admitted @ [Settle sample_settle]))"
proof -
  have "settles_in (sample_admitted @ [Settle sample_settle]) = [''r1'']" by code_simp
  with reservations_once[OF sample_settled_reachable, of "[]"] show ?thesis by metis
qed

text \<open>
  C22: Folding the pending settles in is idempotent: after it every pending reservation is settled, a
  second fold changes nothing and appends nothing, and the count it returns is the number of events it
  appended.
\<close>

theorem drain_is_idempotent:
  assumes "drain_settles pending es = (es', n)"
  shows "drain_settles pending es' = (es', 0) \<and> n = length es' - length es
     \<and> (\<forall>p \<in> set pending. has_settle es' (st_reservationId p))"
  using drain_settles_again[OF assms] by blast

theorem drain_is_idempotent_witness:
  "drain_settles [sample_settle, sample_settle] (sample_admitted @ [Settle sample_settle])
     = (sample_admitted @ [Settle sample_settle], 0)"
proof -
  have "drain_settles [sample_settle, sample_settle] sample_admitted = (sample_admitted @ [Settle sample_settle], 1)" by code_simp
  from drain_is_idempotent[OF this] show ?thesis by simp
qed

section \<open>What an admission stands on\<close>



text \<open>
  C20: A delivery milestone that a settle of this case achieved carries a receipt of a named evaluator that
  passed, for this milestone and for the digest the milestone is recorded with.
\<close>

theorem delivery_needs_receipt:
  assumes "oget (cv_milestones (projectCase es current)) m = Some e" "me_state e = Achieved"
    and "me_outcome e \<noteq> None" "\<not> me_inherited e" "isDeliveryMilestone (case_guide es) m"
  shows "\<exists>rc \<in> set (me_receipts e). isValidReceipt rc m (me_digest e)"
proof -
  obtain p item where "item \<in> set (st_achieved p)" "accepted (case_guide es) p item" "ai_milestone item = m"
    "me_digest e = ai_subjectDigest item" "me_receipts e = st_receipts p"
    using all_entries_oget[OF projected_origin assms(1)] assms(3,4) by (auto simp: entry_origin_def)
  with assms(5) show ?thesis by (auto simp: accepted_def Let_def list_ex_iff)
qed

theorem delivery_needs_receipt_witness:
  "\<exists>e :: milestone_entry. \<exists>rc \<in> set (me_receipts e). isValidReceipt rc ''built'' (me_digest e)"
proof -
  let ?es = "sample_admitted @ [Settle sample_settle]"
  let ?e = "(reached (Some ''b1''))\<lparr>me_receipts := st_receipts sample_settle, me_outcome := Some ''pass''\<rparr>"
  have e: "oget (cv_milestones (projectCase ?es [])) ''built'' = Some ?e" by code_simp
  have s: "me_state ?e = Achieved" by code_simp
  have oc: "me_outcome ?e \<noteq> None" by code_simp
  have i: "\<not> me_inherited ?e" by code_simp
  have d: "isDeliveryMilestone (case_guide ?es) ''built''" by code_simp
  from delivery_needs_receipt[OF e s oc i d] show ?thesis by (rule exI[where x = ?e])
qed

text \<open>
  What an admission stood on is found again by the recheck made before its effect: on the ledger the
  admission wrote, with the same digests, no rule is broken.
\<close>

theorem admission_passes_recheck:
  assumes "case_reachable s opn es" "\<not> has_reservation es rid"
    and "admitProposal (projectCase es current) p answers rid = Inr (Admitted r bindings evs)"
  shows "recheckReservation (projectCase (es @ evs) current) r = Inr []"
proof -
  obtain ro where "evs = [Route ro, Reservation r]"
    using assms(3) admission_events_res by (metis admitted_shape)
  with recheck_admitted[OF assms(1,2)] assms(3) show ?thesis by simp
qed

theorem admission_passes_recheck_witness:
  "recheckReservation (projectCase sample_admitted sample_digests) sample_reservation = Inr []"
  using admission_passes_recheck[OF sample_case_reachable sample_fresh sample_admission] by (simp add: sample_admitted_def)

text \<open>
  An admitted activity is one the projection shows as eligible: an open case admits only activities of
  its guide whose entry milestones are all achieved.
\<close>

theorem admitted_is_eligible:
  assumes "admitProposal (projectCase es current) p answers rid = Inr (Admitted r bindings evs)"
  shows "pr_activity p \<in> set (cv_eligible (projectCase es current))"
proof -
  obtain g where g: "case_guide es = Some g" "cv_closed (projectCase es current) = None"
    using assms by (auto elim!: admitted_shape)
  obtain a where a: "List.find (\<lambda>a. ga_id a = pr_activity p) (g_activities g) = Some a"
    "\<forall>i \<in> set (ga_entry a). entry_violation (projectCase es current) i = []"
    by (rule admitted_rules[OF assms, of g]) (use g(1) in simp_all)
  then have "a \<in> set (g_activities g)" "ga_id a = pr_activity p" by (auto simp: find_Some_iff)
  with a(2) g show ?thesis
    by (auto simp: entry_violation_Nil projectCase_def Let_def list_all_iff intro!: image_eqI[of _ _ a])
qed

theorem admitted_is_eligible_witness: "''build'' \<in> set (cv_eligible (projectCase sample_ledger sample_digests))"
  using admitted_is_eligible[OF sample_admission] by (simp add: sample_proposal_def)

text \<open>
  In a guide whose activities have different ids, an activity comes after a milestone exactly when it
  enters on it or builds, directly or through other activities, on one that produces it; the walk
  terminates on every guide, cyclic ones included.
\<close>

theorem downstream_exact:
  assumes "distinct (map ga_id (g_activities g))"
  shows "isDownstream g a m \<longleftrightarrow> m \<in> set (ga_entry a)
    \<or> (\<exists>b. (\<lambda>x y. y \<in> set (g_activities g) \<and> (\<exists>i \<in> set (ga_entry x). i \<in> set (ga_produces y)))\<^sup>+\<^sup>+ a b \<and> m \<in> set (ga_produces b))"
proof -
  have "built_on g = (\<lambda>x y. y \<in> set (g_activities g) \<and> (\<exists>i \<in> set (ga_entry x). i \<in> set (ga_produces y)))"
    by (auto simp: built_on_def builds_on_def producersOf_def fun_eq_iff)
  with isDownstream_iff[OF assms] show ?thesis by simp
qed

theorem downstream_exact_witness:
  "isDownstream sample_guide (g_activities sample_guide ! 1) ''plan''"
proof -
  have d: "distinct (map ga_id (g_activities sample_guide))" by code_simp
  have "''plan'' \<in> set (ga_entry (g_activities sample_guide ! 1))" by code_simp
  then show ?thesis using downstream_exact[OF d] by blast
qed

section \<open>Worktrees and cases\<close>

definition sample_env :: binding_env where
  "sample_env = \<lparr>be_ident = Some, be_real = id, be_quiet = (\<lambda>_. True), be_host = True\<rparr>"

definition empty_world :: bindings_world where
  "empty_world = \<lparr>bw_files = [], bw_sentinel = True, bw_ledger = (\<lambda>_. [])\<rparr>"

text \<open>Case \<open>c\<close> binds worktree \<open>A\<close>, case \<open>e\<close> then looks at it.\<close>

definition bound_record :: binding_record where
  "bound_record = \<lparr>br_state = ''committed'', br_caseId = ''c'', br_generation = 1, br_worktreeRoot = ''A'', br_commonDir = None,
     br_ref = None, br_key = ''A''\<rparr>"

definition bound_world :: bindings_world where
  "bound_world = snd (bindWorktree sample_env ''c'' ''A'' None None empty_world)"

lemma sample_bind: "bindWorktree sample_env ''c'' ''A'' None None empty_world = (Bind_ok ''A'' 1 False, bound_world)"
proof -
  have "fst (bindWorktree sample_env ''c'' ''A'' None None empty_world) = Bind_ok ''A'' 1 False" by code_simp
  then show ?thesis unfolding bound_world_def by (metis prod.collapse)
qed

lemma bound_world_file: "oget (bw_files bound_world) ''A'' = Some (Readable bound_record)"
  unfolding bound_world_def bound_record_def by code_simp

lemma bound_world_reachable: "bindings_reachable sample_env (bound_world, \<lambda>_. Idle)"
proof -
  have start: "bindings_reachable sample_env (empty_world, \<lambda>_. Idle)"
    unfolding empty_world_def by (rule bindings_reachable.start) (simp add: case_bindings_def map_filter_simps)
  have "(bind_step sample_env ''c'')\<^sup>*\<^sup>* (empty_world, \<lambda>_. Idle) (bound_world, \<lambda>_. Idle)"
    using bindWorktree_steps[OF sample_bind] by simp
  then show ?thesis by (induction rule: rtranclp_induct) (use start in \<open>auto intro: bindings_reachable.move\<close>)
qed

text \<open>
  A committed binding of a worktree is on the ledger of its case: whatever the order of the writes of
  any number of cases and wherever a crash cuts them, a record that answers bound has its own binding
  event, of its generation and its worktree.
\<close>

theorem committed_binding_is_recorded:
  assumes "bindings_reachable env (w, pr)" "readBinding env worktree c w = (Bound key r, w')"
  shows "br_caseId r = c \<and> (\<exists>p. Binding p \<in> set (bw_ledger w c) \<and> bp_caseId p = c
    \<and> bp_generation p = Some (br_generation r) \<and> bp_key p = Some key \<and> \<not> bp_unbound p)"
proof -
  have r: "oget (bw_files w) key = Some (Readable r)" "br_state r = ''committed''" "br_caseId r = c"
    using assms(2) by (auto simp: readBinding_def Let_def split: option.splits if_splits prod.splits elim!: parseRecord.elims)
  have "file_sound w key (Readable r)" using bindings_invD(2)[OF bindings_inv_reachable[OF assms(1)] r(1)] .
  with r show ?thesis by (auto simp: file_sound_def has_bound_def)
qed

theorem committed_binding_is_recorded_witness:
  "\<exists>p. Binding p \<in> set (bw_ledger bound_world ''c'') \<and> bp_key p = Some ''A''"
proof -
  have "readBinding sample_env ''A'' ''c'' bound_world = (Bound ''A'' bound_record, bound_world)"
    using bound_world_file by (simp add: readBinding_def sample_env_def bound_record_def)
  from committed_binding_is_recorded[OF bound_world_reachable this] show ?thesis by blast
qed

text \<open>
  C8: No step of a case, and no repair of it, removes or changes the record of a worktree that another
  case owns.
\<close>

theorem bindings_are_exclusive:
  assumes "bindings_reachable env (w, pr)" "oget (bw_files w) key = Some (Readable r)" "br_caseId r \<noteq> c"
  shows "(\<forall>s'. bind_step env c (w, pr) s' \<longrightarrow> oget (bw_files (fst s')) key = Some (Readable r))
    \<and> (distinct (okeys (bw_files w)) \<longrightarrow> oget (bw_files (fst (repairCaseBindings c w))) key = Some (Readable r))"
  using step_leaves_others[OF _ bindings_inv_reachable[OF assms(1)] assms(2,3)] assms(2,3)
  by (auto simp: repair_oget repaired_def own_pending_def)

theorem bindings_are_exclusive_witness:
  "oget (bw_files (fst (repairCaseBindings ''e'' bound_world))) ''A'' = Some (Readable bound_record)"
proof -
  have "distinct (okeys (bw_files bound_world))" unfolding bound_world_def by code_simp
  moreover have "br_caseId bound_record \<noteq> ''e''" by code_simp
  ultimately show ?thesis using bindings_are_exclusive[OF bound_world_reachable bound_world_file] by blast
qed

text \<open>
  C19: bindWorktree refines the protocol of three durable writes: a bind that succeeds is a sequence of
  its steps, by a holder that is idle before and after, and the record then answers bound.
\<close>

theorem bind_refines_protocol:
  assumes "bindWorktree env c worktree commonDir ref w = (Bind_ok key g False, w')" "pr c = Idle"
  shows "(bind_step env c)\<^sup>*\<^sup>* (w, pr) (w', pr)
    \<and> (\<exists>r. readBinding env worktree c w' = (Bound key r, w') \<and> br_generation r = g)"
proof
  show "(bind_step env c)\<^sup>*\<^sup>* (w, pr) (w', pr)" using assms by (rule bindWorktree_steps)
  show "\<exists>r. readBinding env worktree c w' = (Bound key r, w') \<and> br_generation r = g"
    using bindWorktree_bound[OF assms(1)] .
qed

theorem bind_refines_protocol_witness:
  "(bind_step sample_env ''c'')\<^sup>*\<^sup>* (empty_world, \<lambda>_. Idle) (bound_world, \<lambda>_. Idle)"
  using bind_refines_protocol[OF sample_bind, of "\<lambda>_. Idle"] by blast

text \<open>
  Repair settles every record of the case a crash left pending: none stays pending, one whose
  generation the ledger recorded is committed, any other is removed, and every other record is as it was.
\<close>

theorem repair_settles_pending:
  assumes "distinct (okeys (bw_files w))"
  shows "oget (bw_files (fst (repairCaseBindings c w))) key = (case oget (bw_files w) key of
      Some (Readable r) \<Rightarrow> if br_caseId r \<noteq> c \<or> br_state r \<noteq> ''pending'' then Some (Readable r)
        else if recorded_generation (bw_ledger w c) c (br_generation r) then Some (Readable (r\<lparr>br_state := ''committed''\<rparr>))
        else None
    | other \<Rightarrow> other)"
  by (cases "oget (bw_files w) key"; cases "the (oget (bw_files w) key)")
    (auto simp: repair_oget[OF assms] repaired_def own_pending_def)

theorem repair_settles_pending_witness:
  "oget (bw_files (fst (repairCaseBindings ''c'' bound_world))) ''A'' = Some (Readable bound_record)"
proof -
  have "distinct (okeys (bw_files bound_world))" unfolding bound_world_def by code_simp
  moreover have "br_state bound_record \<noteq> ''pending''" by code_simp
  ultimately show ?thesis using repair_settles_pending bound_world_file by simp
qed

text \<open>
  The ledger is asked for the generation alone. A case whose bind of \<open>A\<close> was cut short before its event
  binds \<open>B\<close> under the same generation; repair then commits the record of \<open>A\<close>, which the ledger never
  recorded.
\<close>

definition cut_short :: bindings_world where
  "cut_short = snd (createPendingBinding sample_env ''c'' (nextGeneration [] ''c'') ''A'' None None empty_world)"

definition then_bound :: bindings_world where
  "then_bound = snd (bindWorktree sample_env ''c'' ''B'' None None cut_short)"

lemma then_bound_reachable: "bindings_reachable sample_env (then_bound, \<lambda>_. Idle)"
proof -
  have start: "bindings_reachable sample_env (empty_world, \<lambda>_. Idle)"
    unfolding empty_world_def by (rule bindings_reachable.start) (simp add: case_bindings_def map_filter_simps)
  have "\<exists>r. createPendingBinding sample_env ''c'' (nextGeneration (bw_ledger empty_world ''c'') ''c'') ''A'' None None empty_world
      = (Created ''A'' r, cut_short)"
    by (simp add: createPendingBinding_def cut_short_def sample_env_def ensureBindingsSentinel_def empty_world_def nextGeneration_def
        case_bindings_def map_filter_simps oget_None_iff[symmetric] okeys_def Let_def)
  then obtain r where "createPendingBinding sample_env ''c'' (nextGeneration (bw_ledger empty_world ''c'') ''c'') ''A'' None None empty_world
      = (Created ''A'' r, cut_short)" by blast
  from bind_step.make[of "\<lambda>_. Idle", OF HOL.refl this]
  have "bind_step sample_env ''c'' (empty_world, \<lambda>_. Idle) (cut_short, (\<lambda>_. Idle)(''c'' := Made ''A'' (br_generation r)))" .
  from bindings_reachable.move[OF bindings_reachable.move[OF start this] bind_step.crash[where c = "''c''"]]
  have cut: "bindings_reachable sample_env (cut_short, \<lambda>_. Idle)" by (simp add: fun_upd_idem)
  have "fst (bindWorktree sample_env ''c'' ''B'' None None cut_short) = Bind_ok ''B'' 1 False" by code_simp
  then have "bindWorktree sample_env ''c'' ''B'' None None cut_short = (Bind_ok ''B'' 1 False, then_bound)"
    unfolding then_bound_def by (metis prod.collapse)
  then have "(bind_step sample_env ''c'')\<^sup>*\<^sup>* (cut_short, \<lambda>_. Idle) (then_bound, \<lambda>_. Idle)"
    using bindWorktree_steps[where pr = "\<lambda>_. Idle"] by simp
  then show ?thesis by (induction rule: rtranclp_induct) (use cut in \<open>auto intro: bindings_reachable.move\<close>)
qed

theorem repair_commits_unrecorded:
  "bindings_reachable sample_env (then_bound, \<lambda>_. Idle)
     \<and> oget (bw_files (fst (repairCaseBindings ''c'' then_bound))) ''A'' = Some (Readable bound_record)
     \<and> map (\<lambda>p. bp_key p) (case_bindings (bw_ledger (fst (repairCaseBindings ''c'' then_bound)) ''c'') ''c'') = [Some ''B'']"
proof -
  have "oget (bw_files (fst (repairCaseBindings ''c'' then_bound))) ''A'' = Some (Readable bound_record)"
    unfolding bound_record_def by code_simp
  moreover have "map (\<lambda>p. bp_key p) (case_bindings (bw_ledger (fst (repairCaseBindings ''c'' then_bound)) ''c'') ''c'') = [Some ''B'']"
    by code_simp
  ultimately show ?thesis using then_bound_reachable by blast
qed

end
