(* ===== verification/Runner_Properties.thy ===== *)
theory Runner_Properties
  imports Write_Scope Run_Control Runner_Loop
begin

text \<open>
  The properties of the runner: the scopes a worker may write, the control of a run by one process at a
  time, the budgets that keep a drain from looping, the clean-up of branches, and one poll of the drain.
\<close>

section \<open>Write scopes\<close>

text \<open>
  The canonical spelling of a scope is a fixed point: reading the canonical list again gives the same
  list, without duplicates, and it covers exactly the paths the scope covered as it was written.
\<close>

theorem canonical_scope_is_fixed:
  assumes "canonicalizeWrites (JArr xs) = Inr ws"
  shows "canonicalizeWrites (JArr (map JStr ws)) = Inr ws \<and> distinct ws
    \<and> (matchesWriteScope (JStr path) (map JStr ws) = Inr True \<longleftrightarrow> matchesWriteScope (JStr path) xs = Inr True)"
  using canonicalizeWrites_fixed[OF assms] canonicalizeWrites_set(2)[OF assms] matches_mono[OF _ assms, of path "map JStr ws" ws]
    matches_mono[of path "map JStr ws" ws xs ws] assms by blast

theorem canonical_scope_is_fixed_witness:
  "matchesWriteScope (JStr ''src/a/b'') (map JStr [''src/a'', ''docs/**'']) = Inr True
     \<and> canonicalizeWrites (JArr (map JStr [''src/a'', ''docs/**''])) = Inr [''src/a'', ''docs/**'']"
proof -
  have "canonicalizeWrites (JArr [JStr '' src//a/'', JStr ''docs/**/**'', JStr ''src/a'']) = Inr [''src/a'', ''docs/**'']" by code_simp
  moreover have "matchesWriteScope (JStr ''src/a/b'') [JStr '' src//a/'', JStr ''docs/**/**'', JStr ''src/a''] = Inr True" by code_simp
  ultimately show ?thesis using canonical_scope_is_fixed by blast
qed

text \<open>
  C23: The memoised search over a pattern and a path decides the meaning of the pattern: a ** stands for
  any run of segments, any other segment for one segment that fits it.
\<close>

theorem glob_search_decides: "globMatches pat path \<longleftrightarrow> glob_denotes pat path"
  by (simp add: globMatches_list glob_list_denotes)

section \<open>The control of a run\<close>

text \<open>A call of a process that nobody interferes with, step by step.\<close>

lemma lone_call:
  assumes "sy_procs s p = Run_Control.Idle \<or> (\<exists>a. sy_procs s p = Returned a)" "sound_judge dead s" "token \<notin> sy_tokens s"
    "decide dead (sy_marks s) c token (currentGeneration (sy_gens s)) = Publish g"
    "n = next_epoch (currentGeneration (sy_gens s))" "generationFileName n \<notin> set (map fst (sy_gens s))"
  shows "control_step\<^sup>*\<^sup>* s (s\<lparr>sy_tokens := insert token (sy_tokens s), sy_gens := sy_gens s @ [(generationFileName n, Some g)],
    sy_procs := (sy_procs s)(p := Returned (published_answer c n g))\<rparr>)"
proof -
  let ?cur = "currentGeneration (sy_gens s)"
  let ?s1 = "s\<lparr>sy_procs := (sy_procs s)(p := Listing c)\<rparr>"
  let ?s2 = "s\<lparr>sy_procs := (sy_procs s)(p := Deciding c ?cur)\<rparr>"
  let ?s3 = "s\<lparr>sy_tokens := insert token (sy_tokens s), sy_procs := (sy_procs s)(p := Installing c n g)\<rparr>"
  have "control_step s ?s1" using assms(1) by (rule begin_call)
  moreover have "control_step ?s1 ?s2" using list_generations[of ?s1 p c] by simp
  moreover have "control_step ?s2 ?s3"
    using decide_publish[of ?s2 p c ?cur dead token g] assms(2-5) by (simp add: sound_judge_def)
  moreover have "control_step ?s3 (s\<lparr>sy_tokens := insert token (sy_tokens s), sy_gens := sy_gens s @ [(generationFileName n, Some g)],
    sy_procs := (sy_procs s)(p := Returned (published_answer c n g))\<rparr>)"
    using publish_won[of ?s3 p c n g "sy_gens s @ [(generationFileName n, Some g)]"] assms(6)
    by (simp add: try_publish_def installOnce_def)
  ultimately show ?thesis by (meson converse_rtranclp_into_rtranclp rtranclp.rtrancl_refl)
qed

definition sample_acquire :: acquire_args where
  "sample_acquire = \<lparr>aa_holder = [(''pid'', JNum 1)], aa_purpose = ''run'', aa_expected = None, aa_ttl = None, aa_now = 5\<rparr>"

definition sample_generation :: generation where
  "sample_generation = \<lparr>gn_token = ''t'', gn_holder = Some (aa_holder sample_acquire), gn_purpose = ''run'', gn_acquiredAt = 5, gn_settledEpoch = None\<rparr>"

definition sample_held :: system where
  "sample_held = start_system\<lparr>sy_gens := [(generationFileName 1, Some sample_generation)], sy_tokens := {''t''},
     sy_procs := (\<lambda>_. Run_Control.Idle)(0 := Returned (Acquired 1 ''t''))\<rparr>"

lemma sample_held_steps: "control_step\<^sup>*\<^sup>* start_system sample_held"
  using lone_call[of start_system 0 "\<lambda>_. False" "''t''" "AcquireCall sample_acquire" sample_generation 1]
  by (simp add: start_system_def sample_held_def sound_judge_def decide_def decide_acquire_def sample_acquire_def sample_generation_def
      published_answer_def next_epoch_def currentGeneration_def listGenerations_def map_filter_simps Let_def)

lemma sample_held_reachable: "control_reachable sample_held"
  using steps_reachable[OF sample_held_steps control_reachable.start] .

text \<open>
  C7: One controller: whatever the interleaving of acquires, settlements, releases, deaths and foreign files,
  at most one generation of a run is active (listed, unsettled, not released, its holder not known to have
  ended), and no two processes are answered the same epoch.
\<close>

theorem one_controller:
  assumes "control_reachable s"
  shows "(\<forall>e g e' g'. active s e g \<and> active s e' g' \<longrightarrow> e = e' \<and> g = g')
    \<and> (\<forall>p q e t t'. sy_procs s p = Returned (Acquired e t) \<and> sy_procs s q = Returned (Acquired e t') \<longrightarrow> p = q \<and> t = t')"
proof (intro conjI allI impI)
  fix e g e' g'
  assume a: "active s e g \<and> active s e' g'"
  show "e = e'" using active_unique[OF control_inv[OF assms]] a by blast
  with a show "g = g'" by (auto simp: active_def listed_def)
next
  fix p q e t t'
  assume r: "sy_procs s p = Returned (Acquired e t) \<and> sy_procs s q = Returned (Acquired e t')"
  show "p = q" using control_inv[OF assms] r unfolding control_inv_def by blast
  with r show "t = t'" by auto
qed

theorem one_controller_witness: "\<exists>!e. \<exists>g. active sample_held e g"
proof -
  have "generation_epoch (generationFileName 1) = Some 1" by (simp add: generation_name)
  then have "active sample_held 1 sample_generation"
    by (simp add: active_def listed_def sample_held_def start_system_def released_def parseJsonFile_def sample_generation_def)
  with one_controller[OF sample_held_reachable] show ?thesis by blast
qed

text \<open>
  C24: A run that is settled stays settled: once the current generation is a settlement, no sequence of
  steps of any processes makes another generation current, and an acquire that lists it is answered that
  the run is settled.
\<close>

theorem settled_run_is_final:
  assumes "control_reachable s" "currentGeneration (sy_gens s) = Some (e, g)" "gn_purpose g = ''settled''" "control_step\<^sup>*\<^sup>* s t"
  shows "currentGeneration (sy_gens t) = Some (e, g)
    \<and> (aa_expected a = None \<longrightarrow> acquireRunControl dead (sy_gens t) (sy_marks t) a token = Some (sy_gens t, RunSettled e))"
proof -
  have cur: "currentGeneration (sy_gens t) = Some (e, g)" using settled_stays[OF assms] .
  moreover have "aa_expected a = None \<Longrightarrow> publishNextGeneration (decide_acquire dead (sy_marks t) a token) (sy_gens t)
      = Some (sy_gens t, Inl (RunSettled e))"
    by (subst publishNextGeneration.simps) (simp add: cur decide_acquire_def assms(3) Let_def)
  ultimately show ?thesis by (simp add: acquireRunControl_def answer_of_def)
qed

definition sample_settlement :: generation where
  "sample_settlement = \<lparr>gn_token = ''t'', gn_holder = None, gn_purpose = ''settled'', gn_acquiredAt = 9, gn_settledEpoch = Some 1\<rparr>"

lemma sample_current: "currentGeneration [(generationFileName 1, Some sample_generation)] = Some (1, sample_generation)"
  using current_after_publish[of "[]" sample_generation]
  by (simp add: room_def next_epoch_def currentGeneration_def listGenerations_def map_filter_simps)

lemma sample_settled_current:
  "currentGeneration [(generationFileName 1, Some sample_generation), (generationFileName 2, Some sample_settlement)] = Some (2, sample_settlement)"
  using current_after_publish[of "[(generationFileName 1, Some sample_generation)]" sample_settlement] sample_current
  by (simp add: room_def next_epoch_def generationFileName_inj numeral_2_eq_2)

theorem settled_run_is_final_witness:
  "\<exists>s. control_reachable s \<and> acquireRunControl (\<lambda>_. True) (sy_gens s) (sy_marks s) sample_acquire ''v'' = Some (sy_gens s, RunSettled 2)"
proof -
  let ?s = "sample_held\<lparr>sy_tokens := insert ''u'' (sy_tokens sample_held),
    sy_gens := sy_gens sample_held @ [(generationFileName 2, Some sample_settlement)],
    sy_procs := (sy_procs sample_held)(0 := Returned (published_answer (SettleCall 1 ''t'' 9) 2 sample_settlement))\<rparr>"
  have gens: "sy_gens sample_held = [(generationFileName 1, Some sample_generation)]" by (simp add: sample_held_def)
  have parts: "gn_token sample_generation = ''t''" "gn_purpose sample_generation \<noteq> ''settled''" by (simp_all add: sample_generation_def)
  have steps: "control_step\<^sup>*\<^sup>* sample_held ?s"
  proof (rule lone_call[where dead = "\<lambda>_. False"])
    show "decide (\<lambda>_. False) (sy_marks sample_held) (SettleCall 1 ''t'' 9) ''u'' (currentGeneration (sy_gens sample_held)) = Publish sample_settlement"
      unfolding gens sample_current using parts by (simp add: decide_def decide_settle_def sample_settlement_def)
    show "2 = next_epoch (currentGeneration (sy_gens sample_held))" unfolding gens sample_current by (simp add: next_epoch_def)
    show "generationFileName 2 \<notin> set (map fst (sy_gens sample_held))" unfolding gens by (simp add: generationFileName_inj)
  qed (simp_all add: sample_held_def start_system_def sound_judge_def)
  have reach: "control_reachable ?s" using steps_reachable[OF steps sample_held_reachable] .
  have cur: "currentGeneration (sy_gens ?s) = Some (2, sample_settlement)"
    using sample_settled_current by (simp add: sample_held_def)
  have pur: "gn_purpose sample_settlement = ''settled''" by (simp add: sample_settlement_def)
  from settled_run_is_final[OF reach cur pur rtranclp.rtrancl_refl, of sample_acquire "\<lambda>_. True" "''v''"] reach
  show ?thesis by (auto simp: sample_acquire_def)
qed



section \<open>The budgets of the drain\<close>

text \<open>
  The visits that count against an item are the execute attempts after the last word of a person on
  it: the count taken over indexes of the whole log is the number of attempts in the part of the log after
  the last human event, and an answer, a reasoned reject or a reasoned park starts it at zero again.
\<close>

theorem visits_start_over:
  assumes "i \<noteq> []"
  shows "visitsSinceLastHumanEvent (JArr es) (JStr i) = length (filter (is_attempt i) (takeWhile (\<lambda>e. \<not> is_human_event i e) (rev es)))
    \<and> (is_human_event i e \<longrightarrow> visitsSinceLastHumanEvent (JArr (es @ [e])) (JStr i) = 0)"
  using assms visits_suffix[of es i] visits_suffix[of "es @ [e]" i] by (simp add: visitsSinceLastHumanEvent_def)

theorem visits_start_over_witness:
  "visitsSinceLastHumanEvent (JArr [JObj [(''type'', JStr ''work.attempt''), (''payload'', JObj [(''id'', JStr ''i''), (''phase'', JStr ''execute'')])]]) (JStr ''i'') = 1"
proof -
  have i: "''i'' \<noteq> []" by simp
  show ?thesis unfolding conjunct1[OF visits_start_over[OF i]] by code_simp
qed



section \<open>Branches and polls\<close>

text \<open>
  The clean-up of branches ends on every work map without a cycle of parents, and it deletes a branch with
  no commits only when it is not checked out and no item below its own, at any depth, is still open.
\<close>

theorem pruned_branch_is_unneeded:
  assumes "wf ((kids work)\<inverse>)" "distinct (okeys work)"
  shows "branch_fate work idx b \<noteq> None
    \<and> (branch_fate work idx b = Some Pruned_empty \<longrightarrow> lo_ahead b = 0 \<and> \<not> lo_checkedOut b
        \<and> (\<forall>d w. (lo_id b, d) \<in> (kids work)\<^sup>+ \<and> (d, w) \<in> set work \<longrightarrow> closed_item w))"
proof
  show "branch_fate work idx b \<noteq> None"
    by (simp add: branch_fate_def hasStillNeededDescendant_exact[OF assms])
  show "branch_fate work idx b = Some Pruned_empty \<longrightarrow> lo_ahead b = 0 \<and> \<not> lo_checkedOut b
        \<and> (\<forall>d w. (lo_id b, d) \<in> (kids work)\<^sup>+ \<and> (d, w) \<in> set work \<longrightarrow> closed_item w)"
    using branch_fate_pruned[of work idx b] hasStillNeededDescendant_exact[OF assms, of "lo_id b"]
    by (auto simp: open_kid_def)
qed

theorem pruned_branch_is_unneeded_witness:
  "branch_fate [(''a'', [(''status'', JStr ''done'')]), (''b'', [(''parent'', JStr ''a''), (''status'', JStr ''done'')])] []
     \<lparr>lo_id = ''a'', lo_ahead = 0, lo_checkedOut = False\<rparr> \<noteq> None"
proof -
  let ?w = "[(''a'', [(''status'', JStr ''done'')]), (''b'', [(''parent'', JStr ''a''), (''status'', JStr ''done'')])]"
  have "kids ?w = {(''a'', ''b'')}" by (auto simp: kids_def is_child_def)
  moreover have "acyclic {(''a'', ''b'')}" by (simp add: acyclic_insert) (simp add: acyclic_def)
  ultimately have "wf ((kids ?w)\<inverse>)" by (intro finite_acyclic_wf_converse) simp_all
  moreover have "distinct (okeys ?w)" by (simp add: okeys_def)
  ultimately show ?thesis using pruned_branch_is_unneeded by blast
qed

text \<open>
  One poll dispatches only items this agent may work on, none of which has used up its visits, never more
  than the parallel limits over all roots and within one, and never more than the free worker slots.
\<close>

theorem poll_stays_within:
  assumes "poll_once work frontierItems events maxVisits owners me parallel ceiling = Dispatch admitted trimmed"
  shows "set admitted \<subseteq> set (steerFrontier frontierItems work owners me) \<and> (\<forall>w \<in> set admitted. \<not> over_limit events maxVisits w)
    \<and> length admitted \<le> fst parallel * snd parallel
    \<and> length (filter (\<lambda>w. resolveRoot work (id_of w) = r) admitted) \<le> snd parallel
    \<and> (\<exists>requested. int (length admitted) \<le> max 0 (sa_granted (hasWorkerSlotRoom work ceiling (Some (JNum requested)) None)))"
proof -
  obtain n where "admitted = take n (selectWave work (fst parallel) (snd parallel) (steerFrontier frontierItems work owners me))"
    using assms by (auto simp: poll_once_def Let_def split: if_splits)
  then have "length (filter (\<lambda>w. resolveRoot work (id_of w) = r) admitted) \<le>
      length (filter (\<lambda>w. resolveRoot work (id_of w) = r) (selectWave work (fst parallel) (snd parallel) (steerFrontier frontierItems work owners me)))"
    by (metis append_take_drop_id filter_append le_add1 length_append)
  then have "length (filter (\<lambda>w. resolveRoot work (id_of w) = r) admitted) \<le> snd parallel"
    using selectWave_per_root order_trans by blast
  with poll_dispatch[OF assms] show ?thesis by blast
qed

theorem poll_stays_within_witness:
  "length (filter (\<lambda>w. resolveRoot [(''a'', [(''id'', JStr ''a'')])] (id_of w) = ''a'') [[(''id'', JStr ''a'')]]) \<le> 2"
proof -
  have "poll_once [(''a'', [(''id'', JStr ''a'')])] [[(''id'', JStr ''a'')]] [] 3 [] ''me'' (1, 2) None = Dispatch [[(''id'', JStr ''a'')]] False"
    by code_simp
  from poll_stays_within[OF this, of "''a''"] show ?thesis by simp
qed

end
