(* ===== verification/Graph_Rankings.thy ===== *)
theory Graph_Rankings
  imports Graph_Metrics
begin

text \<open>
  The rankings of \<open>src/state/graph-metrics.mjs\<close>: the critical path (the longest chain of waits, by a
  memoised recursion), the scope of a goal, the greedy ranking of what unblocks most, and the frame that
  says which of them were computed. A \<open>Set\<close> is a list without repetition in insertion order; the memo of
  the recursion holds what \<open>depthMemo\<close> and \<open>deepestDep\<close> hold, which are always set together.
\<close>

section \<open>The longest chain\<close>

type_synonym depth_memo = "(string \<times> nat \<times> string option) list"

text \<open>\<open>depthOf\<close> and its loop over the deps; the first argument bounds the depth of the recursion.\<close>

fun depthOf :: "nat \<Rightarrow> adjacency \<Rightarrow> string list \<Rightarrow> string \<Rightarrow> depth_memo \<Rightarrow> (nat \<times> depth_memo) option"
and deepest_dep :: "nat \<Rightarrow> adjacency \<Rightarrow> string list \<Rightarrow> string list \<Rightarrow> nat \<Rightarrow> string option \<Rightarrow> depth_memo
  \<Rightarrow> (nat \<times> string option \<times> depth_memo) option"
where
  "depthOf 0 deps guard i m = (case oget m i of Some (d, _) \<Rightarrow> Some (d, m)
     | None \<Rightarrow> if i \<in> set guard then Some (0, m) else None)"
| "depthOf (Suc n) deps guard i m = (case oget m i of Some (d, _) \<Rightarrow> Some (d, m)
     | None \<Rightarrow> if i \<in> set guard then Some (0, m)
         else (case deepest_dep n deps (i # guard) (adj_of deps i) 0 None m of
             None \<Rightarrow> None
           | Some (best, chosen, m') \<Rightarrow> Some (best + 1, oset i (best + 1, chosen) m')))"
| "deepest_dep n deps guard [] best chosen m = Some (best, chosen, m)"
| "deepest_dep n deps guard (dep # ds) best chosen m = (case depthOf n deps guard dep m of
       None \<Rightarrow> None
     | Some (d, m') \<Rightarrow> if d > best then deepest_dep n deps guard ds d (Some dep) m'
                       else deepest_dep n deps guard ds best chosen m')"

fun deepest_id :: "nat \<Rightarrow> adjacency \<Rightarrow> string list \<Rightarrow> string option \<Rightarrow> nat \<Rightarrow> depth_memo
  \<Rightarrow> (string option \<times> nat \<times> depth_memo) option" where
  "deepest_id n deps [] start topDepth m = Some (start, topDepth, m)"
| "deepest_id n deps (i # rest) start topDepth m = (case depthOf n deps [] i m of
       None \<Rightarrow> None
     | Some (d, m') \<Rightarrow> if d > topDepth then deepest_id n deps rest (Some i) d m'
                       else deepest_id n deps rest start topDepth m')"

text \<open>The path from the deepest item down; the bound is the depth it was given.\<close>

fun trace_path :: "nat \<Rightarrow> depth_memo \<Rightarrow> string option \<Rightarrow> string list option" where
  "trace_path n m None = Some []"
| "trace_path 0 m (Some cursor) = None"
| "trace_path (Suc n) m (Some cursor) = map_option ((#) cursor) (trace_path n m (Option.bind (oget m cursor) snd))"

definition longestChain :: "adjacency \<Rightarrow> string list \<Rightarrow> (nat \<times> string list) option" where
  "longestChain deps candidateIds = (case deepest_id (Suc (length deps)) deps candidateIds None 0 [] of
       None \<Rightarrow> None
     | Some (start, topDepth, m) \<Rightarrow> map_option (Pair topDepth) (trace_path topDepth m start))"

definition criticalPath :: "works \<Rightarrow> (nat \<times> string list) option" where
  "criticalPath work = longestChain (knownUnifiedDeps work) (okeys work)"

section \<open>The scope of a goal\<close>

fun add_targets :: "string list \<Rightarrow> string list \<Rightarrow> string list \<Rightarrow> string list \<Rightarrow> string list \<times> string list" where
  "add_targets known result stack [] = (result, stack)"
| "add_targets known result stack (t # ts) =
     (if t \<notin> set known \<or> t \<in> set result then add_targets known result stack ts
      else add_targets known (result @ [t]) (stack @ [t]) ts)"

definition targets_of :: "works \<Rightarrow> string \<Rightarrow> string list" where
  "targets_of work i = (case oget work i of Some w \<Rightarrow> str_entries (oget w ''targets'') | None \<Rightarrow> [])"

fun targets_loop :: "nat \<Rightarrow> works \<Rightarrow> string list \<Rightarrow> string list \<Rightarrow> string list option" where
  "targets_loop n work result [] = Some result"
| "targets_loop 0 work result (s # stack) = None"
| "targets_loop (Suc n) work result (s # stack) =
     (let i = last (s # stack);
          (result', stack') = add_targets (okeys work) result (butlast (s # stack)) (targets_of work i)
      in targets_loop n work result' stack')"

definition targetsClosure :: "works \<Rightarrow> string \<Rightarrow> string list option" where
  "targetsClosure work startId =
     (if startId \<notin> set (okeys work) then Some [] else targets_loop (Suc (length work)) work [startId] [startId])"

fun ancestors_loop :: "nat \<Rightarrow> adjacency \<Rightarrow> string list \<Rightarrow> string list \<Rightarrow> string list \<Rightarrow> string list option" where
  "ancestors_loop n deps startIds result [] = Some result"
| "ancestors_loop 0 deps startIds result (s # stack) = None"
| "ancestors_loop (Suc n) deps startIds result (s # stack) =
     (let dep = last (s # stack); rest = butlast (s # stack)
      in if dep \<in> set startIds \<or> dep \<in> set result then ancestors_loop n deps startIds result rest
         else ancestors_loop n deps startIds (result @ [dep]) (rest @ adj_of deps dep))"

definition depsAncestors :: "string list \<Rightarrow> adjacency \<Rightarrow> string list option" where
  "depsAncestors startIds deps =
     (let stack = concat (map (adj_of deps) startIds)
      in ancestors_loop (length stack + edge_count deps) deps startIds [] stack)"

definition goalScopedSet :: "works \<Rightarrow> string \<Rightarrow> string list option" where
  "goalScopedSet work focusId = (case targetsClosure work focusId of
       None \<Rightarrow> None
     | Some scope \<Rightarrow> if scope = [] then Some []
         else map_option (\<lambda>more. scope @ more) (depsAncestors scope (knownUnifiedDeps work)))"

definition goalScopedCriticalPath :: "works \<Rightarrow> string \<Rightarrow> (nat \<times> string list) option" where
  "goalScopedCriticalPath work focusId = (case goalScopedSet work focusId of
       None \<Rightarrow> None
     | Some scope \<Rightarrow> if scope = [] then Some (0, [])
         else longestChain (knownUnifiedDeps work) (filter (\<lambda>i. i \<in> set scope) (okeys work)))"

section \<open>What unblocks most\<close>

record unblock_pick =
  pk_id :: string
  pk_unblocks :: nat
  pk_newlyUnblocks :: nat

text \<open>What completing an item covers that is not covered yet: the item itself, and its downstream.\<close>

definition unblock_gain :: "(string \<Rightarrow> string list) \<Rightarrow> string list \<Rightarrow> string \<Rightarrow> nat" where
  "unblock_gain downstream covered i = 1 + length (filter (\<lambda>d. d \<notin> set covered) (downstream i))"

fun best_pick :: "(string \<Rightarrow> string list) \<Rightarrow> string list \<Rightarrow> string list \<Rightarrow> string option \<Rightarrow> nat \<Rightarrow> string option \<times> nat" where
  "best_pick downstream covered [] best bestGain = (best, bestGain)"
| "best_pick downstream covered (i # rest) best bestGain =
     (if i \<notin> set covered \<and> unblock_gain downstream covered i > bestGain
      then best_pick downstream covered rest (Some i) (unblock_gain downstream covered i)
      else best_pick downstream covered rest best bestGain)"

fun greedy_rounds :: "(string \<Rightarrow> string list) \<Rightarrow> string list \<Rightarrow> string list \<Rightarrow> nat \<Rightarrow> unblock_pick list" where
  "greedy_rounds downstream candidates covered 0 = []"
| "greedy_rounds downstream candidates covered (Suc k) = (case best_pick downstream covered candidates None 0 of
       (None, _) \<Rightarrow> []
     | (Some best, bestGain) \<Rightarrow>
         \<lparr>pk_id = best, pk_unblocks = length (downstream best), pk_newlyUnblocks = bestGain\<rparr>
         # greedy_rounds downstream candidates (covered @ best # downstream best) k)"

definition computeGreedyTopUnblock :: "string list \<Rightarrow> string list \<Rightarrow> adjacency \<Rightarrow> nat \<Rightarrow> unblock_pick list" where
  "computeGreedyTopUnblock candidates notDone deps k =
     (let rdeps = reverseDeps deps
      in greedy_rounds (\<lambda>i. transitiveDownstream i rdeps notDone) candidates [] k)"

definition greedyTopUnblock :: "works \<Rightarrow> nat \<Rightarrow> unblock_pick list" where
  "greedyTopUnblock work k = computeGreedyTopUnblock (open_ids work) (open_ids work) (knownUnifiedDeps work) k"

definition goalScopedGreedyTopUnblock :: "works \<Rightarrow> string \<Rightarrow> nat \<Rightarrow> unblock_pick list option" where
  "goalScopedGreedyTopUnblock work focusId k = map_option (\<lambda>scope.
     if scope = [] then []
     else (let notDone = filter (\<lambda>i. i \<in> set scope) (open_ids work)
           in computeGreedyTopUnblock notDone notDone (knownUnifiedDeps work) k)) (goalScopedSet work focusId)"

section \<open>The frame of the metrics\<close>

definition DEFAULT_MAX_NODES_FOR_GREEDY :: nat where
  "DEFAULT_MAX_NODES_FOR_GREEDY = 500"

record metrics_frame =
  mf_revision :: string
  mf_nodeCount :: nat
  mf_computed :: "string list"
  mf_skipped :: "string list"

text \<open>\<open>viewRevision\<close>, a digest of the view, is the argument \<open>revision\<close>.\<close>

definition metricsFrame :: "string \<Rightarrow> works \<Rightarrow> nat \<Rightarrow> metrics_frame" where
  "metricsFrame revision work maxNodesForGreedy =
     (let nodeCount = length (okeys work); greedyComputed = nodeCount \<le> maxNodesForGreedy
      in \<lparr>mf_revision = revision, mf_nodeCount = nodeCount,
          mf_computed = [''componentCount'', ''components'', ''criticalPath'', ''staleBlocked'']
            @ (if greedyComputed then [''topUnblock''] else []),
          mf_skipped = (if greedyComputed then [] else [''topUnblock''])\<rparr>)"

record graph_metrics =
  gx_frame :: metrics_frame
  gx_componentCount :: nat
  gx_components :: "string list list"
  gx_criticalPath :: "(nat \<times> string list) option"
  gx_staleBlocked :: "(string \<times> string list) list"
  gx_topUnblock :: "unblock_pick list"

definition graphMetrics :: "string \<Rightarrow> works \<Rightarrow> nat \<Rightarrow> graph_metrics" where
  "graphMetrics revision work maxNodesForGreedy =
     (let components = connectedComponents work; frame = metricsFrame revision work maxNodesForGreedy
      in \<lparr>gx_frame = frame, gx_componentCount = length components, gx_components = components,
          gx_criticalPath = criticalPath work, gx_staleBlocked = staleBlocked work,
          gx_topUnblock = (if ''topUnblock'' \<in> set (mf_skipped frame) then [] else greedyTopUnblock work 10)\<rparr>)"

section \<open>The chain: facts\<close>

text \<open>The memo as the recursion leaves it: a depth is one more than that of the dep it names, or one.\<close>

definition dep_recorded :: "string set \<Rightarrow> depth_memo \<Rightarrow> nat \<Rightarrow> string option \<Rightarrow> bool" where
  "dep_recorded D m d chosen = (case chosen of None \<Rightarrow> d = 0
     | Some x \<Rightarrow> x \<in> D \<and> 0 < d \<and> (\<exists>c. oget m x = Some (d, c)))"

definition memo_ok :: "adjacency \<Rightarrow> depth_memo \<Rightarrow> bool" where
  "memo_ok deps m = (\<forall>i d c. oget m i = Some (d, c) \<longrightarrow> 0 < d \<and> dep_recorded (set (adj_of deps i)) m (d - 1) c)"

definition memo_le :: "depth_memo \<Rightarrow> depth_memo \<Rightarrow> bool" where
  "memo_le m m' = (\<forall>i v. oget m i = Some v \<longrightarrow> oget m' i = Some v)"

lemma memo_le_refl [simp]: "memo_le m m"
  by (simp add: memo_le_def)

lemma memo_le_trans: "memo_le a b \<Longrightarrow> memo_le b c \<Longrightarrow> memo_le a c"
  by (simp add: memo_le_def)

lemma dep_recorded_mono: "dep_recorded D m d c \<Longrightarrow> memo_le m m' \<Longrightarrow> dep_recorded D m' d c"
  by (auto simp: dep_recorded_def memo_le_def split: option.splits)

lemma memo_ok_add:
  assumes "memo_ok deps m" "oget m i = None" "dep_recorded (set (adj_of deps i)) m best c"
  shows "memo_ok deps (oset i (Suc best, c) m)" "memo_le m (oset i (Suc best, c) m)"
proof -
  show le: "memo_le m (oset i (Suc best, c) m)" using assms(2) by (simp add: memo_le_def)
  show "memo_ok deps (oset i (Suc best, c) m)"
    unfolding memo_ok_def using assms dep_recorded_mono[OF _ le] by (auto simp: memo_ok_def)
qed

text \<open>One call extends the memo, leaves the items being computed out of it, and records what it returns.\<close>

definition depth_step :: "adjacency \<Rightarrow> string list \<Rightarrow> depth_memo \<Rightarrow> depth_memo \<Rightarrow> bool" where
  "depth_step deps guard m m' = (memo_ok deps m' \<and> memo_le m m' \<and> (\<forall>x \<in> set guard. oget m x = None \<longrightarrow> oget m' x = None))"

lemma depth_step_trans: "depth_step deps g a b \<Longrightarrow> depth_step deps g b c \<Longrightarrow> depth_step deps g a c"
  unfolding depth_step_def using memo_le_trans by blast

lemma depthOf_known: "oget m i = Some (d, c) \<Longrightarrow> depthOf n deps guard i m = Some (d, m)"
  by (cases n) simp_all

lemma depthOf_guarded: "oget m i = None \<Longrightarrow> i \<in> set guard \<Longrightarrow> depthOf n deps guard i m = Some (0, m)"
  by (cases n) simp_all

lemma depthOf_new:
  assumes "oget m i = None" "i \<notin> set guard"
  shows "depthOf 0 deps guard i m = None"
    "depthOf (Suc n) deps guard i m = Some (d, m') \<longleftrightarrow> (\<exists>best chosen m1.
       deepest_dep n deps (i # guard) (adj_of deps i) 0 None m = Some (best, chosen, m1)
       \<and> d = Suc best \<and> m' = oset i (Suc best, chosen) m1)"
  using assms by (auto split: option.splits)

lemma depthOf_old:
  assumes "depthOf n deps guard i m = Some (d, m')" "\<not> (oget m i = None \<and> i \<notin> set guard)"
  shows "m' = m" "d = 0 \<and> i \<in> set guard \<or> (\<exists>c. oget m i = Some (d, c))"
  using assms depthOf_known[of m i _ _ n deps guard] depthOf_guarded[of m i guard n deps]
  by (cases "oget m i"; force)+

declare depthOf.simps [simp del]

lemma depthOf_step:
  "depthOf n deps guard i m = Some (d, m') \<Longrightarrow> memo_ok deps m \<Longrightarrow>
     depth_step deps guard m m' \<and> (d = 0 \<or> (\<exists>c. oget m' i = Some (d, c)))"
  "deepest_dep n deps guard ds best chosen m = Some (best', chosen', m') \<Longrightarrow> memo_ok deps m \<Longrightarrow>
     depth_step deps guard m m' \<and> (\<forall>D. dep_recorded D m best chosen \<longrightarrow> set ds \<subseteq> D \<longrightarrow> dep_recorded D m' best' chosen')"
proof (induction n deps guard i m and n deps guard ds best chosen m arbitrary: d m' and best' chosen' m' rule: depthOf_deepest_dep.induct)
  case (1 deps guard i m)
  have "\<not> (oget m i = None \<and> i \<notin> set guard)" using 1(1) depthOf_new(1)[of m i guard deps] by fastforce
  from depthOf_old[OF 1(1) this] 1(2) show ?case by (auto simp: depth_step_def)
next
  case (2 n deps guard i m)
  show ?case
  proof (cases "oget m i = None \<and> i \<notin> set guard")
    case False
    from depthOf_old[OF 2(2) False] 2(3) show ?thesis by (auto simp: depth_step_def)
  next
    case True
    then obtain best chosen m1 where b: "deepest_dep n deps (i # guard) (adj_of deps i) 0 None m = Some (best, chosen, m1)"
      and r: "d = Suc best" "m' = oset i (Suc best, chosen) m1"
      using 2(2) depthOf_new(2)[of m i guard n deps d m'] by blast
    have s: "depth_step deps (i # guard) m m1 \<and> dep_recorded (set (adj_of deps i)) m1 best chosen"
      using 2(1)[OF _ _ b 2(3)] True by (simp add: dep_recorded_def)
    then have "oget m1 i = None" using True by (simp add: depth_step_def)
    from memo_ok_add[OF _ this, of deps best chosen] s have "memo_ok deps m'" "memo_le m1 m'"
      by (auto simp: r depth_step_def)
    with s True have "depth_step deps guard m m'" by (auto simp: depth_step_def r intro: memo_le_trans)
    then show ?thesis by (simp add: r)
  qed
next
  case (3 n deps guard best chosen m)
  then show ?case by (simp add: depth_step_def)
next
  case (4 n deps guard dep ds best chosen m)
  obtain d m1 where d: "depthOf n deps guard dep m = Some (d, m1)" using 4(4) by (auto split: option.splits)
  have s: "depth_step deps guard m m1" "d = 0 \<or> (\<exists>c. oget m1 dep = Some (d, c))" using 4(1)[OF d 4(5)] by auto
  then have ok: "memo_ok deps m1" "memo_le m m1" by (simp_all add: depth_step_def)
  let ?b = "if d > best then d else best" and ?c = "if d > best then Some dep else chosen"
  have run: "deepest_dep n deps guard ds ?b ?c m1 = Some (best', chosen', m')" using 4(4) d by (simp split: if_splits)
  have rest: "depth_step deps guard m1 m' \<and> (\<forall>D. dep_recorded D m1 ?b ?c \<longrightarrow> set ds \<subseteq> D \<longrightarrow> dep_recorded D m' best' chosen')"
  proof (cases "d > best")
    case True
    with 4(2)[OF d HOL.refl True _ ok(1)] run show ?thesis by simp
  next
    case False
    with 4(3)[OF d HOL.refl False _ ok(1)] run show ?thesis by simp
  qed
  have "dep_recorded D m1 ?b ?c" if "dep_recorded D m best chosen" "dep \<in> D" for D
    using that s(2) dep_recorded_mono[OF _ ok(2)] by (auto simp: dep_recorded_def)
  with rest s(1) depth_step_trans show ?case by (metis insert_subset list.simps(15))
qed

lemmas depthOf_inv = depthOf_step(1) and deepest_dep_inv = depthOf_step(2)

text \<open>The recursion is never deeper than the items that are not being computed.\<close>

lemma no_deps_outside: "i \<notin> set (okeys deps) \<Longrightarrow> adj_of deps i = []"
  by (simp add: adj_of_def oget_None_iff[symmetric])

lemma depthOf_fuel:
  "card (set (okeys deps) - set guard) < n \<Longrightarrow> depthOf n deps guard i m \<noteq> None"
  "card (set (okeys deps) - set guard) < n \<or> ds = [] \<Longrightarrow> deepest_dep n deps guard ds best chosen m \<noteq> None"
proof (induction n deps guard i m and n deps guard ds best chosen m rule: depthOf_deepest_dep.induct)
  case (2 n deps guard i m)
  show ?case
  proof (cases "oget m i = None \<and> i \<notin> set guard")
    case False
    then show ?thesis using depthOf_known[of m i _ _ "Suc n" deps guard] depthOf_guarded[of m i guard "Suc n" deps]
      by (cases "oget m i") auto
  next
    case True
    have "card (set (okeys deps) - set (i # guard)) < n \<or> adj_of deps i = []"
    proof (cases "i \<in> set (okeys deps)")
      case True
      with \<open>_ \<and> i \<notin> set guard\<close> have "set (okeys deps) - set (i # guard) \<subset> set (okeys deps) - set guard" by auto
      then have "card (set (okeys deps) - set (i # guard)) < card (set (okeys deps) - set guard)"
        by (simp add: psubset_card_mono)
      with 2(2) show ?thesis by simp
    qed (simp add: no_deps_outside)
    from 2(1)[OF _ _ this] True
    obtain r where "deepest_dep n deps (i # guard) (adj_of deps i) 0 None m = Some r" by auto
    then show ?thesis using depthOf_new(2)[of m i guard n deps] True by (metis option.distinct(1) prod_cases3)
  qed
next
  case (4 n deps guard dep ds best chosen m)
  then show ?case by (auto split: option.splits)
qed simp_all

text \<open>On a graph without a cycle, a depth in the memo bounds every chain that starts at its item.\<close>

definition depth_bounds :: "adjacency \<Rightarrow> depth_memo \<Rightarrow> bool" where
  "depth_bounds deps m = (\<forall>i d c p. oget m i = Some (d, c) \<longrightarrow> p \<noteq> [] \<longrightarrow> hd p = i \<longrightarrow> is_path (edges deps) p \<longrightarrow> length p \<le> d)"

definition above :: "adjacency \<Rightarrow> string list \<Rightarrow> string \<Rightarrow> bool" where
  "above deps guard x = (\<forall>g \<in> set guard. (g, x) \<in> (edges deps)\<^sup>+)"

lemma depth_bounds_add:
  assumes "depth_bounds deps m" "\<forall>x \<in> set (adj_of deps i). \<exists>d c. oget m x = Some (d, c) \<and> d \<le> best"
  shows "depth_bounds deps (oset i (Suc best, c) m)"
  unfolding depth_bounds_def
proof (intro allI impI)
  fix j d c' p
  assume j: "oget (oset i (Suc best, c) m) j = Some (d, c')" and p: "p \<noteq> []" "hd p = j" "is_path (edges deps) p"
  show "length p \<le> d"
  proof (cases "j = i")
    case False
    with j p assms(1) show ?thesis by (auto simp: depth_bounds_def)
  next
    case True
    show ?thesis
    proof (cases "tl p")
      case Nil
      with p(1) j True show ?thesis by (cases p) auto
    next
      case (Cons x q)
      then have pp: "p = i # x # q" using p(1,2) True by (cases p) auto
      then have "x \<in> set (adj_of deps i)" "is_path (edges deps) (x # q)"
        using p(3) by (auto simp: is_path_Cons edges_def)
      then obtain e c'' where e: "oget m x = Some (e, c'')" "e \<le> best" "is_path (edges deps) (x # q)" using assms(2) by blast
      then have "length (x # q) \<le> e" using assms(1) unfolding depth_bounds_def
        by (elim allE [of _ x] allE [of _ e] allE [of _ c''] allE [of _ "x # q"]) simp
      with e(2) have "length (x # q) \<le> best" by (rule le_trans[rotated])
      with j True pp show ?thesis by simp
    qed
  qed
qed

lemma depthOf_exact:
  "depthOf n deps guard i m = Some (d, m') \<Longrightarrow> acyclic (edges deps) \<Longrightarrow> memo_ok deps m \<Longrightarrow> depth_bounds deps m \<Longrightarrow>
     above deps guard i \<Longrightarrow> depth_bounds deps m' \<and> (\<exists>c. oget m' i = Some (d, c))"
  "deepest_dep n deps guard ds best chosen m = Some (best', chosen', m') \<Longrightarrow> acyclic (edges deps) \<Longrightarrow> memo_ok deps m \<Longrightarrow>
     depth_bounds deps m \<Longrightarrow> \<forall>x \<in> set ds. above deps guard x \<Longrightarrow>
     depth_bounds deps m' \<and> best \<le> best' \<and> (\<forall>x \<in> set ds. \<exists>d c. oget m' x = Some (d, c) \<and> d \<le> best')"
proof (induction n deps guard i m and n deps guard ds best chosen m arbitrary: d m' and best' chosen' m' rule: depthOf_deepest_dep.induct)
  case (1 deps guard i m)
  have "i \<notin> set guard" using 1(2,5) by (auto simp: above_def acyclic_def)
  moreover from this have "oget m i \<noteq> None" using 1(1) depthOf_new(1)[of m i guard deps] by fastforce
  ultimately show ?case using 1(4) depthOf_old[OF 1(1)] by auto
next
  case (2 n deps guard i m)
  have ng: "i \<notin> set guard" using 2(3,6) by (auto simp: above_def acyclic_def)
  show ?case
  proof (cases "oget m i")
    case (Some v)
    with depthOf_old[OF 2(2)] ng 2(5) show ?thesis by auto
  next
    case None
    then obtain best chosen m1 where b: "deepest_dep n deps (i # guard) (adj_of deps i) 0 None m = Some (best, chosen, m1)"
      and r: "d = Suc best" "m' = oset i (Suc best, chosen) m1"
      using 2(2) depthOf_new(2)[OF None ng, of n deps d m'] by blast
    have "\<forall>x \<in> set (adj_of deps i). above deps (i # guard) x"
      using 2(6) by (auto simp: above_def edges_def intro: trancl_into_trancl)
    from 2(1)[OF None ng b 2(3-5) this] have "depth_bounds deps m'" unfolding r by (intro depth_bounds_add) auto
    then show ?thesis by (simp add: r)
  qed
next
  case (4 n deps guard dep ds best chosen m)
  obtain d m1 where d: "depthOf n deps guard dep m = Some (d, m1)" using 4(4) by (auto split: option.splits)
  obtain c where s: "depth_bounds deps m1" "oget m1 dep = Some (d, c)" using 4(1)[OF d 4(5-7)] 4(8) by auto
  have ok: "memo_ok deps m1" using depthOf_inv[OF d 4(6)] by (simp add: depth_step_def)
  let ?b = "if d > best then d else best" and ?c = "if d > best then Some dep else chosen"
  have run: "deepest_dep n deps guard ds ?b ?c m1 = Some (best', chosen', m')" using 4(4) d by (simp split: if_splits)
  have rest: "depth_bounds deps m' \<and> ?b \<le> best' \<and> (\<forall>x \<in> set ds. \<exists>d c. oget m' x = Some (d, c) \<and> d \<le> best')"
  proof (cases "d > best")
    case True
    with 4(2)[OF d HOL.refl True _ 4(5) ok s(1)] run 4(8) show ?thesis by simp
  next
    case False
    with 4(3)[OF d HOL.refl False _ 4(5) ok s(1)] run 4(8) show ?thesis by simp
  qed
  have "memo_le m1 m'" using deepest_dep_inv[OF run ok] by (simp add: depth_step_def)
  then have "oget m' dep = Some (d, c)" using s(2) by (simp add: memo_le_def)
  with rest show ?case by (auto split: if_splits intro: exI[of _ d])
qed simp

lemmas depthOf_bounds = depthOf_exact(1)

section \<open>The critical path: facts\<close>

lemma deepest_id_total:
  assumes "card (set (okeys deps)) < n"
  shows "deepest_id n deps ids start k m \<noteq> None"
proof (induction ids arbitrary: start k m)
  case (Cons i ids)
  have "depthOf n deps [] i m \<noteq> None" using depthOf_fuel(1)[of deps "[]" n i m] assms by simp
  then show ?case using Cons by (auto split: option.splits)
qed simp

lemma deepest_id_step:
  "deepest_id n deps ids start k m = Some (start', k', m') \<Longrightarrow> memo_ok deps m \<Longrightarrow> dep_recorded D m k start \<Longrightarrow> set ids \<subseteq> D \<Longrightarrow>
     memo_ok deps m' \<and> memo_le m m' \<and> dep_recorded D m' k' start' \<and> k \<le> k'"
proof (induction ids arbitrary: start k m)
  case (Cons i ids)
  obtain d m1 where d: "depthOf n deps [] i m = Some (d, m1)" using Cons.prems(1) by (auto split: option.splits)
  have s: "memo_ok deps m1" "memo_le m m1" "d = 0 \<or> (\<exists>c. oget m1 i = Some (d, c))"
    using depthOf_inv[OF d Cons.prems(2)] by (auto simp: depth_step_def)
  let ?k = "if d > k then d else k" and ?s = "if d > k then Some i else start"
  have run: "deepest_id n deps ids ?s ?k m1 = Some (start', k', m')" using Cons.prems(1) d by (simp split: if_splits)
  have "dep_recorded D m1 ?k ?s"
    using s(3) dep_recorded_mono[OF Cons.prems(3) s(2)] Cons.prems(4) by (auto simp: dep_recorded_def)
  from Cons.IH[OF run s(1) this] Cons.prems(4) s(2) show ?case by (auto split: if_splits intro: memo_le_trans)
qed simp

lemma deepest_id_bounds:
  "deepest_id n deps ids start k m = Some (start', k', m') \<Longrightarrow> memo_ok deps m \<Longrightarrow> acyclic (edges deps) \<Longrightarrow> depth_bounds deps m \<Longrightarrow>
     depth_bounds deps m' \<and> memo_le m m' \<and> k \<le> k' \<and> (\<forall>x \<in> set ids. \<exists>d c. oget m' x = Some (d, c) \<and> d \<le> k')"
proof (induction ids arbitrary: start k m)
  case (Cons i ids)
  obtain d m1 where d: "depthOf n deps [] i m = Some (d, m1)" using Cons.prems(1) by (auto split: option.splits)
  have s: "memo_ok deps m1" "memo_le m m1" using depthOf_inv[OF d Cons.prems(2)] by (auto simp: depth_step_def)
  obtain c where c: "depth_bounds deps m1" "oget m1 i = Some (d, c)"
    using depthOf_bounds[OF d Cons.prems(3,2,4)] by (auto simp: above_def)
  let ?k = "if d > k then d else k" and ?s = "if d > k then Some i else start"
  have run: "deepest_id n deps ids ?s ?k m1 = Some (start', k', m')" using Cons.prems(1) d by (simp split: if_splits)
  note ih = Cons.IH[OF run s(1) Cons.prems(3) c(1)]
  then have "oget m' i = Some (d, c)" using c(2) by (simp add: memo_le_def)
  with ih s(2) show ?case by (auto split: if_splits intro: memo_le_trans)
qed simp

text \<open>The trace follows recorded deps, one for each unit of the depth: it is a path of exactly that length.\<close>

lemma trace_path_spec:
  assumes "memo_ok deps m" "dep_recorded D m d start"
  shows "\<exists>p. trace_path d m start = Some p \<and> length p = d \<and> is_path (edges deps) p
    \<and> (case start of None \<Rightarrow> p = [] | Some x \<Rightarrow> p \<noteq> [] \<and> hd p = x)"
  using assms(2)
proof (induction d arbitrary: start D)
  case 0
  then show ?case by (auto simp: dep_recorded_def is_path_def split: option.splits)
next
  case (Suc d)
  then obtain x c where x: "start = Some x" "oget m x = Some (Suc d, c)" by (auto simp: dep_recorded_def split: option.splits)
  then have r: "dep_recorded (set (adj_of deps x)) m d c" using assms(1) by (fastforce simp: memo_ok_def)
  from Suc.IH[OF this] obtain p where p: "trace_path d m c = Some p" "length p = d" "is_path (edges deps) p"
    "case c of None \<Rightarrow> p = [] | Some x \<Rightarrow> p \<noteq> [] \<and> hd p = x" by blast
  have "is_path (edges deps) (x # p)"
  proof (cases p)
    case Nil
    then show ?thesis by (simp add: is_path_single)
  next
    case (Cons y q)
    with p(4) r have "y \<in> set (adj_of deps x)" by (auto simp: dep_recorded_def split: option.splits)
    with p(3) Cons show ?thesis by (simp add: is_path_Cons edges_def)
  qed
  with x p show ?case by simp
qed

text \<open>The search of a longest chain ends on every graph; what it returns is a path from a candidate.\<close>

lemma longestChain_path:
  "\<exists>d p. longestChain deps ids = Some (d, p) \<and> length p = d \<and> is_path (edges deps) p \<and> (p \<noteq> [] \<longrightarrow> hd p \<in> set ids)"
proof -
  have "card (set (okeys deps)) < Suc (length deps)" by (metis card_length le_imp_less_Suc length_map okeys_def)
  from deepest_id_total[OF this] obtain start d m where run: "deepest_id (Suc (length deps)) deps ids None 0 [] = Some (start, d, m)"
    by (metis not_None_eq prod_cases3)
  have s: "memo_ok deps m" "dep_recorded (set ids) m d start"
    using deepest_id_step[OF run, of "set ids"] by (auto simp: memo_ok_def dep_recorded_def)
  from trace_path_spec[OF this] s(2) run show ?thesis
    by (auto simp: longestChain_def dep_recorded_def split: option.splits)
qed

lemma longestChain_longest:
  assumes "acyclic (edges deps)" "longestChain deps ids = Some (d, p)" "q \<noteq> []" "hd q \<in> set ids" "is_path (edges deps) q"
  shows "length q \<le> d"
proof -
  obtain start m where run: "deepest_id (Suc (length deps)) deps ids None 0 [] = Some (start, d, m)"
    using assms(2) by (auto simp: longestChain_def split: option.splits)
  have b: "depth_bounds deps m" "\<forall>x \<in> set ids. \<exists>d' c. oget m x = Some (d', c) \<and> d' \<le> d"
    using deepest_id_bounds[OF run] assms(1) by (auto simp: memo_ok_def depth_bounds_def)
  obtain d' c where "oget m (hd q) = Some (d', c)" "d' \<le> d" using b(2) assms(4) by blast
  with b(1)[unfolded depth_bounds_def, rule_format, of "hd q" d' c q] assms(3,5) show ?thesis by simp
qed

lemma edges_knownUnifiedDeps: "edges (knownUnifiedDeps work) = known_edges work"
proof -
  have step: "(x, y) \<in> edges (fold (\<lambda>(a, b, _) adj. if ohas work a \<and> ohas work b then addEdge a b adj else adj) es adj)
     \<longleftrightarrow> ((\<exists>k. (x, y, k) \<in> set es) \<and> ohas work x \<and> ohas work y) \<or> (x, y) \<in> edges adj" for es adj x y
  proof (induction es arbitrary: adj)
    case (Cons e es)
    obtain a b k where e: "e = (a, b, k)" by (cases e)
    show ?case using Cons by (cases "ohas work a \<and> ohas work b") (auto simp: e addEdge_edges)
  qed simp
  have u: "(a, b) \<in> unified_edges work \<longleftrightarrow> (\<exists>k. (a, b, k) \<in> set (buildUnifiedEdges work))" for a b
    by (force simp: unified_edges_def)
  have "(x, y) \<in> edges (knownUnifiedDeps work) \<longleftrightarrow> (x, y) \<in> known_edges work" for x y
    unfolding knownUnifiedDeps_def step edges_empty_map known_edges_def using u by auto
  then show ?thesis by auto
qed

lemma okeys_knownUnifiedDeps: "okeys (knownUnifiedDeps work) = okeys work"
proof -
  have keep: "set (okeys work) \<subseteq> set (okeys adj) \<Longrightarrow>
     okeys (fold (\<lambda>(a, b, _) adj. if ohas work a \<and> ohas work b then addEdge a b adj else adj) es adj) = okeys adj" for es adj
  proof (induction es arbitrary: adj)
    case (Cons e es)
    obtain a b k where e: "e = (a, b, k)" by (cases e)
    show ?case
    proof (cases "ohas work a \<and> ohas work b")
      case True
      then have "okeys (addEdge a b adj) = okeys adj" using Cons.prems by (auto intro!: okeys_addEdge)
      with Cons True e show ?thesis by simp
    next
      case False
      with Cons e show ?thesis by auto
    qed
  qed simp
  let ?m = "map (\<lambda>i. (i, [])) (okeys work) :: adjacency"
  have "okeys ?m = okeys work" by (simp add: okeys_def comp_def)
  then show ?thesis unfolding knownUnifiedDeps_def using keep[of ?m] by simp
qed

lemma edges_reverseDeps:
  assumes "distinct (okeys deps)"
  shows "edges (reverseDeps deps) = (edges deps)\<inverse>"
proof -
  have inner: "(x, y) \<in> edges (fold (\<lambda>d. addEdge d i) bs r) \<longleftrightarrow> (y = i \<and> x \<in> set bs) \<or> (x, y) \<in> edges r" for x y i bs r
    by (induction bs arbitrary: r) (auto simp: addEdge_edges)
  have outer: "(x, y) \<in> edges (fold (\<lambda>(i, bs) rdeps. fold (\<lambda>d. addEdge d i) bs rdeps) ds r)
      \<longleftrightarrow> (\<exists>bs. (y, bs) \<in> set ds \<and> x \<in> set bs) \<or> (x, y) \<in> edges r" for x y ds r
    by (induction ds arbitrary: r) (auto simp: inner)
  have "(\<exists>bs. (y, bs) \<in> set deps \<and> x \<in> set bs) \<longleftrightarrow> (y, x) \<in> edges deps" for x y
  proof (cases "oget deps y")
    case None
    then have "(y, bs) \<notin> set deps" for bs unfolding oget_def map_of_eq_None_iff by force
    with None show ?thesis by (simp add: edges_def adj_of_def)
  next
    case (Some bs')
    have "distinct (map fst deps)" "map_of deps y = Some bs'" using assms Some by (simp_all add: oget_def okeys_def)
    then have "(y, bs) \<in> set deps \<longleftrightarrow> bs = bs'" for bs
      using map_of_eq_Some_iff[of deps y bs] by auto
    with Some show ?thesis by (simp add: edges_def adj_of_def)
  qed
  then have "(x, y) \<in> edges (reverseDeps deps) \<longleftrightarrow> (y, x) \<in> edges deps" for x y
    unfolding reverseDeps_def outer edges_empty_map by simp
  then show ?thesis by auto
qed

section \<open>Walks by a stack\<close>

text \<open>
  Both stack loops that mark what they pop are instances of one loop: an entry is dropped when it was taken
  before or is not admitted, and is otherwise taken and followed.
\<close>

fun pop_loop :: "nat \<Rightarrow> adjacency \<Rightarrow> (string \<Rightarrow> bool) \<Rightarrow> string list \<Rightarrow> string list \<Rightarrow> string list option" where
  "pop_loop n adj ok out [] = Some out"
| "pop_loop 0 adj ok out (s # stack) = None"
| "pop_loop (Suc n) adj ok out (s # stack) =
     (let x = last (s # stack); rest = butlast (s # stack)
      in if x \<in> set out \<or> \<not> ok x then pop_loop n adj ok out rest
         else pop_loop n adj ok (out @ [x]) (rest @ adj_of adj x))"

lemma downstream_pop: "downstream_loop n rdeps notDone out stack = pop_loop n rdeps (\<lambda>x. x \<in> set notDone) out stack"
proof (induction n arbitrary: out stack)
  case 0
  then show ?case by (cases stack) simp_all
next
  case (Suc n)
  then show ?case by (cases stack) (auto simp: Let_def)
qed

lemma ancestors_pop: "ancestors_loop n deps startIds out stack = pop_loop n deps (\<lambda>x. x \<notin> set startIds) out stack"
proof (induction n arbitrary: out stack)
  case 0
  then show ?case by (cases stack) simp_all
next
  case (Suc n)
  then show ?case by (cases stack) (auto simp: Let_def)
qed

definition unpopped :: "adjacency \<Rightarrow> string list \<Rightarrow> nat" where
  "unpopped adj out = sum_list (map (\<lambda>(i, bs). if i \<in> set out then 0 else length bs) adj)"

lemma unpopped_pop: "x \<notin> set out \<Longrightarrow> unpopped adj (out @ [x]) + length (adj_of adj x) \<le> unpopped adj out"
proof (induction adj)
  case (Cons e adj)
  obtain i bs where e: "e = (i, bs)" by (cases e)
  have mono: "unpopped adj (out @ [x]) \<le> unpopped adj out"
    unfolding unpopped_def by (rule sum_list_mono) auto
  show ?case
  proof (cases "i = x")
    case True
    with Cons.prems e mono show ?thesis by (simp add: unpopped_def adj_of_def)
  next
    case False
    with Cons e show ?thesis by (auto simp: unpopped_def adj_of_def)
  qed
qed (simp add: unpopped_def adj_of_def)

lemma pop_loop_fuel: "length stack + unpopped adj out \<le> n \<Longrightarrow> pop_loop n adj ok out stack \<noteq> None"
proof (induction n adj ok out stack rule: pop_loop.induct)
  case (3 n adj ok out s stack)
  let ?x = "last (s # stack)" and ?rest = "butlast (s # stack)"
  have l: "length ?rest = length stack" by simp
  show ?case
  proof (cases "?x \<in> set out \<or> \<not> ok ?x")
    case True
    with 3(1)[OF HOL.refl HOL.refl] 3(3) show ?thesis by (simp add: Let_def)
  next
    case False
    then have "length (?rest @ adj_of adj ?x) + unpopped adj (out @ [?x]) \<le> n"
      using unpopped_pop[of ?x out adj] 3(3) l by auto
    from 3(2)[OF HOL.refl HOL.refl False this] False show ?thesis by (simp add: Let_def)
  qed
qed simp_all

definition walk_rel :: "adjacency \<Rightarrow> (string \<Rightarrow> bool) \<Rightarrow> (string \<times> string) set" where
  "walk_rel adj ok = {(a, b). b \<in> set (adj_of adj a) \<and> ok b}"

lemma pop_loop_keeps:
  "pop_loop n adj ok out stack = Some out' \<Longrightarrow> distinct out \<Longrightarrow>
     distinct out' \<and> set out \<subseteq> set out' \<and> {x \<in> set stack. ok x} \<subseteq> set out'
     \<and> set out' \<subseteq> set out \<union> {b. \<exists>a \<in> set stack. ok a \<and> (a, b) \<in> (walk_rel adj ok)\<^sup>*}"
proof (induction n adj ok out stack rule: pop_loop.induct)
  case (3 n adj ok out s stack)
  let ?x = "last (s # stack)" and ?rest = "butlast (s # stack)"
  have st: "set (s # stack) = insert ?x (set ?rest)"
    by (metis append_butlast_last_id list.distinct(1) list.simps(15) rotate1.simps(2) set_rotate1)
  show ?case
  proof (cases "?x \<in> set out \<or> \<not> ok ?x")
    case True
    from 3(1)[OF HOL.refl HOL.refl True] 3(3,4) True have
      "distinct out' \<and> set out \<subseteq> set out' \<and> {x \<in> set ?rest. ok x} \<subseteq> set out'
        \<and> set out' \<subseteq> set out \<union> {b. \<exists>a \<in> set ?rest. ok a \<and> (a, b) \<in> (walk_rel adj ok)\<^sup>*}"
      by (simp add: Let_def)
    with True show ?thesis unfolding st by blast
  next
    case False
    from 3(2)[OF HOL.refl HOL.refl False] 3(3,4) False have ih:
      "distinct out' \<and> insert ?x (set out) \<subseteq> set out' \<and> {x \<in> set ?rest \<union> set (adj_of adj ?x). ok x} \<subseteq> set out'
        \<and> set out' \<subseteq> insert ?x (set out) \<union> {b. \<exists>a \<in> set ?rest \<union> set (adj_of adj ?x). ok a \<and> (a, b) \<in> (walk_rel adj ok)\<^sup>*}"
      by (simp add: Let_def)
    have "(?x, b) \<in> (walk_rel adj ok)\<^sup>*" if "a \<in> set (adj_of adj ?x)" "ok a" "(a, b) \<in> (walk_rel adj ok)\<^sup>*" for a b
      using that by (intro converse_rtrancl_into_rtrancl[of ?x a]) (auto simp: walk_rel_def)
    with ih False show ?thesis unfolding st by blast
  qed
qed auto

lemma pop_loop_closed:
  "pop_loop n adj ok out stack = Some out' \<Longrightarrow> distinct out \<Longrightarrow>
     \<forall>x \<in> set out. \<forall>b \<in> set (adj_of adj x). ok b \<longrightarrow> b \<in> set out \<union> set stack \<Longrightarrow>
     \<forall>x \<in> set out'. \<forall>b \<in> set (adj_of adj x). ok b \<longrightarrow> b \<in> set out'"
proof (induction n adj ok out stack rule: pop_loop.induct)
  case (3 n adj ok out s stack)
  let ?x = "last (s # stack)" and ?rest = "butlast (s # stack)"
  have st: "set (s # stack) = insert ?x (set ?rest)"
    by (metis append_butlast_last_id list.distinct(1) list.simps(15) rotate1.simps(2) set_rotate1)
  show ?case
  proof (cases "?x \<in> set out \<or> \<not> ok ?x")
    case True
    then have "\<forall>x \<in> set out. \<forall>b \<in> set (adj_of adj x). ok b \<longrightarrow> b \<in> set out \<union> set ?rest"
      using 3(5) unfolding st by blast
    from 3(1)[OF HOL.refl HOL.refl True _ 3(4) this] 3(3) True show ?thesis by (simp add: Let_def)
  next
    case False
    have more: "\<forall>x \<in> set (out @ [y]). \<forall>b \<in> set (adj_of adj x). ok b \<longrightarrow> b \<in> set (out @ [y]) \<union> set (r @ adj_of adj y)"
      if "\<forall>x \<in> set out. \<forall>b \<in> set (adj_of adj x). ok b \<longrightarrow> b \<in> set out \<union> insert y (set r)" for y r using that by auto
    have "\<forall>x \<in> set (out @ [?x]). \<forall>b \<in> set (adj_of adj x). ok b \<longrightarrow> b \<in> set (out @ [?x]) \<union> set (?rest @ adj_of adj ?x)"
      using more[of ?x ?rest] 3(5)[unfolded st] by blast
    from 3(2)[OF HOL.refl HOL.refl False _ _ this] 3(3,4) False show ?thesis by (simp add: Let_def)
  qed
qed auto

lemma pop_loop_exact:
  assumes "pop_loop n adj ok [] stack = Some out"
  shows "distinct out" "set out = {b. \<exists>a \<in> set stack. ok a \<and> (a, b) \<in> (walk_rel adj ok)\<^sup>*}"
proof -
  have k: "distinct out \<and> {x \<in> set stack. ok x} \<subseteq> set out
     \<and> set out \<subseteq> {b. \<exists>a \<in> set stack. ok a \<and> (a, b) \<in> (walk_rel adj ok)\<^sup>*}"
    using pop_loop_keeps[OF assms] by simp
  then show "distinct out" by simp
  have c: "\<forall>x \<in> set out. \<forall>b \<in> set (adj_of adj x). ok b \<longrightarrow> b \<in> set out"
    using pop_loop_closed[OF assms] by simp
  have "b \<in> set out" if "(a, b) \<in> (walk_rel adj ok)\<^sup>*" "a \<in> set out" for a b
    using that by (induction rule: rtrancl_induct) (use c in \<open>auto simp: walk_rel_def\<close>)
  with k show "set out = {b. \<exists>a \<in> set stack. ok a \<and> (a, b) \<in> (walk_rel adj ok)\<^sup>*}" by blast
qed

lemma first_step_trancl:
  "{b. \<exists>a \<in> set (adj_of adj i). ok a \<and> (a, b) \<in> (walk_rel adj ok)\<^sup>*} = {b. (i, b) \<in> (walk_rel adj ok)\<^sup>+}"
  by (auto simp: walk_rel_def trancl_unfold_left relcomp_unfold)

lemma transitiveDownstream_exact:
  "distinct (transitiveDownstream i rdeps notDone)"
  "set (transitiveDownstream i rdeps notDone) = {b. (i, b) \<in> (walk_rel rdeps (\<lambda>x. x \<in> set notDone))\<^sup>+}"
proof -
  have "unpopped rdeps [] = edge_count rdeps" by (simp add: unpopped_def edge_count_def)
  then obtain out where out: "pop_loop (length (adj_of rdeps i) + edge_count rdeps) rdeps (\<lambda>x. x \<in> set notDone) [] (adj_of rdeps i) = Some out"
    using pop_loop_fuel[of "adj_of rdeps i" rdeps "[]"] by fastforce
  then have "transitiveDownstream i rdeps notDone = out" by (simp add: transitiveDownstream_def downstream_pop)
  with pop_loop_exact[OF out] show "distinct (transitiveDownstream i rdeps notDone)"
    "set (transitiveDownstream i rdeps notDone) = {b. (i, b) \<in> (walk_rel rdeps (\<lambda>x. x \<in> set notDone))\<^sup>+}"
    unfolding first_step_trancl by simp_all
qed

section \<open>The scope of a goal: facts\<close>

lemma depsAncestors_exact:
  "\<exists>out. depsAncestors startIds deps = Some out \<and> distinct out
     \<and> set out = {b. \<exists>s \<in> set startIds. (s, b) \<in> (walk_rel deps (\<lambda>x. x \<notin> set startIds))\<^sup>+}"
proof -
  let ?ok = "\<lambda>x. x \<notin> set startIds" and ?stack = "concat (map (adj_of deps) startIds)"
  have "unpopped deps [] = edge_count deps" by (simp add: unpopped_def edge_count_def)
  then obtain out where out: "pop_loop (length ?stack + edge_count deps) deps ?ok [] ?stack = Some out"
    using pop_loop_fuel[of ?stack deps "[]"] by fastforce
  have "set out = (\<Union>s \<in> set startIds. {b. \<exists>a \<in> set (adj_of deps s). ?ok a \<and> (a, b) \<in> (walk_rel deps ?ok)\<^sup>*})"
    unfolding pop_loop_exact(2)[OF out] by auto
  then have "set out = {b. \<exists>s \<in> set startIds. (s, b) \<in> (walk_rel deps ?ok)\<^sup>+}" unfolding first_step_trancl by auto
  with out pop_loop_exact(1)[OF out] show ?thesis by (simp add: depsAncestors_def Let_def ancestors_pop)
qed

lemma walk_outside:
  assumes "s \<in> S" "(s, b) \<in> (edges deps)\<^sup>*"
  shows "b \<in> S \<or> (\<exists>s \<in> S. (s, b) \<in> (walk_rel deps (\<lambda>x. x \<notin> S))\<^sup>+)"
  using assms(2)
proof (induction rule: rtrancl_induct)
  case base
  with assms(1) show ?case by blast
next
  case (step a b)
  have w: "b \<notin> S \<Longrightarrow> (a, b) \<in> walk_rel deps (\<lambda>x. x \<notin> S)" using step(2) by (auto simp: walk_rel_def edges_def)
  from step(3) show ?case
  proof
    assume "a \<in> S"
    with w show ?thesis by blast
  next
    assume "\<exists>s \<in> S. (s, a) \<in> (walk_rel deps (\<lambda>x. x \<notin> S))\<^sup>+"
    with w show ?thesis by (meson trancl_into_trancl)
  qed
qed

lemma ancestors_scope:
  assumes "depsAncestors scope deps = Some out"
  shows "set scope \<union> set out = {b. \<exists>s \<in> set scope. (s, b) \<in> (edges deps)\<^sup>*}" "distinct scope \<Longrightarrow> distinct (scope @ out)"
proof -
  let ?w = "walk_rel deps (\<lambda>x. x \<notin> set scope)"
  have out: "distinct out" "set out = {b. \<exists>s \<in> set scope. (s, b) \<in> ?w\<^sup>+}"
    using depsAncestors_exact[of scope deps] assms by auto
  have sub: "?w \<subseteq> edges deps" by (auto simp: walk_rel_def edges_def)
  have down: "(s, b) \<in> ?w\<^sup>+ \<Longrightarrow> (s, b) \<in> (edges deps)\<^sup>*" for s b using trancl_mono[OF _ sub] by (blast intro: trancl_into_rtrancl)
  have "b \<in> set scope \<union> set out \<longleftrightarrow> (\<exists>s \<in> set scope. (s, b) \<in> (edges deps)\<^sup>*)" for b
  proof
    assume "b \<in> set scope \<union> set out"
    then consider "b \<in> set scope" | s where "s \<in> set scope" "(s, b) \<in> ?w\<^sup>+" unfolding out(2) by blast
    then show "\<exists>s \<in> set scope. (s, b) \<in> (edges deps)\<^sup>*" by cases (use down in blast)+
  next
    assume "\<exists>s \<in> set scope. (s, b) \<in> (edges deps)\<^sup>*"
    then obtain s where "s \<in> set scope" "(s, b) \<in> (edges deps)\<^sup>*" ..
    from walk_outside[OF this] show "b \<in> set scope \<union> set out" unfolding out(2) by simp
  qed
  then show "set scope \<union> set out = {b. \<exists>s \<in> set scope. (s, b) \<in> (edges deps)\<^sup>*}" by blast
  have "b \<notin> set scope" if "(s, b) \<in> ?w\<^sup>+" for s b using that by (induction rule: trancl_induct) (simp_all add: walk_rel_def)
  then have "b \<notin> set scope" if "b \<in> set out" for b using that unfolding out(2) mem_Collect_eq by blast
  then have "set scope \<inter> set out = {}" by blast
  with out(1) show "distinct scope \<Longrightarrow> distinct (scope @ out)" by simp
qed

definition known_targets_rel :: "works \<Rightarrow> (string \<times> string) set" where
  "known_targets_rel work = {(a, b). b \<in> set (targets_of work a) \<and> b \<in> set (okeys work)}"

lemma add_targets_spec:
  "add_targets known result stack ts = (result', stack') \<Longrightarrow> \<exists>new. result' = result @ new \<and> stack' = stack @ new \<and> distinct new
     \<and> set new = {t \<in> set ts. t \<in> set known \<and> t \<notin> set result}"
proof (induction known result stack ts rule: add_targets.induct)
  case (2 known result stack t ts)
  show ?case
  proof (cases "t \<notin> set known \<or> t \<in> set result")
    case True
    with 2(1)[OF True] 2(3) show ?thesis by auto
  next
    case False
    with 2(2)[OF False] 2(3) obtain new where "result' = (result @ [t]) @ new" "stack' = (stack @ [t]) @ new" "distinct new"
      "set new = {u \<in> set ts. u \<in> set known \<and> u \<notin> set (result @ [t])}" by auto
    with False show ?thesis by (intro exI[of _ "t # new"]) auto
  qed
qed simp

definition targets_inv :: "works \<Rightarrow> string \<Rightarrow> string list \<Rightarrow> string list \<Rightarrow> bool" where
  "targets_inv work i result stack = (distinct result \<and> i \<in> set result \<and> set stack \<subseteq> set result
     \<and> set result \<subseteq> {b. (i, b) \<in> (known_targets_rel work)\<^sup>*}
     \<and> (\<forall>a \<in> set result - set stack. \<forall>b. (a, b) \<in> known_targets_rel work \<longrightarrow> b \<in> set result))"

lemma targets_loop_inv:
  "targets_inv work i result stack \<Longrightarrow> length stack + card (set (okeys work) - set result) \<le> n \<Longrightarrow>
     \<exists>out. targets_loop n work result stack = Some out \<and> targets_inv work i out []"
proof (induction n arbitrary: result stack)
  case 0
  then show ?case by simp
next
  case (Suc n)
  show ?case
  proof (cases stack)
    case Nil
    with Suc.prems show ?thesis by simp
  next
    case (Cons s st)
    let ?x = "last stack" and ?rest = "butlast stack"
    obtain result' stack' where a: "add_targets (okeys work) result ?rest (targets_of work ?x) = (result', stack')" by fastforce
    from add_targets_spec[OF this] obtain new where new: "result' = result @ new" "stack' = ?rest @ new" "distinct new"
      "set new = {t \<in> set (targets_of work ?x). t \<in> set (okeys work) \<and> t \<notin> set result}" by blast
    have st: "stack = ?rest @ [?x]" using Cons by (metis append_butlast_last_id list.distinct(1))
    have ss: "set stack = insert ?x (set ?rest)" by (subst st) simp
    have inv0: "distinct result" "i \<in> set result" "set stack \<subseteq> set result"
      "\<And>b. b \<in> set result \<Longrightarrow> (i, b) \<in> (known_targets_rel work)\<^sup>*"
      "\<And>a b. a \<in> set result \<Longrightarrow> a \<notin> set stack \<Longrightarrow> (a, b) \<in> known_targets_rel work \<Longrightarrow> b \<in> set result"
      using Suc.prems(1) unfolding targets_inv_def by blast+
    have x: "?x \<in> set result" "set ?rest \<subseteq> set result" using inv0(3) ss by blast+
    have xn: "(?x, b) \<in> known_targets_rel work \<Longrightarrow> b \<in> set result \<union> set new" for b
      using new(4) by (auto simp: known_targets_rel_def)
    have inv: "targets_inv work i result' stack'"
    proof -
      have "distinct result'" using inv0(1) new(1,3,4) by auto
      moreover have "set stack' \<subseteq> set result'" using x(2) new(1,2) by auto
      moreover have "(i, b) \<in> (known_targets_rel work)\<^sup>*" if "b \<in> set result'" for b
      proof (cases "b \<in> set result")
        case False
        then have "(?x, b) \<in> known_targets_rel work" using that new(1,4) by (auto simp: known_targets_rel_def)
        with inv0(4)[OF x(1)] show ?thesis by (rule rtrancl_into_rtrancl)
      qed (rule inv0(4))
      moreover have "b \<in> set result'" if "a \<in> set result' - set stack'" "(a, b) \<in> known_targets_rel work" for a b
      proof (cases "a = ?x")
        case True
        with xn that(2) show ?thesis by (simp add: new(1))
      next
        case False
        then have "a \<in> set result" "a \<notin> set stack" using that(1) ss by (auto simp: new(1,2))
        from inv0(5)[OF this that(2)] show ?thesis by (simp add: new(1))
      qed
      ultimately show ?thesis using inv0(2) unfolding targets_inv_def by (auto simp: new(1))
    qed
    have "length stack' + card (set (okeys work) - set result') \<le> n"
    proof -
      have "set new \<subseteq> set (okeys work)" "set new \<inter> set result = {}" using new(4) by auto
      from card_unseen_new[OF this(1) new(3) this(2)] Suc.prems(2) Cons new(1,2) show ?thesis by simp
    qed
    from Suc.IH[OF inv this] a Cons show ?thesis by (simp add: Let_def)
  qed
qed

lemma targetsClosure_exact:
  assumes "i \<in> set (okeys work)"
  shows "\<exists>out. targetsClosure work i = Some out \<and> distinct out \<and> set out = {b. (i, b) \<in> (known_targets_rel work)\<^sup>*}"
proof -
  have "card (set (okeys work) - set [i]) \<le> length work"
    by (metis Diff_subset List.finite_set card_length card_mono le_trans length_map okeys_def)
  moreover have "targets_inv work i [i] [i]" by (simp add: targets_inv_def)
  ultimately obtain out where out: "targets_loop (Suc (length work)) work [i] [i] = Some out" "targets_inv work i out []"
    using targets_loop_inv[of work i "[i]" "[i]" "Suc (length work)"] by auto
  have "b \<in> set out" if "(i, b) \<in> (known_targets_rel work)\<^sup>*" for b
    using that by (induction rule: rtrancl_induct) (use out(2) in \<open>auto simp: targets_inv_def\<close>)
  with out assms show ?thesis by (auto simp: targetsClosure_def targets_inv_def)
qed

lemma goalScopedSet_exact:
  assumes "i \<in> set (okeys work)"
  shows "\<exists>scope. goalScopedSet work i = Some scope \<and> distinct scope
    \<and> set scope = {b. (i, b) \<in> (known_targets_rel work)\<^sup>* O (known_edges work)\<^sup>*}"
proof -
  obtain t where t: "targetsClosure work i = Some t" "distinct t" "set t = {b. (i, b) \<in> (known_targets_rel work)\<^sup>*}"
    using targetsClosure_exact[OF assms] by blast
  obtain out where out: "depsAncestors t (knownUnifiedDeps work) = Some out" using depsAncestors_exact by blast
  have "t \<noteq> []" using t(3) by auto
  with t out ancestors_scope[OF out] show ?thesis by (auto simp: goalScopedSet_def edges_knownUnifiedDeps)
qed

section \<open>The greedy ranking: facts\<close>

text \<open>What a set of items covers, for a downstream that is without repetition, open and transitive.\<close>

definition covers :: "(string \<Rightarrow> string list) \<Rightarrow> string set \<Rightarrow> string set" where
  "covers ds S = S \<union> (\<Union>i \<in> S. set (ds i))"

definition sound_downstream :: "(string \<Rightarrow> string list) \<Rightarrow> bool" where
  "sound_downstream ds = (\<forall>i. distinct (ds i) \<and> i \<notin> set (ds i) \<and> (\<forall>d \<in> set (ds i). set (ds d) \<subseteq> set (ds i)))"

definition covered_ok :: "(string \<Rightarrow> string list) \<Rightarrow> string list \<Rightarrow> bool" where
  "covered_ok ds covered = (\<forall>i \<in> set covered. set (ds i) \<subseteq> set covered)"

lemma gain_covers:
  assumes "sound_downstream ds" "i \<notin> set covered"
  shows "unblock_gain ds covered i = card (covers ds {i} - set covered)"
proof -
  have "covers ds {i} - set covered = insert i (set (filter (\<lambda>d. d \<notin> set covered) (ds i)))"
    using assms(2) by (auto simp: covers_def)
  moreover have "distinct (filter (\<lambda>d. d \<notin> set covered) (ds i))" "i \<notin> set (filter (\<lambda>d. d \<notin> set covered) (ds i))"
    using assms(1) by (auto simp: sound_downstream_def)
  ultimately show ?thesis by (simp add: unblock_gain_def distinct_card del: set_filter)
qed

lemma best_pick_spec:
  "best_pick ds covered ids best g = (best', g') \<Longrightarrow> g \<le> g'
     \<and> (\<forall>i \<in> set ids. i \<notin> set covered \<longrightarrow> unblock_gain ds covered i \<le> g')
     \<and> (best' = best \<and> g' = g \<or> (\<exists>i \<in> set ids. i \<notin> set covered \<and> best' = Some i \<and> g' = unblock_gain ds covered i))"
proof (induction ids arbitrary: best g)
  case (Cons i ids)
  show ?case
  proof (cases "i \<notin> set covered \<and> unblock_gain ds covered i > g")
    case True
    with Cons.IH[of "Some i" "unblock_gain ds covered i"] Cons.prems show ?thesis by auto
  next
    case False
    with Cons.IH[of best g] Cons.prems show ?thesis by auto
  qed
qed simp

lemma best_pick_cases [consumes 1, case_names all pick]:
  assumes "sound_downstream ds"
  obtains (all) "best_pick ds covered ids None 0 = (None, 0)" "set ids \<subseteq> set covered"
  | (pick) i where "best_pick ds covered ids None 0 = (Some i, card (covers ds {i} - set covered))" "i \<in> set ids" "i \<notin> set covered"
      "\<And>j. j \<in> set ids \<Longrightarrow> j \<notin> set covered \<Longrightarrow> card (covers ds {j} - set covered) \<le> card (covers ds {i} - set covered)"
proof -
  obtain b g where b: "best_pick ds covered ids None 0 = (b, g)" by fastforce
  note s = best_pick_spec[OF b]
  show thesis
  proof (cases b)
    case None
    then have "g = 0" using s by auto
    then have "i \<in> set covered" if "i \<in> set ids" for i using s that by (auto simp: unblock_gain_def)
    then have "set ids \<subseteq> set covered" by blast
    with all b None \<open>g = 0\<close> show thesis by simp
  next
    case (Some i)
    then have i: "i \<in> set ids" "i \<notin> set covered" "g = unblock_gain ds covered i" using s by auto
    moreover have "card (covers ds {j} - set covered) \<le> g" if "j \<in> set ids" "j \<notin> set covered" for j
      using s that gain_covers[OF assms that(2)] by auto
    ultimately show thesis using pick b Some gain_covers[OF assms i(2)] by simp
  qed
qed

lemma covered_ok_add:
  assumes "sound_downstream ds" "covered_ok ds covered"
  shows "covered_ok ds (covered @ i # ds i)" "set (covered @ i # ds i) = set covered \<union> covers ds {i}"
  using assms by (auto simp: covered_ok_def sound_downstream_def covers_def)

lemma covers_covered: "covered_ok ds covered \<Longrightarrow> S \<subseteq> set covered \<Longrightarrow> covers ds S \<subseteq> set covered"
  by (auto simp: covers_def covered_ok_def)

lemma finite_covers: "finite S \<Longrightarrow> finite (covers ds S)"
  by (simp add: covers_def)

text \<open>The picks: different candidates, each with the marginal cover it adds, which add up.\<close>

lemma greedy_rounds_spec:
  assumes "sound_downstream ds"
  shows "covered_ok ds covered \<Longrightarrow> picks = greedy_rounds ds ids covered k \<Longrightarrow>
     length picks \<le> k \<and> distinct (map pk_id picks) \<and> pk_id ` set picks \<subseteq> set ids - set covered
     \<and> sum_list (map pk_newlyUnblocks picks) = card (covers ds (pk_id ` set picks) - set covered)
     \<and> (\<forall>p \<in> set picks. pk_newlyUnblocks p \<le> pk_unblocks p + 1)
     \<and> (length picks < k \<longrightarrow> set ids \<subseteq> set covered \<union> covers ds (pk_id ` set picks))"
proof (induction k arbitrary: covered picks)
  case 0
  then show ?case by (simp add: covers_def)
next
  case (Suc k)
  show ?case
    using assms
  proof (cases rule: best_pick_cases[where covered = covered and ids = ids])
    case all
    with Suc.prems show ?thesis by (auto simp: covers_def)
  next
    case (pick i)
    let ?c = "covered @ i # ds i" and ?rest = "greedy_rounds ds ids (covered @ i # ds i) k"
    have p: "picks = \<lparr>pk_id = i, pk_unblocks = length (ds i), pk_newlyUnblocks = card (covers ds {i} - set covered)\<rparr> # ?rest"
      using Suc.prems(2) pick(1) by simp
    note ih = Suc.IH[OF covered_ok_add(1)[OF assms Suc.prems(1), of i] HOL.refl]
    note sc = covered_ok_add(2)[OF assms Suc.prems(1), of i]
    let ?A = "covers ds {i} - set covered" and ?B = "covers ds (pk_id ` set ?rest) - set ?c"
    have cov: "covers ds (pk_id ` set picks) - set covered = ?A \<union> ?B" unfolding sc p by (auto simp: covers_def)
    have "?A \<inter> ?B = {}" unfolding sc by auto
    then have "card (?A \<union> ?B) = card ?A + card ?B" by (intro card_Un_disjoint) (auto intro: finite_covers finite_Diff)
    then have sum: "sum_list (map pk_newlyUnblocks picks) = card (covers ds (pk_id ` set picks) - set covered)"
      unfolding cov using ih by (simp add: p)
    have "card ?A \<le> card (insert i (set (ds i)))" by (intro card_mono) (auto simp: covers_def)
    also have "\<dots> \<le> length (ds i) + 1" using card_length[of "i # ds i"] by simp
    finally have ub: "card ?A \<le> length (ds i) + 1" .
    have "set ids \<subseteq> set covered \<union> covers ds (pk_id ` set picks)" if "length picks < Suc k"
      using ih that unfolding sc p by (auto simp: covers_def)
    then show ?thesis using ih pick(2,3) sum ub unfolding p sc by (auto simp: covers_def)
  qed
qed

text \<open>
  The guarantee of the greedy choice. Against any \<open>K\<close> candidates, what is still missing of their cover
  shrinks by one part in \<open>K\<close> with each pick.
\<close>

lemma one_pick_gains:
  assumes "finite S" "card S \<le> K" "covered_ok ds covered"
    and best: "\<And>j. j \<in> S \<Longrightarrow> j \<notin> set covered \<Longrightarrow> card (covers ds {j} - set covered) \<le> g"
  shows "card (covers ds S) - card (set covered) \<le> K * g"
proof -
  have each: "card (covers ds {j} - set covered) \<le> g" if "j \<in> S" for j
  proof (cases "j \<in> set covered")
    case True
    then have "covers ds {j} - set covered = {}" using covers_covered[OF assms(3), of "{j}"] by blast
    then show ?thesis by (simp only: card.empty le0)
  qed (rule best[OF that])
  have "card (covers ds S) - card (set covered) \<le> card (covers ds S - set covered)"
    by (rule diff_card_le_card_Diff) simp
  also have "covers ds S - set covered = (\<Union>j \<in> S. covers ds {j} - set covered)" by (auto simp: covers_def)
  also have "card \<dots> \<le> (\<Sum>j \<in> S. card (covers ds {j} - set covered))" by (rule card_UN_le) (rule assms(1))
  also have "\<dots> \<le> card S * g" using sum_bounded_above[of S "\<lambda>j. card (covers ds {j} - set covered)" g] each by simp
  also have "\<dots> \<le> K * g" using assms(2) by simp
  finally show ?thesis .
qed

lemma shrink_step:
  fixes K r g :: nat
  assumes "r \<le> K * g" "0 < K"
  shows "K * (r - g) \<le> (K - 1) * r"
proof -
  have "K * (r - g) = K * r - K * g" by (simp add: diff_mult_distrib2)
  also have "\<dots> \<le> K * r - r" using assms(1) by simp
  also have "\<dots> = (K - 1) * r" by (simp add: diff_mult_distrib)
  finally show ?thesis .
qed

lemma greedy_guarantee:
  assumes "sound_downstream ds" "finite S" "S \<subseteq> set ids" "card S \<le> K" "0 < K"
  shows "covered_ok ds covered \<Longrightarrow>
    K ^ k * (card (covers ds S) - card (set covered \<union> covers ds (pk_id ` set (greedy_rounds ds ids covered k))))
      \<le> (K - 1) ^ k * (card (covers ds S) - card (set covered))"
proof (induction k arbitrary: covered)
  case 0
  then show ?case by (simp add: covers_def)
next
  case (Suc k)
  show ?case
    using assms(1)
  proof (cases rule: best_pick_cases[where covered = covered and ids = ids])
    case all
    then have "covers ds S \<subseteq> set covered" using covers_covered[OF Suc.prems] assms(3) by blast
    then have "card (covers ds S) \<le> card (set covered)" by (simp add: card_mono)
    with all show ?thesis by (simp add: covers_def)
  next
    case (pick i)
    let ?c = "covered @ i # ds i" and ?g = "card (covers ds {i} - set covered)"
    let ?rest = "pk_id ` set (greedy_rounds ds ids ?c k)"
    note sc = covered_ok_add(2)[OF assms(1) Suc.prems, of i]
    have cc: "card (set ?c) = card (set covered) + ?g"
      unfolding sc by (subst Un_Diff_cancel[symmetric], rule card_Un_disjoint) (auto intro: finite_covers)
    have all_covered: "set covered \<union> covers ds (pk_id ` set (greedy_rounds ds ids covered (Suc k))) = set ?c \<union> covers ds ?rest"
      unfolding sc using pick(1) by (auto simp: covers_def)
    let ?O = "card (covers ds S)"
    have "?O - card (set covered) \<le> K * ?g"
      by (rule one_pick_gains[OF assms(2,4) Suc.prems]) (use pick(4) assms(3) in blast)
    from shrink_step[OF this assms(5)] have s: "K * (?O - card (set ?c)) \<le> (K - 1) * (?O - card (set covered))"
      unfolding cc by (simp only: diff_diff_left)
    have "K ^ Suc k * (?O - card (set ?c \<union> covers ds ?rest)) = K * (K ^ k * (?O - card (set ?c \<union> covers ds ?rest)))" by simp
    also have "\<dots> \<le> K * ((K - 1) ^ k * (?O - card (set ?c)))" by (rule mult_le_mono2[OF Suc.IH[OF covered_ok_add(1)[OF assms(1) Suc.prems]]])
    also have "\<dots> = (K - 1) ^ k * (K * (?O - card (set ?c)))" by simp
    also have "\<dots> \<le> (K - 1) ^ k * ((K - 1) * (?O - card (set covered)))" using s by simp
    finally show ?thesis unfolding all_covered by (simp add: mult.assoc mult.left_commute)
  qed
qed

text \<open>The downstream of the model: open items that wait, directly or through open items.\<close>

definition waits_open :: "works \<Rightarrow> (string \<times> string) set" where
  "waits_open work = {(a, b) \<in> known_edges work. a \<in> set (open_ids work)}"

lemma open_downstream:
  assumes "distinct (okeys work)"
  shows "set (transitiveDownstream i (reverseDeps (knownUnifiedDeps work)) (open_ids work)) = {b. (b, i) \<in> (waits_open work)\<^sup>+}"
proof -
  have "distinct (okeys (knownUnifiedDeps work))" using assms by (simp add: okeys_knownUnifiedDeps)
  from edges_reverseDeps[OF this] have "edges (reverseDeps (knownUnifiedDeps work)) = (known_edges work)\<inverse>"
    by (simp add: edges_knownUnifiedDeps)
  then have "walk_rel (reverseDeps (knownUnifiedDeps work)) (\<lambda>x. x \<in> set (open_ids work)) = (waits_open work)\<inverse>"
    by (auto simp: walk_rel_def edges_def waits_open_def)
  then show ?thesis unfolding transitiveDownstream_exact(2) by (simp add: trancl_converse)
qed

lemma open_downstream_sound:
  assumes "distinct (okeys work)" "acyclic (known_edges work)"
  shows "sound_downstream (\<lambda>i. transitiveDownstream i (reverseDeps (knownUnifiedDeps work)) (open_ids work))"
proof -
  have "waits_open work \<subseteq> known_edges work" by (auto simp: waits_open_def)
  then have "acyclic (waits_open work)" using assms(2) by (rule acyclic_subset[rotated])
  then show ?thesis
    unfolding sound_downstream_def open_downstream[OF assms(1)]
    by (auto simp: transitiveDownstream_exact(1) acyclic_def intro: trancl_trans)
qed

end
