(* ===== verification/Ranking_Properties.thy ===== *)
theory Ranking_Properties
  imports Graph_Rankings Sample_Log
begin

text \<open>
  What the rankings of the graph promise: the critical path is a longest chain of waits, a goal's path stays
  within its scope, and the greedy ranking unblocks nearly as much as any choice of as many items.
\<close>

text \<open>Four items: \<open>d\<close> waits on \<open>c\<close>, \<open>c\<close> on \<open>a\<close>, and \<open>b\<close> stands alone.\<close>

definition chained_items :: works where
  "chained_items = [(''a'', sample_item ''a'' ''todo'' []), (''b'', sample_item ''b'' ''todo'' []),
     (''c'', sample_item ''c'' ''todo'' [''a'']), (''d'', sample_item ''d'' ''todo'' [''c''])]"

lemma chained_keys: "distinct (okeys chained_items)"
  by code_simp

lemma chained_edges: "known_edges chained_items = {(''c'', ''a''), (''d'', ''c'')}"
proof -
  have "buildUnifiedEdges chained_items = [(''c'', ''a'', ''blocks''), (''d'', ''c'', ''blocks'')]" by code_simp
  then show ?thesis by (auto simp: known_edges_def unified_edges_def chained_items_def okeys_def)
qed

lemma chained_acyclic: "acyclic (known_edges chained_items)"
  unfolding chained_edges by (rule acyclicI_order[of _ "\<lambda>x. if x = ''d'' then 2 else if x = ''c'' then 1 else (0 :: nat)"]) auto

text \<open>
  C36: The critical path is always found, on cyclic graphs too, and it is a chain of waits between known items
  of exactly the depth that is reported; where the waits have no cycle no chain of waits is longer.
\<close>

theorem critical_path_is_longest:
  shows "\<exists>d p. criticalPath work = Some (d, p) \<and> length p = d \<and> is_path (known_edges work) p \<and> (p \<noteq> [] \<longrightarrow> hd p \<in> set (okeys work))
    \<and> (acyclic (known_edges work) \<longrightarrow>
        (\<forall>q. q \<noteq> [] \<and> hd q \<in> set (okeys work) \<and> is_path (known_edges work) q \<longrightarrow> length q \<le> d))"
proof -
  obtain d p where p: "longestChain (knownUnifiedDeps work) (okeys work) = Some (d, p)" "length p = d"
    "is_path (known_edges work) p" "p \<noteq> [] \<longrightarrow> hd p \<in> set (okeys work)"
    using longestChain_path[of "knownUnifiedDeps work" "okeys work"] unfolding edges_knownUnifiedDeps by blast
  have "length q \<le> d" if "acyclic (known_edges work)" "q \<noteq> []" "hd q \<in> set (okeys work)" "is_path (known_edges work) q" for q
    using longestChain_longest[OF _ p(1), of q] that by (simp add: edges_knownUnifiedDeps)
  with p show ?thesis unfolding criticalPath_def by blast
qed

theorem critical_path_is_longest_witness:
  "\<exists>p. criticalPath chained_items = Some (3, p) \<and> is_path (known_edges chained_items) p"
proof -
  have "map_option fst (criticalPath chained_items) = Some 3" by code_simp
  with critical_path_is_longest[of chained_items] show ?thesis by auto
qed

text \<open>
  The scope of a goal is what its targets reach and everything those wait on, without repetition, and its
  critical path is a longest chain of waits that starts in the scope and never leaves it.
\<close>

theorem goal_path_stays_in_scope:
  assumes "focus \<in> set (okeys work)"
  shows "\<exists>scope d p. goalScopedSet work focus = Some scope \<and> distinct scope
    \<and> set scope = {b. (focus, b) \<in> (known_targets_rel work)\<^sup>* O (known_edges work)\<^sup>*}
    \<and> goalScopedCriticalPath work focus = Some (d, p) \<and> length p = d \<and> is_path (known_edges work) p \<and> set p \<subseteq> set scope"
proof -
  obtain scope where s: "goalScopedSet work focus = Some scope" "distinct scope"
    "set scope = {b. (focus, b) \<in> (known_targets_rel work)\<^sup>* O (known_edges work)\<^sup>*}"
    using goalScopedSet_exact[OF assms] by blast
  have ne: "scope \<noteq> []" using s(3) by auto
  let ?ids = "filter (\<lambda>i. i \<in> set scope) (okeys work)"
  obtain d p where p: "longestChain (knownUnifiedDeps work) ?ids = Some (d, p)" "length p = d"
    "is_path (known_edges work) p" "p \<noteq> [] \<longrightarrow> hd p \<in> set ?ids"
    using longestChain_path[of "knownUnifiedDeps work" ?ids] unfolding edges_knownUnifiedDeps by blast
  have closed: "(a, b) \<in> known_edges work \<Longrightarrow> a \<in> set scope \<Longrightarrow> b \<in> set scope" for a b
    unfolding s(3) by (auto intro: rtrancl_into_rtrancl)
  have "is_path (known_edges work) q \<Longrightarrow> q \<noteq> [] \<Longrightarrow> hd q \<in> set scope \<Longrightarrow> set q \<subseteq> set scope" for q
    by (induction q rule: induct_list012) (auto simp: is_path_Cons dest: closed)
  with p(3,4) have "set p \<subseteq> set scope" by (cases "p = []") auto
  with s p ne show ?thesis by (simp add: goalScopedCriticalPath_def)
qed

theorem goal_path_stays_in_scope_witness:
  "\<exists>scope. goalScopedSet chained_items ''c'' = Some scope \<and> set scope = {b. (''c'', b) \<in> (known_targets_rel chained_items)\<^sup>* O (known_edges chained_items)\<^sup>*}"
proof -
  have "''c'' \<in> set (okeys chained_items)" by code_simp
  from goal_path_stays_in_scope[OF this] show ?thesis by blast
qed

text \<open>
  C31: The greedy ranking names at most k different open items, whose stated gains add up to the number of
  open items they unblock or are. Where the waits have no cycle, what it misses of the best choice of up to
  k open items is at most (1 - 1/k) to the power k of that best.
\<close>

theorem greedy_is_near_best:
  assumes "distinct (okeys work)" "acyclic (known_edges work)" "0 < k"
  defines "unblocked \<equiv> \<lambda>S. {x. \<exists>i \<in> S. x = i \<or> (x, i) \<in> (waits_open work)\<^sup>+}"
  shows "length (greedyTopUnblock work k) \<le> k \<and> distinct (map pk_id (greedyTopUnblock work k))
    \<and> pk_id ` set (greedyTopUnblock work k) \<subseteq> set (open_ids work)
    \<and> sum_list (map pk_newlyUnblocks (greedyTopUnblock work k)) = card (unblocked (pk_id ` set (greedyTopUnblock work k)))
    \<and> (S \<subseteq> set (open_ids work) \<and> card S \<le> k \<longrightarrow>
        k ^ k * (card (unblocked S) - card (unblocked (pk_id ` set (greedyTopUnblock work k)))) \<le> (k - 1) ^ k * card (unblocked S))"
proof -
  let ?ds = "\<lambda>i. transitiveDownstream i (reverseDeps (knownUnifiedDeps work)) (open_ids work)"
  have cov: "unblocked T = covers ?ds T" for T
    by (auto simp: unblocked_def covers_def open_downstream[OF assms(1)])
  have g: "greedyTopUnblock work k = greedy_rounds ?ds (open_ids work) [] k"
    by (simp add: greedyTopUnblock_def computeGreedyTopUnblock_def Let_def)
  note sound = open_downstream_sound[OF assms(1,2)]
  have ok: "covered_ok ?ds []" by (simp add: covered_ok_def)
  have near: "k ^ k * (card (covers ?ds S) - card (covers ?ds (pk_id ` set (greedyTopUnblock work k)))) \<le> (k - 1) ^ k * card (covers ?ds S)"
    if "S \<subseteq> set (open_ids work)" "card S \<le> k"
    using greedy_guarantee[OF sound finite_subset[OF that(1)] that assms(3) ok, of k] by (simp add: g)
  show ?thesis
    unfolding cov using greedy_rounds_spec[OF sound ok g] near by simp
qed

theorem greedy_is_near_best_witness:
  "sum_list (map pk_newlyUnblocks (greedyTopUnblock chained_items 1)) = 3 \<and> length (greedyTopUnblock chained_items 1) \<le> 1
    \<and> pk_id ` set (greedyTopUnblock chained_items 1) \<subseteq> set (open_ids chained_items)"
proof -
  have "sum_list (map pk_newlyUnblocks (greedyTopUnblock chained_items 1)) = 3" by code_simp
  then show ?thesis using greedy_is_near_best[OF chained_keys chained_acyclic, of 1] by simp
qed

end
