(* ===== verification/Hot_Lock.thy ===== *)
theory Hot_Lock
  imports Prelude
begin

text \<open>
  \<open>src/state/hot-lock.mjs\<close>: the mutex of the state store. A holder's record is linked onto one path and
  unlinked on release; the record of a dead holder is cleaned under a kernel lock. First the operations as
  functions of the file, then the protocol: any number of processes, each of their file operations a step of
  its own, with crashes between any two.

  Parameters: \<open>parse\<close> is \<open>JSON.parse\<close> (no value for a text that does not parse), \<open>judge\<close> the judge of
  holders, \<open>busy\<close> the code of a sharing violation when the file is open by another process, and whether the
  kernel lock is free. Messages of errors keep what they report, not their wording.
\<close>

section \<open>Records and errors\<close>

definition RESOURCES :: "string list" where
  "RESOURCES = [''state'', ''porting-events'']"

datatype hot_error =
    Resource_unknown
  | Timeout_open string          \<comment> \<open>open by another process: the code of the violation\<close>
  | Timeout_unreadable           \<comment> \<open>the record cannot be read, \<open>lock-record-unreadable\<close>\<close>
  | Timeout_unjudged             \<comment> \<open>the holder cannot be judged, \<open>lock-record-unreadable\<close>\<close>
  | Timeout_held "jval option"   \<comment> \<open>held by this pid\<close>
  | Release_stuck
  | Reentry
  | Tx_async
  | Tx_revoked
  | Tx_path_outside
  | Tx_consumer_required
  | Tx_event_type
  | Not_found                    \<comment> \<open>\<open>ENOENT\<close>\<close>
  | Acked_incomplete hot_error   \<comment> \<open>\<open>event-store-acked-effects-incomplete\<close>, with its cause\<close>
  | Thrown string                \<comment> \<open>an error of the callback or of the consumer\<close>

definition assertResource :: "string \<Rightarrow> hot_error option" where
  "assertResource resource = (if resource \<in> set RESOURCES then None else Some Resource_unknown)"

datatype seen = Absent | Retry string | Unreadable_record string | Ok_record string obj

text \<open>A record is an object with a positive pid.\<close>

definition record_of :: "jval option \<Rightarrow> obj option" where
  "record_of v = (case as_obj v of
     Some ob \<Rightarrow> (case oget ob ''pid'' of Some (JNum n) \<Rightarrow> if n > 0 then Some ob else None | _ \<Rightarrow> None)
   | None \<Rightarrow> None)"

definition readHotRecord :: "(string \<Rightarrow> jval option) \<Rightarrow> string option \<Rightarrow> string option \<Rightarrow> seen" where
  "readHotRecord parse busy file = (case file of
     None \<Rightarrow> Absent
   | Some raw \<Rightarrow> (case busy of
       Some code \<Rightarrow> Retry code
     | None \<Rightarrow> (case record_of (parse raw) of None \<Rightarrow> Unreadable_record raw | Some record \<Rightarrow> Ok_record raw record)))"

definition raw_of :: "seen \<Rightarrow> string option" where
  "raw_of seen = (case seen of Unreadable_record raw \<Rightarrow> Some raw | Ok_record raw _ \<Rightarrow> Some raw | _ \<Rightarrow> None)"

definition verdict_on :: "(obj \<Rightarrow> string) \<Rightarrow> seen \<Rightarrow> string option" where
  "verdict_on judge seen = (case seen of Ok_record _ record \<Rightarrow> Some (judge record) | _ \<Rightarrow> None)"

definition timeoutError :: "seen \<Rightarrow> string option \<Rightarrow> hot_error" where
  "timeoutError seen verdict = (case seen of
     Retry code \<Rightarrow> Timeout_open code
   | Unreadable_record _ \<Rightarrow> Timeout_unreadable
   | Ok_record _ record \<Rightarrow> if verdict = Some ''unknown'' then Timeout_unjudged else Timeout_held (oget record ''pid'')
   | Absent \<Rightarrow> Timeout_held None)"

section \<open>The operations\<close>

text \<open>What a process finds around it in one pass; \<open>pe_stuck\<close>: an unlink meets a sharing violation.\<close>

record pass_env =
  pe_busy :: "string option"
  pe_judge :: "obj \<Rightarrow> string"
  pe_kernelFree :: bool
  pe_stuck :: bool
  pe_late :: bool              \<comment> \<open>the deadline has passed\<close>

definition unlinkRecordIfUnchanged :: "(string \<Rightarrow> jval option) \<Rightarrow> pass_env \<Rightarrow> string \<Rightarrow> string option \<Rightarrow> bool \<times> string option" where
  "unlinkRecordIfUnchanged parse e raw file =
     (if raw_of (readHotRecord parse (pe_busy e) file) \<noteq> Some raw then (False, file)
      else if pe_stuck e then (False, file) else (True, None))"

datatype reclaim = Cleaned | Changed | Busy

text \<open>The second look, under the kernel lock: the same bytes, and still judged dead.\<close>

definition still_dead :: "(string \<Rightarrow> jval option) \<Rightarrow> (obj \<Rightarrow> string) \<Rightarrow> string option \<Rightarrow> string \<Rightarrow> string option \<Rightarrow> bool" where
  "still_dead parse judge busy raw file = (case readHotRecord parse busy file of
     Ok_record raw' record \<Rightarrow> raw' = raw \<and> judge record = ''dead'' | _ \<Rightarrow> False)"

definition reclaimDeadHolder :: "(string \<Rightarrow> jval option) \<Rightarrow> pass_env \<Rightarrow> string \<Rightarrow> string option \<Rightarrow> reclaim \<times> string option" where
  "reclaimDeadHolder parse e raw file =
     (if \<not> pe_kernelFree e then (Busy, file)
      else if \<not> still_dead parse (pe_judge e) (pe_busy e) raw file then (Changed, file)
      else if pe_stuck e then (Changed, file) else (Cleaned, None))"

definition clearHotRecord :: "(string \<Rightarrow> jval option) \<Rightarrow> pass_env \<Rightarrow> string \<Rightarrow> string option \<Rightarrow> bool \<times> string option" where
  "clearHotRecord parse e raw file =
     (if \<not> pe_kernelFree e then (False, file) else unlinkRecordIfUnchanged parse e raw file)"

definition tryLinkRecord :: "string \<Rightarrow> string option \<Rightarrow> bool \<times> string option" where
  "tryLinkRecord recordBytes file = (case file of None \<Rightarrow> (True, Some recordBytes) | Some _ \<Rightarrow> (False, file))"

datatype pass = Linked | Continue | Timed_out hot_error

text \<open>One pass of the loop of \<open>acquireRecord\<close>; nobody else acts within it.\<close>

definition acquire_pass :: "(string \<Rightarrow> jval option) \<Rightarrow> pass_env \<Rightarrow> string \<Rightarrow> string option \<Rightarrow> pass \<times> string option" where
  "acquire_pass parse e recordBytes file = (case tryLinkRecord recordBytes file of
     (True, file') \<Rightarrow> (Linked, file')
   | (False, _) \<Rightarrow>
       (let seen = readHotRecord parse (pe_busy e) file;
            verdict = verdict_on (pe_judge e) seen;
            (reclaimed, file') = (if verdict = Some ''dead'' then reclaimDeadHolder parse e (the (raw_of seen)) file else (Changed, file))
        in if verdict = Some ''dead'' \<and> reclaimed = Cleaned then (Continue, file')
           else if seen = Absent then (Continue, file')
           else if pe_late e then (Timed_out (timeoutError seen verdict), file')
           else (Continue, file')))"

text \<open>The loop over what each pass finds; no value: it is still waiting when they are used up.\<close>

fun acquireRecord :: "(string \<Rightarrow> jval option) \<Rightarrow> pass_env list \<Rightarrow> string \<Rightarrow> string option \<Rightarrow> ((hot_error + unit) \<times> string option) option" where
  "acquireRecord parse [] recordBytes file = None"
| "acquireRecord parse (e # es) recordBytes file = (case acquire_pass parse e recordBytes file of
     (Linked, file') \<Rightarrow> Some (Inr (), file')
   | (Timed_out err, file') \<Rightarrow> Some (Inl err, file')
   | (Continue, file') \<Rightarrow> acquireRecord parse es recordBytes file')"

text \<open>Five tries; the list says which of them meet a sharing violation.\<close>

fun release_tries :: "nat \<Rightarrow> bool list \<Rightarrow> string option \<Rightarrow> hot_error option \<times> string option" where
  "release_tries 0 stuck file = (Some Release_stuck, file)"
| "release_tries (Suc n) stuck file = (case file of
     None \<Rightarrow> (None, None)
   | Some _ \<Rightarrow> (case stuck of True # rest \<Rightarrow> release_tries n rest file | _ \<Rightarrow> (None, None)))"

definition releaseRecord :: "bool list \<Rightarrow> string option \<Rightarrow> hot_error option \<times> string option" where
  "releaseRecord stuck file = release_tries 5 stuck file"

lemma read_cases:
  "readHotRecord parse busy file = Ok_record raw record \<longleftrightarrow> file = Some raw \<and> busy = None \<and> record_of (parse raw) = Some record"
  "raw_of (readHotRecord parse busy file) = Some raw \<longleftrightarrow> file = Some raw \<and> busy = None"
  "readHotRecord parse busy file = Absent \<longleftrightarrow> file = None"
  by (auto simp: readHotRecord_def raw_of_def split: option.splits)

lemma verdict_dead: "verdict_on judge seen = Some v \<longleftrightarrow> (\<exists>raw record. seen = Ok_record raw record \<and> judge record = v)"
  by (auto simp: verdict_on_def split: seen.splits)

text \<open>A record that is not judged dead is never touched, however long the wait; and the wait ends at the deadline.\<close>

lemma pass_waits:
  assumes "\<And>record. record_of (parse raw) = Some record \<Longrightarrow> pe_judge e record \<noteq> ''dead''"
  shows "acquire_pass parse e bytes (Some raw) = (if pe_late e
      then Timed_out (timeoutError (readHotRecord parse (pe_busy e) (Some raw)) (verdict_on (pe_judge e) (readHotRecord parse (pe_busy e) (Some raw))))
      else Continue, Some raw)"
proof -
  have "verdict_on (pe_judge e) (readHotRecord parse (pe_busy e) (Some raw)) \<noteq> Some ''dead''"
    using assms by (auto simp: verdict_dead read_cases)
  then show ?thesis by (simp add: acquire_pass_def tryLinkRecord_def read_cases Let_def)
qed

lemma wait_keeps_record:
  assumes "\<And>e record. e \<in> set es \<Longrightarrow> record_of (parse raw) = Some record \<Longrightarrow> pe_judge e record \<noteq> ''dead''"
  shows "acquireRecord parse es bytes (Some raw) = None \<and> list_all (\<lambda>e. \<not> pe_late e) es
    \<or> (\<exists>err. acquireRecord parse es bytes (Some raw) = Some (Inl err, Some raw) \<and> list_ex pe_late es)"
  using assms
proof (induction es)
  case (Cons e es)
  have "acquire_pass parse e bytes (Some raw) = (if pe_late e
      then Timed_out (timeoutError (readHotRecord parse (pe_busy e) (Some raw)) (verdict_on (pe_judge e) (readHotRecord parse (pe_busy e) (Some raw))))
      else Continue, Some raw)"
    by (rule pass_waits) (use Cons.prems in auto)
  with Cons show ?case by (cases "pe_late e") auto
qed simp

text \<open>A record whose holder is judged dead is cleaned in one pass, and the next one links.\<close>

lemma dead_is_replaced:
  assumes "record_of (parse raw) = Some record" "pe_judge e record = ''dead''" "pe_busy e = None" "pe_kernelFree e" "\<not> pe_stuck e"
  shows "acquireRecord parse (e # e' # es) bytes (Some raw) = Some (Inr (), Some bytes)"
proof -
  have "readHotRecord parse None (Some raw) = Ok_record raw record" using assms(1) by (simp add: read_cases)
  then have "acquire_pass parse e bytes (Some raw) = (Continue, None)"
    using assms by (simp add: acquire_pass_def tryLinkRecord_def verdict_on_def reclaimDeadHolder_def still_dead_def raw_of_def Let_def)
  then show ?thesis by (simp add: acquire_pass_def tryLinkRecord_def)
qed

section \<open>The protocol\<close>

text \<open>
  Where a process is: outside, in the loop of an acquire, with a dead record to reclaim, under the kernel lock
  (checking a record that was judged dead, or one a person confirmed), about to unlink, done with it, inside
  the critical section, or ended. \<open>Unlinking\<close> and \<open>Unlinked\<close> carry where the process goes on.
\<close>

datatype place =
    Outside
  | Linking
  | Looking
  | Looked seen
  | Reclaiming string
  | Checking string
  | Confirming string
  | Unlinking place
  | Unlinked place
  | Inside
  | Ended

text \<open>The record on disk with the process that wrote it, the holder of the kernel lock, and the processes.\<close>

record hot_state =
  ho_file :: "(string \<times> nat) option"
  ho_kernel :: "nat option"
  ho_place :: "nat \<Rightarrow> place"

definition on_disk :: "hot_state \<Rightarrow> string option" where
  "on_disk s = map_option fst (ho_file s)"

definition at :: "nat \<Rightarrow> place \<Rightarrow> hot_state \<Rightarrow> hot_state" where
  "at p pl s = s\<lparr>ho_place := (ho_place s)(p := pl)\<rparr>"

text \<open>
  \<open>texts p\<close> are the records process \<open>p\<close> writes (one per writer identity). A judgement is sound when it calls
  the record of a process dead only after the process ended.
\<close>

definition sound_judgement :: "(nat \<Rightarrow> string set) \<Rightarrow> (string \<Rightarrow> jval option) \<Rightarrow> (obj \<Rightarrow> string) \<Rightarrow> hot_state \<Rightarrow> bool" where
  "sound_judgement texts parse judge s = (\<forall>p raw record. raw \<in> texts p \<longrightarrow> record_of (parse raw) = Some record \<longrightarrow>
     judge record = ''dead'' \<longrightarrow> ho_place s p = Ended)"

inductive hot_step :: "(nat \<Rightarrow> string set) \<Rightarrow> (string \<Rightarrow> jval option) \<Rightarrow> hot_state \<Rightarrow> hot_state \<Rightarrow> bool" for texts parse where
  enter: "ho_place s p = Outside \<Longrightarrow> hot_step texts parse s (at p Linking s)"
| link: "ho_place s p = Linking \<Longrightarrow> ho_file s = None \<Longrightarrow> raw \<in> texts p \<Longrightarrow>
     hot_step texts parse s ((at p Inside s)\<lparr>ho_file := Some (raw, p)\<rparr>)"
| taken: "ho_place s p = Linking \<Longrightarrow> ho_file s \<noteq> None \<Longrightarrow> hot_step texts parse s (at p Looking s)"
| look: "ho_place s p = Looking \<Longrightarrow> hot_step texts parse s (at p (Looked (readHotRecord parse busy (on_disk s))) s)"
| dead: "ho_place s p = Looked seen \<Longrightarrow> sound_judgement texts parse judge s \<Longrightarrow> verdict_on judge seen = Some ''dead'' \<Longrightarrow>
     hot_step texts parse s (at p (Reclaiming (the (raw_of seen))) s)"
| wait: "ho_place s p = Looked seen \<Longrightarrow> hot_step texts parse s (at p Linking s)"
| time_out: "ho_place s p \<in> {Linking, Looking} \<union> range Looked \<union> range Reclaiming \<Longrightarrow> hot_step texts parse s (at p Outside s)"
| kernel_busy: "ho_place s p = Reclaiming raw \<Longrightarrow> hot_step texts parse s (at p Linking s)"
| kernel: "ho_place s p = Reclaiming raw \<Longrightarrow> ho_kernel s = None \<Longrightarrow>
     hot_step texts parse s ((at p (Checking raw) s)\<lparr>ho_kernel := Some p\<rparr>)"
| fence: "ho_place s p = Outside \<Longrightarrow> ho_kernel s = None \<Longrightarrow> \<forall>q. raw \<in> texts q \<longrightarrow> ho_place s q = Ended \<Longrightarrow>
     hot_step texts parse s ((at p (Confirming raw) s)\<lparr>ho_kernel := Some p\<rparr>)"
| check: "ho_place s p = Checking raw \<Longrightarrow> sound_judgement texts parse judge s \<Longrightarrow> still_dead parse judge busy raw (on_disk s) \<Longrightarrow>
     hot_step texts parse s (at p (Unlinking Linking) s)"
| check_fails: "ho_place s p = Checking raw \<Longrightarrow> hot_step texts parse s (at p (Unlinked Linking) s)"
| confirm: "ho_place s p = Confirming raw \<Longrightarrow> raw_of (readHotRecord parse busy (on_disk s)) = Some raw \<Longrightarrow>
     hot_step texts parse s (at p (Unlinking Outside) s)"
| confirm_fails: "ho_place s p = Confirming raw \<Longrightarrow> hot_step texts parse s (at p (Unlinked Outside) s)"
| unlink: "ho_place s p = Unlinking pl \<Longrightarrow> hot_step texts parse s ((at p (Unlinked pl) s)\<lparr>ho_file := None\<rparr>)"
| unlink_stuck: "ho_place s p = Unlinking pl \<Longrightarrow> hot_step texts parse s (at p (Unlinked pl) s)"
| kernel_release: "ho_place s p = Unlinked pl \<Longrightarrow> pl \<in> {Linking, Outside} \<Longrightarrow>
     hot_step texts parse s ((at p pl s)\<lparr>ho_kernel := None\<rparr>)"
| leave: "ho_place s p = Inside \<Longrightarrow> hot_step texts parse s ((at p Outside s)\<lparr>ho_file := None\<rparr>)"
| leave_stuck: "ho_place s p = Inside \<Longrightarrow> hot_step texts parse s (at p Outside s)"
| crash: "hot_step texts parse s ((at p Ended s)\<lparr>ho_kernel := if ho_kernel s = Some p then None else ho_kernel s\<rparr>)"

inductive hot_reachable :: "(nat \<Rightarrow> string set) \<Rightarrow> (string \<Rightarrow> jval option) \<Rightarrow> hot_state \<Rightarrow> bool" for texts parse where
  start: "\<forall>p. pls p \<in> {Outside, Ended} \<Longrightarrow> (case file of None \<Rightarrow> True | Some (raw, p) \<Rightarrow> raw \<in> texts p) \<Longrightarrow>
     hot_reachable texts parse \<lparr>ho_file = file, ho_kernel = None, ho_place = pls\<rparr>"
| move: "hot_reachable texts parse s \<Longrightarrow> hot_step texts parse s s' \<Longrightarrow> hot_reachable texts parse s'"

section \<open>Mutual exclusion\<close>

definition under_kernel :: "place \<Rightarrow> bool" where
  "under_kernel pl = (pl \<in> range Checking \<union> range Confirming \<union> range Unlinking \<union> range Unlinked)"

definition hot_inv :: "(nat \<Rightarrow> string set) \<Rightarrow> hot_state \<Rightarrow> bool" where
  "hot_inv texts s =
     ((\<forall>raw q. ho_file s = Some (raw, q) \<longrightarrow> raw \<in> texts q)
      \<and> (\<forall>p. ho_place s p = Inside \<longrightarrow> (\<exists>raw. ho_file s = Some (raw, p)))
      \<and> (\<forall>p. under_kernel (ho_place s p) \<longrightarrow> ho_kernel s = Some p)
      \<and> (\<forall>p raw q. ho_place s p = Confirming raw \<longrightarrow> raw \<in> texts q \<longrightarrow> ho_place s q = Ended)
      \<and> (\<forall>p pl. ho_place s p = Unlinking pl \<longrightarrow> (\<exists>raw q. ho_file s = Some (raw, q) \<and> ho_place s q = Ended)))"

lemma hot_invD:
  assumes "hot_inv texts s"
  shows "ho_file s = Some (raw, q) \<Longrightarrow> raw \<in> texts q"
    "ho_place s p = Inside \<Longrightarrow> \<exists>raw. ho_file s = Some (raw, p)"
    "under_kernel (ho_place s p) \<Longrightarrow> ho_kernel s = Some p"
    "ho_place s p = Confirming raw \<Longrightarrow> raw \<in> texts q \<Longrightarrow> ho_place s q = Ended"
    "ho_place s p = Unlinking pl \<Longrightarrow> \<exists>raw q. ho_file s = Some (raw, q) \<and> ho_place s q = Ended"
  using assms unfolding hot_inv_def by blast+

lemma under_kernel_simps [simp]:
  "under_kernel (Checking r)" "under_kernel (Confirming r)" "under_kernel (Unlinking pl)" "under_kernel (Unlinked pl)"
  "\<not> under_kernel Outside" "\<not> under_kernel Linking" "\<not> under_kernel Looking" "\<not> under_kernel (Looked sn)"
  "\<not> under_kernel (Reclaiming r)" "\<not> under_kernel Inside" "\<not> under_kernel Ended"
  by (auto simp: under_kernel_def)

lemma at_parts [simp]:
  "ho_place (at p pl s) = (ho_place s)(p := pl)" "ho_file (at p pl s) = ho_file s" "ho_kernel (at p pl s) = ho_kernel s"
  by (simp_all add: at_def)

text \<open>A record that was seen dead under the kernel lock belongs to a process that ended.\<close>

lemma seen_dead:
  assumes "still_dead parse judge busy raw (on_disk s)" "sound_judgement texts parse judge s" "hot_inv texts s"
  shows "\<exists>q. ho_file s = Some (raw, q) \<and> ho_place s q = Ended"
proof -
  obtain ob where r: "readHotRecord parse busy (on_disk s) = Ok_record raw ob" "judge ob = ''dead''"
    using assms(1) by (auto simp: still_dead_def split: seen.splits)
  then obtain q where q: "ho_file s = Some (raw, q)" "record_of (parse raw) = Some ob"
    by (auto simp: read_cases on_disk_def)
  then have "raw \<in> texts q" using assms(3) by (simp add: hot_inv_def)
  with q r(2) assms(2) show ?thesis by (auto simp: sound_judgement_def)
qed

text \<open>A move of one process that changes the kernel lock at most.\<close>

lemma hot_inv_at:
  assumes inv: "hot_inv texts s" and pl: "ho_place s p \<noteq> Ended \<or> pl = Ended" "pl \<noteq> Inside" "\<And>pl'. pl \<noteq> Unlinking pl'"
    and conf: "\<And>raw q. pl = Confirming raw \<Longrightarrow> raw \<in> texts q \<Longrightarrow> ho_place s q = Ended"
    and kernel: "under_kernel pl \<Longrightarrow> k = Some p" "\<And>q. q \<noteq> p \<Longrightarrow> under_kernel (ho_place s q) \<Longrightarrow> k = Some q"
  shows "hot_inv texts ((at p pl s)\<lparr>ho_kernel := k\<rparr>)"
proof -
  let ?s = "(at p pl s)\<lparr>ho_kernel := k\<rparr>"
  have c: "ho_place s q = Ended \<Longrightarrow> ho_place ?s q = Ended" for q using pl(1) by auto
  show ?thesis
    unfolding hot_inv_def
  proof (intro conjI allI impI)
    fix raw q assume "ho_file ?s = Some (raw, q)"
    then show "raw \<in> texts q" using hot_invD(1)[OF inv] by simp
  next
    fix q assume "ho_place ?s q = Inside"
    then show "\<exists>raw. ho_file ?s = Some (raw, q)" using hot_invD(2)[OF inv] pl(2) by (simp split: if_splits)
  next
    fix q assume "under_kernel (ho_place ?s q)"
    then show "ho_kernel ?s = Some q" using kernel by (cases "q = p") simp_all
  next
    fix q raw q' assume "ho_place ?s q = Confirming raw" "raw \<in> texts q'"
    then have "ho_place s q' = Ended" using hot_invD(4)[OF inv] conf by (cases "q = p") simp_all
    then show "ho_place ?s q' = Ended" by (rule c)
  next
    fix q pl' assume "ho_place ?s q = Unlinking pl'"
    then have "ho_place s q = Unlinking pl'" using pl(3) by (cases "q = p") simp_all
    from hot_invD(5)[OF inv this] obtain raw q' where "ho_file s = Some (raw, q')" "ho_place s q' = Ended" by blast
    with c[of q'] show "\<exists>raw q'. ho_file ?s = Some (raw, q') \<and> ho_place ?s q' = Ended"
      by (intro exI[of _ raw] exI[of _ q']) simp
  qed
qed

lemma hot_inv_place:
  assumes "hot_inv texts s" "ho_place s p \<noteq> Ended" "pl \<noteq> Inside" "\<And>pl'. pl \<noteq> Unlinking pl'" "\<And>raw. pl \<noteq> Confirming raw"
    and "under_kernel pl \<Longrightarrow> under_kernel (ho_place s p)"
  shows "hot_inv texts (at p pl s)"
proof -
  have "hot_inv texts ((at p pl s)\<lparr>ho_kernel := ho_kernel s\<rparr>)"
    using assms hot_invD(3)[OF assms(1)] by (intro hot_inv_at) auto
  then show ?thesis by (simp add: at_def)
qed

text \<open>The record goes: nobody else is inside, and nobody else is about to unlink.\<close>

lemma hot_inv_no_file:
  assumes "hot_inv texts s" "\<And>q. ho_place s q \<noteq> Inside" "\<And>q pl. ho_place s q \<noteq> Unlinking pl"
  shows "hot_inv texts (s\<lparr>ho_file := None\<rparr>)"
  using assms(1) unfolding hot_inv_def by (simp add: assms(2,3))

lemma hot_inv_unlinking:
  assumes "hot_inv texts s" "under_kernel (ho_place s p)" "ho_file s = Some (raw, q)" "ho_place s q = Ended"
  shows "hot_inv texts (at p (Unlinking pl) s)"
proof -
  have "p \<noteq> q" using assms(2,4) by auto
  with assms(3,4) have u: "\<exists>raw q. ho_file s = Some (raw, q) \<and> ho_place (at p (Unlinking pl) s) q = Ended" by simp
  have c: "ho_place s q' = Ended \<Longrightarrow> ho_place (at p (Unlinking pl) s) q' = Ended" for q' using assms(2) by auto
  show ?thesis
    unfolding hot_inv_def at_parts(2,3)
  proof (intro conjI allI impI)
    fix p' assume "ho_place (at p (Unlinking pl) s) p' = Inside"
    then show "\<exists>raw. ho_file s = Some (raw, p')" using hot_invD(2)[OF assms(1)] by (simp split: if_splits)
  next
    fix p' assume "under_kernel (ho_place (at p (Unlinking pl) s) p')"
    then show "ho_kernel s = Some p'" using hot_invD(3)[OF assms(1), of p] hot_invD(3)[OF assms(1), of p'] assms(2)
      by (cases "p' = p") simp_all
  next
    fix p' raw' q' assume "ho_place (at p (Unlinking pl) s) p' = Confirming raw'" "raw' \<in> texts q'"
    then show "ho_place (at p (Unlinking pl) s) q' = Ended" using hot_invD(4)[OF assms(1)] by (intro c) (simp split: if_splits)
  qed (use hot_invD(1)[OF assms(1)] u in blast)+
qed

lemma hot_inv_step:
  assumes "hot_step texts parse s s'" "hot_inv texts s"
  shows "hot_inv texts s'"
  using assms(1)
proof cases
  case (check p raw judge busy)
  obtain q where "ho_file s = Some (raw, q)" "ho_place s q = Ended" using seen_dead[OF check(4,3) assms(2)] by blast
  with assms(2) check(2) show ?thesis unfolding check(1) by (intro hot_inv_unlinking) simp_all
next
  case (confirm p raw busy)
  obtain q where q: "ho_file s = Some (raw, q)" using confirm(3) by (auto simp: read_cases on_disk_def)
  have "ho_place s q = Ended" using hot_invD(4)[OF assms(2) confirm(2)] hot_invD(1)[OF assms(2) q] .
  with q assms(2) confirm(2) show ?thesis unfolding confirm(1) by (intro hot_inv_unlinking) simp_all
next
  case (link p raw)
  have others: "ho_place s q \<noteq> Inside" "ho_place s q \<noteq> Unlinking pl" for q pl
    using hot_invD(2)[OF assms(2), of q] hot_invD(5)[OF assms(2), of q pl] link(3) by auto
  moreover have "ho_place s q = Confirming r \<Longrightarrow> r \<notin> texts p" for q r
    using hot_invD(4)[OF assms(2), of q r p] link(2) by auto
  ultimately show ?thesis using assms(2) link(2,4) unfolding link(1) hot_inv_def by auto
next
  case (unlink p pl)
  obtain raw q where q: "ho_file s = Some (raw, q)" "ho_place s q = Ended" using hot_invD(5)[OF assms(2) unlink(2)] by blast
  have k: "ho_kernel s = Some p" using hot_invD(3)[OF assms(2), of p] unlink(2) by simp
  have "hot_inv texts (at p (Unlinked pl) s)" by (rule hot_inv_place[OF assms(2)]) (simp_all add: unlink(2))
  moreover have "ho_place (at p (Unlinked pl) s) q' \<noteq> Inside" for q' using hot_invD(2)[OF assms(2), of q'] q by auto
  moreover have "ho_place (at p (Unlinked pl) s) q' \<noteq> Unlinking pl'" for q' pl'
    using hot_invD(3)[OF assms(2), of q'] k by auto
  ultimately show ?thesis unfolding unlink(1) by (rule hot_inv_no_file)
next
  case (leave p)
  obtain raw where r: "ho_file s = Some (raw, p)" using hot_invD(2)[OF assms(2) leave(2)] by blast
  have "hot_inv texts (at p Outside s)" by (rule hot_inv_place[OF assms(2)]) (simp_all add: leave(2))
  moreover have "ho_place (at p Outside s) q \<noteq> Inside" for q using hot_invD(2)[OF assms(2), of q] r by auto
  moreover have "ho_place (at p Outside s) q \<noteq> Unlinking pl" for q pl
    using hot_invD(5)[OF assms(2), of q pl] r leave(2) by auto
  ultimately show ?thesis unfolding leave(1) by (rule hot_inv_no_file)
next
  case (kernel p raw)
  then show ?thesis using hot_invD(3)[OF assms(2)] unfolding kernel(1) by (intro hot_inv_at[OF assms(2)]) auto
next
  case (fence p raw)
  then show ?thesis using hot_invD(3)[OF assms(2)] unfolding fence(1) by (intro hot_inv_at[OF assms(2)]) auto
next
  case (kernel_release p pl)
  then show ?thesis using hot_invD(3)[OF assms(2)] hot_invD(3)[OF assms(2), of p]
    unfolding kernel_release(1) by (intro hot_inv_at[OF assms(2)]) auto
next
  case (crash p)
  show ?thesis unfolding crash(1) by (rule hot_inv_at[OF assms(2)]) (use hot_invD(3)[OF assms(2)] in auto)
qed (simp_all only:, (rule hot_inv_place[OF assms(2)]; auto)+)

lemma hot_inv_reachable: "hot_reachable texts parse s \<Longrightarrow> hot_inv texts s"
proof (induction rule: hot_reachable.induct)
  case (start pls fl)
  have "\<not> under_kernel (pls p)" "pls p \<noteq> Inside" "\<And>r. pls p \<noteq> Confirming r" "\<And>pl. pls p \<noteq> Unlinking pl" for p
    using start(1)[rule_format, of p] by auto
  with start(2) show ?case by (auto simp: hot_inv_def split: option.splits prod.splits)
qed (rule hot_inv_step)

lemma inside_unique:
  assumes "hot_reachable texts parse s" "ho_place s p = Inside" "ho_place s q = Inside"
  shows "p = q"
  using hot_invD(2)[OF hot_inv_reachable[OF assms(1)] assms(2)] hot_invD(2)[OF hot_inv_reachable[OF assms(1)] assms(3)] by auto

lemma step_keeps_record:
  assumes "hot_step texts parse s s'" "hot_inv texts s" "ho_place s p = Inside" "ho_place s' p = Inside"
  shows "ho_file s' = ho_file s"
proof -
  obtain raw where raw: "ho_file s = Some (raw, p)" using hot_invD(2)[OF assms(2,3)] by blast
  from assms(1) show ?thesis
  proof cases
    case (unlink q pl)
    then obtain raw' q' where "ho_file s = Some (raw', q')" "ho_place s q' = Ended" using hot_invD(5)[OF assms(2)] by blast
    with raw assms(3) show ?thesis by simp
  next
    case (leave q)
    then have "q = p" using hot_invD(2)[OF assms(2), of q] raw by auto
    with leave assms(4) show ?thesis by simp
  qed (use raw in simp_all)
qed

section \<open>What the mutex gives a transaction\<close>

text \<open>
  The contract the transactions rest on: reachable states have one process inside at most. The other processes
  act while one stays inside: the mutex moves, and whoever is inside may change the files.
\<close>

inductive others_act :: "('s \<Rightarrow> 's \<Rightarrow> bool) \<Rightarrow> ('s \<Rightarrow> nat \<Rightarrow> bool) \<Rightarrow> nat \<Rightarrow> 's \<times> 'd \<Rightarrow> 's \<times> 'd \<Rightarrow> bool" for step inside p where
  moves: "step s s' \<Longrightarrow> inside s' p \<Longrightarrow> others_act step inside p (s, d) (s', d)"
| writes: "inside s q \<Longrightarrow> q \<noteq> p \<Longrightarrow> others_act step inside p (s, d) (s, d')"

locale exclusive_section =
  fixes step :: "'s \<Rightarrow> 's \<Rightarrow> bool" and reach :: "'s \<Rightarrow> bool" and inside :: "'s \<Rightarrow> nat \<Rightarrow> bool"
  assumes one_inside: "reach s \<Longrightarrow> inside s p \<Longrightarrow> inside s q \<Longrightarrow> p = q"
    and stays_reachable: "reach s \<Longrightarrow> step s s' \<Longrightarrow> reach s'"
begin

lemma files_stand_still:
  "(others_act step inside p)\<^sup>*\<^sup>* c c' \<Longrightarrow> reach (fst c) \<Longrightarrow> inside (fst c) p \<Longrightarrow>
     snd c' = snd c \<and> reach (fst c') \<and> inside (fst c') p"
proof (induction rule: rtranclp_induct)
  case (step x y)
  then have x: "snd x = snd c" "reach (fst x)" "inside (fst x) p" by auto
  from step(2) x show ?case
    by (cases rule: others_act.cases) (auto dest: one_inside stays_reachable)
qed simp

end

interpretation hot: exclusive_section "hot_step texts parse" "hot_reachable texts parse" "\<lambda>s p. ho_place s p = Inside" for texts parse
  by unfold_locales (auto intro: inside_unique hot_reachable.move)

end
