(* ===== verification/State_Tx.thy ===== *)
theory State_Tx
  imports Hot_Lock "HOL-Library.List_Lexorder" "HOL-Library.Char_ord"
begin

text \<open>
  The transaction of \<open>src/state/hot-lock.mjs\<close> (\<open>createTx\<close>, \<open>withStateTx\<close>): what a callback does inside the
  mutex goes through one object, which either applies each write at once or stages all of them until the
  consumer has acknowledged the events. A resolved path is the list of its segments, the files a map from paths
  to texts; directories are implicit, and no path is both a file and a directory. The callback is a program
  over the operations that may look at every result, an error included, before it goes on.
\<close>

section \<open>Files\<close>

type_synonym path = "string list"
type_synonym files = "(path \<times> string) list"

text \<open>\<open>path.relative\<close> neither empty nor starting with two dots.\<close>

definition underDir :: "path \<Rightarrow> path \<Rightarrow> bool" where
  "underDir dir target = (let rest = drop (length dir) target in
     take (length dir) target = dir \<and> rest \<noteq> [] \<and> take 2 (hd rest) \<noteq> ''..'')"

definition read_at :: "files \<Rightarrow> path \<Rightarrow> string option" where
  "read_at fs p = map_of fs p"

definition write_at :: "path \<Rightarrow> string \<Rightarrow> files \<Rightarrow> files" where
  "write_at p text fs = AList.update p text fs"

definition remove_at :: "path \<Rightarrow> files \<Rightarrow> files" where
  "remove_at p fs = AList.delete p fs"

definition files_in :: "path \<Rightarrow> files \<Rightarrow> string list" where
  "files_in dir fs = map last (filter (\<lambda>p. p \<noteq> [] \<and> butlast p = dir) (map fst fs))"

lemma read_simps [simp]:
  "read_at (write_at p t fs) q = (if q = p then Some t else read_at fs q)"
  "read_at (remove_at p fs) q = (if q = p then None else read_at fs q)"
  by (auto simp: read_at_def write_at_def remove_at_def update_conv' delete_conv')

datatype effect = Write path string | Rename path path | Unlink path

fun apply_effect :: "effect \<Rightarrow> files \<Rightarrow> hot_error + files" where
  "apply_effect (Write p text) fs = Inr (write_at p text fs)"
| "apply_effect (Rename from to) fs = (case read_at fs from of
     None \<Rightarrow> Inl Not_found
   | Some text \<Rightarrow> Inr (write_at to text (remove_at from fs)))"
| "apply_effect (Unlink p) fs = Inr (remove_at p fs)"

fun apply_effects :: "effect list \<Rightarrow> files \<Rightarrow> (hot_error option) \<times> files" where
  "apply_effects [] fs = (None, fs)"
| "apply_effects (e # es) fs = (case apply_effect e fs of
     Inl err \<Rightarrow> (Some err, fs)
   | Inr fs' \<Rightarrow> apply_effects es fs')"

section \<open>The transaction object\<close>

record tx_config =
  tc_roots :: "path list"        \<comment> \<open>\<open>fgosDir\<close> and the extra roots\<close>
  tc_readRoots :: "path list"
  tc_stageEffects :: bool
  tc_consumer :: bool            \<comment> \<open>a consumer commits the events\<close>

text \<open>\<open>tx_staged\<close>: the text a staged path has, or that it is gone. An event is its type and payload.\<close>

record tx_state =
  tx_live :: bool
  tx_staging :: bool
  tx_staged :: "(path \<times> string option) list"
  tx_effects :: "effect list"
  tx_events :: "(string \<times> jval) list"

definition createTx :: "tx_config \<Rightarrow> tx_state" where
  "createTx cf = \<lparr>tx_live = True, tx_staging = tc_stageEffects cf, tx_staged = [], tx_effects = [], tx_events = []\<rparr>"

definition guard :: "tx_config \<Rightarrow> tx_state \<Rightarrow> path option \<Rightarrow> bool \<Rightarrow> hot_error option" where
  "guard cf tx target reading =
     (if \<not> tx_live tx then Some Tx_revoked
      else case target of
        None \<Rightarrow> None
      | Some p \<Rightarrow> if list_ex (\<lambda>root. underDir root p) (tc_roots cf @ (if reading then tc_readRoots cf else [])) then None
                  else Some Tx_path_outside)"

datatype tx_op =
    Append "string option" jval     \<comment> \<open>the type when it is a string, and the payload\<close>
  | WriteText path string
  | ReadText path
  | Exists path
  | ListDir path
  | RenameTo path path
  | UnlinkAt path

datatype tx_value = Done | Event string jval | Text string | Flag bool | Names "string list"

type_synonym tx_result = "hot_error + tx_value"

definition stage :: "path \<Rightarrow> string option \<Rightarrow> tx_state \<Rightarrow> tx_state" where
  "stage p text tx = (if tx_staging tx then tx\<lparr>tx_staged := AList.update p text (tx_staged tx)\<rparr> else tx)"

text \<open>\<open>effect\<close>: kept for the commit, or applied at once.\<close>

definition perform :: "effect \<Rightarrow> tx_state \<Rightarrow> files \<Rightarrow> (hot_error + unit) \<times> tx_state \<times> files" where
  "perform e tx fs = (if tx_staging tx then (Inr (), tx\<lparr>tx_effects := tx_effects tx @ [e]\<rparr>, fs)
     else case apply_effect e fs of Inl err \<Rightarrow> (Inl err, tx, fs) | Inr fs' \<Rightarrow> (Inr (), tx, fs'))"

definition look_up :: "tx_state \<Rightarrow> files \<Rightarrow> path \<Rightarrow> string option" where
  "look_up tx fs p = (if tx_staging tx then (case map_of (tx_staged tx) p of Some t \<Rightarrow> t | None \<Rightarrow> read_at fs p) else read_at fs p)"

text \<open>The names \<open>list\<close> answers: those on disk, changed by what is staged directly inside the directory; sorted.\<close>

definition listed_names :: "tx_state \<Rightarrow> files \<Rightarrow> path \<Rightarrow> string list" where
  "listed_names tx fs dir =
     (let names = (if tx_staging tx
        then fold (\<lambda>(p, text) ns. if p \<noteq> [] \<and> butlast p = dir
               then (if text = None then removeAll (last p) ns else List.insert (last p) ns) else ns) (tx_staged tx) (remdups (files_in dir fs))
        else remdups (files_in dir fs))
      in sort names)"

text \<open>One call on the transaction object. The time stamp of an event is left out.\<close>

fun run_op :: "tx_config \<Rightarrow> tx_op \<Rightarrow> tx_state \<Rightarrow> files \<Rightarrow> tx_result \<times> tx_state \<times> files" where
  "run_op cf (Append ty payload) tx fs = (case guard cf tx None False of
     Some err \<Rightarrow> (Inl err, tx, fs)
   | None \<Rightarrow> if \<not> tx_staging tx \<or> \<not> tc_consumer cf then (Inl Tx_consumer_required, tx, fs)
       else (case ty of
           Some t \<Rightarrow> if trim t = [] then (Inl Tx_event_type, tx, fs)
             else (Inr (Event (trim t) payload), tx\<lparr>tx_events := tx_events tx @ [(trim t, payload)]\<rparr>, fs)
         | None \<Rightarrow> (Inl Tx_event_type, tx, fs)))"
| "run_op cf (WriteText p text) tx fs = (case guard cf tx (Some p) False of
     Some err \<Rightarrow> (Inl err, tx, fs)
   | None \<Rightarrow> (case perform (Write p text) (stage p (Some text) tx) fs of
       (Inl err, tx', fs') \<Rightarrow> (Inl err, tx', fs') | (Inr _, tx', fs') \<Rightarrow> (Inr Done, tx', fs')))"
| "run_op cf (ReadText p) tx fs = (case guard cf tx (Some p) True of
     Some err \<Rightarrow> (Inl err, tx, fs)
   | None \<Rightarrow> (case look_up tx fs p of None \<Rightarrow> (Inl Not_found, tx, fs) | Some text \<Rightarrow> (Inr (Text text), tx, fs)))"
| "run_op cf (Exists p) tx fs = (case guard cf tx (Some p) True of
     Some err \<Rightarrow> (Inl err, tx, fs) | None \<Rightarrow> (Inr (Flag (look_up tx fs p \<noteq> None)), tx, fs))"
| "run_op cf (ListDir p) tx fs = (case guard cf tx (Some p) True of
     Some err \<Rightarrow> (Inl err, tx, fs) | None \<Rightarrow> (Inr (Names (listed_names tx fs p)), tx, fs))"
| "run_op cf (RenameTo from to) tx fs = (case guard cf tx (Some from) False of
     Some err \<Rightarrow> (Inl err, tx, fs)
   | None \<Rightarrow> (case guard cf tx (Some to) False of
       Some err \<Rightarrow> (Inl err, tx, fs)
     | None \<Rightarrow> if tx_staging tx \<and> look_up tx fs from = None then (Inl Not_found, tx, fs)
         else (let tx1 = (case look_up tx fs from of
                  Some text \<Rightarrow> stage to (Some text) (stage from None tx) | None \<Rightarrow> tx)
               in case perform (Rename from to) tx1 fs of
                 (Inl err, tx', fs') \<Rightarrow> (Inl err, tx', fs') | (Inr _, tx', fs') \<Rightarrow> (Inr Done, tx', fs'))))"
| "run_op cf (UnlinkAt p) tx fs = (case guard cf tx (Some p) False of
     Some err \<Rightarrow> (Inl err, tx, fs)
   | None \<Rightarrow> (let existed = look_up tx fs p \<noteq> None
       in case perform (Unlink p) (stage p None tx) fs of
         (Inl err, tx', fs') \<Rightarrow> (Inl err, tx', fs') | (Inr _, tx', fs') \<Rightarrow> (Inr (Flag existed), tx', fs')))"

text \<open>A callback: it returns, returns a promise, throws, or makes a call and goes on with what that answers.\<close>

datatype 'a tx_prog = Return 'a | Return_promise | Throw hot_error | Call tx_op "tx_result \<Rightarrow> 'a tx_prog"

primrec run_prog :: "tx_config \<Rightarrow> 'a tx_prog \<Rightarrow> tx_state \<Rightarrow> files \<Rightarrow> (hot_error + 'a) \<times> tx_state \<times> files" where
  "run_prog cf (Return x) = (\<lambda>tx fs. (Inr x, tx, fs))"
| "run_prog cf Return_promise = (\<lambda>tx fs. (Inl Tx_async, tx, fs))"
| "run_prog cf (Throw err) = (\<lambda>tx fs. (Inl err, tx, fs))"
| "run_prog cf (Call op k) = (\<lambda>tx fs. case run_op cf op tx fs of (r, tx', fs') \<Rightarrow> run_prog cf (k r) tx' fs')"

text \<open>
  \<open>commit\<close>: the consumer acknowledges the events (the error it throws, and whether the batch is durable), the
  effects are applied in their order, and the consumer may write more. Nothing of it without staging.
\<close>

type_synonym consumer = "(string \<times> jval) list \<Rightarrow> hot_error option \<times> bool"

definition commit_tx ::
  "tx_config \<Rightarrow> consumer \<Rightarrow> (files \<Rightarrow> hot_error option \<times> files) \<Rightarrow> tx_state \<Rightarrow> files \<Rightarrow> hot_error option \<times> files" where
  "commit_tx cf commitEvents afterApply tx fs =
     (if \<not> tc_stageEffects cf then (None, fs)
      else let (refusal, acked) = (if tc_consumer cf then commitEvents (tx_events tx) else (None, False));
               failed = (\<lambda>cause. Some (if acked then Acked_incomplete cause else cause))
        in case refusal of
             Some cause \<Rightarrow> (failed cause, fs)
           | None \<Rightarrow> (case apply_effects (tx_effects tx) fs of
               (Some cause, fs1) \<Rightarrow> (failed cause, fs1)
             | (None, fs1) \<Rightarrow> (case afterApply fs1 of
                 (Some cause, fs2) \<Rightarrow> (failed cause, fs2)
               | (None, fs2) \<Rightarrow> (None, fs2))))"

text \<open>What a transaction leaves: its result, the files, the record of the mutex, and a release that failed.\<close>

record 'a tx_outcome =
  to_result :: "hot_error + 'a"
  to_files :: files
  to_record :: "string option"
  to_releaseFailure :: "hot_error option"

definition withStateTx ::
  "string \<Rightarrow> nat \<Rightarrow> (string \<Rightarrow> jval option) \<Rightarrow> pass_env list \<Rightarrow> string \<Rightarrow> bool list \<Rightarrow> tx_config \<Rightarrow> consumer
    \<Rightarrow> (files \<Rightarrow> hot_error option \<times> files) \<Rightarrow> 'a tx_prog \<Rightarrow> string option \<Rightarrow> files \<Rightarrow> 'a tx_outcome option" where
  "withStateTx resource depth parse passes recordBytes stuck cf commitEvents afterApply fn lockFile fs =
     (let stop = (\<lambda>err lf. Some \<lparr>to_result = Inl err, to_files = fs, to_record = lf, to_releaseFailure = None\<rparr>) in
      case assertResource resource of
        Some err \<Rightarrow> stop err lockFile
      | None \<Rightarrow> if depth > 0 then stop Reentry lockFile
        else (case acquireRecord parse passes recordBytes lockFile of
            None \<Rightarrow> None
          | Some (Inl err, lf) \<Rightarrow> stop err lf
          | Some (Inr _, lf) \<Rightarrow>
              (let (r, tx, fs1) = run_prog cf fn (createTx cf) fs;
                   (result, fs2) = (case r of
                      Inl err \<Rightarrow> (Inl err, fs1)
                    | Inr x \<Rightarrow> (case commit_tx cf commitEvents afterApply tx fs1 of
                        (Some err, fs') \<Rightarrow> (Inl err, fs') | (None, fs') \<Rightarrow> (Inr x, fs')));
                   (releaseError, lf') = releaseRecord stuck lf
               in Some \<lparr>to_result = result, to_files = fs2, to_record = lf', to_releaseFailure = releaseError\<rparr>)))"

section \<open>The specification\<close>

text \<open>The same calls made on one set of files, at once, with the list of acknowledged events.\<close>

fun spec_op :: "tx_config \<Rightarrow> tx_op \<Rightarrow> files \<times> (string \<times> jval) list \<Rightarrow> tx_result \<times> files \<times> (string \<times> jval) list" where
  "spec_op cf (Append ty payload) (fs, evs) =
     (if \<not> tc_consumer cf then (Inl Tx_consumer_required, fs, evs)
      else case ty of
        Some t \<Rightarrow> if trim t = [] then (Inl Tx_event_type, fs, evs) else (Inr (Event (trim t) payload), fs, evs @ [(trim t, payload)])
      | None \<Rightarrow> (Inl Tx_event_type, fs, evs))"
| "spec_op cf (WriteText p text) (fs, evs) =
     (if list_ex (\<lambda>root. underDir root p) (tc_roots cf) then (Inr Done, write_at p text fs, evs) else (Inl Tx_path_outside, fs, evs))"
| "spec_op cf (ReadText p) (fs, evs) =
     (if list_ex (\<lambda>root. underDir root p) (tc_roots cf @ tc_readRoots cf)
      then ((case read_at fs p of None \<Rightarrow> Inl Not_found | Some text \<Rightarrow> Inr (Text text)), fs, evs) else (Inl Tx_path_outside, fs, evs))"
| "spec_op cf (Exists p) (fs, evs) =
     (if list_ex (\<lambda>root. underDir root p) (tc_roots cf @ tc_readRoots cf)
      then (Inr (Flag (read_at fs p \<noteq> None)), fs, evs) else (Inl Tx_path_outside, fs, evs))"
| "spec_op cf (ListDir p) (fs, evs) =
     (if list_ex (\<lambda>root. underDir root p) (tc_roots cf @ tc_readRoots cf)
      then (Inr (Names (sort (remdups (files_in p fs)))), fs, evs) else (Inl Tx_path_outside, fs, evs))"
| "spec_op cf (RenameTo from to) (fs, evs) =
     (if \<not> list_ex (\<lambda>root. underDir root from) (tc_roots cf) \<or> \<not> list_ex (\<lambda>root. underDir root to) (tc_roots cf)
      then (Inl Tx_path_outside, fs, evs)
      else case read_at fs from of
        None \<Rightarrow> (Inl Not_found, fs, evs)
      | Some text \<Rightarrow> (Inr Done, write_at to text (remove_at from fs), evs))"
| "spec_op cf (UnlinkAt p) (fs, evs) =
     (if list_ex (\<lambda>root. underDir root p) (tc_roots cf)
      then (Inr (Flag (read_at fs p \<noteq> None)), remove_at p fs, evs) else (Inl Tx_path_outside, fs, evs))"

primrec spec_prog :: "tx_config \<Rightarrow> 'a tx_prog \<Rightarrow> files \<times> (string \<times> jval) list \<Rightarrow> (hot_error + 'a) \<times> files \<times> (string \<times> jval) list" where
  "spec_prog cf (Return x) = (\<lambda>(fs, evs). (Inr x, fs, evs))"
| "spec_prog cf Return_promise = (\<lambda>(fs, evs). (Inl Tx_async, fs, evs))"
| "spec_prog cf (Throw err) = (\<lambda>(fs, evs). (Inl err, fs, evs))"
| "spec_prog cf (Call op k) = (\<lambda>st. case spec_op cf op st of (r, fs', evs') \<Rightarrow> spec_prog cf (k r) (fs', evs'))"

section \<open>Staged calls refine direct ones\<close>

text \<open>The files a staged transaction shows are the ones its effects make of those on disk.\<close>

definition tx_shows :: "tx_state \<Rightarrow> files \<Rightarrow> files \<Rightarrow> bool" where
  "tx_shows tx fs fs' = (tx_live tx \<and> tx_staging tx \<and> distinct (map fst (tx_staged tx))
     \<and> apply_effects (tx_effects tx) fs = (None, fs') \<and> (\<forall>p. look_up tx fs p = read_at fs' p))"

lemma apply_effects_snoc:
  "apply_effects es fs = (None, fs1) \<Longrightarrow> apply_effect e fs1 = Inr fs2 \<Longrightarrow> apply_effects (es @ [e]) fs = (None, fs2)"
  by (induction es arbitrary: fs) (auto split: sum.splits)

lemma stage_parts:
  "tx_staging tx \<Longrightarrow> stage p t tx = tx\<lparr>tx_staged := AList.update p t (tx_staged tx)\<rparr>"
  by (simp add: stage_def)

lemma look_up_staged:
  "tx_staging tx \<Longrightarrow> look_up (tx\<lparr>tx_staged := AList.update p t (tx_staged tx)\<rparr>) fs q = (if q = p then t else look_up tx fs q)"
  by (simp add: look_up_def update_conv')

lemma look_up_cong: "look_up (tx\<lparr>tx_effects := es\<rparr>) fs q = look_up tx fs q" "look_up (tx\<lparr>tx_events := evs\<rparr>) fs q = look_up tx fs q"
  by (simp_all add: look_up_def)

text \<open>The names a directory lists.\<close>

lemma files_in_iff: "n \<in> set (files_in dir fs) \<longleftrightarrow> read_at fs (dir @ [n]) \<noteq> None"
proof -
  have "n \<in> set (files_in dir fs) \<longleftrightarrow> (\<exists>p \<in> fst ` set fs. p \<noteq> [] \<and> butlast p = dir \<and> last p = n)" by (auto simp: files_in_def)
  also have "\<dots> \<longleftrightarrow> dir @ [n] \<in> fst ` set fs"
  proof
    assume "\<exists>p \<in> fst ` set fs. p \<noteq> [] \<and> butlast p = dir \<and> last p = n"
    then show "dir @ [n] \<in> fst ` set fs" using append_butlast_last_id by metis
  next
    assume "dir @ [n] \<in> fst ` set fs"
    then show "\<exists>p \<in> fst ` set fs. p \<noteq> [] \<and> butlast p = dir \<and> last p = n" by (rule bexI[rotated]) simp
  qed
  finally show ?thesis by (simp add: read_at_def map_of_eq_None_iff)
qed

lemma fold_names:
  assumes "distinct (map fst st)"
  shows "n \<in> set (fold (\<lambda>(p, text) ns. if p \<noteq> [] \<and> butlast p = dir
      then (if text = None then removeAll (last p) ns else List.insert (last p) ns) else ns) st ns)
    \<longleftrightarrow> (case map_of st (dir @ [n]) of Some t \<Rightarrow> t \<noteq> None | None \<Rightarrow> n \<in> set ns)"
  using assms
proof (induction st arbitrary: ns)
  case (Cons e st)
  obtain p t where e: "e = (p, t)" by (cases e)
  have p: "p \<noteq> [] \<and> butlast p = dir \<longleftrightarrow> p = dir @ [last p]" by (metis append_butlast_last_id butlast_snoc snoc_eq_iff_butlast)
  show ?case
  proof (cases "p = dir @ [n]")
    case True
    then have "map_of st (dir @ [n]) = None" using Cons.prems e by (simp add: map_of_eq_None_iff)
    with Cons e True show ?thesis by simp
  next
    case False
    then have "n \<noteq> last p" if "p \<noteq> [] \<and> butlast p = dir" using that p by auto
    with Cons e False show ?thesis by (auto split: option.split)
  qed
qed simp

lemma fold_names_distinct:
  "distinct ns \<Longrightarrow> distinct (fold (\<lambda>(p, text) ns. if p \<noteq> [] \<and> butlast p = dir
      then (if text = None then removeAll (last p) ns else List.insert (last p) ns) else ns) st ns)"
  by (induction st arbitrary: ns) (auto simp: distinct_removeAll)

lemma listed_names_shown:
  assumes "tx_shows tx fs fs'"
  shows "listed_names tx fs dir = sort (remdups (files_in dir fs'))"
proof -
  have st: "tx_staging tx" "distinct (map fst (tx_staged tx))" using assms by (simp_all add: tx_shows_def)
  let ?names = "fold (\<lambda>(p, text) ns. if p \<noteq> [] \<and> butlast p = dir
      then (if text = None then removeAll (last p) ns else List.insert (last p) ns) else ns) (tx_staged tx) (remdups (files_in dir fs))"
  have "n \<in> set ?names \<longleftrightarrow> look_up tx fs (dir @ [n]) \<noteq> None" for n
    using fold_names[OF st(2), of n dir "remdups (files_in dir fs)"] st(1)
    by (auto simp: look_up_def files_in_iff split: option.splits)
  then have "set ?names = set (files_in dir fs')" using assms by (auto simp: files_in_iff tx_shows_def)
  moreover have "distinct ?names" by (rule fold_names_distinct) simp
  ultimately have "sort ?names = sort (remdups (files_in dir fs'))"
    by (intro sorted_distinct_set_unique) simp_all
  then show ?thesis using st(1) by (simp add: listed_names_def)
qed

lemma guard_live: "tx_live tx \<Longrightarrow> guard cf tx (Some p) reading =
    (if list_ex (\<lambda>root. underDir root p) (tc_roots cf @ (if reading then tc_readRoots cf else [])) then None else Some Tx_path_outside)"
  "tx_live tx \<Longrightarrow> guard cf tx None reading = None"
  by (simp_all add: guard_def)

text \<open>Staging an effect together with what it makes of each path keeps the two in step.\<close>

lemma tx_shows_stage:
  assumes "tx_shows tx fs fs'" "apply_effect e fs' = Inr fs''" "tx_live tx'" "tx_staging tx'" "distinct (map fst (tx_staged tx'))"
    and "tx_effects tx' = tx_effects tx @ [e]" "\<And>p. look_up tx' fs p = read_at fs'' p"
  shows "tx_shows tx' fs fs''"
  using assms apply_effects_snoc[of "tx_effects tx" fs fs' e fs''] by (simp add: tx_shows_def)

lemma run_op_refines:
  assumes "tx_shows tx fs fs'" "run_op cf op tx fs = (r, tx1, fs1)"
  shows "fs1 = fs \<and> (\<exists>fs2. spec_op cf op (fs', tx_events tx) = (r, fs2, tx_events tx1) \<and> tx_shows tx1 fs fs2)"
proof -
  have st: "tx_live tx" "tx_staging tx" "distinct (map fst (tx_staged tx))" "\<And>p. look_up tx fs p = read_at fs' p"
    using assms(1) by (simp_all add: tx_shows_def)
  show ?thesis
  proof (cases op)
    case (Append ty payload)
    with assms st show ?thesis
      by (auto simp: guard_live tx_shows_def look_up_cong split: option.splits if_splits)
  next
    case (WriteText p t)
    show ?thesis
    proof (cases "list_ex (\<lambda>root. underDir root p) (tc_roots cf)")
      case True
      then have r: "r = Inr Done" "fs1 = fs" "tx1 = tx\<lparr>tx_staged := AList.update p (Some t) (tx_staged tx), tx_effects := tx_effects tx @ [Write p t]\<rparr>"
        using assms(2) WriteText st by (simp_all add: guard_live perform_def stage_parts)
      have "tx_shows tx1 fs (write_at p t fs')"
        by (rule tx_shows_stage[OF assms(1), of "Write p t"]) (use st in \<open>simp_all add: r(3) look_up_cong look_up_staged distinct_update\<close>)
      with r True WriteText show ?thesis by simp
    qed (use assms WriteText st in \<open>auto simp: guard_live\<close>)
  next
    case (ReadText p)
    with assms st show ?thesis by (auto simp: guard_live split: option.splits if_splits)
  next
    case (Exists p)
    with assms st show ?thesis by (auto simp: guard_live split: option.splits if_splits)
  next
    case (ListDir p)
    with assms st listed_names_shown[OF assms(1)] show ?thesis by (auto simp: guard_live split: option.splits if_splits)
  next
    case (RenameTo src dst)
    show ?thesis
    proof (cases "list_ex (\<lambda>root. underDir root src) (tc_roots cf) \<and> list_ex (\<lambda>root. underDir root dst) (tc_roots cf)")
      case True
      show ?thesis
      proof (cases "read_at fs' src")
        case None
        with True assms RenameTo st show ?thesis by (auto simp: guard_live)
      next
        case (Some t)
        then have r: "r = Inr Done" "fs1 = fs" "tx1 = tx\<lparr>tx_staged := AList.update dst (Some t) (AList.update src None (tx_staged tx)),
            tx_effects := tx_effects tx @ [Rename src dst]\<rparr>"
          using assms(2) RenameTo st True by (simp_all add: guard_live perform_def stage_parts Let_def)
        have "tx_shows tx1 fs (write_at dst t (remove_at src fs'))"
          by (rule tx_shows_stage[OF assms(1), of "Rename src dst"])
            (use st Some in \<open>simp_all add: r(3) look_up_def update_conv' distinct_update\<close>)
        with r True Some RenameTo show ?thesis by simp
      qed
    qed (use assms RenameTo st in \<open>auto simp: guard_live split: if_splits\<close>)
  next
    case (UnlinkAt p)
    show ?thesis
    proof (cases "list_ex (\<lambda>root. underDir root p) (tc_roots cf)")
      case True
      then have r: "r = Inr (Flag (read_at fs' p \<noteq> None))" "fs1 = fs"
        "tx1 = tx\<lparr>tx_staged := AList.update p None (tx_staged tx), tx_effects := tx_effects tx @ [Unlink p]\<rparr>"
        using assms(2) UnlinkAt st by (simp_all add: guard_live perform_def stage_parts Let_def)
      have "tx_shows tx1 fs (remove_at p fs')"
        by (rule tx_shows_stage[OF assms(1), of "Unlink p"]) (use st in \<open>simp_all add: r(3) look_up_cong look_up_staged distinct_update\<close>)
      with r True UnlinkAt show ?thesis by simp
    qed (use assms UnlinkAt st in \<open>auto simp: guard_live\<close>)
  qed
qed

lemma run_prog_refines:
  "tx_shows tx fs fs' \<Longrightarrow> run_prog cf fn tx fs = (r, tx1, fs1) \<Longrightarrow>
     fs1 = fs \<and> (\<exists>fs2. spec_prog cf fn (fs', tx_events tx) = (r, fs2, tx_events tx1) \<and> tx_shows tx1 fs fs2)"
proof (induction fn arbitrary: tx fs')
  case (Call op k)
  obtain r0 tx0 fs0 where o: "run_op cf op tx fs = (r0, tx0, fs0)" by (cases "run_op cf op tx fs") auto
  obtain fs2 where s: "fs0 = fs" "spec_op cf op (fs', tx_events tx) = (r0, fs2, tx_events tx0)" "tx_shows tx0 fs fs2"
    using run_op_refines[OF Call.prems(1) o] by blast
  have "run_prog cf (k r0) tx0 fs = (r, tx1, fs1)" using Call.prems(2) o s(1) by simp
  from Call.IH[OF _ s(3) this] s(2) show ?case by simp
qed auto

lemma createTx_shows: "tc_stageEffects cf \<Longrightarrow> tx_shows (createTx cf) fs fs"
  by (simp add: tx_shows_def createTx_def look_up_def)

end
