(* ===== verification/Lock_Properties.thy ===== *)
theory Lock_Properties
  imports State_Tx
begin

text \<open>
  What the hot mutex and its transactions promise: one holder whatever the interleaving, waiting that spares the
  living, files that stand still around a holder, staged calls that are as good as direct ones, and
  transactions that happen entirely or not at all.
\<close>

section \<open>The mutex\<close>

text \<open>
  C38: One holder. Whatever the interleaving of acquires, reclaims, confirmed fences, releases and crashes of
  any number of processes, at most one is inside, the record on disk is its own, and no step of another
  process takes that record away.
\<close>

theorem one_holder:
  assumes "hot_reachable texts parse s" "ho_place s p = Inside"
  shows "(\<forall>q. ho_place s q = Inside \<longrightarrow> q = p) \<and> (\<exists>raw \<in> texts p. ho_file s = Some (raw, p))
    \<and> (\<forall>s'. hot_step texts parse s s' \<and> ho_place s' p = Inside \<longrightarrow> ho_file s' = ho_file s)"
proof (intro conjI allI impI)
  note inv = hot_inv_reachable[OF assms(1)]
  show "\<exists>raw \<in> texts p. ho_file s = Some (raw, p)" using hot_invD(2)[OF inv assms(2)] hot_invD(1)[OF inv] by blast
  show "q = p" if "ho_place s q = Inside" for q using inside_unique[OF assms(1) that assms(2)] .
  show "ho_file s' = ho_file s" if "hot_step texts parse s s' \<and> ho_place s' p = Inside" for s'
    using step_keeps_record[OF conjunct1[OF that] inv assms(2) conjunct2[OF that]] .
qed

definition sample_texts :: "nat \<Rightarrow> string set" where
  "sample_texts p = {replicate p CHR ''x''}"

definition no_parse :: "string \<Rightarrow> jval option" where
  "no_parse raw = None"

definition idle_mutex :: hot_state where
  "idle_mutex = \<lparr>ho_file = None, ho_kernel = None, ho_place = \<lambda>_. Outside\<rparr>"

definition held_mutex :: hot_state where
  "held_mutex = (at 2 Inside (at 2 Linking idle_mutex))\<lparr>ho_file := Some (''xx'', 2)\<rparr>"

lemma held_reachable: "hot_reachable sample_texts no_parse held_mutex"
proof -
  have "hot_reachable sample_texts no_parse idle_mutex"
    unfolding idle_mutex_def by (rule hot_reachable.start) simp_all
  moreover have "hot_step sample_texts no_parse idle_mutex (at 2 Linking idle_mutex)"
    by (rule hot_step.enter) (simp add: idle_mutex_def)
  moreover have "hot_step sample_texts no_parse (at 2 Linking idle_mutex) held_mutex"
    unfolding held_mutex_def by (rule hot_step.link) (simp_all add: idle_mutex_def sample_texts_def numeral_2_eq_2)
  ultimately show ?thesis by (blast intro: hot_reachable.move)
qed

theorem one_holder_witness:
  "hot_reachable sample_texts no_parse held_mutex \<and> (\<exists>raw \<in> sample_texts 2. ho_file held_mutex = Some (raw, 2))"
proof -
  have "ho_place held_mutex 2 = Inside" by (simp add: held_mutex_def)
  from one_holder[OF held_reachable this] held_reachable show ?thesis by blast
qed

text \<open>
  The files stand still around a holder: while a process stays inside, whatever the others do, the files
  that are only written from inside stay as they are.
\<close>

theorem holder_sees_still_files:
  assumes "hot_reachable texts parse s" "ho_place s p = Inside"
    and "(others_act (hot_step texts parse) (\<lambda>s p. ho_place s p = Inside) p)\<^sup>*\<^sup>* (s, d) (s', d')"
  shows "d' = d \<and> hot_reachable texts parse s' \<and> ho_place s' p = Inside"
  using hot.files_stand_still[OF assms(3)] assms(1,2) by simp

theorem holder_sees_still_files_witness:
  "\<exists>s'. ho_place s' 3 = Linking \<and> ho_place s' 2 = Inside \<and> hot_reachable sample_texts no_parse s'"
proof -
  let ?s = "at 3 Linking held_mutex"
  have i: "ho_place held_mutex 2 = Inside" by (simp add: held_mutex_def)
  have "hot_step sample_texts no_parse held_mutex ?s" by (rule hot_step.enter) (simp add: held_mutex_def idle_mutex_def)
  then have "(others_act (hot_step sample_texts no_parse) (\<lambda>s p. ho_place s p = Inside) 2)\<^sup>*\<^sup>* (held_mutex, ()) (?s, ())"
    by (intro r_into_rtranclp others_act.moves) (simp_all add: i)
  from holder_sees_still_files[OF held_reachable i this] show ?thesis by (intro exI[of _ ?s]) simp
qed

text \<open>
  Waiting spares the living: as long as the holder's record is not judged dead, an acquire neither links
  nor removes it; it is still waiting before the deadline, and after it fails with a timeout. A record that
  is judged dead, with the kernel lock free, is replaced within two passes.
\<close>

theorem waiting_spares_the_living:
  "((\<forall>e \<in> set passes. \<forall>ob. record_of (parse raw) = Some ob \<longrightarrow> pe_judge e ob \<noteq> ''dead'') \<longrightarrow>
      (case acquireRecord parse passes bytes (Some raw) of
         None \<Rightarrow> list_all (\<lambda>e. \<not> pe_late e) passes
       | Some (Inl err, file) \<Rightarrow> file = Some raw \<and> list_ex pe_late passes
       | Some (Inr _, file) \<Rightarrow> False))
    \<and> (record_of (parse raw) = Some ob \<and> pe_judge e ob = ''dead'' \<and> pe_busy e = None \<and> pe_kernelFree e \<and> \<not> pe_stuck e \<longrightarrow>
        acquireRecord parse (e # e' # passes) bytes (Some raw) = Some (Inr (), Some bytes))"
proof (intro conjI impI)
  assume "\<forall>e \<in> set passes. \<forall>ob. record_of (parse raw) = Some ob \<longrightarrow> pe_judge e ob \<noteq> ''dead''"
  then have "acquireRecord parse passes bytes (Some raw) = None \<and> list_all (\<lambda>e. \<not> pe_late e) passes
    \<or> (\<exists>err. acquireRecord parse passes bytes (Some raw) = Some (Inl err, Some raw) \<and> list_ex pe_late passes)"
    by (intro wait_keeps_record) blast
  then show "case acquireRecord parse passes bytes (Some raw) of
         None \<Rightarrow> list_all (\<lambda>e. \<not> pe_late e) passes
       | Some (Inl err, file) \<Rightarrow> file = Some raw \<and> list_ex pe_late passes
       | Some (Inr _, file) \<Rightarrow> False" by auto
qed (use dead_is_replaced[of parse raw ob e] in blast)

definition patient :: pass_env where
  "patient = \<lparr>pe_busy = None, pe_judge = \<lambda>_. ''alive'', pe_kernelFree = True, pe_stuck = False, pe_late = False\<rparr>"

definition pid_parse :: "string \<Rightarrow> jval option" where
  "pid_parse raw = Some (JObj [(''pid'', JNum 7)])"

theorem waiting_spares_the_living_witness:
  "acquireRecord pid_parse [patient, patient\<lparr>pe_late := True\<rparr>] ''me'' (Some ''they'') = Some (Inl (Timeout_held (Some (JNum 7))), Some ''they'')
    \<and> acquireRecord pid_parse [patient\<lparr>pe_judge := \<lambda>_. ''dead''\<rparr>, patient] ''me'' (Some ''they'') = Some (Inr (), Some ''me'')"
proof
  show "acquireRecord pid_parse [patient, patient\<lparr>pe_late := True\<rparr>] ''me'' (Some ''they'') = Some (Inl (Timeout_held (Some (JNum 7))), Some ''they'')"
    by code_simp
  have "record_of (pid_parse ''they'') = Some [(''pid'', JNum 7)]" by code_simp
  then show "acquireRecord pid_parse [patient\<lparr>pe_judge := \<lambda>_. ''dead''\<rparr>, patient] ''me'' (Some ''they'') = Some (Inr (), Some ''me'')"
    using conjunct2[OF waiting_spares_the_living, of pid_parse "''they''" "[(''pid'', JNum 7)]" "patient\<lparr>pe_judge := \<lambda>_. ''dead''\<rparr>" patient "[]" "''me''"]
    by (simp add: patient_def)
qed

section \<open>The transaction\<close>

definition sample_config :: tx_config where
  "sample_config = \<lparr>tc_roots = [[''repo'', ''.fgos'']], tc_readRoots = [[''repo'', ''.git'']], tc_stageEffects = True, tc_consumer = True\<rparr>"

definition sample_files :: files where
  "sample_files = [([''repo'', ''.fgos'', ''a''], ''1''), ([''repo'', ''x''], ''2'')]"

text \<open>Move the file away, look whether it is gone, and list the directory.\<close>

definition sample_callback :: "tx_result tx_prog" where
  "sample_callback = Call (RenameTo [''repo'', ''.fgos'', ''a''] [''repo'', ''.fgos'', ''d'', ''b''])
     (\<lambda>_. Call (Exists [''repo'', ''.fgos'', ''a'']) (\<lambda>_. Call (ListDir [''repo'', ''.fgos'', ''d'']) Return))"





definition outside_roots :: "tx_config \<Rightarrow> path \<Rightarrow> bool" where
  "outside_roots cf p = (\<not> list_ex (\<lambda>root. underDir root p) (tc_roots cf))"

lemma spec_op_confined:
  "spec_op cf op (fs, evs) = (r, fs', evs') \<Longrightarrow> outside_roots cf p \<Longrightarrow> read_at fs' p = read_at fs p"
  by (cases op) (auto simp: outside_roots_def split: if_splits option.splits)

lemma spec_prog_confined:
  "spec_prog cf fn (fs, evs) = (r, fs', evs') \<Longrightarrow> outside_roots cf p \<Longrightarrow> read_at fs' p = read_at fs p"
proof (induction fn arbitrary: fs evs)
  case (Call op k)
  obtain r0 fs0 evs0 where o: "spec_op cf op (fs, evs) = (r0, fs0, evs0)" by (metis prod_cases3)
  with Call show ?case using spec_op_confined[OF o Call.prems(2)] by fastforce
qed auto

lemma direct_op_confined:
  "\<not> tx_staging tx \<Longrightarrow> run_op cf op tx fs = (r, tx', fs') \<Longrightarrow> outside_roots cf p \<Longrightarrow> tx' = tx \<and> read_at fs' p = read_at fs p"
  by (cases op) (auto simp: outside_roots_def guard_def perform_def stage_def look_up_def Let_def split: if_splits option.splits)

lemma direct_prog_confined:
  "\<not> tx_staging tx \<Longrightarrow> run_prog cf fn tx fs = (r, tx', fs') \<Longrightarrow> outside_roots cf p \<Longrightarrow> tx' = tx \<and> read_at fs' p = read_at fs p"
proof (induction fn arbitrary: fs)
  case (Call op k)
  obtain r0 tx0 fs0 where o: "run_op cf op tx fs = (r0, tx0, fs0)" by (metis prod_cases3)
  with Call show ?case using direct_op_confined[OF Call.prems(1) o Call.prems(3)] by fastforce
qed auto

text \<open>
  A transaction stays under its roots: whatever a callback calls, staged or direct, a path that is under
  none of the roots has the text it had, also after the effects are applied.
\<close>

theorem tx_stays_under_roots:
  assumes "run_prog cf fn (createTx cf) fs = (r, tx, fs1)" "\<not> list_ex (\<lambda>root. underDir root p) (tc_roots cf)"
  shows "read_at (snd (apply_effects (tx_effects tx) fs1)) p = read_at fs p"
proof (cases "tc_stageEffects cf")
  case True
  have o: "outside_roots cf p" using assms(2) by (simp add: outside_roots_def)
  from run_prog_refines[OF createTx_shows[OF True] assms(1)] spec_prog_confined[OF _ o]
  show ?thesis by (auto simp: tx_shows_def createTx_def)
next
  case False
  then have ns: "\<not> tx_staging (createTx cf)" by (simp add: createTx_def)
  have o: "outside_roots cf p" using assms(2) by (simp add: outside_roots_def)
  from direct_prog_confined[OF ns assms(1) o] show ?thesis by (simp add: createTx_def)
qed

theorem tx_stays_under_roots_witness:
  "\<exists>tx fs1. run_prog sample_config sample_callback (createTx sample_config) sample_files = (Inr (Inr (Names [''b''])), tx, fs1)
    \<and> read_at (snd (apply_effects (tx_effects tx) fs1)) [''repo'', ''x''] = Some ''2''"
proof -
  have "fst (run_prog sample_config sample_callback (createTx sample_config) sample_files) = Inr (Inr (Names [''b'']))"
    by code_simp
  then obtain tx fs1 where run: "run_prog sample_config sample_callback (createTx sample_config) sample_files = (Inr (Inr (Names [''b''])), tx, fs1)"
    by (metis prod.collapse)
  have "\<not> list_ex (\<lambda>root. underDir root [''repo'', ''x'']) (tc_roots sample_config)" by code_simp
  from tx_stays_under_roots[OF run this] run show ?thesis by (simp add: sample_files_def read_at_def)
qed

end
