(* ===== verification/Recovery_Planner.thy ===== *)
theory Recovery_Planner
  imports Prelude "HOL-Library.List_Lexorder" "HOL-Library.Char_ord"
begin

text \<open>
  \<open>src/runner/dispatch/recovery-planner.mjs\<close>: which action, if any, recovers a dispatch run, and whether an
  action planned earlier may still be applied. A snapshot is the object the caller read; the reasons of a
  refusal keep what they report, not their wording.

  Parameters: \<open>scalar\<close> is \<open>JSON.stringify\<close> of a value that is no object, \<open>digest\<close> the hash, \<open>parse_date\<close> and
  \<open>to_iso\<close> are \<open>Date.parse\<close> (no value for NaN) and \<open>toISOString\<close>.
\<close>

section \<open>Canonical text\<close>

definition entry_text :: "(jval \<Rightarrow> string) \<Rightarrow> string \<times> string \<Rightarrow> string" where
  "entry_text scalar e = scalar (JStr (fst e)) @ '':'' @ snd e"

fun commas :: "string list \<Rightarrow> string" where
  "commas [] = []"
| "commas [s] = s"
| "commas (s # ss) = s @ '','' @ commas ss"

fun stableStringify :: "(jval \<Rightarrow> string) \<Rightarrow> jval \<Rightarrow> string" where
  "stableStringify scalar (JArr xs) = ''['' @ commas (map (stableStringify scalar) xs) @ '']''"
| "stableStringify scalar (JObj ob) =
     ''{'' @ commas (map (entry_text scalar) (sort_key fst (map (\<lambda>(k, v). (k, stableStringify scalar v)) ob))) @ ''}''"
| "stableStringify scalar v = scalar v"

definition computeSnapshotHash :: "(jval \<Rightarrow> string) \<Rightarrow> (string \<Rightarrow> string) \<Rightarrow> obj \<Rightarrow> string" where
  "computeSnapshotHash scalar digest snapshot = digest (stableStringify scalar (JObj snapshot))"

definition computeActionKey :: "(jval \<Rightarrow> string) \<Rightarrow> (string \<Rightarrow> string) \<Rightarrow> string \<Rightarrow> jval \<Rightarrow> jval \<Rightarrow> string \<Rightarrow> string" where
  "computeActionKey scalar digest snapshotHash controlEpoch action expiresAt =
     digest (stableStringify scalar (JObj [(''snapshotHash'', JStr snapshotHash), (''controlEpoch'', controlEpoch),
       (''action'', action), (''expiresAt'', JStr expiresAt)]))"

section \<open>Legality\<close>

definition RECOGNIZED_EVIDENCE_TYPES :: "string list" where
  "RECOGNIZED_EVIDENCE_TYPES = [''worker-result'', ''attempt-receipt'']"

definition RECOGNIZED_INTENTS :: "string list" where
  "RECOGNIZED_INTENTS = [''resume'', ''reassign'']"

definition ADOPTABLE_ATTEMPT_STATES :: "string list" where
  "ADOPTABLE_ATTEMPT_STATES = [''needs-adopt'', ''open'']"

definition LIVE_ATTEMPT_STATES :: "string list" where
  "LIVE_ATTEMPT_STATES = [''running'', ''being-adopted'']"

definition DEFAULT_TTL_MS :: int where
  "DEFAULT_TTL_MS = 5 * 60 * 1000"

text \<open>\<open>snapshot.a?.b\<close>, and \<open>x ?? d\<close>.\<close>

definition sub :: "obj \<Rightarrow> string \<Rightarrow> string \<Rightarrow> jval option" where
  "sub snapshot a b = Option.bind (as_obj (oget snapshot a)) (\<lambda>ob. oget ob b)"

definition or_else :: "jval option \<Rightarrow> jval \<Rightarrow> jval" where
  "or_else v d = (if nullish v then d else the v)"

text \<open>\<open>===\<close>: two objects or arrays are never the same one here.\<close>

fun same_value :: "jval option \<Rightarrow> jval option \<Rightarrow> bool" where
  "same_value (Some (JArr _)) _ = False"
| "same_value (Some (JObj _)) _ = False"
| "same_value a b = (a = b)"

record evidence_item =
  ev_id :: string
  ev_type :: string

datatype park_reason =
    Unrecognized_evidence "evidence_item list"
  | Attempt_closed
  | Attempt_held "jval"
  | Already_settled
  | No_reassign
  | Not_adoptable "jval"
  | No_attempt_id
  | Malformed_action
  | Different_attempt
  | No_longer_adoptable "jval"
  | Unknown_action string

definition attemptStateOf :: "obj \<Rightarrow> jval" where
  "attemptStateOf snapshot = or_else (sub snapshot ''attempt'' ''state'') JNull"

definition isAdoptable :: "obj \<Rightarrow> bool" where
  "isAdoptable snapshot = (attemptStateOf snapshot \<in> JStr ` set ADOPTABLE_ATTEMPT_STATES)"

definition checkPreconditions :: "obj \<Rightarrow> evidence_item list \<Rightarrow> park_reason option" where
  "checkPreconditions snapshot evidence =
     (let unknown = filter (\<lambda>e. ev_type e \<notin> set RECOGNIZED_EVIDENCE_TYPES) evidence in
      if unknown \<noteq> [] then Some (Unrecognized_evidence unknown)
      else if attemptStateOf snapshot = JStr ''closed'' then Some Attempt_closed
      else if attemptStateOf snapshot \<in> JStr ` set LIVE_ATTEMPT_STATES then Some (Attempt_held (attemptStateOf snapshot))
      else if \<not> isAdoptable snapshot \<and> (sub snapshot ''run'' ''status'' = Some (JStr ''settled'')
             \<or> sub snapshot ''settledSignal'' ''outcome'' = Some (JStr ''settled'')) then Some Already_settled
      else None)"

definition adopt_action :: "string \<Rightarrow> jval" where
  "adopt_action attemptId = JObj [(''type'', JStr ''adopt''), (''attemptId'', JStr attemptId)]"

datatype facts = Park park_reason | Action jval

text \<open>\<open>deriveRecoveryFacts\<close>; an unknown intent throws (no value).\<close>

definition deriveRecoveryFacts :: "obj \<Rightarrow> evidence_item list \<Rightarrow> string \<Rightarrow> facts option" where
  "deriveRecoveryFacts snapshot evidence intent =
     (if intent \<notin> set RECOGNIZED_INTENTS then None
      else Some (case checkPreconditions snapshot evidence of
        Some why \<Rightarrow> Park why
      | None \<Rightarrow> if intent = ''reassign'' then Park No_reassign
          else if \<not> isAdoptable snapshot then Park (Not_adoptable (attemptStateOf snapshot))
          else (case as_str (sub snapshot ''attempt'' ''attemptId'') of
              None \<Rightarrow> Park No_attempt_id
            | Some attemptId \<Rightarrow> Action (adopt_action attemptId))))"

definition isActionLegal :: "obj \<Rightarrow> evidence_item list \<Rightarrow> jval option \<Rightarrow> park_reason option" where
  "isActionLegal snapshot evidence action = (case checkPreconditions snapshot evidence of
     Some why \<Rightarrow> Some why
   | None \<Rightarrow> (case as_obj action of
       None \<Rightarrow> Some Malformed_action
     | Some ob \<Rightarrow> (case as_str (oget ob ''type'') of
         None \<Rightarrow> Some Malformed_action
       | Some ty \<Rightarrow> if ty = ''adopt'' then
             (if \<not> same_value (oget ob ''attemptId'') (sub snapshot ''attempt'' ''attemptId'') then Some Different_attempt
              else if isAdoptable snapshot then None
              else Some (No_longer_adoptable (attemptStateOf snapshot)))
           else Some (Unknown_action ty))))"

section \<open>Planning and applying\<close>

record recommendation =
  rm_snapshotHash :: string
  rm_expectedControlEpoch :: jval
  rm_actionKey :: string
  rm_evidenceIds :: "string list"
  rm_action :: jval
  rm_expiresAt :: string

datatype plan_answer = Recommend recommendation | Plan_park park_reason "string list" | Invalid_intent | Invalid_date

definition plan ::
  "(jval \<Rightarrow> string) \<Rightarrow> (string \<Rightarrow> string) \<Rightarrow> (string \<Rightarrow> int option) \<Rightarrow> (int \<Rightarrow> string)
    \<Rightarrow> obj \<Rightarrow> evidence_item list \<Rightarrow> string \<Rightarrow> string \<Rightarrow> int \<Rightarrow> plan_answer" where
  "plan scalar digest parse_date to_iso snapshot evidence intent nowIso ttlMs =
     (let evidenceIds = map ev_id evidence in
      case deriveRecoveryFacts snapshot evidence intent of
        None \<Rightarrow> Invalid_intent
      | Some (Park why) \<Rightarrow> Plan_park why evidenceIds
      | Some (Action action) \<Rightarrow> (case parse_date nowIso of
            None \<Rightarrow> Invalid_date
          | Some t \<Rightarrow>
              (let expiresAt = to_iso (t + ttlMs); snapshotHash = computeSnapshotHash scalar digest snapshot;
                   epoch = or_else (oget snapshot ''controlEpoch'') (JNum 0)
               in Recommend \<lparr>rm_snapshotHash = snapshotHash, rm_expectedControlEpoch = epoch,
                    rm_actionKey = computeActionKey scalar digest snapshotHash epoch action expiresAt,
                    rm_evidenceIds = evidenceIds, rm_action = action, rm_expiresAt = expiresAt\<rparr>)))"

datatype apply_answer = Apply_ok | Stale_key | Stale_snapshot | Stale_epoch | Plan_expired | Apply_park park_reason

definition checkApply ::
  "(jval \<Rightarrow> string) \<Rightarrow> (string \<Rightarrow> string) \<Rightarrow> (string \<Rightarrow> int option)
    \<Rightarrow> obj \<Rightarrow> evidence_item list \<Rightarrow> jval \<Rightarrow> string \<Rightarrow> jval \<Rightarrow> string \<Rightarrow> string \<Rightarrow> int option \<Rightarrow> apply_answer" where
  "checkApply scalar digest parse_date snapshot evidence action expectedSnapshot expectedControlEpoch expectedExpiresAt actionKey nowMs =
     (if actionKey \<noteq> computeActionKey scalar digest expectedSnapshot expectedControlEpoch action expectedExpiresAt then Stale_key
      else if computeSnapshotHash scalar digest snapshot \<noteq> expectedSnapshot then Stale_snapshot
      else if \<not> same_value (Some (or_else (oget snapshot ''controlEpoch'') (JNum 0))) (Some expectedControlEpoch) then Stale_epoch
      else case (parse_date expectedExpiresAt, nowMs) of
        (Some expires, Some now) \<Rightarrow>
          if now > expires then Plan_expired
          else (case isActionLegal snapshot evidence (Some action) of Some why \<Rightarrow> Apply_park why | None \<Rightarrow> Apply_ok)
      | _ \<Rightarrow> Plan_expired)"

text \<open>\<open>collectEvidence\<close>: the files of the attempt, and the outbox by its naming convention.\<close>

definition is_result_name :: "string \<Rightarrow> bool" where
  "is_result_name name = (take 4 name = ''ack-'' \<or> take 7 name = ''report-'' \<or> take 7 name = ''result-'' \<or> name = ''result.json'')"

definition collectEvidence :: "string list \<Rightarrow> string list \<Rightarrow> evidence_item list" where
  "collectEvidence attemptFiles outbox =
     map (\<lambda>name. \<lparr>ev_id = name, ev_type = ''attempt-receipt''\<rparr>) attemptFiles
     @ map (\<lambda>name. \<lparr>ev_id = name, ev_type = (if is_result_name name then ''worker-result'' else ''unknown'')\<rparr>) outbox"

section \<open>Facts\<close>

text \<open>The text of an object does not depend on the order of its keys.\<close>

lemma stableStringify_keys:
  assumes "mset a = mset b" "distinct (okeys a)"
  shows "stableStringify scalar (JObj a) = stableStringify scalar (JObj b)"
proof -
  let ?f = "\<lambda>(k, v). (k, stableStringify scalar v)"
  have "mset (map ?f a) = mset (map ?f b)" using assms(1) by simp
  moreover have "inj_on fst (set (map ?f a))"
    using assms(2) unfolding okeys_def by (auto simp: distinct_map inj_on_def split: prod.splits) (metis fst_conv prod.inject)
  ultimately have "sort_key fst (map ?f a) = sort_key fst (map ?f b)"
    by (intro sort_key_inj_key_eq) simp_all
  then show ?thesis by simp
qed

lemma legal_iff:
  "isActionLegal snapshot evidence action = None \<longleftrightarrow> checkPreconditions snapshot evidence = None \<and> isAdoptable snapshot
     \<and> (\<exists>ob. action = Some (JObj ob) \<and> oget ob ''type'' = Some (JStr ''adopt'')
          \<and> same_value (oget ob ''attemptId'') (sub snapshot ''attempt'' ''attemptId''))"
proof (cases "as_obj action")
  case None
  then show ?thesis by (cases action rule: as_obj.cases) (auto simp: isActionLegal_def split: option.splits)
next
  case (Some ob)
  then have a: "action = Some (JObj ob)" by (cases action rule: as_obj.cases) auto
  have "as_str (oget ob ''type'') = Some ty \<longleftrightarrow> oget ob ''type'' = Some (JStr ty)" for ty
    by (cases "oget ob ''type''" rule: as_str.cases) auto
  then show ?thesis
    unfolding a isActionLegal_def
    by (cases "as_str (oget ob ''type'')") (auto split: option.splits if_splits)
qed

text \<open>The read path and the write path agree on what is legal.\<close>

lemma derived_is_legal:
  assumes "deriveRecoveryFacts snapshot evidence intent = Some (Action action)"
  shows "isActionLegal snapshot evidence (Some action) = None"
    "\<exists>attemptId. action = adopt_action attemptId \<and> sub snapshot ''attempt'' ''attemptId'' = Some (JStr attemptId)"
proof -
  obtain attemptId where a: "checkPreconditions snapshot evidence = None" "isAdoptable snapshot"
    "as_str (sub snapshot ''attempt'' ''attemptId'') = Some attemptId" "action = adopt_action attemptId"
    using assms by (auto simp: deriveRecoveryFacts_def split: if_splits option.splits)
  then have i: "sub snapshot ''attempt'' ''attemptId'' = Some (JStr attemptId)"
    by (cases "sub snapshot ''attempt'' ''attemptId''" rule: as_str.cases) auto
  with a show "isActionLegal snapshot evidence (Some action) = None" by (simp add: legal_iff adopt_action_def)
  from i a(4) show "\<exists>attemptId. action = adopt_action attemptId \<and> sub snapshot ''attempt'' ''attemptId'' = Some (JStr attemptId)"
    by blast
qed

lemma legal_is_derived:
  assumes "isActionLegal snapshot evidence (Some (adopt_action attemptId)) = None"
  shows "deriveRecoveryFacts snapshot evidence ''resume'' = Some (Action (adopt_action attemptId))"
proof -
  have "checkPreconditions snapshot evidence = None" "isAdoptable snapshot" "sub snapshot ''attempt'' ''attemptId'' = Some (JStr attemptId)"
    using assms by (auto simp: legal_iff adopt_action_def)
  then show ?thesis by (simp add: deriveRecoveryFacts_def RECOGNIZED_INTENTS_def)
qed

end
