(* ===== verification/Planner_Properties.thy ===== *)
theory Planner_Properties
  imports Recovery_Planner
begin

text \<open>
  What a recovery recommendation binds: applying it on the facts it was made for succeeds until it expires, and
  an application that succeeds meets every expectation it was presented with.
\<close>

lemma same_value_num: "same_value (Some (or_else v (JNum k))) (Some w) \<Longrightarrow> or_else v (JNum k) = w"
  by (cases "(Some (or_else v (JNum k)), Some w)" rule: same_value.cases) auto

lemma plan_recommends:
  assumes "plan scalar digest parse_date to_iso snapshot evidence intent nowIso ttlMs = Recommend r"
  obtains action t where "deriveRecoveryFacts snapshot evidence intent = Some (Action action)" "parse_date nowIso = Some t"
    "rm_action r = action" "rm_expiresAt r = to_iso (t + ttlMs)"
    "rm_snapshotHash r = computeSnapshotHash scalar digest snapshot"
    "rm_expectedControlEpoch r = or_else (oget snapshot ''controlEpoch'') (JNum 0)"
    "rm_actionKey r = computeActionKey scalar digest (rm_snapshotHash r) (rm_expectedControlEpoch r) action (rm_expiresAt r)"
  using assms by (auto simp: plan_def Let_def split: option.splits facts.splits)

text \<open>A recommendation is applied with its own five expectations.\<close>

definition apply_recommendation ::
  "(jval \<Rightarrow> string) \<Rightarrow> (string \<Rightarrow> string) \<Rightarrow> (string \<Rightarrow> int option) \<Rightarrow> obj \<Rightarrow> evidence_item list \<Rightarrow> recommendation \<Rightarrow> int option \<Rightarrow> apply_answer" where
  "apply_recommendation scalar digest parse_date snapshot evidence r nowMs =
     checkApply scalar digest parse_date snapshot evidence (rm_action r) (rm_snapshotHash r) (rm_expectedControlEpoch r)
       (rm_expiresAt r) (rm_actionKey r) nowMs"

text \<open>
  C37: A recommendation applied on the facts it was made for is accepted until it expires, and answered expired
  after: the re-check sees what the plan saw.
\<close>

theorem recommendation_applies:
  assumes "plan scalar digest parse_date to_iso snapshot evidence intent nowIso ttlMs = Recommend r"
    and "parse_date (to_iso (t + ttlMs)) = Some (t + ttlMs)"
    and "\<And>xs. oget snapshot ''controlEpoch'' \<noteq> Some (JArr xs)" "\<And>ob. oget snapshot ''controlEpoch'' \<noteq> Some (JObj ob)"
    and "parse_date nowIso = Some t"
  shows "apply_recommendation scalar digest parse_date snapshot evidence r (Some now) = (if now > t + ttlMs then Plan_expired else Apply_ok)"
proof (rule plan_recommends [OF assms(1)])
  fix action t'
  assume a: "deriveRecoveryFacts snapshot evidence intent = Some (Action action)" "parse_date nowIso = Some t'"
    "rm_action r = action" "rm_expiresAt r = to_iso (t' + ttlMs)"
    "rm_snapshotHash r = computeSnapshotHash scalar digest snapshot"
    "rm_expectedControlEpoch r = or_else (oget snapshot ''controlEpoch'') (JNum 0)"
    "rm_actionKey r = computeActionKey scalar digest (rm_snapshotHash r) (rm_expectedControlEpoch r) action (rm_expiresAt r)"
  let ?e = "or_else (oget snapshot ''controlEpoch'') (JNum 0)"
  have "same_value (Some ?e) (Some ?e)"
    using assms(3,4) by (cases "oget snapshot ''controlEpoch''"; cases "the (oget snapshot ''controlEpoch'')") (auto simp: or_else_def)
  with a derived_is_legal(1) [OF a(1)] assms(2,5) show ?thesis
    by (simp add: apply_recommendation_def checkApply_def)
qed

text \<open>
  An application is accepted only with its own key, hash and control epoch, before it expires, on an attempt
  that can be adopted and evidence that is all recognised.
\<close>

theorem apply_only_when:
  assumes "checkApply scalar digest parse_date snapshot evidence action expectedSnapshot expectedControlEpoch expectedExpiresAt actionKey nowMs = Apply_ok"
  shows "actionKey = computeActionKey scalar digest expectedSnapshot expectedControlEpoch action expectedExpiresAt
    \<and> computeSnapshotHash scalar digest snapshot = expectedSnapshot
    \<and> or_else (oget snapshot ''controlEpoch'') (JNum 0) = expectedControlEpoch
    \<and> (\<exists>expires now. parse_date expectedExpiresAt = Some expires \<and> nowMs = Some now \<and> now \<le> expires)
    \<and> isAdoptable snapshot \<and> (\<forall>e\<in>set evidence. ev_type e \<in> set RECOGNIZED_EVIDENCE_TYPES)"
proof (intro conjI)
  have legal: "isActionLegal snapshot evidence (Some action) = None"
    using assms by (auto simp: checkApply_def split: if_splits option.splits)
  show "actionKey = computeActionKey scalar digest expectedSnapshot expectedControlEpoch action expectedExpiresAt"
    "computeSnapshotHash scalar digest snapshot = expectedSnapshot"
    using assms by (auto simp: checkApply_def split: if_splits)
  show "or_else (oget snapshot ''controlEpoch'') (JNum 0) = expectedControlEpoch"
    using assms by (intro same_value_num) (auto simp: checkApply_def split: if_splits)
  show "\<exists>expires now. parse_date expectedExpiresAt = Some expires \<and> nowMs = Some now \<and> now \<le> expires"
    using assms by (auto simp: checkApply_def split: if_splits option.splits)
  show "isAdoptable snapshot" "\<forall>e\<in>set evidence. ev_type e \<in> set RECOGNIZED_EVIDENCE_TYPES"
    using legal by (auto simp: legal_iff checkPreconditions_def Let_def filter_empty_conv split: if_splits)
qed

section \<open>Witnesses\<close>

definition sample_scalar :: "jval \<Rightarrow> string" where
  "sample_scalar v = (case v of JStr s \<Rightarrow> s | JNum n \<Rightarrow> replicate (nat n) CHR ''1'' | _ \<Rightarrow> ''null'')"

definition sample_date :: "string \<Rightarrow> int option" where "sample_date s = Some (int (length s))"
definition sample_iso :: "int \<Rightarrow> string" where "sample_iso n = replicate (nat n) CHR ''i''"

definition sample_facts :: obj where
  "sample_facts = [(''attempt'', JObj [(''state'', JStr ''open''), (''attemptId'', JStr ''a1'')]), (''controlEpoch'', JNum 2)]"

definition sample_evidence :: "evidence_item list" where "sample_evidence = collectEvidence [''receipt.json''] [''ack-1'']"

definition sample_recommendation :: recommendation where
  "sample_recommendation = (case plan sample_scalar id sample_date sample_iso sample_facts sample_evidence ''resume'' ''ii'' 5 of
     Recommend r \<Rightarrow> r)"

lemma sample_plan:
  "plan sample_scalar id sample_date sample_iso sample_facts sample_evidence ''resume'' ''ii'' 5 = Recommend sample_recommendation"
  unfolding sample_recommendation_def by code_simp

theorem recommendation_applies_witness:
  "apply_recommendation sample_scalar id sample_date sample_facts sample_evidence sample_recommendation (Some 7) = Apply_ok
   \<and> apply_recommendation sample_scalar id sample_date sample_facts sample_evidence sample_recommendation (Some 8) = Plan_expired"
  using recommendation_applies [OF sample_plan, of 2 7] recommendation_applies [OF sample_plan, of 2 8]
  by (simp add: sample_date_def sample_iso_def sample_facts_def oget_def)

theorem apply_only_when_witness:
  "isAdoptable sample_facts \<and> computeSnapshotHash sample_scalar id sample_facts = rm_snapshotHash sample_recommendation"
proof -
  have "checkApply sample_scalar id sample_date sample_facts sample_evidence (rm_action sample_recommendation)
      (rm_snapshotHash sample_recommendation) (rm_expectedControlEpoch sample_recommendation) (rm_expiresAt sample_recommendation)
      (rm_actionKey sample_recommendation) (Some 7) = Apply_ok"
    unfolding sample_recommendation_def by code_simp
  from apply_only_when [OF this] show ?thesis by simp
qed

section \<open>Where the two paths differ\<close>

text \<open>Without an attempt id on either side the write path finds the action legal and the read path parks.\<close>

lemma adopt_without_id:
  "isActionLegal [(''attempt'', JObj [(''state'', JStr ''open'')])] [] (Some (JObj [(''type'', JStr ''adopt'')])) = None
   \<and> deriveRecoveryFacts [(''attempt'', JObj [(''state'', JStr ''open'')])] [] ''resume'' = Some (Park No_attempt_id)"
  by code_simp

end
