(* ===== verification/Capacity_Inventory.thy ===== *)
theory Capacity_Inventory
  imports Knowledge_Registry
begin

text \<open>
  The accounts a provider's calls may run on: the inventory a runner config declares
  (\<open>validateProviderAccountInventory\<close> of \<open>src/runner/dispatch/provider-capacity.mjs\<close>), the names of provider
  families (\<open>provider-adapter.mjs\<close>), and which login store an invocation reads. An error keeps the place and
  what it refuses, not its wording; names a JavaScript object inherits are taken as absent.
\<close>

section \<open>Provider families\<close>

definition lower :: "char \<Rightarrow> char" where
  "lower c = (if c \<in> set ''ABCDEFGHIJKLMNOPQRSTUVWXYZ'' then char_of (of_char c + 32 :: nat) else c)"

definition toLowerCase :: "string \<Rightarrow> string" where
  "toLowerCase s = map lower s"

definition normalizeProviderFamily :: "string \<Rightarrow> string \<Rightarrow> string" where
  "normalizeProviderFamily providerFamily command =
     (let norm = toLowerCase (trim providerFamily); cmd = toLowerCase (trim command) in
      if norm \<noteq> '''' then
        (if norm = ''z-ai'' \<or> norm = ''glm'' then ''z-ai''
         else if norm = ''openai-codex'' \<or> norm = ''openai'' \<or> norm = ''codex'' then ''openai-codex''
         else if norm = ''gemini'' \<or> norm = ''agy'' then ''gemini''
         else norm)
      else if cmd = ''codex'' then ''openai-codex''
      else if cmd = ''agy'' then ''gemini''
      else if cmd = ''glm'' then ''z-ai''
      else if cmd \<noteq> '''' then cmd else ''unknown'')"

section \<open>Credential sources\<close>

record cred_source =
  so_kind :: string
  so_home :: string
  so_files :: "string list option"
  so_cli :: "string option"

record account_entry =
  ae_id :: string
  ae_label :: string
  ae_disabled :: bool
  ae_source :: "cred_source option"
  ae_sources :: "(string \<times> cred_source) list option"
  ae_unusable :: "string list"               \<comment> \<open>the CLIs it names a store for that cannot be copied\<close>

type_synonym inventory = "(string \<times> (string \<times> account_entry) list) list"

datatype config_error =
    Providers_shape | Empty_provider
  | Family_collision string string string    \<comment> \<open>both spellings, and the family\<close>
  | Provider_shape string | Provider_key string string | Accounts_shape string
  | Unsafe_account_id string | Digits_account_id string
  | Account_shape "string list" | Forbidden_key "string list" string | Account_key "string list" string
  | Account_label "string list" | Store_choice "string list" | Sources_shape "string list"
  | Source_cli "string list" | Source_shape "string list" | Source_key "string list" string
  | Source_kind "string list" | Source_home "string list" | Source_files "string list" | Files_misplaced "string list"

definition FORBIDDEN_ACCOUNT_KEYS :: "string list" where
  "FORBIDDEN_ACCOUNT_KEYS = [''executor'', ''executors'', ''capability'', ''capabilities'', ''model'', ''models'',
     ''modelTier'', ''mutation'', ''confinement'', ''tool'', ''tools'', ''fallback'', ''providerFallback'', ''runtime'',
     ''runtimeClass'', ''providerRuntime'', ''providerRuntimes'']"

definition PROVIDER_ENTRY_KEYS :: "string list" where
  "PROVIDER_ENTRY_KEYS = [''accounts'']"

definition ACCOUNT_ENTRY_KEYS :: "string list" where
  "ACCOUNT_ENTRY_KEYS = [''label'', ''credentialSource'', ''credentialSources'']"

definition CREDENTIAL_SOURCE_KEYS :: "string list" where
  "CREDENTIAL_SOURCE_KEYS = [''kind'', ''home'', ''files'']"

definition CREDENTIAL_SOURCE_KINDS :: "string list" where
  "CREDENTIAL_SOURCE_KINDS = [''codex-home'', ''home-files'']"

definition CREDENTIAL_STORE_KEYS :: "string list" where
  "CREDENTIAL_STORE_KEYS = [''use'', ''homeEnv'', ''files'']"

fun cli_key :: "string \<Rightarrow> bool" where
  "cli_key [] = False"
| "cli_key (c # cs) = ((lower_letter c \<or> digit c) \<and> list_all (\<lambda>d. lower_letter d \<or> digit d \<or> d \<in> set ''_-'') cs)"

definition validateAccountId :: "string \<Rightarrow> config_error option" where
  "validateAccountId accountId = first_err
     [req (safe_slug accountId) (Unsafe_account_id accountId),
      req (\<not> list_all digit accountId) (Digits_account_id accountId)]"

definition isAbsolute :: "string \<Rightarrow> bool" where
  "isAbsolute p = (take 1 p = ''/'')"

text \<open>A relative path with no \<open>..\<close>, split at both separators.\<close>

definition relative_file :: "jval \<Rightarrow> bool" where
  "relative_file f = (case f of
     JStr p \<Rightarrow> trim p \<noteq> '''' \<and> \<not> isAbsolute p
       \<and> ''..'' \<notin> set (split_on CHR ''/'' (map (\<lambda>c. if c = CHR 0x5C then CHR ''/'' else c) p))
   | _ \<Rightarrow> False)"

definition relative_files :: "jval option \<Rightarrow> bool" where
  "relative_files v = (case as_arr v of None \<Rightarrow> False | Some files \<Rightarrow> files \<noteq> [] \<and> list_all relative_file files)"

definition source_errors :: "string list \<Rightarrow> obj \<Rightarrow> config_error option" where
  "source_errors place ob = first_err
     [first_err (map (\<lambda>k. req (k \<in> set CREDENTIAL_SOURCE_KEYS) (Source_key place k)) (okeys ob)),
      req (oget ob ''kind'' \<in> (Some \<circ> JStr) ` set CREDENTIAL_SOURCE_KINDS) (Source_kind place),
      req (nonblank (oget ob ''home'')) (Source_home place),
      (if oget ob ''kind'' = Some (JStr ''home-files'') then req (relative_files (oget ob ''files'')) (Source_files place)
       else req (oget ob ''files'' = None) (Files_misplaced place))]"

definition text_of :: "jval option \<Rightarrow> string" where
  "text_of v = (case as_str v of Some s \<Rightarrow> s | None \<Rightarrow> '''')"

definition normalizeCredentialSource :: "jval option \<Rightarrow> string list \<Rightarrow> config_error + cred_source" where
  "normalizeCredentialSource v place = (case as_obj v of
     None \<Rightarrow> Inl (Source_shape place)
   | Some ob \<Rightarrow> guarded (source_errors place ob)
       (Inr \<lparr>so_kind = text_of (oget ob ''kind''), so_home = text_of (oget ob ''home''),
             so_files = (if oget ob ''kind'' = Some (JStr ''home-files'') then Some (str_entries (oget ob ''files'')) else None),
             so_cli = None\<rparr>))"

fun per_cli :: "string list \<Rightarrow> (string \<times> jval) list \<Rightarrow> (string \<times> cred_source) list \<Rightarrow> config_error + (string \<times> cred_source) list" where
  "per_cli place [] acc = Inr acc"
| "per_cli place ((cli, v) # rest) acc =
     (if \<not> cli_key cli then Inl (Source_cli (place @ [cli]))
      else e_bind (normalizeCredentialSource (Some v) (place @ [cli]))
        (\<lambda>src. per_cli place rest (oset cli (src\<lparr>so_cli := Some cli\<rparr>) acc)))"

section \<open>The inventory\<close>

definition account_errors :: "string list \<Rightarrow> obj \<Rightarrow> config_error option" where
  "account_errors place ob = first_err
     [first_err (map (\<lambda>k. if k \<in> set FORBIDDEN_ACCOUNT_KEYS then Some (Forbidden_key place k)
         else req (k \<in> set ACCOUNT_ENTRY_KEYS) (Account_key place k)) (okeys ob)),
      req (oget ob ''label'' = None \<or> nonblank (oget ob ''label'')) (Account_label place),
      req ((oget ob ''credentialSource'' \<noteq> None) \<noteq> (oget ob ''credentialSources'' \<noteq> None)) (Store_choice place)]"

definition account_of :: "string \<Rightarrow> string \<Rightarrow> jval \<Rightarrow> config_error + account_entry" where
  "account_of provider accountId account =
     (let place = [provider, accountId] in
      guarded (validateAccountId accountId) (case as_obj (Some account) of
        None \<Rightarrow> Inl (Account_shape place)
      | Some ob \<Rightarrow> guarded (account_errors place ob)
          (let entry = \<lparr>ae_id = accountId, ae_label = (if oget ob ''label'' = None then accountId else text_of (oget ob ''label'')),
                        ae_disabled = False, ae_source = None, ae_sources = None, ae_unusable = []\<rparr> in
           if oget ob ''credentialSource'' \<noteq> None then
             e_bind (normalizeCredentialSource (oget ob ''credentialSource'') (place @ [''credentialSource'']))
               (\<lambda>src. Inr (entry\<lparr>ae_source := Some src\<rparr>))
           else (case as_obj (oget ob ''credentialSources'') of
               None \<Rightarrow> Inl (Sources_shape place)
             | Some sources \<Rightarrow> if sources = [] then Inl (Sources_shape place)
                 else e_bind (per_cli (place @ [''credentialSources'']) sources [])
                   (\<lambda>all. Inr (entry\<lparr>ae_sources := Some all\<rparr>))))))"

fun accounts_of :: "string \<Rightarrow> (string \<times> jval) list \<Rightarrow> (string \<times> account_entry) list \<Rightarrow> config_error + (string \<times> account_entry) list" where
  "accounts_of provider [] acc = Inr acc"
| "accounts_of provider ((accountId, account) # rest) acc =
     e_bind (account_of provider accountId account) (\<lambda>entry. accounts_of provider rest (oset accountId entry acc))"

text \<open>\<open>raw\<close>: under which spelling a family was declared.\<close>

fun providers_of :: "(string \<times> jval) list \<Rightarrow> (string \<times> string) list \<Rightarrow> inventory \<Rightarrow> config_error + inventory" where
  "providers_of [] raw normalized = Inr normalized"
| "providers_of ((provider, providerEntry) # rest) raw normalized =
     (let canonical = normalizeProviderFamily provider '''' in
      if provider = '''' then Inl Empty_provider
      else if oget normalized canonical \<noteq> None then Inl (Family_collision (the (oget raw canonical)) provider canonical)
      else (case as_obj (Some providerEntry) of
          None \<Rightarrow> Inl (Provider_shape provider)
        | Some ob \<Rightarrow> guarded (first_err (map (\<lambda>k. req (k \<in> set PROVIDER_ENTRY_KEYS) (Provider_key provider k)) (okeys ob)))
            (case oget ob ''accounts'' of
              None \<Rightarrow> providers_of rest (oset canonical provider raw) normalized
            | Some v \<Rightarrow> (case as_obj (Some v) of
                None \<Rightarrow> Inl (Accounts_shape provider)
              | Some accounts \<Rightarrow> e_bind (accounts_of provider accounts [])
                  (\<lambda>entries. providers_of rest (oset canonical provider raw) (oset canonical entries normalized))))))"

definition runner_section :: "jval option \<Rightarrow> jval option" where
  "runner_section runnerConfig = (case Option.bind (as_obj runnerConfig) (\<lambda>ob. as_obj (oget ob ''runner'')) of
     Some section \<Rightarrow> Some (JObj section) | None \<Rightarrow> runnerConfig)"

definition validateProviderAccountInventory :: "jval option \<Rightarrow> config_error + inventory" where
  "validateProviderAccountInventory runnerConfig =
     (case Option.bind (as_obj (runner_section runnerConfig)) (\<lambda>ob. oget ob ''providers'') of
       None \<Rightarrow> Inr []
     | Some v \<Rightarrow> (case as_obj (Some v) of None \<Rightarrow> Inl Providers_shape | Some providers \<Rightarrow> providers_of providers [] []))"

section \<open>The login store of an invocation\<close>

definition basename :: "string \<Rightarrow> string" where
  "basename p = (case rev (filter (\<lambda>seg. seg \<noteq> '''') (split_on CHR ''/'' p)) of [] \<Rightarrow> '''' | seg # _ \<Rightarrow> seg)"

definition commandCli :: "string \<Rightarrow> string option" where
  "commandCli command = (let name = toLowerCase (basename command) in if name = '''' then None else Some name)"

definition credentialSourceForCli :: "account_entry \<Rightarrow> string option \<Rightarrow> cred_source option" where
  "credentialSourceForCli account cli = (case ae_sources account of
     Some sources \<Rightarrow> (case cli of Some c \<Rightarrow> if c = '''' then None else oget sources c | None \<Rightarrow> None)
   | None \<Rightarrow> ae_source account)"

definition accountCredentialSources :: "account_entry \<Rightarrow> cred_source list" where
  "accountCredentialSources account = (case ae_sources account of
     Some sources \<Rightarrow> map snd sources
   | None \<Rightarrow> (case ae_source account of Some src \<Rightarrow> [src] | None \<Rightarrow> []))"

definition starts_dir :: "string \<Rightarrow> string \<Rightarrow> bool" where
  "starts_dir prefix s = (take (length prefix) s = prefix \<and> (length s = length prefix \<or> s ! length prefix = CHR ''/''))"

definition replace_home :: "string \<Rightarrow> string \<Rightarrow> string \<Rightarrow> string" where
  "replace_home homedir prefix s = (if starts_dir prefix s then homedir @ drop (length prefix) s else s)"

definition expandCredentialHome :: "string \<Rightarrow> jval option \<Rightarrow> string option" where
  "expandCredentialHome homedir home = (case as_str home of
     None \<Rightarrow> None
   | Some s \<Rightarrow> if trim s = '''' then None
       else (let expanded = replace_home homedir ''~'' (replace_home homedir ''$HOME'' (replace_home homedir ''${HOME}'' s))
             in if isAbsolute expanded then Some expanded else None))"

fun env_name :: "string \<Rightarrow> bool" where
  "env_name [] = False"
| "env_name (c # cs) = ((alnum c \<and> \<not> digit c \<or> c = CHR ''_'') \<and> list_all (\<lambda>d. alnum d \<or> d = CHR ''_'') cs)"

datatype store_problem = Store_shape | Store_key string | Store_use | Store_homeEnv | Store_files | Store_repeats

definition credentialStoreProblem :: "jval option \<Rightarrow> store_problem option" where
  "credentialStoreProblem store = (case as_obj store of
     None \<Rightarrow> Some Store_shape
   | Some ob \<Rightarrow> first_err
       [first_err (map (\<lambda>k. req (k \<in> set CREDENTIAL_STORE_KEYS) (Store_key k)) (okeys ob)),
        req (case as_str (oget ob ''use'') of Some u \<Rightarrow> cli_key u | None \<Rightarrow> False) Store_use,
        req (case as_str (oget ob ''homeEnv'') of Some e \<Rightarrow> env_name e | None \<Rightarrow> False) Store_homeEnv,
        whenc (oget ob ''files'' \<noteq> None) (first_err
          [req (relative_files (oget ob ''files'')) Store_files,
           req (distinct (str_entries (oget ob ''files''))) Store_repeats])])"

definition home_binding :: "jval \<Rightarrow> jval option" where
  "home_binding b = (case as_obj (Some b) of
     None \<Rightarrow> None
   | Some ob \<Rightarrow> (case as_obj (oget ob ''target'') of
       None \<Rightarrow> None
     | Some target \<Rightarrow> if oget ob ''resource'' = Some (JStr ''private-home'') \<and> oget target ''kind'' = Some (JStr ''env'')
           \<and> truthy (oget target ''name'') then oget target ''name'' else None))"

definition credentialStoreOf :: "obj option \<Rightarrow> jval option" where
  "credentialStoreOf invocation = (case invocation of
     None \<Rightarrow> None
   | Some ob \<Rightarrow>
       if truthy (oget ob ''credentialStore'') then oget ob ''credentialStore''
       else (case (List.map_filter home_binding (case as_arr (oget ob ''resourceBindings'') of Some bs \<Rightarrow> bs | None \<Rightarrow> []),
                   commandCli (text_of (oget ob ''command''))) of
           (name # _, Some cli) \<Rightarrow> Some (JObj [(''use'', JStr cli), (''homeEnv'', name)])
         | _ \<Rightarrow> None))"

section \<open>What an accepted inventory holds\<close>

definition source_sound :: "cred_source \<Rightarrow> bool" where
  "source_sound s = (so_kind s \<in> set CREDENTIAL_SOURCE_KINDS \<and> trim (so_home s) \<noteq> ''''
     \<and> (case so_files s of
          Some files \<Rightarrow> so_kind s = ''home-files'' \<and> files \<noteq> [] \<and> list_all (\<lambda>f. relative_file (JStr f)) files
        | None \<Rightarrow> so_kind s = ''codex-home''))"

definition account_sound :: "string \<Rightarrow> account_entry \<Rightarrow> bool" where
  "account_sound i a = (ae_id a = i \<and> safe_slug i \<and> \<not> list_all digit i
     \<and> (case (ae_source a, ae_sources a) of
          (Some s, None) \<Rightarrow> source_sound s
        | (None, Some l) \<Rightarrow> l \<noteq> [] \<and> list_all (\<lambda>(cli, s). cli_key cli \<and> so_cli s = Some cli \<and> source_sound s) l
        | _ \<Rightarrow> False))"

definition inventory_sound :: "inventory \<Rightarrow> bool" where
  "inventory_sound known = (distinct (okeys known)
     \<and> list_all (\<lambda>(provider, accounts). list_all (\<lambda>(i, a). account_sound i a) accounts) known)"

lemma list_all_oset: "list_all P l \<Longrightarrow> P (k, v) \<Longrightarrow> list_all P (oset k v l)"
  unfolding oset_def by (induction l) auto

lemma oset_not_Nil [simp]: "oset k v l \<noteq> []"
  unfolding oset_def by (cases l) auto

lemma relative_files_str:
  assumes "relative_files v"
  shows "str_entries v \<noteq> [] \<and> list_all (\<lambda>f. relative_file (JStr f)) (str_entries v)"
proof -
  have "list_all relative_file l \<Longrightarrow> list_all (\<lambda>f. relative_file (JStr f)) (List.map_filter (\<lambda>x. as_str (Some x)) l)
      \<and> (l \<noteq> [] \<longrightarrow> List.map_filter (\<lambda>x. as_str (Some x)) l \<noteq> [])" for l
    by (induction l) (auto simp: List.map_filter_simps relative_file_def split: jval.splits)
  with assms show ?thesis
    by (auto simp: relative_files_def str_entries_def split: option.splits)
qed

lemma normalized_source:
  assumes "normalizeCredentialSource v place = Inr s"
  shows "source_sound s" "so_cli s = None"
proof -
  obtain ob where ob: "as_obj v = Some ob" "source_errors place ob = None"
    "s = \<lparr>so_kind = text_of (oget ob ''kind''), so_home = text_of (oget ob ''home''),
          so_files = (if oget ob ''kind'' = Some (JStr ''home-files'') then Some (str_entries (oget ob ''files'')) else None), so_cli = None\<rparr>"
    using assms by (auto simp: normalizeCredentialSource_def guarded_Inr split: option.splits)
  then show "source_sound s" "so_cli s = None"
    by (auto simp: source_errors_def check_simps source_sound_def text_of_def CREDENTIAL_SOURCE_KINDS_def
        dest!: nonblankD relative_files_str split: if_splits)
qed

lemma per_cli_sound:
  "per_cli place l acc = Inr r \<Longrightarrow> list_all (\<lambda>(cli, s). cli_key cli \<and> so_cli s = Some cli \<and> source_sound s) acc
    \<Longrightarrow> list_all (\<lambda>(cli, s). cli_key cli \<and> so_cli s = Some cli \<and> source_sound s) r \<and> (l \<noteq> [] \<or> acc \<noteq> [] \<longrightarrow> r \<noteq> [])"
proof (induction place l acc rule: per_cli.induct)
  case (2 place cli v rest acc)
  then obtain src where src: "cli_key cli" "normalizeCredentialSource (Some v) (place @ [cli]) = Inr src"
    "per_cli place rest (oset cli (src\<lparr>so_cli := Some cli\<rparr>) acc) = Inr r"
    by (auto simp: e_bind_Inr split: if_splits)
  have "source_sound (src\<lparr>so_cli := Some cli\<rparr>)"
    using normalized_source(1) [OF src(2)] by (auto simp: source_sound_def split: option.splits)
  then have "list_all (\<lambda>(cli, s). cli_key cli \<and> so_cli s = Some cli \<and> source_sound s) (oset cli (src\<lparr>so_cli := Some cli\<rparr>) acc)"
    using 2(3) src(1) by (intro list_all_oset) simp_all
  with 2(1) [of src] src show ?case by simp
qed auto

lemma account_of_sound:
  assumes "account_of provider i account = Inr a"
  shows "account_sound i a"
proof -
  have i: "safe_slug i" "\<not> list_all digit i"
    using assms by (auto simp: account_of_def Let_def guarded_Inr validateAccountId_def check_simps)
  obtain ob where ob: "as_obj (Some account) = Some ob"
    using assms by (auto simp: account_of_def Let_def guarded_Inr split: option.splits)
  show ?thesis
  proof (cases "oget ob ''credentialSource''")
    case None
    with assms ob i show ?thesis
      by (auto simp: account_of_def Let_def guarded_Inr e_bind_Inr account_sound_def dest!: per_cli_sound split: option.splits if_splits)
  next
    case (Some s)
    with assms ob i show ?thesis
      by (auto simp: account_of_def Let_def guarded_Inr e_bind_Inr account_sound_def dest: normalized_source(1))
  qed
qed

lemma accounts_of_sound:
  "accounts_of provider l acc = Inr r \<Longrightarrow> list_all (\<lambda>(i, a). account_sound i a) acc \<Longrightarrow> list_all (\<lambda>(i, a). account_sound i a) r"
proof (induction provider l acc rule: accounts_of.induct)
  case (2 provider i account rest acc)
  then obtain entry where e: "account_of provider i account = Inr entry" "accounts_of provider rest (oset i entry acc) = Inr r"
    by (auto simp: e_bind_Inr)
  from 2(1) [OF e(2)] show ?case using 2(3) account_of_sound [OF e(1)] by (auto intro: list_all_oset)
qed auto

lemma providers_of_sound:
  "providers_of l raw known = Inr r \<Longrightarrow> inventory_sound known \<Longrightarrow> inventory_sound r"
proof (induction l raw known rule: providers_of.induct)
  case (2 provider entry rest raw known)
  let ?c = "normalizeProviderFamily provider ''''"
  obtain ob where ob: "provider \<noteq> ''''" "oget known ?c = None" "as_obj (Some entry) = Some ob"
    "first_err (map (\<lambda>k. req (k \<in> set PROVIDER_ENTRY_KEYS) (Provider_key provider k)) (okeys ob)) = None"
    using 2(3) by (auto simp: Let_def guarded_Inr split: if_splits option.splits)
  show ?case
  proof (cases "oget ob ''accounts''")
    case None
    with 2 ob show ?thesis by (auto simp: Let_def guarded_Inr)
  next
    case (Some v)
    with 2(3) ob obtain accounts entries where a: "as_obj (Some v) = Some accounts" "accounts_of provider accounts [] = Inr entries"
      "providers_of rest (oset ?c provider raw) (oset ?c entries known) = Inr r"
      by (auto simp: Let_def guarded_Inr e_bind_Inr split: option.splits)
    have "inventory_sound (oset ?c entries known)"
      using 2(4) accounts_of_sound [OF a(2)] by (auto simp: inventory_sound_def intro!: list_all_oset)
    with 2(2) ob Some a show ?thesis by (simp add: Let_def)
  qed
qed auto

lemma validated_inventory_sound:
  assumes "validateProviderAccountInventory runnerConfig = Inr known"
  shows "inventory_sound known"
proof -
  have "inventory_sound []" by (simp add: inventory_sound_def okeys_def)
  with assms show ?thesis
    by (auto simp: validateProviderAccountInventory_def split: option.splits intro: providers_of_sound)
qed

end
