(* ===== verification/Account_Pools.thy ===== *)
theory Account_Pools
  imports Capacity_Inventory
begin

text \<open>
  \<open>src/runner/dispatch/llm-accounts.mjs\<close>: the accounts of \<open>runner.llmAccounts\<close>, what is wrong with them, and the
  inventory the leases read from them and from \<open>runner.providers\<close>. \<open>homedir\<close> is the user's home directory.
\<close>

section \<open>Reading the pools\<close>

record pool_account =
  pa_label :: string
  pa_disabled :: bool
  pa_stores :: "(string \<times> string) list"     \<comment> \<open>a directory per CLI\<close>

type_synonym pools = "(string \<times> (string \<times> pool_account) list) list"
type_synonym pool_problem = "string \<times> string list"     \<comment> \<open>its code and where\<close>

definition ACCOUNT_KEYS :: "string list" where
  "ACCOUNT_KEYS = [''credentialStore'', ''label'', ''disabled'']"

definition entries_of :: "jval option \<Rightarrow> obj" where
  "entries_of v = (case as_obj v of Some ob \<Rightarrow> ob | None \<Rightarrow> [])"

definition executors_of :: "obj \<Rightarrow> obj list" where
  "executors_of runner = List.map_filter (\<lambda>(_, v). as_obj (Some v)) (entries_of (oget runner ''executors''))"

definition configuredFamilies :: "obj \<Rightarrow> string list" where
  "configuredFamilies runner = remdups (okeys (entries_of (oget runner ''modelPolicies''))
     @ filter (\<lambda>s. s \<noteq> '''') (List.map_filter (\<lambda>e. as_str (oget e ''providerModel'')) (executors_of runner)))"

definition aliasOf :: "string \<Rightarrow> string list \<Rightarrow> string option" where
  "aliasOf pool families =
     (if pool \<in> set families then None
      else find (\<lambda>family. normalizeProviderFamily family '''' = normalizeProviderFamily pool '''') families)"

definition store_of :: "string \<Rightarrow> string list \<Rightarrow> string \<times> jval \<Rightarrow> pool_problem + string \<times> string" where
  "store_of homedir place e = (case e of (cli, store) \<Rightarrow>
     let spot = place @ [''credentialStore'', cli] in
     if \<not> cli_key cli then Inl (''store-cli'', spot)
     else if \<not> nonblank (Some store) then Inl (''store-path'', spot)
     else case expandCredentialHome homedir (Some store) of None \<Rightarrow> Inl (''store-path'', spot) | Some dir \<Rightarrow> Inr (cli, dir))"

definition lefts :: "('a + 'b) list \<Rightarrow> 'a list" where
  "lefts rs = List.map_filter (\<lambda>r. case r of Inl x \<Rightarrow> Some x | Inr _ \<Rightarrow> None) rs"

definition rights :: "('a + 'b) list \<Rightarrow> 'b list" where
  "rights rs = List.map_filter (\<lambda>r. case r of Inr x \<Rightarrow> Some x | Inl _ \<Rightarrow> None) rs"

definition account_read :: "string \<Rightarrow> string list \<Rightarrow> string \<Rightarrow> jval \<Rightarrow> pool_account option \<times> pool_problem list" where
  "account_read homedir place accountId account =
     (if validateAccountId accountId \<noteq> None then (None, [(''account-id'', place)])
      else case as_obj (Some account) of
        None \<Rightarrow> (None, [(''llm-accounts-shape'', place)])
      | Some ob \<Rightarrow>
          (let unknown = (if filter (\<lambda>k. k \<notin> set ACCOUNT_KEYS) (okeys ob) = [] then [] else [(''account-unknown-key'', place)]);
               shape = (if oget ob ''credentialStore'' \<noteq> None \<and> as_obj (oget ob ''credentialStore'') = None
                        then [(''llm-accounts-shape'', place @ [''credentialStore''])] else []);
               read = map (store_of homedir place) (entries_of (oget ob ''credentialStore''));
               found = unknown @ shape @ lefts read in
           if rights read = [] then (None, found @ [(''account-no-store'', place)])
           else (Some \<lparr>pa_label = (if nonblank (oget ob ''label'') then text_of (oget ob ''label'') else accountId),
                       pa_disabled = (oget ob ''disabled'' = Some (JBool True)), pa_stores = rights read\<rparr>,
                 found
                 @ (if oget ob ''label'' = None \<or> nonblank (oget ob ''label'') then [] else [(''account-label'', place @ [''label''])])
                 @ (if oget ob ''disabled'' \<in> {None, Some (JBool True), Some (JBool False)} then []
                    else [(''account-disabled'', place @ [''disabled''])]))))"

fun accounts_read :: "string \<Rightarrow> string \<Rightarrow> (string \<times> jval) list \<Rightarrow> (string \<times> pool_account) list \<times> pool_problem list" where
  "accounts_read homedir pool [] = ([], [])"
| "accounts_read homedir pool ((accountId, account) # rest) =
     (case account_read homedir [pool, accountId] accountId account of (read, found) \<Rightarrow>
        case accounts_read homedir pool rest of (entries, others) \<Rightarrow>
          ((case read of Some a \<Rightarrow> (accountId, a) # entries | None \<Rightarrow> entries), found @ others))"

fun pools_read :: "string \<Rightarrow> string list \<Rightarrow> (string \<times> jval) list \<Rightarrow> pools \<times> pool_problem list" where
  "pools_read homedir families [] = ([], [])"
| "pools_read homedir families ((pool, accounts) # rest) =
     (case pools_read homedir families rest of (pools, others) \<Rightarrow>
        if CHR 0x40 \<in> set pool then (pools, (''pool-name-at'', [pool]) # others)
        else if aliasOf pool families \<noteq> None then (pools, (''pool-name-alias'', [pool]) # others)
        else (case as_obj (Some accounts) of
            None \<Rightarrow> (pools, (''llm-accounts-shape'', [pool]) # others)
          | Some ob \<Rightarrow> (case accounts_read homedir pool ob of (entries, found) \<Rightarrow> ((pool, entries) # pools, found @ others))))"

definition readLlmAccounts :: "string \<Rightarrow> obj \<Rightarrow> pools \<times> pool_problem list" where
  "readLlmAccounts homedir runner = (case oget runner ''llmAccounts'' of
     None \<Rightarrow> ([], [])
   | Some v \<Rightarrow> (case as_obj (Some v) of
       None \<Rightarrow> ([], [(''llm-accounts-shape'', [''runner.llmAccounts''])])
     | Some ob \<Rightarrow> pools_read homedir (configuredFamilies runner) ob))"

section \<open>The inventory the leases read\<close>

definition legacyStateKey :: "string \<Rightarrow> string" where
  "legacyStateKey pool = normalizeProviderFamily pool ''''"

definition add_files :: "string \<Rightarrow> string list \<Rightarrow> (string \<times> string list) list \<Rightarrow> (string \<times> string list) list" where
  "add_files use files m = oset use
     (fold (\<lambda>f l. if f \<in> set l then l else l @ [f]) files (case oget m use of Some l \<Rightarrow> l | None \<Rightarrow> [])) m"

text \<open>The invocations of an executor, each with the command it runs.\<close>

definition invocations_of :: "obj \<Rightarrow> obj list" where
  "invocations_of executor = map (\<lambda>i. if nullish (oget i ''command'') then oset_opt ''command'' (oget executor ''command'') i else i)
     (List.map_filter (\<lambda>v. as_obj (Some v)) (case as_arr (oget executor ''invocations'') of Some l \<Rightarrow> l | None \<Rightarrow> []))"

definition executor_family :: "obj \<Rightarrow> string" where
  "executor_family executor = normalizeProviderFamily
     (text_of (if nullish (oget executor ''providerModel'') then oget executor ''provider'' else oget executor ''providerModel'')) ''''"

text \<open>The stores that declare files, with the family of their executor.\<close>

definition declared_files :: "obj \<Rightarrow> (string \<times> string \<times> string list) list" where
  "declared_files runner = concat (map (\<lambda>executor.
     List.map_filter (\<lambda>i. case as_obj (credentialStoreOf (Some i)) of
         Some store \<Rightarrow> if truthy (oget store ''files'')
           then Some (executor_family executor, text_of (oget store ''use''), str_entries (oget store ''files'')) else None
       | None \<Rightarrow> None) (invocations_of executor)) (executors_of runner))"

definition declaredStoreFiles :: "obj \<Rightarrow> string \<Rightarrow> string \<Rightarrow> string list option" where
  "declaredStoreFiles runner poolKey use =
     (let all = fold (\<lambda>(_, u, fs). add_files u fs) (declared_files runner) [];
          own = fold (\<lambda>(_, u, fs). add_files u fs) (filter (\<lambda>d. fst d = poolKey) (declared_files runner)) []
      in case oget own use of Some l \<Rightarrow> Some l | None \<Rightarrow> oget all use)"

definition derived_source :: "(string \<Rightarrow> string list option) \<Rightarrow> string \<times> string \<Rightarrow> (string \<times> cred_source) option" where
  "derived_source filesFor e = (case e of (cli, home) \<Rightarrow>
     if cli = ''codex'' then Some (cli, \<lparr>so_kind = ''codex-home'', so_home = home, so_files = None, so_cli = Some cli\<rparr>)
     else map_option (\<lambda>fs. (cli, \<lparr>so_kind = ''home-files'', so_home = home, so_files = Some fs, so_cli = Some cli\<rparr>)) (filesFor cli))"

definition unusable_stores :: "(string \<Rightarrow> string list option) \<Rightarrow> pool_account \<Rightarrow> string list" where
  "unusable_stores filesFor a = map fst (filter (\<lambda>e. derived_source filesFor e = None) (pa_stores a))"

definition derived_account :: "(string \<Rightarrow> string list option) \<Rightarrow> string \<Rightarrow> pool_account \<Rightarrow> account_entry" where
  "derived_account filesFor i a = \<lparr>ae_id = i, ae_label = pa_label a, ae_disabled = pa_disabled a, ae_source = None,
     ae_sources = Some (List.map_filter (derived_source filesFor) (pa_stores a)), ae_unusable = unusable_stores filesFor a\<rparr>"

definition derive_pool :: "obj \<Rightarrow> string \<times> (string \<times> pool_account) list \<Rightarrow> inventory \<Rightarrow> inventory" where
  "derive_pool runner e known = (case e of (pool, entries) \<Rightarrow>
     let stateKey = legacyStateKey pool; filesFor = declaredStoreFiles runner stateKey
     in oset stateKey (map (\<lambda>(i, a). (i, derived_account filesFor i a)) entries) known)"

definition deriveLegacyInventory :: "string \<Rightarrow> obj \<Rightarrow> inventory \<times> (string \<times> string \<times> string) list" where
  "deriveLegacyInventory homedir runner = (let pools = fst (readLlmAccounts homedir runner) in
     (fold (derive_pool runner) pools [],
      concat (map (\<lambda>(pool, entries). concat (map (\<lambda>(i, a).
        map (\<lambda>cli. (pool, i, cli)) (unusable_stores (declaredStoreFiles runner (legacyStateKey pool)) a)) entries)) pools)))"

definition providerAccountInventory :: "string \<Rightarrow> jval option \<Rightarrow> config_error + inventory" where
  "providerAccountInventory homedir runnerConfig = e_bind (validateProviderAccountInventory runnerConfig)
     (\<lambda>legacy. case as_obj (runner_section runnerConfig) of
        None \<Rightarrow> Inr legacy
      | Some section \<Rightarrow> if oget section ''llmAccounts'' = None then Inr legacy
          else Inr (omerge legacy (fst (deriveLegacyInventory homedir section))))"

end
