(* ===== verification/Capacity_State.thy ===== *)
theory Capacity_State
  imports Account_Pools Run_Control
begin

text \<open>
  The state of provider accounts in \<open>src/runner/dispatch/provider-capacity.mjs\<close>: leases, quarantines, which
  account an assignment holds, and the probe of quarantined accounts. Every operation reads the state file
  afresh; the writing ones do it under the state lock, so each is one step. Times are milliseconds, written as
  dates by \<open>ce_iso\<close> and read by \<open>ce_parse\<close> (no value for NaN).
\<close>

section \<open>The state file\<close>

record capacity_env =
  ce_parse :: "string \<Rightarrow> int option"
  ce_iso :: "int \<Rightarrow> string"
  ce_dead :: "obj \<Rightarrow> bool"        \<comment> \<open>the judge proves this holder dead\<close>
  ce_self :: obj                  \<comment> \<open>the record of this process\<close>
  ce_pid :: int

record probe_note =
  pn_attemptedAt :: string
  pn_status :: string
  pn_detail :: "string option"

record quarantine =
  qr_kind :: string
  qr_reasonCode :: "string option"
  qr_until :: "string option"
  qr_detail :: "jval option"
  qr_quarantinedAt :: string
  qr_probe :: "probe_note option"

record lease =
  le_runId :: string
  le_assignmentId :: "string option"
  le_pid :: "int option"
  le_startTime :: "jval option"
  le_record :: "obj option"
  le_acquiredAt :: string

record capacity_account =
  ca_leases :: "(string \<times> lease) list"
  ca_quarantine :: "quarantine option"
  ca_lastSelectedAt :: "string option"
  ca_lastFaultAt :: "string option"
  ca_lastReclaimedAt :: "string option"

datatype audit_entry =
    State_reset string
  | Cleared (ad_at: string) (ad_provider: string) (ad_account: string) (ad_previous: "quarantine option")
      (ad_reason: "string option") (ad_caller: "string option")

record capacity_state =
  cs_providers :: "(string \<times> (string \<times> capacity_account) list) list"
  cs_assignments :: "(string \<times> (string \<times> string)) list"    \<comment> \<open>the account and when it was selected\<close>
  cs_audit :: "audit_entry list"

definition emptyState :: capacity_state where
  "emptyState = \<lparr>cs_providers = [], cs_assignments = [], cs_audit = []\<rparr>"

definition empty_account :: capacity_account where
  "empty_account = \<lparr>ca_leases = [], ca_quarantine = None, ca_lastSelectedAt = None, ca_lastFaultAt = None, ca_lastReclaimedAt = None\<rparr>"

text \<open>What the file holds. A text that does not parse is renamed aside, if that succeeds.\<close>

datatype state_file = No_file | Blank | Garbled | Not_an_object | Stored capacity_state

definition readState :: "string \<Rightarrow> bool \<Rightarrow> state_file \<Rightarrow> capacity_state \<times> state_file" where
  "readState nowIso renamed file = (case file of
     Stored st \<Rightarrow> (st, file)
   | No_file \<Rightarrow> (emptyState, file)
   | Blank \<Rightarrow> (emptyState, file)
   | Garbled \<Rightarrow> (emptyState\<lparr>cs_audit := [State_reset nowIso]\<rparr>, if renamed then No_file else Garbled)
   | Not_an_object \<Rightarrow> (emptyState\<lparr>cs_audit := [State_reset nowIso]\<rparr>, file))"

text \<open>One read of the file, an answer, and what is written back, if anything is.\<close>

definition on_state :: "capacity_env \<Rightarrow> int \<Rightarrow> (capacity_state \<Rightarrow> 'a \<times> capacity_state option) \<Rightarrow> state_file \<Rightarrow> 'a \<times> state_file" where
  "on_state env now f file = (case readState (ce_iso env now) True file of (st, kept) \<Rightarrow>
     (case f st of (r, Some st') \<Rightarrow> (r, Stored st') | (r, None) \<Rightarrow> (r, kept)))"

definition account_at :: "capacity_state \<Rightarrow> string \<Rightarrow> string \<Rightarrow> capacity_account option" where
  "account_at st provider accountId = Option.bind (oget (cs_providers st) provider) (\<lambda>accounts. oget accounts accountId)"

definition accounts_in :: "capacity_state \<Rightarrow> string \<Rightarrow> (string \<times> capacity_account) list" where
  "accounts_in st provider = (case oget (cs_providers st) provider of Some l \<Rightarrow> l | None \<Rightarrow> [])"

definition accountState :: "capacity_state \<Rightarrow> string \<Rightarrow> string \<Rightarrow> capacity_account" where
  "accountState st provider accountId = (case account_at st provider accountId of Some a \<Rightarrow> a | None \<Rightarrow> empty_account)"

definition put_account :: "string \<Rightarrow> string \<Rightarrow> capacity_account \<Rightarrow> capacity_state \<Rightarrow> capacity_state" where
  "put_account provider accountId acct st =
     st\<lparr>cs_providers := oset provider (oset accountId acct (accounts_in st provider)) (cs_providers st)\<rparr>"

section \<open>Quarantine and liveness\<close>

definition is_quarantined :: "capacity_env \<Rightarrow> quarantine option \<Rightarrow> int \<Rightarrow> bool" where
  "is_quarantined env q now = (case q of
     None \<Rightarrow> False
   | Some quarantine \<Rightarrow> qr_kind quarantine = ''manual-clear'' \<or> (case qr_until quarantine of
       None \<Rightarrow> True
     | Some until \<Rightarrow> until = '''' \<or> (case ce_parse env until of None \<Rightarrow> True | Some untilMs \<Rightarrow> untilMs > now)))"

definition isQuarantined :: "capacity_env \<Rightarrow> capacity_account \<Rightarrow> int \<Rightarrow> bool" where
  "isQuarantined env acct now = is_quarantined env (ca_quarantine acct) now"

definition holder_record :: "lease \<Rightarrow> obj" where
  "holder_record l = (case le_record l of
     Some r \<Rightarrow> r
   | None \<Rightarrow> oset_opt ''processStartTime'' (le_startTime l) (oset_opt ''pid'' (map_option JNum (le_pid l)) []))"

definition proven_dead :: "capacity_env \<Rightarrow> (string \<Rightarrow> lease \<Rightarrow> bool) \<Rightarrow> (string \<Rightarrow> lease \<Rightarrow> bool) \<Rightarrow> string \<Rightarrow> lease \<Rightarrow> bool" where
  "proven_dead env runIsDead isRunWorkerAlive runId l =
     (le_pid l \<noteq> None \<and> ce_dead env (holder_record l) \<and> \<not> isRunWorkerAlive runId l \<or> runIsDead runId l)"

definition reclaim_account ::
  "capacity_env \<Rightarrow> (string \<Rightarrow> lease \<Rightarrow> bool) \<Rightarrow> (string \<Rightarrow> lease \<Rightarrow> bool) \<Rightarrow> string \<Rightarrow> capacity_account \<Rightarrow> capacity_account" where
  "reclaim_account env runIsDead isRunWorkerAlive nowIso acct =
     (let kept = filter (\<lambda>(runId, l). \<not> proven_dead env runIsDead isRunWorkerAlive runId l) (ca_leases acct) in
      if kept = ca_leases acct then acct else acct\<lparr>ca_leases := kept, ca_lastReclaimedAt := Some nowIso\<rparr>)"

definition reclaimDeadLeases ::
  "capacity_env \<Rightarrow> (string \<Rightarrow> lease \<Rightarrow> bool) \<Rightarrow> (string \<Rightarrow> lease \<Rightarrow> bool) \<Rightarrow> string \<Rightarrow> string \<Rightarrow> capacity_state \<Rightarrow> capacity_state" where
  "reclaimDeadLeases env runIsDead isRunWorkerAlive nowIso provider st =
     st\<lparr>cs_providers := oset provider
        (map (\<lambda>(i, a). (i, reclaim_account env runIsDead isRunWorkerAlive nowIso a)) (accounts_in st provider)) (cs_providers st)\<rparr>"

section \<open>Leases\<close>

record lease_request =
  lr_provider :: string
  lr_accountId :: "string option"
  lr_assignmentId :: "string option"
  lr_runId :: string
  lr_cli :: "string option"
  lr_digest :: "string option"
  lr_runIsDead :: "string \<Rightarrow> lease \<Rightarrow> bool"
  lr_workerAlive :: "string \<Rightarrow> lease \<Rightarrow> bool"

record receipt =
  rc_provider :: string
  rc_accountId :: string
  rc_runId :: string
  rc_acquiredAt :: string
  rc_digest :: "string option"

record selection =
  sl_provider :: string
  sl_accountId :: string
  sl_accountLabel :: string
  sl_selectedAt :: string
  sl_lease :: "string \<times> string option \<times> int"
  sl_receipt :: receipt
  sl_source :: "cred_source option"
  sl_sources :: "(string \<times> cred_source) list option"

datatype conflict = Not_in_inventory | Disabled | No_login_store string | Quarantined

datatype lease_answer =
    Unmanaged | Confined | Bad_config config_error | State_locked
  | Conflict conflict
  | Selected selection

definition given :: "string option \<Rightarrow> bool" where
  "given v = (case v of Some s \<Rightarrow> s \<noteq> '''' | None \<Rightarrow> False)"

definition assignment_key :: "string \<Rightarrow> string \<Rightarrow> string" where
  "assignment_key provider assignmentId = provider @ '':'' @ assignmentId"

definition inventory_of :: "inventory \<Rightarrow> string \<Rightarrow> (string \<times> account_entry) list" where
  "inventory_of known provider = (case oget known provider of Some l \<Rightarrow> l | None \<Rightarrow> [])"

text \<open>What is refused before the lock is taken.\<close>

definition lease_precheck :: "bool \<Rightarrow> config_error + inventory \<Rightarrow> lease_request \<Rightarrow> lease_answer + string \<times> account_entry" where
  "lease_precheck confined known rq =
     (if lr_provider rq = '''' \<or> lr_runId rq = '''' then Inl Unmanaged
      else if confined then Inl Confined
      else case known of Inl e \<Rightarrow> Inl (Bad_config e) | Inr inventory \<Rightarrow>
        (let accounts = inventory_of inventory (lr_provider rq) in
         if accounts = [] then Inl Unmanaged
         else case (if given (lr_accountId rq) then oget accounts (the (lr_accountId rq)) else None) of
           None \<Rightarrow> Inl (Conflict Not_in_inventory)
         | Some account \<Rightarrow>
             if ae_disabled account then Inl (Conflict Disabled)
             else if given (lr_cli rq) \<and> credentialSourceForCli account (lr_cli rq) = None
               then Inl (Conflict (No_login_store (the (lr_cli rq))))
             else Inr (the (lr_accountId rq), account)))"

definition new_lease :: "capacity_env \<Rightarrow> lease_request \<Rightarrow> string \<Rightarrow> lease" where
  "new_lease env rq acquiredAt =
     \<lparr>le_runId = lr_runId rq, le_assignmentId = lr_assignmentId rq, le_pid = Some (ce_pid env),
      le_startTime = oget (ce_self env) ''startTime'', le_record = Some (ce_self env), le_acquiredAt = acquiredAt\<rparr>"

definition take_lease :: "capacity_env \<Rightarrow> lease_request \<Rightarrow> string \<Rightarrow> account_entry \<Rightarrow> int \<Rightarrow> capacity_state \<Rightarrow> lease_answer \<times> capacity_state option" where
  "take_lease env rq accountId account now st =
     (let provider = lr_provider rq; acquiredAt = ce_iso env now;
          st1 = reclaimDeadLeases env (lr_runIsDead rq) (lr_workerAlive rq) acquiredAt provider st;
          acct = accountState st1 provider accountId in
      if isQuarantined env acct now then (Conflict Quarantined, None)
      else (let acct' = acct\<lparr>ca_lastSelectedAt := Some acquiredAt,
                             ca_leases := oset (lr_runId rq) (new_lease env rq acquiredAt) (ca_leases acct)\<rparr>;
                st2 = put_account provider accountId acct' st1;
                st3 = (if given (lr_assignmentId rq)
                       then st2\<lparr>cs_assignments := oset (assignment_key provider (the (lr_assignmentId rq))) (accountId, acquiredAt) (cs_assignments st2)\<rparr>
                       else st2)
            in (Selected \<lparr>sl_provider = provider, sl_accountId = accountId, sl_accountLabel = ae_label account, sl_selectedAt = acquiredAt,
                 sl_lease = (lr_runId rq, lr_assignmentId rq, ce_pid env),
                 sl_receipt = \<lparr>rc_provider = provider, rc_accountId = accountId, rc_runId = lr_runId rq, rc_acquiredAt = acquiredAt,
                   rc_digest = lr_digest rq\<rparr>,
                 sl_source = credentialSourceForCli account (lr_cli rq), sl_sources = ae_sources account\<rparr>, Some st3)))"

text \<open>\<open>withProviderStateLock\<close>: a wait that runs out is an error, and nothing is read.\<close>

definition withProviderStateLock :: "bool \<Rightarrow> 'a \<Rightarrow> (state_file \<Rightarrow> 'a \<times> state_file) \<Rightarrow> state_file \<Rightarrow> 'a \<times> state_file" where
  "withProviderStateLock free busy f file = (if free then f file else (busy, file))"

definition acquireNamedAccountLease ::
  "capacity_env \<Rightarrow> bool \<Rightarrow> bool \<Rightarrow> config_error + inventory \<Rightarrow> lease_request \<Rightarrow> int \<Rightarrow> state_file \<Rightarrow> lease_answer \<times> state_file" where
  "acquireNamedAccountLease env confined free known rq now file = (case lease_precheck confined known rq of
     Inl answer \<Rightarrow> (answer, file)
   | Inr (accountId, account) \<Rightarrow>
       withProviderStateLock free State_locked (on_state env now (take_lease env rq accountId account now)) file)"

definition ends_with :: "string \<Rightarrow> string \<Rightarrow> bool" where
  "ends_with tail s = (length tail \<le> length s \<and> drop (length s - length tail) s = tail)"

datatype audit_answer = Agrees | Receipt_missing string | Receipt_differs "(string \<times> string) option"

definition auditLeaseReceipt :: "capacity_env \<Rightarrow> int \<Rightarrow> receipt option \<Rightarrow> string \<Rightarrow> state_file \<Rightarrow> audit_answer \<times> state_file" where
  "auditLeaseReceipt env now receipt assignmentId = on_state env now (\<lambda>st. (case receipt of
     None \<Rightarrow> (case find (ends_with ('':'' @ assignmentId)) (okeys (cs_assignments st)) of
         Some key \<Rightarrow> Receipt_missing (take (length key - length assignmentId - 1) key)
       | None \<Rightarrow> Agrees)
   | Some rc \<Rightarrow> (let held = oget (cs_assignments st) (assignment_key (rc_provider rc) assignmentId) in
       if held = Some (rc_accountId rc, rc_acquiredAt rc) then Agrees else Receipt_differs held), None))"

definition releaseProviderAccountLease :: "capacity_env \<Rightarrow> int \<Rightarrow> string \<Rightarrow> string \<Rightarrow> string \<Rightarrow> state_file \<Rightarrow> bool \<times> state_file" where
  "releaseProviderAccountLease env now provider accountId runId file =
     (if provider = '''' \<or> accountId = '''' \<or> runId = '''' then (False, file)
      else on_state env now (\<lambda>st. case account_at st provider accountId of
          None \<Rightarrow> (False, None)
        | Some acct \<Rightarrow> if oget (ca_leases acct) runId = None then (False, None)
            else (True, Some (put_account provider accountId (acct\<lparr>ca_leases := odel runId (ca_leases acct)\<rparr>) st))) file)"

definition dropAssignmentRecord :: "capacity_env \<Rightarrow> int \<Rightarrow> string \<Rightarrow> state_file \<Rightarrow> bool \<times> state_file" where
  "dropAssignmentRecord env now assignmentId file =
     (if assignmentId = '''' then (False, file)
      else on_state env now (\<lambda>st. let gone = (\<lambda>key. ends_with ('':'' @ assignmentId) key) in
          if filter gone (okeys (cs_assignments st)) = [] then (False, None)
          else (True, Some (st\<lparr>cs_assignments := filter (\<lambda>(key, _). \<not> gone key) (cs_assignments st)\<rparr>))) file)"

text \<open>What Seat Binding ranks from; \<open>None\<close> as the end of a quarantine is none, \<open>Some None\<close> is never.\<close>

record account_view =
  av_sticky :: bool
  av_quarantinedUntil :: "int option option"
  av_probeable :: bool
  av_probeFailed :: bool

definition cooled :: "capacity_env \<Rightarrow> int \<Rightarrow> int \<Rightarrow> quarantine \<Rightarrow> bool" where
  "cooled env now cooldownMs q = (case Option.bind (qr_probe q) (\<lambda>p. ce_parse env (pn_attemptedAt p)) of
     Some lastProbe \<Rightarrow> \<not> now - lastProbe < cooldownMs | None \<Rightarrow> True)"

definition view_of :: "capacity_env \<Rightarrow> int \<Rightarrow> int \<Rightarrow> bool \<Rightarrow> capacity_account \<Rightarrow> account_view" where
  "view_of env now cooldownMs sticky acct = (case ca_quarantine acct of
     None \<Rightarrow> \<lparr>av_sticky = sticky, av_quarantinedUntil = None, av_probeable = False, av_probeFailed = False\<rparr>
   | Some q \<Rightarrow>
       \<lparr>av_sticky = sticky,
        av_quarantinedUntil = Some (if qr_kind q = ''manual-clear'' then None
          else case qr_until q of None \<Rightarrow> None | Some until \<Rightarrow> if until = '''' then None else ce_parse env until),
        av_probeable = (qr_kind q = ''manual-clear'' \<and> qr_reasonCode q = Some ''auth-token'' \<and> cooled env now cooldownMs q),
        av_probeFailed = (map_option pn_status (qr_probe q) = Some ''failed'')\<rparr>)"

definition readAccountStates ::
  "capacity_env \<Rightarrow> int \<Rightarrow> int \<Rightarrow> string \<Rightarrow> string option \<Rightarrow> state_file \<Rightarrow> (string \<times> account_view) list \<times> state_file" where
  "readAccountStates env now cooldownMs provider assignmentId = on_state env now (\<lambda>st.
     let stickyId = (if given assignmentId then map_option fst (oget (cs_assignments st) (assignment_key provider (the assignmentId))) else None);
         out = map (\<lambda>(i, acct). (i, view_of env now cooldownMs (stickyId = Some i) acct)) (accounts_in st provider)
     in (case stickyId of
           Some i \<Rightarrow> if i \<noteq> '''' \<and> oget out i = None then out @ [(i, view_of env now cooldownMs True empty_account)] else out
         | None \<Rightarrow> out, None))"

section \<open>Quarantine, clearing, probing\<close>

definition DEFAULT_QUARANTINE_PROBE_COOLDOWN_MS :: int where
  "DEFAULT_QUARANTINE_PROBE_COOLDOWN_MS = 30 * 60 * 1000"

definition quarantineProviderAccount ::
  "capacity_env \<Rightarrow> int \<Rightarrow> string \<Rightarrow> string \<Rightarrow> string option \<Rightarrow> string \<Rightarrow> string option \<Rightarrow> jval option \<Rightarrow> state_file \<Rightarrow> quarantine \<times> state_file" where
  "quarantineProviderAccount env now provider accountId reasonCode quarantineKind until detail =
     on_state env now (\<lambda>st. let nowIso = ce_iso env now;
         q = \<lparr>qr_kind = quarantineKind, qr_reasonCode = reasonCode, qr_until = (if given until then until else None),
              qr_detail = (if truthy detail then detail else None), qr_quarantinedAt = nowIso, qr_probe = None\<rparr>
       in (q, Some (put_account provider accountId
            ((accountState st provider accountId)\<lparr>ca_lastFaultAt := Some nowIso, ca_quarantine := Some q\<rparr>) st)))"

datatype clear_answer = Unknown_account | Clear_bad_config config_error | Not_quarantined | Was_cleared audit_entry

definition clear_to :: "capacity_env \<Rightarrow> int \<Rightarrow> string \<Rightarrow> string \<Rightarrow> string option \<Rightarrow> string option \<Rightarrow> capacity_state \<Rightarrow> audit_entry \<times> capacity_state" where
  "clear_to env now provider accountId reason caller st =
     (let acct = accountState st provider accountId;
          entry = Cleared (ce_iso env now) provider accountId (ca_quarantine acct) reason caller;
          st' = put_account provider accountId (acct\<lparr>ca_quarantine := None\<rparr>) st
      in (entry, st'\<lparr>cs_audit := cs_audit st' @ [entry]\<rparr>))"

definition clearProviderAccountQuarantine ::
  "capacity_env \<Rightarrow> config_error + inventory \<Rightarrow> int \<Rightarrow> string \<Rightarrow> string \<Rightarrow> string option \<Rightarrow> bool \<Rightarrow> string option \<Rightarrow> state_file \<Rightarrow> clear_answer \<times> state_file" where
  "clearProviderAccountQuarantine env known now provider accountId reason force caller file = (case known of
     Inl e \<Rightarrow> (Clear_bad_config e, file)
   | Inr inventory \<Rightarrow>
       if oget (inventory_of inventory provider) accountId = None then (Unknown_account, file)
       else on_state env now (\<lambda>st.
         if ca_quarantine (accountState st provider accountId) = None \<and> \<not> force then (Not_quarantined, None)
         else (case clear_to env now provider accountId (if given reason then reason else None) caller st of
            (entry, st') \<Rightarrow> (Was_cleared entry, Some st'))) file)"

definition probe_due :: "capacity_env \<Rightarrow> int \<Rightarrow> int \<Rightarrow> capacity_account \<Rightarrow> quarantine option" where
  "probe_due env now cooldownMs acct = (case ca_quarantine acct of
     None \<Rightarrow> None
   | Some q \<Rightarrow> if qr_kind q = ''manual-clear'' \<and> qr_reasonCode q = Some ''auth-token'' \<and> cooled env now cooldownMs q then Some q else None)"

definition mark_probe :: "probe_note \<Rightarrow> capacity_account \<Rightarrow> capacity_account" where
  "mark_probe note acct = acct\<lparr>ca_quarantine := map_option (\<lambda>q. q\<lparr>qr_probe := Some note\<rparr>) (ca_quarantine acct)\<rparr>"

text \<open>The claim of the accounts to try: each with the quarantine it was seen under.\<close>

definition claim_probes ::
  "capacity_env \<Rightarrow> int \<Rightarrow> int \<Rightarrow> string \<Rightarrow> (string \<times> account_entry) list \<Rightarrow> capacity_state \<Rightarrow> (string \<times> string) list \<times> capacity_state option" where
  "claim_probes env now cooldownMs provider accounts st =
     (let enabled = map fst (filter (\<lambda>(_, a). \<not> ae_disabled a) accounts) in
      if list_ex (\<lambda>i. \<not> isQuarantined env (accountState st provider i) now) enabled then ([], None)
      else (let picked = List.map_filter (\<lambda>i. map_option (\<lambda>q. (i, qr_quarantinedAt q))
                  (probe_due env now cooldownMs (accountState st provider i))) enabled;
                note = \<lparr>pn_attemptedAt = ce_iso env now, pn_status = ''running'', pn_detail = None\<rparr>
            in if picked = [] then ([], None)
               else (picked, Some (fold (\<lambda>(i, _) s. put_account provider i (mark_probe note (accountState s provider i)) s) picked st))))"

text \<open>The answer of a call is recorded, unless the quarantine is not the one that was claimed.\<close>

definition settle_probe ::
  "capacity_env \<Rightarrow> int \<Rightarrow> string \<Rightarrow> string \<Rightarrow> string \<Rightarrow> string \<Rightarrow> bool \<times> string option \<Rightarrow> capacity_state \<Rightarrow> unit \<times> capacity_state option" where
  "settle_probe env now attemptedAt provider accountId quarantinedAt result st =
     (case account_at st provider accountId of
        None \<Rightarrow> ((), None)
      | Some acct \<Rightarrow> (case ca_quarantine acct of
          None \<Rightarrow> ((), None)
        | Some q \<Rightarrow> if qr_quarantinedAt q \<noteq> quarantinedAt then ((), None)
            else if fst result then ((), Some (snd (clear_to env now provider accountId (Some ''one real call succeeded'')
                (Some ''fgos provider-capacity probe'') st)))
            else ((), Some (put_account provider accountId
                (mark_probe \<lparr>pn_attemptedAt = attemptedAt, pn_status = ''failed'', pn_detail = snd result\<rparr> acct) st))))"

text \<open>
  The loop over the claimed accounts stops at the first that answers. \<open>world\<close> is the call made with an account:
  its answer, when it ended, and what other processes did to the file while it ran.
\<close>

type_synonym probe_world = "string \<Rightarrow> state_file \<Rightarrow> ((bool \<times> string option) \<times> int) \<times> state_file"

definition note_text :: "string option \<Rightarrow> string option" where
  "note_text detail = (if given detail then map_option (take 300) detail else None)"

fun probe_each ::
  "capacity_env \<Rightarrow> string \<Rightarrow> string \<Rightarrow> probe_world \<Rightarrow> (string \<times> string) list \<Rightarrow> state_file \<Rightarrow> (string \<times> bool \<times> string option) list \<times> state_file" where
  "probe_each env attemptedAt provider world [] file = ([], file)"
| "probe_each env attemptedAt provider world ((accountId, quarantinedAt) # rest) file =
     (case world accountId file of (((ok, said), later), file1) \<Rightarrow>
       (let detail = note_text said;
            file2 = snd (on_state env later (settle_probe env later attemptedAt provider accountId quarantinedAt (ok, detail)) file1)
        in if ok then ([(accountId, ok, detail)], file2)
           else (case probe_each env attemptedAt provider world rest file2 of (tried, file3) \<Rightarrow> ((accountId, ok, detail) # tried, file3))))"

definition probeQuarantinedAccounts ::
  "capacity_env \<Rightarrow> config_error + inventory \<Rightarrow> int \<Rightarrow> int \<Rightarrow> string \<Rightarrow> probe_world \<Rightarrow> state_file
    \<Rightarrow> (config_error + (string \<times> bool \<times> string option) list) \<times> state_file" where
  "probeQuarantinedAccounts env known now cooldownMs provider world file =
     (if provider = '''' then (Inr [], file)
      else case known of
        Inl e \<Rightarrow> (Inl e, file)
      | Inr inventory \<Rightarrow> (case oget inventory provider of
          None \<Rightarrow> (Inr [], file)
        | Some accounts \<Rightarrow> (case on_state env now (claim_probes env now cooldownMs provider accounts) file of
            (claimed, file1) \<Rightarrow> (case probe_each env (ce_iso env now) provider world claimed file1 of
              (tried, file2) \<Rightarrow> (Inr tried, file2)))))"

section \<open>Inspection\<close>

record account_report =
  rp_label :: string
  rp_disabled :: bool
  rp_unusableFor :: "string list"
  rp_healthy :: bool
  rp_quarantine :: "quarantine option"
  rp_openLeases :: "(string \<times> string option \<times> int option \<times> string) list"
  rp_lastSelectedAt :: "string option"
  rp_lastFaultAt :: "string option"

definition report_of :: "capacity_env \<Rightarrow> int \<Rightarrow> account_entry \<Rightarrow> capacity_account \<Rightarrow> account_report" where
  "report_of env now account acct =
     \<lparr>rp_label = ae_label account, rp_disabled = ae_disabled account, rp_unusableFor = ae_unusable account,
      rp_healthy = (\<not> isQuarantined env acct now), rp_quarantine = ca_quarantine acct,
      rp_openLeases = map (\<lambda>(_, l). (le_runId l, le_assignmentId l, le_pid l, le_acquiredAt l)) (ca_leases acct),
      rp_lastSelectedAt = ca_lastSelectedAt acct, rp_lastFaultAt = ca_lastFaultAt acct\<rparr>"

definition inspectProviderCapacity ::
  "capacity_env \<Rightarrow> int \<Rightarrow> config_error + inventory \<Rightarrow> string option \<Rightarrow> string option \<Rightarrow> state_file
    \<Rightarrow> (config_error + (string \<times> (string \<times> account_report) list) list) \<times> state_file" where
  "inspectProviderCapacity env now known provider accountId file = (case known of
     Inl e \<Rightarrow> (Inl e, file)
   | Inr inventory \<Rightarrow> on_state env now (\<lambda>st.
       (Inr (map (\<lambda>(p, accounts). (p, map (\<lambda>(i, a). (i, report_of env now a (accountState st p i)))
              (filter (\<lambda>(i, _). \<not> given accountId \<or> accountId = Some i) accounts)))
           (filter (\<lambda>(p, _). \<not> given provider \<or> provider = Some p) inventory)), None)) file)"

section \<open>Faults\<close>

definition unit_ms :: "char \<Rightarrow> int option" where
  "unit_ms c = (let u = lower c in if u = CHR ''h'' then Some 3600000 else if u = CHR ''m'' then Some 60000
     else if u = CHR ''s'' then Some 1000 else None)"

definition letter :: "char \<Rightarrow> bool" where
  "letter c = lower_letter (lower c)"

text \<open>One amount with its unit and the white space after it; the unit is not followed by a letter.\<close>

definition amount_at :: "string \<Rightarrow> (int \<times> string) option" where
  "amount_at s = (case dropWhile is_ws (dropWhile is_digit s) of
     [] \<Rightarrow> None
   | u # rest \<Rightarrow> (case unit_ms u of
       Some ms \<Rightarrow> if takeWhile is_digit s \<noteq> [] \<and> (case rest of c # _ \<Rightarrow> \<not> letter c | [] \<Rightarrow> True)
           then Some (int (number_of_digits (takeWhile is_digit s)) * ms, dropWhile is_ws rest) else None
     | None \<Rightarrow> None))"

lemma amount_at_shorter: "amount_at s = Some (n, rest) \<Longrightarrow> length rest < length s"
proof -
  assume "amount_at s = Some (n, rest)"
  then obtain u r where r: "dropWhile is_ws (dropWhile is_digit s) = u # r" "rest = dropWhile is_ws r"
    by (auto simp: amount_at_def split: list.splits option.splits if_splits)
  have "length (u # r) \<le> length s"
    unfolding r(1) [symmetric] by (meson length_dropWhile_le order_trans)
  then show ?thesis unfolding r(2) using length_dropWhile_le [of is_ws r] by simp
qed

function amounts :: "string \<Rightarrow> int option" where
  "amounts s = (case amount_at s of
     None \<Rightarrow> None
   | Some (n, rest) \<Rightarrow> Some (n + (case amounts rest of Some more_ms \<Rightarrow> more_ms | None \<Rightarrow> 0)))"
  by pat_completeness auto
termination by (relation "measure length") (auto dest: amount_at_shorter)

declare amounts.simps [simp del]

definition word_at :: "string \<Rightarrow> string \<Rightarrow> string option" where
  "word_at w s = (if toLowerCase (take (length w) s) = w then Some (drop (length w) s) else None)"

definition spaces :: "string \<Rightarrow> string option" where
  "spaces s = (if takeWhile is_ws s = [] then None else Some (dropWhile is_ws s))"

definition window_at :: "string \<Rightarrow> int option" where
  "window_at s = Option.bind (word_at ''reset'' s) (\<lambda>s1.
     Option.bind (spaces (case word_at ''s'' s1 of Some r \<Rightarrow> r | None \<Rightarrow> s1)) (\<lambda>s2.
     Option.bind (word_at ''in'' s2) (\<lambda>s3. Option.bind (spaces s3) amounts)))"

text \<open>The first position at which a pattern matches.\<close>

fun search :: "(string \<Rightarrow> 'a option) \<Rightarrow> string \<Rightarrow> 'a option" where
  "search f [] = f []"
| "search f (c # cs) = (case f (c # cs) of Some x \<Rightarrow> Some x | None \<Rightarrow> search f cs)"

definition parseQuotaResetWindowMs :: "string \<Rightarrow> int option" where
  "parseQuotaResetWindowMs s = (case search window_at s of
     Some ms \<Rightarrow> if ms > 0 then Some ms else None | None \<Rightarrow> None)"

definition clock_at :: "string \<Rightarrow> (int \<times> int) option" where
  "clock_at s = Option.bind (word_at ''try again at'' s) (\<lambda>s1. Option.bind (spaces s1) (\<lambda>s2.
     let h = takeWhile is_digit s2; s3 = dropWhile is_digit s2; m = takeWhile is_digit (drop 1 s3);
         s4 = dropWhile is_ws (dropWhile is_digit (drop 1 s3)) in
     if length h \<in> {1, 2} \<and> take 1 s3 = '':'' \<and> length m = 2
     then (let hour = int (number_of_digits h) mod 12 in
           if word_at ''am'' s4 \<noteq> None then Some (hour, int (number_of_digits m))
           else if word_at ''pm'' s4 \<noteq> None then Some (hour + 12, int (number_of_digits m)) else None)
     else None))"

text \<open>\<open>setHours\<close> and \<open>setDate\<close> in a zone whose offset from UTC does not change between the two days.\<close>

definition DAY_MS :: int where "DAY_MS = 24 * 60 * 60 * 1000"

definition setHours :: "int \<Rightarrow> int \<Rightarrow> int \<Rightarrow> int \<Rightarrow> int" where
  "setHours offset now hour minute = now - (now + offset) mod DAY_MS + hour * 3600000 + minute * 60000"

definition parseQuotaResetClockTime :: "int \<Rightarrow> string \<Rightarrow> int \<Rightarrow> int option" where
  "parseQuotaResetClockTime offset s now = map_option (\<lambda>(hour, minute).
     let reset = setHours offset now hour minute in if reset \<le> now then reset + DAY_MS else reset) (search clock_at s)"

definition DEFAULT_QUOTA_QUARANTINE_TTL_MS :: int where
  "DEFAULT_QUOTA_QUARANTINE_TTL_MS = 60 * 60 * 1000"

definition quotaQuarantineUntil :: "int \<Rightarrow> string \<Rightarrow> int \<Rightarrow> int" where
  "quotaQuarantineUntil offset s now = (case parseQuotaResetWindowMs s of
     Some windowMs \<Rightarrow> now + windowMs
   | None \<Rightarrow> (case parseQuotaResetClockTime offset s now of Some clock \<Rightarrow> clock | None \<Rightarrow> now + DEFAULT_QUOTA_QUARANTINE_TTL_MS))"

record fault_facts =
  ff_provider :: "string option"
  ff_stderr :: string
  ff_adapterOutcome :: "string option"
  ff_stopReason :: "string option"
  ff_stopCause :: "string option"
  ff_capacityText :: string

datatype capacity_fault = Evidence_only string | Quarantine_account string string "string option"

definition PROVIDER_LIMITS :: "string option set" where
  "PROVIDER_LIMITS = {Some ''paused-limit'', Some ''provider-limit''}"

definition classifyProviderCapacityFault :: "capacity_env \<Rightarrow> int \<Rightarrow> fault_facts \<Rightarrow> int \<Rightarrow> capacity_fault" where
  "classifyProviderCapacityFault env offset ff now =
     (if \<not> given (ff_provider ff) then Evidence_only ''provider-unknown''
      else if ff_adapterOutcome ff \<in> PROVIDER_LIMITS \<or> ff_stopReason ff \<in> PROVIDER_LIMITS then
        (if ff_stopCause ff = Some ''credential'' then Quarantine_account ''auth-token'' ''manual-clear'' None
         else if ff_stopCause ff = Some ''provider'' then Evidence_only ''provider-error''
         else Quarantine_account ''quota-limit'' ''temporary''
           (Some (ce_iso env (quotaQuarantineUntil offset (ff_stderr ff @ [CHR 0x0A] @ ff_capacityText ff) now))))
      else Evidence_only ''unknown-or-low-confidence'')"

text \<open>\<open>recordProviderCapacityFault\<close> of \<open>settlement.mjs\<close>: the fault of a stop, and the quarantine it leads to.\<close>

definition recordProviderCapacityFault ::
  "capacity_env \<Rightarrow> int \<Rightarrow> selection \<Rightarrow> fault_facts \<Rightarrow> jval \<Rightarrow> int \<Rightarrow> state_file \<Rightarrow> (capacity_fault \<times> quarantine option) \<times> state_file" where
  "recordProviderCapacityFault env offset sel ff detail now file =
     (let fault = classifyProviderCapacityFault env offset (ff\<lparr>ff_provider := Some (sl_provider sel)\<rparr>) now in
      case fault of
        Evidence_only _ \<Rightarrow> ((fault, None), file)
      | Quarantine_account reasonCode kind until \<Rightarrow>
          (case quarantineProviderAccount env now (sl_provider sel) (sl_accountId sel) (Some reasonCode) kind until (Some detail) file of
             (q, file') \<Rightarrow> ((fault, Some q), file')))"

end
