(* ===== verification/Capacity_Facts.thy ===== *)
theory Capacity_Facts
  imports Capacity_State
begin

text \<open>
  What each operation on the state of provider accounts leaves alone. Any number of processes share the state
  file: a sequence of their operations, each under the state lock, is a run of \<open>capacity_ops\<close>.
\<close>

section \<open>Reading back\<close>

lemma account_at_put [simp]:
  "account_at (put_account p a acct st) p' a' = (if p = p' \<and> a = a' then Some acct else account_at st p' a')"
  by (auto simp: account_at_def put_account_def accounts_in_def split: option.splits)

lemma accountState_put [simp]:
  "accountState (put_account p a acct st) p' a' = (if p = p' \<and> a = a' then acct else accountState st p' a')"
  by (simp add: accountState_def)

lemma put_account_rest [simp]:
  "cs_assignments (put_account p a acct st) = cs_assignments st" "cs_audit (put_account p a acct st) = cs_audit st"
  by (simp_all add: put_account_def)

lemma account_at_more [simp]:
  "account_at (st\<lparr>cs_assignments := x\<rparr>) p a = account_at st p a" "account_at (st\<lparr>cs_audit := y\<rparr>) p a = account_at st p a"
  "accountState (st\<lparr>cs_assignments := x\<rparr>) p a = accountState st p a" "accountState (st\<lparr>cs_audit := y\<rparr>) p a = accountState st p a"
  by (simp_all add: account_at_def accountState_def)

lemma oget_map_values: "oget (map (\<lambda>(k, v). (k, f v)) l) i = map_option f (oget l i)"
  by (induction l) auto

lemma account_at_reclaim [simp]:
  "account_at (reclaimDeadLeases env rd wa t p st) p' a =
     (if p' = p then map_option (reclaim_account env rd wa t) (account_at st p' a) else account_at st p' a)"
  by (auto simp: account_at_def reclaimDeadLeases_def accounts_in_def oget_map_values split: option.splits)

lemma reclaim_rest [simp]:
  "cs_assignments (reclaimDeadLeases env rd wa t p st) = cs_assignments st"
  "ca_quarantine (reclaim_account env rd wa t acct) = ca_quarantine acct"
  by (simp_all add: reclaimDeadLeases_def reclaim_account_def Let_def)

lemma quarantine_reclaim [simp]:
  "ca_quarantine (accountState (reclaimDeadLeases env rd wa t p st) p' a) = ca_quarantine (accountState st p' a)"
  by (cases "account_at st p' a") (auto simp: accountState_def)

lemma oget_filter_key_value:
  "oget l k = Some v \<Longrightarrow> P k v \<Longrightarrow> oget (filter (\<lambda>(k, v). P k v) l) k = Some v"
  by (induction l) (auto split: if_splits)

lemma lease_reclaim:
  assumes "oget (ca_leases acct) runId = Some l" "\<not> proven_dead env rd wa runId l"
  shows "oget (ca_leases (reclaim_account env rd wa t acct)) runId = Some l"
  using assms by (simp add: reclaim_account_def Let_def oget_filter_key_value)

lemma on_state_Stored: "on_state env now f (Stored st) = (case f st of (r, Some st') \<Rightarrow> (r, Stored st') | (r, None) \<Rightarrow> (r, Stored st))"
  by (simp add: on_state_def readState_def)

section \<open>A lease\<close>

lemma take_lease_Selected:
  assumes "take_lease env rq accountId account now st = (Selected sel, w)"
  shows "\<not> is_quarantined env (ca_quarantine (accountState st (lr_provider rq) accountId)) now"
    "sl_provider sel = lr_provider rq" "sl_accountId sel = accountId"
    "sl_receipt sel = \<lparr>rc_provider = lr_provider rq, rc_accountId = accountId, rc_runId = lr_runId rq,
        rc_acquiredAt = ce_iso env now, rc_digest = lr_digest rq\<rparr>"
    "\<exists>st'. w = Some st' \<and> oget (ca_leases (accountState st' (lr_provider rq) accountId)) (lr_runId rq) = Some (new_lease env rq (ce_iso env now))
       \<and> cs_assignments st' = (if given (lr_assignmentId rq)
            then oset (assignment_key (lr_provider rq) (the (lr_assignmentId rq))) (accountId, ce_iso env now) (cs_assignments st)
            else cs_assignments st)"
  using assms by (auto simp: take_lease_def Let_def isQuarantined_def split: if_splits)

lemma acquired:
  assumes "acquireNamedAccountLease env confined free known rq now file = (Selected sel, file')"
  obtains inventory account accountId st st' where
    "known = Inr inventory" "lr_accountId rq = Some accountId" "oget (inventory_of inventory (lr_provider rq)) accountId = Some account"
    "\<not> confined" "free" "lr_provider rq \<noteq> ''''" "lr_runId rq \<noteq> ''''"
    "\<not> ae_disabled account" "given (lr_cli rq) \<Longrightarrow> credentialSourceForCli account (lr_cli rq) \<noteq> None"
    "st = fst (readState (ce_iso env now) True file)" "take_lease env rq accountId account now st = (Selected sel, Some st')"
    "file' = Stored st'"
proof -
  obtain accountId account where pre: "lease_precheck confined known rq = Inr (accountId, account)"
    using assms by (cases "lease_precheck confined known rq") (auto simp: acquireNamedAccountLease_def lease_precheck_def Let_def split: if_splits sum.splits option.splits)
  then obtain inventory where i: "known = Inr inventory" "given (lr_accountId rq)" "accountId = the (lr_accountId rq)"
    "oget (inventory_of inventory (lr_provider rq)) accountId = Some account" "\<not> confined" "lr_provider rq \<noteq> ''''" "lr_runId rq \<noteq> ''''"
    "\<not> ae_disabled account" "given (lr_cli rq) \<Longrightarrow> credentialSourceForCli account (lr_cli rq) \<noteq> None"
    by (auto simp: lease_precheck_def Let_def split: if_splits sum.splits option.splits)
  then have a: "lr_accountId rq = Some accountId" by (cases "lr_accountId rq") (auto simp: given_def)
  let ?st = "fst (readState (ce_iso env now) True file)"
  have free: "free" using assms pre by (auto simp: acquireNamedAccountLease_def withProviderStateLock_def split: if_splits)
  then have on: "on_state env now (take_lease env rq accountId account now) file = (Selected sel, file')"
    using assms pre by (simp add: acquireNamedAccountLease_def withProviderStateLock_def)
  obtain r w where t: "take_lease env rq accountId account now ?st = (r, w)" by fastforce
  with on have r: "r = Selected sel" by (auto simp: on_state_def split: prod.splits option.splits)
  from take_lease_Selected(5) [OF t [unfolded r]] obtain st' where w: "w = Some st'" by blast
  with on t have "file' = Stored st'" by (auto simp: on_state_def split: prod.splits)
  with that i a free t r w show thesis by blast
qed

section \<open>Operations of any processes\<close>

datatype capacity_op =
    Op_acquire "config_error + inventory" lease_request int
  | Op_release string string string int
  | Op_drop string int
  | Op_quarantine string string "string option" string "string option" "jval option" int
  | Op_clear "config_error + inventory" string string "string option" bool "string option" int
  | Op_claim "(string \<times> account_entry) list" string int int
  | Op_settle string string string string "bool \<times> string option" int

fun capacity_run :: "capacity_env \<Rightarrow> capacity_op \<Rightarrow> state_file \<Rightarrow> state_file" where
  "capacity_run env (Op_acquire known rq now) file = snd (acquireNamedAccountLease env False True known rq now file)"
| "capacity_run env (Op_release provider accountId runId now) file = snd (releaseProviderAccountLease env now provider accountId runId file)"
| "capacity_run env (Op_drop assignmentId now) file = snd (dropAssignmentRecord env now assignmentId file)"
| "capacity_run env (Op_quarantine provider accountId reasonCode kind until detail now) file =
     snd (quarantineProviderAccount env now provider accountId reasonCode kind until detail file)"
| "capacity_run env (Op_clear known provider accountId reason force caller now) file =
     snd (clearProviderAccountQuarantine env known now provider accountId reason force caller file)"
| "capacity_run env (Op_claim accounts provider cooldownMs now) file =
     snd (on_state env now (claim_probes env now cooldownMs provider accounts) file)"
| "capacity_run env (Op_settle attemptedAt provider accountId quarantinedAt result now) file =
     snd (on_state env now (settle_probe env now attemptedAt provider accountId quarantinedAt result) file)"

definition capacity_ops :: "capacity_env \<Rightarrow> capacity_op list \<Rightarrow> state_file \<Rightarrow> state_file" where
  "capacity_ops env ops file = fold (capacity_run env) ops file"

text \<open>What may end the quarantine of an account, or replace it.\<close>

fun lifts :: "string \<Rightarrow> string \<Rightarrow> capacity_op \<Rightarrow> bool" where
  "lifts p a (Op_quarantine provider accountId _ _ _ _ _) = (provider = p \<and> accountId = a)"
| "lifts p a (Op_clear _ provider accountId _ _ _ _) = (provider = p \<and> accountId = a)"
| "lifts p a (Op_settle _ provider accountId _ result _) = (provider = p \<and> accountId = a \<and> fst result)"
| "lifts p a _ = False"

definition but_probe :: "quarantine \<Rightarrow> quarantine" where
  "but_probe q = q\<lparr>qr_probe := None\<rparr>"

lemma is_quarantined_but_probe: "is_quarantined env (Some q) now = is_quarantined env (Some (but_probe q)) now"
  by (simp add: is_quarantined_def but_probe_def)

lemma mark_probe_quarantine [simp]:
  "map_option but_probe (ca_quarantine (mark_probe note acct)) = map_option but_probe (ca_quarantine acct)"
  by (cases "ca_quarantine acct") (simp_all add: mark_probe_def but_probe_def)

lemma mark_probe_leases [simp]: "ca_leases (mark_probe note acct) = ca_leases acct"
  by (simp add: mark_probe_def)

definition marks :: "string \<Rightarrow> probe_note \<Rightarrow> (string \<times> string) list \<Rightarrow> capacity_state \<Rightarrow> capacity_state" where
  "marks p note picked st = fold (\<lambda>(i, _) s. put_account p i (mark_probe note (accountState s p i)) s) picked st"

lemma mark_probe_twice [simp]: "mark_probe note (mark_probe note acct) = mark_probe note acct"
  by (cases "ca_quarantine acct") (simp_all add: mark_probe_def)

lemma accountState_marks:
  "accountState (marks p note picked st) p' a =
     (if p' = p \<and> a \<in> fst ` set picked then mark_probe note (accountState st p' a) else accountState st p' a)
   \<and> cs_assignments (marks p note picked st) = cs_assignments st"
  unfolding marks_def by (induction picked arbitrary: st) auto

lemma claim_cases:
  obtains "claim_probes env now cd p accounts st = ([], None)"
  | picked where "claim_probes env now cd p accounts st
       = (picked, Some (marks p \<lparr>pn_attemptedAt = ce_iso env now, pn_status = ''running'', pn_detail = None\<rparr> picked st))"
    "\<And>i t. (i, t) \<in> set picked \<Longrightarrow> probe_due env now cd (accountState st p i) \<noteq> None"
proof (cases "snd (claim_probes env now cd p accounts st)")
  case None
  with that(1) show ?thesis by (auto simp: claim_probes_def Let_def split: if_splits)
next
  case (Some st')
  let ?picked = "List.map_filter (\<lambda>i. map_option (\<lambda>q. (i, qr_quarantinedAt q)) (probe_due env now cd (accountState st p i)))
     (map fst (filter (\<lambda>(_, a). \<not> ae_disabled a) accounts))"
  have "claim_probes env now cd p accounts st
     = (?picked, Some (marks p \<lparr>pn_attemptedAt = ce_iso env now, pn_status = ''running'', pn_detail = None\<rparr> ?picked st))"
    using Some by (auto simp: claim_probes_def Let_def marks_def split: if_splits)
  moreover have "probe_due env now cd (accountState st p i) \<noteq> None" if "(i, t) \<in> set ?picked" for i t
    using that by (auto simp: List.map_filter_def)
  ultimately show ?thesis using that(2) by blast
qed

text \<open>One operation on a stored state.\<close>

lemma acquire_Stored:
  obtains "acquireNamedAccountLease env confined free known rq now (Stored st) = (fst (acquireNamedAccountLease env confined free known rq now (Stored st)), Stored st)"
  | sel st' where "acquireNamedAccountLease env confined free known rq now (Stored st) = (Selected sel, Stored st')"
    "\<exists>account. take_lease env rq (the (lr_accountId rq)) account now st = (Selected sel, Some st')"
proof (cases "lease_precheck confined known rq")
  case (Inl r)
  with that(1) show ?thesis by (simp add: acquireNamedAccountLease_def)
next
  case (Inr x)
  obtain accountId account where x: "x = (accountId, account)" by fastforce
  have i: "accountId = the (lr_accountId rq)"
    using Inr x by (auto simp: lease_precheck_def Let_def split: if_splits sum.splits option.splits)
  obtain r w where t: "take_lease env rq accountId account now st = (r, w)" by fastforce
  show ?thesis
  proof (cases "free \<and> w \<noteq> None")
    case False
    with that(1) Inr x t show ?thesis
      by (auto simp: acquireNamedAccountLease_def withProviderStateLock_def on_state_Stored)
  next
    case True
    with t obtain sel where "r = Selected sel" by (auto simp: take_lease_def Let_def split: if_splits)
    moreover obtain st' where "w = Some st'" using True by blast
    moreover have "free" using True by blast
    ultimately have "acquireNamedAccountLease env confined free known rq now (Stored st) = (Selected sel, Stored st')"
      "take_lease env rq (the (lr_accountId rq)) account now st = (Selected sel, Some st')"
      using Inr x i t by (auto simp: acquireNamedAccountLease_def withProviderStateLock_def on_state_Stored)
    with that(2) show ?thesis by blast
  qed
qed

text \<open>What may change the account an assignment holds, and what may end a lease.\<close>

fun touches :: "string \<Rightarrow> capacity_op \<Rightarrow> bool" where
  "touches key (Op_acquire _ rq _) = (given (lr_assignmentId rq) \<and> assignment_key (lr_provider rq) (the (lr_assignmentId rq)) = key)"
| "touches key (Op_drop assignmentId _) = (assignmentId \<noteq> [] \<and> ends_with (CHR '':'' # assignmentId) key)"
| "touches key _ = False"

fun ends_lease :: "capacity_env \<Rightarrow> string \<Rightarrow> string \<Rightarrow> string \<Rightarrow> lease \<Rightarrow> capacity_op \<Rightarrow> bool" where
  "ends_lease env p a run l (Op_acquire _ rq _) = (lr_provider rq = p
     \<and> (lr_accountId rq = Some a \<and> lr_runId rq = run \<or> proven_dead env (lr_runIsDead rq) (lr_workerAlive rq) run l))"
| "ends_lease env p a run l (Op_release provider accountId runId _) = (provider = p \<and> accountId = a \<and> runId = run)"
| "ends_lease env p a run l _ = False"

definition kept_quarantine :: "capacity_state \<Rightarrow> string \<Rightarrow> string \<Rightarrow> quarantine option" where
  "kept_quarantine st p a = map_option but_probe (ca_quarantine (accountState st p a))"

lemma take_lease_keeps:
  assumes "take_lease env rq i account now st = (Selected sel, Some st')"
  shows "ca_quarantine (accountState st' p a) = ca_quarantine (accountState st p a)"
    and "\<not> touches key (Op_acquire known rq now) \<Longrightarrow> oget (cs_assignments st') key = oget (cs_assignments st) key"
    and "\<not> (lr_provider rq = p \<and> (i = a \<and> lr_runId rq = run \<or> proven_dead env (lr_runIsDead rq) (lr_workerAlive rq) run l)) \<Longrightarrow>
      oget (ca_leases (accountState st p a)) run = Some l \<Longrightarrow> oget (ca_leases (accountState st' p a)) run = Some l"
proof -
  show "ca_quarantine (accountState st' p a) = ca_quarantine (accountState st p a)"
    using assms by (auto simp: take_lease_def Let_def split: if_splits)
  show "\<not> touches key (Op_acquire known rq now) \<Longrightarrow> oget (cs_assignments st') key = oget (cs_assignments st) key"
    using assms by (auto simp: take_lease_def Let_def split: if_splits)
  assume a: "\<not> (lr_provider rq = p \<and> (i = a \<and> lr_runId rq = run \<or> proven_dead env (lr_runIsDead rq) (lr_workerAlive rq) run l))"
    "oget (ca_leases (accountState st p a)) run = Some l"
  have "oget (ca_leases (accountState (reclaimDeadLeases env (lr_runIsDead rq) (lr_workerAlive rq) (ce_iso env now) (lr_provider rq) st) p a)) run = Some l"
    using a by (auto simp: accountState_def empty_account_def lease_reclaim split: option.splits)
  with a(1) assms show "oget (ca_leases (accountState st' p a)) run = Some l"
    by (auto simp: take_lease_def Let_def split: if_splits)
qed

section \<open>One operation, and many\<close>

text \<open>When a call an operation records was made; the quarantine it is recorded on stays as it is otherwise.\<close>

fun probe_marks :: "capacity_env \<Rightarrow> string \<Rightarrow> string \<Rightarrow> capacity_op \<Rightarrow> string set" where
  "probe_marks env p a (Op_claim _ provider _ now) = (if provider = p then {ce_iso env now} else {})"
| "probe_marks env p a (Op_settle attemptedAt provider accountId _ _ _) = (if provider = p \<and> accountId = a then {attemptedAt} else {})"
| "probe_marks env p a _ = {}"

definition only_marked :: "string set \<Rightarrow> quarantine option \<Rightarrow> quarantine option \<Rightarrow> bool" where
  "only_marked stamps q q' = (q' = q \<or> (\<exists>x n. q = Some x \<and> q' = Some (x\<lparr>qr_probe := Some n\<rparr>) \<and> pn_attemptedAt n \<in> stamps))"

lemma only_marked_refl [simp]: "only_marked stamps q q"
  by (simp add: only_marked_def)

lemma only_marked_but_probe: "only_marked stamps q q' \<Longrightarrow> map_option but_probe q' = map_option but_probe q"
  by (auto simp: only_marked_def but_probe_def)

lemma only_marked_mark: "pn_attemptedAt n \<in> stamps \<Longrightarrow> only_marked stamps (ca_quarantine acct) (ca_quarantine (mark_probe n acct))"
  by (cases "ca_quarantine acct") (auto simp: only_marked_def mark_probe_def)

text \<open>\<open>keeps\<close>: what an operation leaves of an account, of an assignment and of a lease.\<close>

definition keeps :: "capacity_env \<Rightarrow> capacity_op \<Rightarrow> capacity_state \<Rightarrow> capacity_state \<Rightarrow> bool" where
  "keeps env op st st' =
     ((\<forall>p a. \<not> lifts p a op \<longrightarrow> only_marked (probe_marks env p a op) (ca_quarantine (accountState st p a)) (ca_quarantine (accountState st' p a)))
      \<and> (\<forall>key. \<not> touches key op \<longrightarrow> oget (cs_assignments st') key = oget (cs_assignments st) key)
      \<and> (\<forall>p a run l. \<not> ends_lease env p a run l op \<longrightarrow> oget (ca_leases (accountState st p a)) run = Some l
           \<longrightarrow> oget (ca_leases (accountState st' p a)) run = Some l))"

lemma keeps_refl: "keeps env op st st"
  by (simp add: keeps_def)

lemma keeps_put:
  assumes "\<not> lifts p a op \<Longrightarrow> only_marked (probe_marks env p a op) (ca_quarantine (accountState st p a)) (ca_quarantine acct)"
    and "\<And>run l. \<not> ends_lease env p a run l op \<Longrightarrow> oget (ca_leases (accountState st p a)) run = Some l \<Longrightarrow> oget (ca_leases acct) run = Some l"
  shows "keeps env op st (put_account p a acct st)"
  using assms by (auto simp: keeps_def)

lemma keeps_cong:
  "keeps env op st st' \<Longrightarrow> cs_providers st'' = cs_providers st' \<Longrightarrow> cs_assignments st'' = cs_assignments st' \<Longrightarrow> keeps env op st st''"
  by (simp add: keeps_def accountState_def account_at_def)

lemma clear_to_keeps:
  assumes "lifts p a op"
  shows "keeps env op st (snd (clear_to env now p a reason caller st))"
proof -
  have "keeps env op st (put_account p a ((accountState st p a)\<lparr>ca_quarantine := None\<rparr>) st)"
    using assms by (intro keeps_put) auto
  then show ?thesis by (rule keeps_cong) (simp_all add: clear_to_def Let_def)
qed

lemma filter_oget_key: "P k \<Longrightarrow> oget (filter (\<lambda>(k, _). P k) l) k = oget l k"
  by (induction l) auto

lemma settle_keeps:
  assumes "settle_probe env now att p a qa result st = (u, Some st')"
  shows "keeps env (Op_settle att p a qa result now) st st'"
proof -
  obtain acct q where q: "account_at st p a = Some acct" "ca_quarantine acct = Some q"
    using assms by (auto simp: settle_probe_def split: option.splits)
  then have acct: "accountState st p a = acct" by (simp add: accountState_def)
  show ?thesis
  proof (cases "fst result")
    case True
    with assms q have "st' = snd (clear_to env now p a (Some ''one real call succeeded'') (Some ''fgos provider-capacity probe'') st)"
      by (auto simp: settle_probe_def split: if_splits)
    with True show ?thesis by (simp add: clear_to_keeps)
  next
    case False
    with assms q have "st' = put_account p a (mark_probe \<lparr>pn_attemptedAt = att, pn_status = ''failed'', pn_detail = snd result\<rparr> acct) st"
      by (auto simp: settle_probe_def split: if_splits)
    then show ?thesis by (auto intro!: keeps_put only_marked_mark simp: acct)
  qed
qed

lemma marks_keeps:
  "pn_attemptedAt n = ce_iso env now \<Longrightarrow> keeps env (Op_claim accounts p cd now) st (marks p n picked st)"
  using accountState_marks [of p n picked st] by (auto simp: keeps_def intro!: only_marked_mark)

lemma run_Stored:
  obtains st' where "capacity_run env op (Stored st) = Stored st'" "keeps env op st st'"
proof (cases op)
  case (Op_acquire known rq now)
  show ?thesis
  proof (rule acquire_Stored [of env False True known rq now st])
    assume "acquireNamedAccountLease env False True known rq now (Stored st)
      = (fst (acquireNamedAccountLease env False True known rq now (Stored st)), Stored st)"
    then have "capacity_run env op (Stored st) = Stored st" unfolding Op_acquire capacity_run.simps by (metis snd_conv)
    with that show ?thesis by (simp add: keeps_refl)
  next
    fix sel st'
    assume r: "acquireNamedAccountLease env False True known rq now (Stored st) = (Selected sel, Stored st')"
      "\<exists>account. take_lease env rq (the (lr_accountId rq)) account now st = (Selected sel, Some st')"
    then obtain account where t: "take_lease env rq (the (lr_accountId rq)) account now st = (Selected sel, Some st')" by blast
    have "lr_accountId rq = Some (the (lr_accountId rq))" using acquired [OF r(1)] by (metis option.sel)
    with take_lease_keeps [OF t] have "keeps env op st st'"
      unfolding Op_acquire keeps_def by (metis ends_lease.simps(1) only_marked_refl)
    with that r(1) show ?thesis by (simp add: Op_acquire)
  qed
next
  case (Op_release p a run now)
  show ?thesis
  proof (cases "capacity_run env op (Stored st) = Stored st")
    case False
    then obtain acct where acct: "account_at st p a = Some acct"
      "capacity_run env op (Stored st) = Stored (put_account p a (acct\<lparr>ca_leases := odel run (ca_leases acct)\<rparr>) st)"
      by (auto simp: Op_release releaseProviderAccountLease_def on_state_Stored split: option.splits if_splits)
    then have "keeps env op st (put_account p a (acct\<lparr>ca_leases := odel run (ca_leases acct)\<rparr>) st)"
      by (auto intro!: keeps_put simp: Op_release accountState_def)
    with that acct(2) show ?thesis by blast
  qed (use that keeps_refl in blast)
next
  case (Op_drop asg now)
  show ?thesis
  proof (cases "capacity_run env op (Stored st) = Stored st")
    case False
    then have "capacity_run env op (Stored st)
        = Stored (st\<lparr>cs_assignments := filter (\<lambda>(key, _). \<not> ends_with (CHR '':'' # asg) key) (cs_assignments st)\<rparr>)" "asg \<noteq> []"
      by (auto simp: Op_drop dropAssignmentRecord_def on_state_Stored Let_def split: if_splits)
    with that show ?thesis by (auto simp: Op_drop keeps_def filter_oget_key)
  qed (use that keeps_refl in blast)
next
  case (Op_quarantine p a rc kind until detail now)
  obtain acct where "capacity_run env op (Stored st) = Stored (put_account p a acct st)" "ca_leases acct = ca_leases (accountState st p a)"
    by (auto simp: Op_quarantine quarantineProviderAccount_def on_state_Stored Let_def)
  moreover from this have "keeps env op st (put_account p a acct st)" by (intro keeps_put) (auto simp: Op_quarantine)
  ultimately show ?thesis using that by blast
next
  case (Op_clear known p a reason force caller now)
  show ?thesis
  proof (cases "capacity_run env op (Stored st) = Stored st")
    case False
    then have "capacity_run env op (Stored st) = Stored (snd (clear_to env now p a (if given reason then reason else None) caller st))"
      by (auto simp: Op_clear clearProviderAccountQuarantine_def on_state_Stored split: sum.splits if_splits prod.splits)
    with that show ?thesis by (simp add: Op_clear clear_to_keeps)
  qed (use that keeps_refl in blast)
next
  case (Op_claim accounts p cd now)
  show ?thesis
    by (rule claim_cases [of env now cd p accounts st])
      (use that in \<open>auto simp: Op_claim on_state_Stored keeps_refl marks_keeps\<close>)
next
  case (Op_settle att p a qa result now)
  show ?thesis
  proof (cases "settle_probe env now att p a qa result st")
    case (Pair u w)
    show ?thesis
    proof (cases w)
      case None
      with that Pair show ?thesis by (simp add: Op_settle on_state_Stored keeps_refl)
    next
      case (Some st')
      with that Pair settle_keeps [OF Pair [unfolded Some]] show ?thesis by (simp add: Op_settle on_state_Stored)
    qed
  qed
qed

lemma runs_Stored:
  assumes "\<And>op. op \<in> set ops \<Longrightarrow> P op"
    and "\<And>op st st'. P op \<Longrightarrow> keeps env op st st' \<Longrightarrow> Q st \<Longrightarrow> Q st'"
    and "Q st"
  obtains st' where "capacity_ops env ops (Stored st) = Stored st'" "Q st'"
proof -
  have "\<exists>st'. capacity_ops env ops (Stored st) = Stored st' \<and> Q st'"
    using assms(1,3)
  proof (induction ops arbitrary: st)
    case (Cons op ops)
    obtain st1 where st1: "capacity_run env op (Stored st) = Stored st1" "keeps env op st st1" by (rule run_Stored)
    with Cons.prems assms(2) have "Q st1" by (meson list.set_intros(1))
    with Cons st1 show ?case by (simp add: capacity_ops_def)
  qed (simp add: capacity_ops_def)
  with that show thesis by blast
qed

lemma quarantine_kept:
  assumes "\<forall>op\<in>set ops. \<not> lifts p a op"
  obtains st' where "capacity_ops env ops (Stored st) = Stored st'" "kept_quarantine st' p a = kept_quarantine st p a"
proof (rule runs_Stored [of ops "\<lambda>op. \<not> lifts p a op" env "\<lambda>s. kept_quarantine s p a = kept_quarantine st p a" st])
  fix op s s'
  assume "\<not> lifts p a op" "keeps env op s s'" "kept_quarantine s p a = kept_quarantine st p a"
  then show "kept_quarantine s' p a = kept_quarantine st p a"
    using only_marked_but_probe unfolding keeps_def kept_quarantine_def by metis
qed (use assms that in auto)

lemma assignment_kept:
  assumes "\<forall>op\<in>set ops. \<not> touches key op"
  obtains st' where "capacity_ops env ops (Stored st) = Stored st'" "oget (cs_assignments st') key = oget (cs_assignments st) key"
  by (rule runs_Stored [of ops "\<lambda>op. \<not> touches key op" env "\<lambda>s. oget (cs_assignments s) key = oget (cs_assignments st) key" st])
    (use assms in \<open>auto simp: keeps_def\<close>)

lemma lease_kept:
  assumes "\<forall>op\<in>set ops. \<not> ends_lease env p a run l op" "oget (ca_leases (accountState st p a)) run = Some l"
  obtains st' where "capacity_ops env ops (Stored st) = Stored st'" "oget (ca_leases (accountState st' p a)) run = Some l"
  by (rule runs_Stored [of ops "\<lambda>op. \<not> ends_lease env p a run l op" env "\<lambda>s. oget (ca_leases (accountState s p a)) run = Some l" st])
    (use assms in \<open>auto simp: keeps_def\<close>)

lemma refused_while_quarantined:
  assumes "is_quarantined env (ca_quarantine (accountState st (lr_provider rq) a)) now" "lr_accountId rq = Some a"
  shows "fst (acquireNamedAccountLease env confined free known rq now (Stored st)) \<noteq> Selected sel"
proof
  assume s: "fst (acquireNamedAccountLease env confined free known rq now (Stored st)) = Selected sel"
  then obtain file' where f: "acquireNamedAccountLease env confined free known rq now (Stored st) = (Selected sel, file')"
    by (metis prod.collapse)
  show False
    by (rule acquired [OF f]) (use assms take_lease_Selected(1) in \<open>auto simp: readState_def\<close>)
qed

lemma is_quarantined_kept:
  assumes "map_option but_probe q' = map_option but_probe q"
  shows "is_quarantined env q' now = is_quarantined env q now"
  using assms is_quarantined_but_probe by (cases q; cases q') (metis map_option_eq_Some option.simps(8,9) option.discI)+

text \<open>A probe that was recorded keeps a time, no earlier than the calls recorded after it.\<close>

definition probed_since :: "capacity_env \<Rightarrow> int \<Rightarrow> capacity_state \<Rightarrow> string \<Rightarrow> string \<Rightarrow> bool" where
  "probed_since env t st p a = (\<forall>q. ca_quarantine (accountState st p a) = Some q \<longrightarrow>
     (\<exists>n t'. qr_probe q = Some n \<and> ce_parse env (pn_attemptedAt n) = Some t' \<and> t \<le> t'))"

definition marks_since :: "capacity_env \<Rightarrow> int \<Rightarrow> string \<Rightarrow> string \<Rightarrow> capacity_op \<Rightarrow> bool" where
  "marks_since env t p a op = (\<forall>s\<in>probe_marks env p a op. \<exists>t'. ce_parse env s = Some t' \<and> t \<le> t')"

lemma probed_since_kept:
  assumes "\<forall>op\<in>set ops. \<not> lifts p a op \<and> marks_since env t p a op" "probed_since env t st p a"
  obtains st' where "capacity_ops env ops (Stored st) = Stored st'" "probed_since env t st' p a"
proof (rule runs_Stored [of ops "\<lambda>op. \<not> lifts p a op \<and> marks_since env t p a op" env "\<lambda>s. probed_since env t s p a" st])
  fix op s s'
  assume "\<not> lifts p a op \<and> marks_since env t p a op" "keeps env op s s'" "probed_since env t s p a"
  then show "probed_since env t s' p a"
    unfolding keeps_def only_marked_def marks_since_def probed_since_def by fastforce
qed (use assms that in auto)

lemma not_due:
  assumes "probed_since env t st p a" "now - t < cd"
  shows "probe_due env now cd (accountState st p a) = None"
  using assms by (fastforce simp: probed_since_def probe_due_def cooled_def split: option.splits)

lemma claimed_is_probed:
  assumes "claim_probes env now cd p accounts st = (picked, w)" "(a, qa) \<in> set picked" "ce_parse env (ce_iso env now) = Some now"
  obtains st' where "w = Some st'" "probed_since env now st' p a"
proof (rule claim_cases [of env now cd p accounts st])
  fix picked'
  let ?n = "\<lparr>pn_attemptedAt = ce_iso env now, pn_status = ''running'', pn_detail = None\<rparr>"
  assume "claim_probes env now cd p accounts st = (picked', Some (marks p ?n picked' st))"
  with assms(1) have "(picked, w) = (picked', Some (marks p ?n picked' st))" by (rule trans [OF sym])
  then have "picked' = picked" "w = Some (marks p ?n picked st)" by auto
  moreover have "a \<in> fst ` set picked" using assms(2) by force
  with accountState_marks [of p ?n picked st] have "accountState (marks p ?n picked st) p a = mark_probe ?n (accountState st p a)" by simp
  then have "probed_since env now (marks p ?n picked st) p a"
    using assms(3) by (auto simp: probed_since_def mark_probe_def)
  ultimately show thesis using that by blast
qed (use assms in simp)

lemma claim_due:
  assumes "claim_probes env now cd p accounts st = (picked, w)" "probe_due env now cd (accountState st p a) = None"
  shows "(a, qa) \<notin> set picked"
proof (rule claim_cases [of env now cd p accounts st])
  fix picked'
  let ?n = "\<lparr>pn_attemptedAt = ce_iso env now, pn_status = ''running'', pn_detail = None\<rparr>"
  assume c: "claim_probes env now cd p accounts st = (picked', Some (marks p ?n picked' st))"
  assume due: "\<And>i t. (i, t) \<in> set picked' \<Longrightarrow> probe_due env now cd (accountState st p i) \<noteq> None"
  from assms(1) c have "(picked, w) = (picked', Some (marks p ?n picked' st))" by (rule trans [OF sym])
  with due assms(2) show ?thesis by blast
qed (use assms in simp)

end
