(* ===== verification/Capacity_Properties.thy ===== *)
theory Capacity_Properties
  imports Capacity_Facts
begin

text \<open>
  What holds of the accounts of a provider, whatever processes share their state: which account can be leased,
  what a receipt is worth, how long a fault keeps an account out, which leases survive, how often a dead login
  is tried.
\<close>

section \<open>A sample machine\<close>

definition sample_env :: capacity_env where
  "sample_env = \<lparr>ce_parse = (\<lambda>s. Some (int (length s))), ce_iso = (\<lambda>n. replicate (nat n) CHR ''i''),
     ce_dead = (\<lambda>r. oget r ''pid'' = Some (JNum 9)), ce_self = [(''pid'', JNum 7)], ce_pid = 7\<rparr>"

definition sample_runner :: jval where
  "sample_runner = JObj [(''providers'', JObj [(''openai'', JObj [(''accounts'', JObj
     [(''a1'', JObj [(''credentialSource'', JObj [(''kind'', JStr ''codex-home''), (''home'', JStr ''~/.codex'')])]),
      (''a2'', JObj [(''credentialSource'', JObj [(''kind'', JStr ''codex-home''), (''home'', JStr ''/b'')])])])])])]"

definition sample_known :: "config_error + inventory" where
  "sample_known = providerAccountInventory ''/home/u'' (Some sample_runner)"

definition sample_request :: "string \<Rightarrow> string \<Rightarrow> lease_request" where
  "sample_request accountId runId = \<lparr>lr_provider = ''openai-codex'', lr_accountId = Some accountId, lr_assignmentId = Some ''s1'',
     lr_runId = runId, lr_cli = Some ''codex'', lr_digest = None, lr_runIsDead = (\<lambda>_ _. False), lr_workerAlive = (\<lambda>_ _. False)\<rparr>"

definition sample_selection :: selection where
  "sample_selection = (case acquireNamedAccountLease sample_env False True sample_known (sample_request ''a1'' ''r1'') 3 No_file of
     (Selected sel, _) \<Rightarrow> sel)"

definition sample_leased :: state_file where
  "sample_leased = snd (acquireNamedAccountLease sample_env False True sample_known (sample_request ''a1'' ''r1'') 3 No_file)"

lemma sample_acquire:
  "acquireNamedAccountLease sample_env False True sample_known (sample_request ''a1'' ''r1'') 3 No_file = (Selected sample_selection, sample_leased)"
  unfolding sample_selection_def sample_leased_def by code_simp

section \<open>Leases\<close>

text \<open>
  A lease is granted only on an account of the inventory that is enabled, holds a login store for the CLI and is
  not quarantined at that moment, and it is in the state afterwards.
\<close>

theorem leased_account_is_free:
  assumes "acquireNamedAccountLease env confined free known rq now file = (Selected sel, file')"
  shows "\<exists>inventory account st'. known = Inr inventory
     \<and> oget (inventory_of inventory (lr_provider rq)) (sl_accountId sel) = Some account \<and> lr_accountId rq = Some (sl_accountId sel)
     \<and> \<not> ae_disabled account \<and> (given (lr_cli rq) \<longrightarrow> credentialSourceForCli account (lr_cli rq) \<noteq> None)
     \<and> \<not> isQuarantined env (accountState (fst (readState (ce_iso env now) True file)) (lr_provider rq) (sl_accountId sel)) now
     \<and> file' = Stored st' \<and> oget (ca_leases (accountState st' (lr_provider rq) (sl_accountId sel))) (lr_runId rq) = Some (new_lease env rq (ce_iso env now))"
proof (rule acquired [OF assms])
  fix inventory account accountId st st'
  assume "known = Inr inventory" "lr_accountId rq = Some accountId" "oget (inventory_of inventory (lr_provider rq)) accountId = Some account"
    "\<not> ae_disabled account" "given (lr_cli rq) \<Longrightarrow> credentialSourceForCli account (lr_cli rq) \<noteq> None"
    "st = fst (readState (ce_iso env now) True file)" "file' = Stored st'"
    and t: "take_lease env rq accountId account now st = (Selected sel, Some st')"
  then show ?thesis using take_lease_Selected [OF t] by (auto simp: isQuarantined_def)
qed

theorem leased_account_is_free_witness:
  "\<exists>st'. sample_leased = Stored st'
     \<and> oget (ca_leases (accountState st' ''openai-codex'' ''a1'')) ''r1'' = Some (new_lease sample_env (sample_request ''a1'' ''r1'') ''iii'')"
proof -
  have a: "sl_accountId sample_selection = ''a1''" by code_simp
  show ?thesis using leased_account_is_free [OF sample_acquire] a
    by (auto simp: sample_request_def sample_env_def numeral_3_eq_3)
qed

text \<open>
  C27: A receipt stands for the lease it was written for: whatever other processes do, auditing it finds no
  difference, until its assignment is leased again or dropped.
\<close>

theorem receipt_stands:
  assumes "acquireNamedAccountLease env confined free known rq now file = (Selected sel, file')"
    and "lr_assignmentId rq = Some assignmentId" "assignmentId \<noteq> ''''"
    and "\<forall>op\<in>set ops. \<not> touches (assignment_key (lr_provider rq) assignmentId) op"
  shows "fst (auditLeaseReceipt env later (Some (sl_receipt sel)) assignmentId (capacity_ops env ops file')) = Agrees"
proof (rule acquired [OF assms(1)])
  fix account accountId st st'
  assume t: "take_lease env rq accountId account now st = (Selected sel, Some st')" and f: "file' = Stored st'"
  have g: "given (lr_assignmentId rq)" using assms(2,3) by (simp add: given_def)
  obtain st2 where "capacity_ops env ops file' = Stored st2"
    "oget (cs_assignments st2) (assignment_key (lr_provider rq) assignmentId) = oget (cs_assignments st') (assignment_key (lr_provider rq) assignmentId)"
    unfolding f by (rule assignment_kept [OF assms(4)])
  with take_lease_Selected(4,5) [OF t] g assms(2) show ?thesis
    by (auto simp: auditLeaseReceipt_def on_state_Stored)
qed

definition sample_ops :: "capacity_op list" where
  "sample_ops = [Op_acquire sample_known ((sample_request ''a1'' ''r2'')\<lparr>lr_assignmentId := Some ''s2''\<rparr>) 4,
     Op_quarantine ''openai-codex'' ''a1'' (Some ''auth-token'') ''manual-clear'' None None 5, Op_release ''openai-codex'' ''a1'' ''r2'' 6]"

theorem receipt_stands_witness:
  "fst (auditLeaseReceipt sample_env 8 (Some (sl_receipt sample_selection)) ''s1'' (capacity_ops sample_env sample_ops sample_leased)) = Agrees"
  by (rule receipt_stands [OF sample_acquire])
    (simp_all add: sample_request_def sample_ops_def assignment_key_def given_def)

text \<open>
  A lease survives every operation of every process but its own release, a new lease of the same run, and a
  reclaim that has proved its holder and its worker dead.
\<close>

theorem live_lease_survives:
  assumes "acquireNamedAccountLease env confined free known rq now file = (Selected sel, file')"
    and "\<forall>op\<in>set ops. \<not> ends_lease env (lr_provider rq) (sl_accountId sel) (lr_runId rq) (new_lease env rq (ce_iso env now)) op"
  shows "\<exists>st. capacity_ops env ops file' = Stored st
    \<and> oget (ca_leases (accountState st (lr_provider rq) (sl_accountId sel))) (lr_runId rq) = Some (new_lease env rq (ce_iso env now))"
proof (rule acquired [OF assms(1)])
  fix account accountId st st'
  assume t: "take_lease env rq accountId account now st = (Selected sel, Some st')" and f: "file' = Stored st'"
  from take_lease_Selected(3,5) [OF t]
  have "oget (ca_leases (accountState st' (lr_provider rq) (sl_accountId sel))) (lr_runId rq) = Some (new_lease env rq (ce_iso env now))" by auto
  from lease_kept [OF assms(2) this] show ?thesis unfolding f by metis
qed

theorem live_lease_survives_witness:
  "\<exists>st. capacity_ops sample_env sample_ops sample_leased = Stored st
    \<and> oget (ca_leases (accountState st ''openai-codex'' ''a1'')) ''r1'' \<noteq> None"
proof -
  have a: "sl_accountId sample_selection = ''a1''" by code_simp
  have "\<forall>op\<in>set sample_ops. \<not> ends_lease sample_env ''openai-codex'' ''a1'' ''r1'' (new_lease sample_env (sample_request ''a1'' ''r1'') ''iii'') op"
    by code_simp
  then show ?thesis using live_lease_survives [OF sample_acquire, of sample_ops] a
    by (auto simp: sample_request_def sample_env_def numeral_3_eq_3)
qed

section \<open>Quarantine\<close>











definition sample_accounts :: "(string \<times> account_entry) list" where
  "sample_accounts = (case sample_known of Inr inventory \<Rightarrow> inventory_of inventory ''openai-codex'' | Inl _ \<Rightarrow> [])"


section \<open>The inventory\<close>

text \<open>
  C39: An inventory the validator accepts names each provider family once, and each account by a safe id with exactly
  one kind of login store, each store of a known kind with a home and, where it lists files, relative ones.
\<close>

theorem accepted_inventory_sound:
  assumes "validateProviderAccountInventory runnerConfig = Inr known"
  shows "inventory_sound known"
  using assms by (rule validated_inventory_sound)

theorem accepted_inventory_sound_witness:
  "\<exists>known. validateProviderAccountInventory (Some sample_runner) = Inr known \<and> okeys known = [''openai-codex''] \<and> inventory_sound known"
proof -
  have v: "validateProviderAccountInventory (Some sample_runner) = Inr [(''openai-codex'', sample_accounts)]" by code_simp
  with accepted_inventory_sound [OF v] show ?thesis by (simp add: okeys_def)
qed

section \<open>What the code does not do\<close>

text \<open>
  Two spellings of one family that the config does not name as families are two pools without a problem, but
  the derived inventory keeps the accounts of the last one only.
\<close>

definition spelled_twice :: obj where
  "spelled_twice = [(''llmAccounts'', JObj [
     (''openai'', JObj [(''a'', JObj [(''credentialStore'', JObj [(''codex'', JStr ''/a'')])])]),
     (''codex'', JObj [(''b'', JObj [(''credentialStore'', JObj [(''codex'', JStr ''/b'')])])])])]"

lemma pools_share_a_key:
  "snd (readLlmAccounts ''/h'' spelled_twice) = [] \<and> okeys (fst (readLlmAccounts ''/h'' spelled_twice)) = [''openai'', ''codex'']
   \<and> map (\<lambda>(p, l). (p, okeys l)) (fst (deriveLegacyInventory ''/h'' spelled_twice)) = [(''openai-codex'', [''b''])]"
  by code_simp

text \<open>A quota stop of another run replaces the quarantine of a dead login: the account is free again when the window ends.\<close>

definition free_again :: "state_file \<Rightarrow> int \<Rightarrow> bool" where
  "free_again file now = (case file of Stored st \<Rightarrow> \<not> isQuarantined sample_env (accountState st ''openai-codex'' ''a1'') now | _ \<Rightarrow> False)"

definition dead_login :: state_file where
  "dead_login = snd (quarantineProviderAccount sample_env 4 ''openai-codex'' ''a1'' (Some ''auth-token'') ''manual-clear'' None None sample_leased)"

lemma quota_replaces_dead_login:
  "\<not> free_again dead_login 9
   \<and> free_again (snd (quarantineProviderAccount sample_env 5 ''openai-codex'' ''a1'' (Some ''quota-limit'') ''temporary'' (Some ''iiiiiiii'') None dead_login)) 9"
  by code_simp

end
