(* ===== verification/Doc_Resolver.thy ===== *)
theory Doc_Resolver
  imports Knowledge_Invariants
begin

text \<open>
  \<open>src/report/knowledge-resolver.mjs\<close>: which live document a path stands for. A path is looked up among the
  live documents, then among their aliases; a path of a dead document leads to its successor, or to the live
  documents of the active topics that descend from its topic. The answer is a list: empty for none, several
  when the path is ambiguous.
\<close>

section \<open>The resolver\<close>

definition isLive :: "kstate \<Rightarrow> kdoc \<Rightarrow> bool" where
  "isLive k d = (isLiveDocLifecycle (kd_life d) \<and> map_option tp_status (oget (k_topics k) (kd_topic d)) = Some ''active'')"

definition has_path :: "string \<Rightarrow> kdoc \<Rightarrow> bool" where
  "has_path p d = (kd_path d = p \<or> JStr p \<in> set (kd_aliases d))"

text \<open>The topics a topic stems from, in the order the search tries them.\<close>

definition origins :: "topic \<Rightarrow> string list" where
  "origins t = (case tp_lineage t of
     None \<Rightarrow> []
   | Some l \<Rightarrow> (case as_str (oget l ''splitFrom'') of Some s \<Rightarrow> if s = '''' then [] else [s] | None \<Rightarrow> [])
       @ str_entries (oget l ''mergedFrom''))"

definition origin_map :: "kstate \<Rightarrow> (string \<times> string list) list" where
  "origin_map k = map (\<lambda>(i, t). (i, origins t)) (k_topics k)"

text \<open>The search from a topic towards an ancestor, with the topics still to try on a stack.\<close>

function leads_from :: "(string \<times> string list) list \<Rightarrow> string \<Rightarrow> string list \<Rightarrow> string list \<Rightarrow> bool" where
  "leads_from m ancestor visited [] = False"
| "leads_from m ancestor visited (t # stack) =
     (if t = ancestor then True
      else if t \<in> set visited then leads_from m ancestor visited stack
      else leads_from m ancestor (t # visited) (lazyd (oget m t) @ stack))"
  by pat_completeness auto

lemma fewer_unvisited:
  assumes "oget m t = Some os" "t \<notin> set visited"
  shows "card (set (okeys m) - insert t (set visited)) < card (set (okeys m) - set visited)"
  using assms by (intro psubset_card_mono) (auto dest: oget_Some_key)

termination leads_from
proof (relation "measures [\<lambda>(m, a, visited, stack). card (set (okeys m) - set visited), \<lambda>(m, a, visited, stack). length stack]")
  fix m :: "(string \<times> string list) list" and ancestor t :: string and visited stack :: "string list"
  assume n: "t \<notin> set visited"
  show "((m, ancestor, t # visited, lazyd (oget m t) @ stack), m, ancestor, visited, t # stack)
    \<in> measures [\<lambda>(m, a, visited, stack). card (set (okeys m) - set visited), \<lambda>(m, a, visited, stack). length stack]"
  proof (cases "oget m t")
    case None
    then have "set (okeys m) - insert t (set visited) = set (okeys m) - set visited" by (auto simp: oget_None_iff)
    with None show ?thesis by simp
  next
    case (Some os)
    with fewer_unvisited [OF Some n] show ?thesis by simp
  qed
qed auto

definition leadsFrom :: "kstate \<Rightarrow> string \<Rightarrow> string \<Rightarrow> bool" where
  "leadsFrom k tId ancestorId = leads_from (origin_map k) ancestorId [] [tId]"

text \<open>The live end of a chain of successors.\<close>

function resolveSupersededByChain :: "kstate \<Rightarrow> string list \<Rightarrow> string \<Rightarrow> kdoc option" where
  "resolveSupersededByChain k visited i =
     (if i \<in> set visited then None
      else case oget (k_docs k) i of
        None \<Rightarrow> None
      | Some d \<Rightarrow> if isLive k d then Some d
          else (case kd_supersededBy d of None \<Rightarrow> None | Some j \<Rightarrow> if j = '''' then None else resolveSupersededByChain k (i # visited) j))"
  by pat_completeness auto
termination
  by (relation "measure (\<lambda>(k, visited, i). card (set (okeys (k_docs k)) - set visited))")
    (auto intro!: psubset_card_mono dest: oget_Some_key)

declare resolveSupersededByChain.simps [simp del]

definition docs_of :: "kstate \<Rightarrow> kdoc list" where
  "docs_of k = map snd (k_docs k)"

text \<open>What one active topic offers for a dead document: the live documents of its role, else all live ones.\<close>

definition offers :: "kstate \<Rightarrow> kdoc \<Rightarrow> topic \<Rightarrow> kdoc list" where
  "offers k dead t =
     (let here = filter (\<lambda>d. kd_topic d = tp_id t \<and> isLiveDocLifecycle (kd_life d)) (docs_of k);
          same = filter (\<lambda>d. kd_role d = kd_role dead) here
      in if same \<noteq> [] then same else here)"

definition currentTopics :: "kstate \<Rightarrow> topic list" where
  "currentTopics k = filter (\<lambda>t. tp_status t = ''active'') (map snd (k_topics k))"

definition successor_of :: "kstate \<Rightarrow> kdoc \<Rightarrow> kdoc option" where
  "successor_of k dead = (case kd_supersededBy dead of
     None \<Rightarrow> None | Some j \<Rightarrow> if j = '''' then None else resolveSupersededByChain k [] j)"

definition targets_of_dead :: "kstate \<Rightarrow> kdoc \<Rightarrow> kdoc list" where
  "targets_of_dead k dead = (case successor_of k dead of
     Some d \<Rightarrow> [d]
   | None \<Rightarrow> concat (map (\<lambda>t. if leadsFrom k (tp_id t) (kd_topic dead) then offers k dead t else []) (currentTopics k)))"

definition add_new :: "kdoc \<Rightarrow> kdoc list \<Rightarrow> kdoc list" where
  "add_new d ds = (if d \<in> set ds then ds else ds @ [d])"

definition resolveDocPath :: "kstate \<Rightarrow> string \<Rightarrow> kdoc list" where
  "resolveDocPath k p =
     (if p = '''' then []
      else let active = filter (\<lambda>d. kd_path d = p \<and> isLive k d) (docs_of k) in
        if active \<noteq> [] then active
        else let alias_docs = filter (\<lambda>d. JStr p \<in> set (kd_aliases d) \<and> isLive k d) (docs_of k) in
          if alias_docs \<noteq> [] then alias_docs
          else fold add_new (concat (map (targets_of_dead k) (filter (has_path p) (docs_of k)))) [])"

section \<open>The search is exact\<close>

definition stems :: "(string \<times> string list) list \<Rightarrow> (string \<times> string) set" where
  "stems m = {(t, u). \<exists>os. oget m t = Some os \<and> u \<in> set os}"

lemma leads_from_sound: "leads_from m a visited stack \<Longrightarrow> \<exists>t\<in>set stack. (t, a) \<in> (stems m)\<^sup>*"
proof (induction m a visited stack rule: leads_from.induct)
  case (2 m a visited t stack)
  show ?case
  proof (cases "t = a \<or> t \<in> set visited")
    case True
    with 2 show ?thesis by (auto split: if_splits)
  next
    case False
    with 2 obtain u where u: "u \<in> set (lazyd (oget m t) @ stack)" "(u, a) \<in> (stems m)\<^sup>*" by auto
    show ?thesis
    proof (cases "u \<in> set stack")
      case False
      with u(1) have "(t, u) \<in> stems m" by (cases "oget m t") (auto simp: stems_def)
      with u(2) have "(t, a) \<in> (stems m)\<^sup>*" by (meson converse_rtrancl_into_rtrancl)
      then show ?thesis by simp
    qed (use u in auto)
  qed
qed simp

lemma leads_from_complete:
  assumes "\<not> leads_from m a visited stack"
    and "a \<notin> set visited" "\<And>v u. v \<in> set visited \<Longrightarrow> (v, u) \<in> stems m \<Longrightarrow> u \<in> set visited \<union> set stack"
  shows "\<exists>C. set visited \<union> set stack \<subseteq> C \<and> a \<notin> C \<and> (\<forall>v u. v \<in> C \<longrightarrow> (v, u) \<in> stems m \<longrightarrow> u \<in> C)"
  using assms
proof (induction m a visited stack rule: leads_from.induct)
  case (1 m a visited)
  then show ?case by (intro exI [of _ "set visited"]) auto
next
  case (2 m a visited t stack)
  have a: "t \<noteq> a" using 2(3) by auto
  show ?case
  proof (cases "t \<in> set visited")
    case True
    with 2(3) a have l: "\<not> leads_from m a visited stack" by simp
    have c: "u \<in> set visited \<union> set stack" if "v \<in> set visited" "(v, u) \<in> stems m" for v u
      using 2(5) [OF that] True by auto
    have "\<exists>C. set visited \<union> set stack \<subseteq> C \<and> a \<notin> C \<and> (\<forall>v u. v \<in> C \<longrightarrow> (v, u) \<in> stems m \<longrightarrow> u \<in> C)"
      by (rule 2(1) [OF a True l 2(4)]) (rule c)
    then obtain C where C: "set visited \<union> set stack \<subseteq> C" "a \<notin> C"
      "\<forall>v u. v \<in> C \<longrightarrow> (v, u) \<in> stems m \<longrightarrow> u \<in> C" by blast
    have "set visited \<union> set (t # stack) \<subseteq> C" using C(1) True by auto
    with C(2,3) show ?thesis by blast
  next
    case False
    with 2(3) a have l: "\<not> leads_from m a (t # visited) (lazyd (oget m t) @ stack)" by simp
    have n: "a \<notin> set (t # visited)" using a 2(4) by simp
    have c: "u \<in> set (t # visited) \<union> set (lazyd (oget m t) @ stack)" if v: "v \<in> set (t # visited)" "(v, u) \<in> stems m" for v u
    proof (cases "v = t")
      case True
      with v(2) show ?thesis by (auto simp: stems_def)
    next
      case False
      with v(1) have "v \<in> set visited" by simp
      from 2(5) [OF this v(2)] show ?thesis by auto
    qed
    have "\<exists>C. set (t # visited) \<union> set (lazyd (oget m t) @ stack) \<subseteq> C \<and> a \<notin> C
        \<and> (\<forall>v u. v \<in> C \<longrightarrow> (v, u) \<in> stems m \<longrightarrow> u \<in> C)"
      by (rule 2(2) [OF a False l n]) (rule c)
    then obtain C where C: "set (t # visited) \<union> set (lazyd (oget m t) @ stack) \<subseteq> C" "a \<notin> C"
      "\<forall>v u. v \<in> C \<longrightarrow> (v, u) \<in> stems m \<longrightarrow> u \<in> C" by blast
    have "set visited \<union> set (t # stack) \<subseteq> C" using C(1) by auto
    with C(2,3) show ?thesis by blast
  qed
qed

lemma leadsFrom_exact: "leadsFrom k t a \<longleftrightarrow> (t, a) \<in> (stems (origin_map k))\<^sup>*"
proof
  show "leadsFrom k t a \<Longrightarrow> (t, a) \<in> (stems (origin_map k))\<^sup>*"
    unfolding leadsFrom_def by (drule leads_from_sound) simp
  assume r: "(t, a) \<in> (stems (origin_map k))\<^sup>*"
  show "leadsFrom k t a"
  proof (rule ccontr)
    assume "\<not> leadsFrom k t a"
    then obtain C where C: "t \<in> C" "a \<notin> C" "\<forall>v u. v \<in> C \<longrightarrow> (v, u) \<in> stems (origin_map k) \<longrightarrow> u \<in> C"
      using leads_from_complete [of "origin_map k" a "[]" "[t]"] by (auto simp: leadsFrom_def)
    from r C(1) have "a \<in> C" by (induction rule: rtrancl_induct) (use C(3) in blast)+
    with C(2) show False by simp
  qed
qed

section \<open>What a path resolves to\<close>

lemma chain_live: "resolveSupersededByChain k visited i = Some d \<Longrightarrow> isLive k d \<and> d \<in> set (docs_of k)"
proof (induction k visited i rule: resolveSupersededByChain.induct)
  case (1 k visited i)
  then show ?case
    by (subst (asm) (2) resolveSupersededByChain.simps)
      (auto simp: docs_of_def oget_def split: if_splits option.splits dest!: map_of_SomeD intro: rev_image_eqI)
qed

lemma set_fold_add_new: "set (fold add_new ds acc) = set ds \<union> set acc"
  by (induction ds arbitrary: acc) (auto simp: add_new_def)

definition topics_named :: "kstate \<Rightarrow> bool" where
  "topics_named k = (distinct (okeys (k_topics k)) \<and> (\<forall>(i, t)\<in>set (k_topics k). tp_id t = i))"

lemma offers_live:
  assumes "topics_named k" "t \<in> set (currentTopics k)" "d \<in> set (offers k dead t)"
  shows "isLive k d"
proof -
  obtain i where i: "(i, t) \<in> set (k_topics k)" "tp_status t = ''active''" using assms(2) by (auto simp: currentTopics_def)
  with assms(1) have "oget (k_topics k) (tp_id t) = Some t"
    unfolding topics_named_def okeys_def oget_def by (auto intro: map_of_is_SomeI)
  with assms(3) i show ?thesis by (auto simp: offers_def isLive_def Let_def split: if_splits)
qed

lemma resolved_live:
  assumes "topics_named k" "d \<in> set (resolveDocPath k p)"
  shows "isLive k d"
  using assms offers_live [OF assms(1)]
  by (auto simp: resolveDocPath_def Let_def set_fold_add_new targets_of_dead_def successor_of_def split: if_splits option.splits dest: chain_live)

lemma live_path_resolves:
  assumes "registry_ok k" "oget (k_docs k) i = Some d" "isLive k d"
  shows "resolveDocPath k (kd_path d) = [d]"
proof -
  have p: "kd_path d \<noteq> ''''" using assms(1,2) unfolding registry_ok_def good_doc_def safe_doc_path_def by blast
  have dist: "distinct (okeys (k_docs k))" using assms(1) by (simp add: registry_ok_def)
  have "filter (\<lambda>e. kd_path e = kd_path d \<and> isLive k e) (map snd l) = (if (i, d) \<in> set l then [d] else [])"
    if "set l \<subseteq> set (k_docs k)" "distinct (okeys l)" for l
    using that
  proof (induction l)
    case (Cons x l)
    obtain j e where x: "x = (j, e)" by (cases x)
    have e: "oget (k_docs k) j = Some e" using Cons.prems(1) dist x by (auto simp: oget_def okeys_def)
    show ?case
    proof (cases "j = i")
      case True
      then have "e = d" using e assms(2) by simp
      moreover have "(i, d) \<notin> set l" using Cons.prems(2) x True by (force simp: okeys_def)
      ultimately show ?thesis using Cons x True assms(3) by (simp add: okeys_def)
    next
      case False
      have "\<not> (kd_path e = kd_path d \<and> isLive k e)"
        using assms e False unfolding registry_ok_def apart_def live_def isLive_def by metis
      with Cons x False show ?thesis by (auto simp: okeys_def)
    qed
  qed simp
  from this [OF subset_refl dist] have "filter (\<lambda>e. kd_path e = kd_path d \<and> isLive k e) (docs_of k) = [d]"
    using assms(2) by (auto simp: docs_of_def oget_def dest: map_of_SomeD)
  with p show ?thesis by (simp add: resolveDocPath_def)
qed

end
