(* ===== verification/Cleanup_Gate.thy ===== *)
theory Cleanup_Gate
  imports Frontier Doc_Resolver
begin

text \<open>
  \<open>src/state/cleanup-harness.mjs\<close>, \<open>cleanup-pool.mjs\<close>, \<open>retro-pool.mjs\<close>: what an item must show before it leaves
  \<open>cleanup\<close>, and which item a sweep takes next. Details keep what they report, not their wording.

  Parameters: \<open>time_of\<close> reads a date (no value for NaN), \<open>exists_file\<close> the disk, and \<open>git\<close> the commits: an unreadable
  fact answers no. An item's commits are recorded as strings. The recursion over children takes fuel; an item
  that is below itself would never return.
\<close>

section \<open>Time since delivery\<close>

definition deliveries :: "event list \<Rightarrow> string \<Rightarrow> string \<Rightarrow> event list" where
  "deliveries rawEvents i to_status = filter (\<lambda>e. e_type e = ''work.move'' \<and> oget (e_payload e) ''id'' = Some (JStr i)
     \<and> oget (e_payload e) ''to'' = Some (JStr to_status)) rawEvents"

definition latest_entry :: "event list \<Rightarrow> string \<Rightarrow> string \<Rightarrow> event option" where
  "latest_entry rawEvents i to_status = (let es = deliveries rawEvents i to_status in if es = [] then None else Some (last es))"

definition DAY :: int where "DAY = 86400000"

datatype ttl_answer = Never_shipped | Elapsed int | Too_early "int option"

definition checkCleanupTTLElapsed :: "(jval \<Rightarrow> int option) \<Rightarrow> event list \<Rightarrow> string \<Rightarrow> int \<Rightarrow> int \<Rightarrow> ttl_answer" where
  "checkCleanupTTLElapsed time_of rawEvents i ttlDays now = (case latest_entry rawEvents i ''delivered'' of
     None \<Rightarrow> Never_shipped
   | Some shipped \<Rightarrow> (case time_of (e_ts shipped) of
       None \<Rightarrow> Too_early None
     | Some t \<Rightarrow> if now - t \<ge> ttlDays * DAY then Elapsed ((now - t) div DAY) else Too_early (Some ((now - t) div DAY))))"

definition ttl_ok :: "ttl_answer \<Rightarrow> bool" where
  "ttl_ok a = (case a of Elapsed _ \<Rightarrow> True | _ \<Rightarrow> False)"

definition resolveTtlDaysForItem :: "works \<Rightarrow> string \<Rightarrow> int \<Rightarrow> int option \<Rightarrow> int" where
  "resolveTtlDaysForItem work i ttlDays leafTtlDays = (case leafTtlDays of
     None \<Rightarrow> ttlDays
   | Some leaf \<Rightarrow> if resolveRoot work i \<noteq> i then leaf else ttlDays)"

section \<open>Content of the retrospective\<close>

datatype content_answer =
    Decision_found | Document_found string | Document_moved string | Document_missing string
  | Attested string | Attested_missing string | No_content | Inherited string content_answer

fun content_ok :: "content_answer \<Rightarrow> bool" where
  "content_ok Decision_found = True"
| "content_ok (Document_found _) = True"
| "content_ok (Document_moved _) = True"
| "content_ok (Attested _) = True"
| "content_ok (Inherited _ _) = True"
| "content_ok _ = False"

definition checkRetrospectiveContentForId :: "(string \<Rightarrow> bool) \<Rightarrow> view \<Rightarrow> string \<Rightarrow> content_answer" where
  "checkRetrospectiveContentForId exists_file v i =
     (let outcome = (case oget (lazyd (v_outcomes v)) i of Some ob \<Rightarrow> ob | None \<Rightarrow> []);
          decisions = (case oget (lazyd (v_decisionsById v)) i of Some l \<Rightarrow> l | None \<Rightarrow> []);
          k = (case v_knowledge v of Some k \<Rightarrow> k | None \<Rightarrow> \<lparr>k_topics = [], k_docs = []\<rparr>) in
      if list_ex (\<lambda>d. oget d ''kind'' \<noteq> Some (JStr ''engine'')) decisions then Decision_found
      else if truthy (oget outcome ''docType'') \<and> nonempty_str (oget outcome ''docPath'') then
        (let p = (case as_str (oget outcome ''docPath'') of Some p \<Rightarrow> p | None \<Rightarrow> '''') in
         if exists_file p then Document_found p
         else (case resolveDocPath k p of
             [d] \<Rightarrow> if kd_path d \<noteq> '''' \<and> exists_file (kd_path d) then Document_moved (kd_path d) else Document_missing p
           | _ \<Rightarrow> Document_missing p))
      else (case find (\<lambda>d. JStr i \<in> set (kd_captures d)) (docs_of k) of
          Some d \<Rightarrow> if kd_path d = '''' then No_content
              else if exists_file (kd_path d) then Attested (kd_path d) else Attested_missing (kd_path d)
        | None \<Rightarrow> No_content))"

definition checkRetrospectiveContent :: "(string \<Rightarrow> bool) \<Rightarrow> view \<Rightarrow> string \<Rightarrow> content_answer" where
  "checkRetrospectiveContent exists_file v i =
     (let own = checkRetrospectiveContentForId exists_file v i; root = resolveRoot (v_work v) i in
      if content_ok own then own
      else if root = i then own
      else (let fromRoot = checkRetrospectiveContentForId exists_file v root in
            if content_ok fromRoot then Inherited root fromRoot else own))"

section \<open>The merge still resolves\<close>

record git_port =
  gp_resolve :: "string \<Rightarrow> string option"             \<comment> \<open>\<open>resolveCommit\<close>\<close>
  gp_ancestry :: "string \<Rightarrow> string \<Rightarrow> bool"
  gp_unmatched :: "string \<Rightarrow> string \<Rightarrow> nat option"    \<comment> \<open>upstream and head\<close>

definition isAncestor :: "git_port \<Rightarrow> string \<Rightarrow> string \<Rightarrow> bool" where
  "isAncestor git sha ref = (case (gp_resolve git sha, gp_resolve git ref) of
     (Some a, Some d) \<Rightarrow> a \<noteq> '''' \<and> d \<noteq> '''' \<and> gp_ancestry git a d
   | _ \<Rightarrow> False)"

definition unmatchedCount :: "git_port \<Rightarrow> string \<Rightarrow> string \<Rightarrow> nat option" where
  "unmatchedCount git ref sha = (case (gp_resolve git ref, gp_resolve git sha) of
     (Some upstream, Some head) \<Rightarrow> if upstream \<noteq> '''' \<and> head \<noteq> '''' then gp_unmatched git upstream head else None
   | _ \<Rightarrow> None)"

datatype merge_detail =
    Nothing_to_check
  | Still_ancestor string string | Main_ancestor string | Content_on string | Unreachable string string
  | Child_failed string merge_detail | Children_resolve "string list"
  | Root_unconfirmed | Root_lost string | Root_pruned string | Root_unmerged merge_detail | Root_merged

definition SHA_FIELDS :: "string list" where
  "SHA_FIELDS = [''branchHeadAtReturn'', ''headAtReturn'', ''branchHeadAtTake'', ''headAtTake'']"

definition first_field :: "obj \<Rightarrow> string option" where
  "first_field ob = (case filter (\<lambda>f. \<not> nullish (oget ob f)) SHA_FIELDS of [] \<Rightarrow> None | f # _ \<Rightarrow> Some (case as_str (oget ob f) of Some s \<Rightarrow> s | None \<Rightarrow> ''''))"

definition recorded_sha :: "obj \<Rightarrow> string option" where
  "recorded_sha w = (case (case first_field w of Some s \<Rightarrow> Some s
       | None \<Rightarrow> Option.bind (as_obj (oget w ''lastAttempt'')) first_field) of
     Some s \<Rightarrow> if s = '''' then None else Some s | None \<Rightarrow> None)"

definition checkAncestry :: "git_port \<Rightarrow> string \<Rightarrow> string \<Rightarrow> bool \<times> merge_detail" where
  "checkAncestry git sha targetRef =
     (if isAncestor git sha targetRef then (True, Still_ancestor sha targetRef)
      else if targetRef \<noteq> ''HEAD'' \<and> isAncestor git sha ''HEAD'' then (True, Main_ancestor sha)
      else (case find (\<lambda>ref. unmatchedCount git ref sha = Some 0) (if targetRef = ''HEAD'' then [targetRef] else [targetRef, ''HEAD'']) of
          Some ref \<Rightarrow> (True, Content_on ref)
        | None \<Rightarrow> (False, Unreachable sha targetRef)))"

definition branch_of :: "string \<Rightarrow> string" where
  "branch_of i = ''fgw/'' @ i"

text \<open>The check of an item that was not decomposed.\<close>

definition own_resolves :: "git_port \<Rightarrow> works \<Rightarrow> string \<Rightarrow> obj \<Rightarrow> bool \<times> merge_detail" where
  "own_resolves git work i w = (case recorded_sha w of
     None \<Rightarrow> (True, Nothing_to_check)
   | Some sha \<Rightarrow>
       (let root = resolveRoot work i in
        if root \<noteq> '''' \<and> root \<noteq> i then
          (if gp_resolve git (branch_of root) \<in> {None, Some ''''} then checkAncestry git sha ''HEAD''
           else checkAncestry git sha (branch_of root))
        else checkAncestry git sha ''HEAD''))"

definition checkRootBranchResolves :: "git_port \<Rightarrow> string \<Rightarrow> obj \<Rightarrow> bool \<times> merge_detail" where
  "checkRootBranchResolves git i w = (case gp_resolve git (branch_of i) of
     Some tip \<Rightarrow> if tip \<noteq> '''' then
         (case checkAncestry git tip ''HEAD'' of (True, _) \<Rightarrow> (True, Root_merged) | (False, d) \<Rightarrow> (False, Root_unmerged d))
       else (case recorded_sha w of None \<Rightarrow> (False, Root_unconfirmed)
         | Some sha \<Rightarrow> if fst (checkAncestry git sha ''HEAD'') then (True, Root_pruned sha) else (False, Root_lost sha))
   | None \<Rightarrow> (case recorded_sha w of None \<Rightarrow> (False, Root_unconfirmed)
       | Some sha \<Rightarrow> if fst (checkAncestry git sha ''HEAD'') then (True, Root_pruned sha) else (False, Root_lost sha)))"

definition kept_children :: "works \<Rightarrow> string \<Rightarrow> works" where
  "kept_children work i = filter (\<lambda>(_, w). oget w ''parent'' = Some (JStr i) \<and> \<not> isCanceledStatus (Some w)) work"

text \<open>The first child that fails; \<open>None\<close> when a child's check does not return.\<close>

fun checkChildrenResolve :: "(string \<Rightarrow> obj \<Rightarrow> (bool \<times> merge_detail) option) \<Rightarrow> works \<Rightarrow> (string \<times> merge_detail) option option" where
  "checkChildrenResolve check [] = Some None"
| "checkChildrenResolve check ((c, w) # rest) = (case check c w of
     None \<Rightarrow> None
   | Some (ok, d) \<Rightarrow> if ok then checkChildrenResolve check rest else Some (Some (c, d)))"

fun mergeStillResolves :: "nat \<Rightarrow> git_port \<Rightarrow> works \<Rightarrow> string \<Rightarrow> obj \<Rightarrow> (bool \<times> merge_detail) option" where
  "mergeStillResolves 0 git work i w = None"
| "mergeStillResolves (Suc n) git work i w =
     (let children = kept_children work i in
      if children = [] then Some (own_resolves git work i w)
      else (case checkChildrenResolve (\<lambda>c cw. mergeStillResolves n git work c cw) children of
          None \<Rightarrow> None
        | Some (Some (c, d)) \<Rightarrow> Some (False, Child_failed c d)
        | Some None \<Rightarrow> Some (if resolveRoot work i = i then checkRootBranchResolves git i w
            else (True, Children_resolve (map fst children)))))"

definition checkMergeStillResolves :: "git_port \<Rightarrow> works \<Rightarrow> string \<Rightarrow> obj \<Rightarrow> (bool \<times> merge_detail) option" where
  "checkMergeStillResolves git work i w = mergeStillResolves (Suc (length work)) git work i w"

section \<open>The verdict\<close>

record readiness =
  rd_ready :: bool
  rd_notReadyYet :: "ttl_answer list"
  rd_failed :: "(content_answer + merge_detail) list"

definition assessCleanupReadiness ::
  "(jval \<Rightarrow> int option) \<Rightarrow> (string \<Rightarrow> bool) \<Rightarrow> git_port \<Rightarrow> view \<Rightarrow> event list \<Rightarrow> string \<Rightarrow> bool \<Rightarrow> int \<Rightarrow> int option \<Rightarrow> int \<Rightarrow> readiness option" where
  "assessCleanupReadiness time_of exists_file git v rawEvents i worktreeBacked ttlDays leafTtlDays now =
     (let ttl = checkCleanupTTLElapsed time_of rawEvents i (resolveTtlDaysForItem (v_work v) i ttlDays leafTtlDays) now;
          notReadyYet = (if ttl_ok ttl then [] else [ttl]);
          content = checkRetrospectiveContent exists_file v i;
          failed = (if content_ok content then [] else [Inl content]);
          item = (case oget (v_work v) i of Some w \<Rightarrow> w | None \<Rightarrow> []) in
      if \<not> worktreeBacked then Some \<lparr>rd_ready = (notReadyYet = [] \<and> failed = []), rd_notReadyYet = notReadyYet, rd_failed = failed\<rparr>
      else map_option (\<lambda>(ok, d). let failed' = (if ok then failed else failed @ [Inr d]) in
          \<lparr>rd_ready = (notReadyYet = [] \<and> failed' = []), rd_notReadyYet = notReadyYet, rd_failed = failed'\<rparr>)
        (checkMergeStillResolves git (v_work v) i item))"

text \<open>The sweep over the blocked items: those whose check would pass now, those it would not, those it says nothing of.\<close>

datatype blocked_answer = Resolvable merge_detail | Still_blocked merge_detail | Not_worktree_backed | No_recorded_commit

definition blocked_answer :: "git_port \<Rightarrow> (obj \<Rightarrow> bool) \<Rightarrow> works \<Rightarrow> string \<Rightarrow> obj \<Rightarrow> blocked_answer option" where
  "blocked_answer git worktree_backed work i w =
     (if \<not> worktree_backed w then Some Not_worktree_backed
      else map_option (\<lambda>(ok, d). if d = Nothing_to_check then No_recorded_commit else if ok then Resolvable d else Still_blocked d)
        (checkMergeStillResolves git work i w))"

definition blockedItemsNowResolvable :: "git_port \<Rightarrow> (obj \<Rightarrow> bool) \<Rightarrow> works \<Rightarrow> (string \<times> blocked_answer option) list" where
  "blockedItemsNowResolvable git worktree_backed work =
     map (\<lambda>(i, w). (i, blocked_answer git worktree_backed work i w))
       (filter (\<lambda>(_, w). oget w ''status'' = Some (JStr ''blocked'')) work)"

section \<open>The next item of a sweep\<close>

definition by_time :: "string \<times> int option \<Rightarrow> string \<times> int option \<Rightarrow> int" where
  "by_time a b = (case (snd a, snd b) of (Some x, Some y) \<Rightarrow> x - y | _ \<Rightarrow> 0)"

definition next_of :: "(string \<times> int option) list \<Rightarrow> string option" where
  "next_of candidates = (case js_sort by_time candidates of [] \<Rightarrow> None | (i, _) # _ \<Rightarrow> Some i)"

definition at_status :: "string \<Rightarrow> works \<Rightarrow> string list" where
  "at_status s work = map fst (filter (\<lambda>(_, w). oget w ''status'' = Some (JStr s)) work)"

definition cleanup_candidates :: "(jval \<Rightarrow> int option) \<Rightarrow> works \<Rightarrow> event list \<Rightarrow> int \<Rightarrow> int option \<Rightarrow> int \<Rightarrow> (string \<times> int option) list" where
  "cleanup_candidates time_of work rawEvents ttlDays leafTtlDays now =
     List.map_filter (\<lambda>i. if ttl_ok (checkCleanupTTLElapsed time_of rawEvents i (resolveTtlDaysForItem work i ttlDays leafTtlDays) now)
         then map_option (\<lambda>e. (i, time_of (e_ts e))) (latest_entry rawEvents i ''delivered'') else None)
       (at_status ''cleanup'' work)"

definition pickNextCleanupItem :: "(jval \<Rightarrow> int option) \<Rightarrow> works \<Rightarrow> event list \<Rightarrow> int \<Rightarrow> int option \<Rightarrow> int \<Rightarrow> string option" where
  "pickNextCleanupItem time_of work rawEvents ttlDays leafTtlDays now =
     next_of (cleanup_candidates time_of work rawEvents ttlDays leafTtlDays now)"

definition retro_candidates :: "(jval \<Rightarrow> int option) \<Rightarrow> works \<Rightarrow> event list \<Rightarrow> (string \<times> int option) list" where
  "retro_candidates time_of work rawEvents =
     List.map_filter (\<lambda>i. map_option (\<lambda>e. (i, time_of (e_ts e))) (latest_entry rawEvents i ''retrospective'')) (at_status ''retrospective'' work)"

definition pickNextRetrospectiveItem :: "(jval \<Rightarrow> int option) \<Rightarrow> works \<Rightarrow> event list \<Rightarrow> string option" where
  "pickNextRetrospectiveItem time_of work rawEvents = next_of (retro_candidates time_of work rawEvents)"

end
