(* ===== verification/Cleanup_Properties.thy ===== *)
theory Cleanup_Properties
  imports Cleanup_Gate
begin

text \<open>
  What a positive answer of the cleanup gate stands for, that its recursion ends, which item a sweep takes, and
  what a document path resolves to.
\<close>

lemma ttl_ok_iff:
  "ttl_ok (checkCleanupTTLElapsed time_of rawEvents i ttlDays now) \<longleftrightarrow>
    (\<exists>e t. latest_entry rawEvents i ''delivered'' = Some e \<and> time_of (e_ts e) = Some t \<and> t + ttlDays * DAY \<le> now)"
  by (auto simp: checkCleanupTTLElapsed_def ttl_ok_def split: option.splits if_splits)

section \<open>The merge check over a lineage\<close>

definition kept_edges :: "works \<Rightarrow> (string \<times> string) set" where
  "kept_edges work = {(p, c). c \<in> set (okeys (kept_children work p))}"

definition node_ok :: "git_port \<Rightarrow> works \<Rightarrow> string \<Rightarrow> obj \<Rightarrow> bool" where
  "node_ok git work i w = (if kept_children work i = [] then fst (own_resolves git work i w)
     else resolveRoot work i = i \<longrightarrow> fst (checkRootBranchResolves git i w))"

definition lineage_ok :: "git_port \<Rightarrow> works \<Rightarrow> string \<Rightarrow> bool" where
  "lineage_ok git work i = (\<forall>c cw. (i, c) \<in> (kept_edges work)\<^sup>* \<longrightarrow> oget work c = Some cw \<longrightarrow> node_ok git work c cw)"

lemma lineage_ok_step:
  assumes "oget work i = Some w"
  shows "lineage_ok git work i \<longleftrightarrow> node_ok git work i w \<and> (\<forall>c\<in>set (okeys (kept_children work i)). lineage_ok git work c)"
proof
  assume all: "lineage_ok git work i"
  show "node_ok git work i w \<and> (\<forall>c\<in>set (okeys (kept_children work i)). lineage_ok git work c)"
  proof (intro conjI ballI)
    show "node_ok git work i w" using all assms by (simp add: lineage_ok_def)
    fix c assume "c \<in> set (okeys (kept_children work i))"
    then have "(i, c) \<in> kept_edges work" by (simp add: kept_edges_def)
    with all show "lineage_ok git work c" unfolding lineage_ok_def by (meson converse_rtrancl_into_rtrancl)
  qed
next
  assume r: "node_ok git work i w \<and> (\<forall>c\<in>set (okeys (kept_children work i)). lineage_ok git work c)"
  show "lineage_ok git work i"
    unfolding lineage_ok_def
  proof (intro allI impI)
    fix c cw assume c: "(i, c) \<in> (kept_edges work)\<^sup>*" "oget work c = Some cw"
    from c(1) show "node_ok git work c cw"
    proof (cases rule: converse_rtranclE)
      case base
      with c(2) assms r show ?thesis by simp
    next
      case (step k)
      then have "lineage_ok git work k" using r by (simp add: kept_edges_def)
      with step(2) c(2) show ?thesis by (simp add: lineage_ok_def)
    qed
  qed
qed

lemma children_answer:
  assumes "\<And>c w. (c, w) \<in> set cs \<Longrightarrow> \<exists>r. check c w = Some r \<and> (fst r \<longleftrightarrow> P c)"
  shows "\<exists>x. checkChildrenResolve check cs = Some x \<and> (x = None \<longleftrightarrow> (\<forall>c\<in>set (okeys cs). P c))"
  using assms
proof (induction cs)
  case (Cons x cs)
  obtain c w where x: "x = (c, w)" by fastforce
  obtain ok d where r: "check c w = Some (ok, d)" "ok \<longleftrightarrow> P c" using Cons.prems [of c w] x by auto
  obtain y where "checkChildrenResolve check cs = Some y" "y = None \<longleftrightarrow> (\<forall>c\<in>set (okeys cs). P c)"
    using Cons.IH Cons.prems by (meson list.set_intros(2))
  with r x show ?case by (auto simp: okeys_def)
qed (simp add: okeys_def)

lemma kept_child_known:
  assumes "distinct (okeys work)" "(c, cw) \<in> set (kept_children work i)"
  shows "oget work c = Some cw"
  using assms by (auto simp: kept_children_def oget_def okeys_def)

lemma merge_total:
  assumes "acyclic (kept_edges work)" "distinct (okeys work)" "oget work i = Some w"
    and "card ((kept_edges work)\<^sup>+ `` {i}) < n"
  shows "\<exists>r. mergeStillResolves n git work i w = Some r \<and> (fst r \<longleftrightarrow> lineage_ok git work i)"
  using assms(3,4)
proof (induction n arbitrary: i w)
  case (Suc n)
  let ?R = "kept_edges work"
  let ?cs = "kept_children work i"
  have fin: "finite (?R\<^sup>+ `` {j})" for j
  proof (rule finite_subset)
    show "?R\<^sup>+ `` {j} \<subseteq> set (okeys work)"
    proof
      fix c assume "c \<in> ?R\<^sup>+ `` {j}"
      then obtain k where "(k, c) \<in> ?R" by (auto elim: tranclE)
      then show "c \<in> set (okeys work)" by (auto simp: kept_edges_def kept_children_def okeys_def)
    qed
  qed simp
  have child: "\<exists>r. mergeStillResolves n git work c cw = Some r \<and> (fst r \<longleftrightarrow> lineage_ok git work c)" if c: "(c, cw) \<in> set ?cs" for c cw
  proof (rule Suc.IH [OF kept_child_known [OF assms(2) c]])
    have e: "(i, c) \<in> ?R" using c by (force simp: kept_edges_def okeys_def)
    then have "?R\<^sup>+ `` {c} \<subseteq> ?R\<^sup>+ `` {i}" by (auto intro: trancl_into_trancl2)
    moreover have "c \<in> ?R\<^sup>+ `` {i}" "c \<notin> ?R\<^sup>+ `` {c}" using e assms(1) by (auto simp: acyclic_def)
    ultimately have "?R\<^sup>+ `` {c} \<subset> ?R\<^sup>+ `` {i}" by blast
    then have "card (?R\<^sup>+ `` {c}) < card (?R\<^sup>+ `` {i})" by (rule psubset_card_mono [OF fin])
    then show "card (?R\<^sup>+ `` {c}) < n" using Suc.prems(2) by simp
  qed
  obtain x where x: "checkChildrenResolve (\<lambda>c cw. mergeStillResolves n git work c cw) ?cs = Some x"
    "x = None \<longleftrightarrow> (\<forall>c\<in>set (okeys ?cs). lineage_ok git work c)"
    using children_answer [of ?cs "\<lambda>c cw. mergeStillResolves n git work c cw" "lineage_ok git work"] child by blast
  note step = lineage_ok_step [OF Suc.prems(1), of git]
  show ?case
  proof (cases "?cs = []")
    case True
    with step show ?thesis by (simp add: node_ok_def okeys_def)
  next
    case False
    with x step show ?thesis by (cases x) (auto simp: Let_def node_ok_def)
  qed
qed simp

text \<open>
  C26: On a lineage without cycles the merge check ends, and it is positive exactly when every item at or below the
  asked one, canceled children left out, passes its own check: the recorded commit of an item with no children, the
  branch of a decomposed root.
\<close>

theorem merge_check_exact:
  assumes "acyclic (kept_edges work)" "distinct (okeys work)" "oget work i = Some w"
  shows "\<exists>ok d. checkMergeStillResolves git work i w = Some (ok, d) \<and> (ok \<longleftrightarrow> lineage_ok git work i)"
proof -
  have "(kept_edges work)\<^sup>+ `` {i} \<subseteq> set (okeys work)"
  proof
    fix c assume "c \<in> (kept_edges work)\<^sup>+ `` {i}"
    then obtain k where "(k, c) \<in> kept_edges work" by (auto elim: tranclE)
    then show "c \<in> set (okeys work)" by (auto simp: kept_edges_def kept_children_def okeys_def)
  qed
  then have "card ((kept_edges work)\<^sup>+ `` {i}) \<le> length work"
    by (metis List.finite_set card_length card_mono length_map okeys_def order_trans)
  with merge_total [OF assms, of "Suc (length work)" git] show ?thesis
    by (auto simp: checkMergeStillResolves_def)
qed

text \<open>
  The gate lets an item go only when its latest delivery is at least its time to live ago, its retrospective
  left content, for itself or its root, and, where the domain keeps worktrees, its merge check is positive.
\<close>

theorem cleanup_ready_means:
  assumes "assessCleanupReadiness time_of exists_file git v rawEvents i worktreeBacked ttlDays leafTtlDays now = Some r" "rd_ready r"
  shows "(\<exists>shipped t. latest_entry rawEvents i ''delivered'' = Some shipped \<and> time_of (e_ts shipped) = Some t
        \<and> t + resolveTtlDaysForItem (v_work v) i ttlDays leafTtlDays * DAY \<le> now)
    \<and> (content_ok (checkRetrospectiveContentForId exists_file v i)
        \<or> content_ok (checkRetrospectiveContentForId exists_file v (resolveRoot (v_work v) i)))
    \<and> (worktreeBacked \<longrightarrow> (\<exists>d. checkMergeStillResolves git (v_work v) i (case oget (v_work v) i of Some w \<Rightarrow> w | None \<Rightarrow> []) = Some (True, d)))"
proof (intro conjI impI)
  let ?ttl = "checkCleanupTTLElapsed time_of rawEvents i (resolveTtlDaysForItem (v_work v) i ttlDays leafTtlDays) now"
  have t: "ttl_ok ?ttl" and c: "content_ok (checkRetrospectiveContent exists_file v i)"
    using assms by (auto simp: assessCleanupReadiness_def Let_def split: if_splits)
  from t show "\<exists>shipped t. latest_entry rawEvents i ''delivered'' = Some shipped \<and> time_of (e_ts shipped) = Some t
      \<and> t + resolveTtlDaysForItem (v_work v) i ttlDays leafTtlDays * DAY \<le> now"
    by (auto simp: ttl_ok_iff)
  from c show "content_ok (checkRetrospectiveContentForId exists_file v i)
      \<or> content_ok (checkRetrospectiveContentForId exists_file v (resolveRoot (v_work v) i))"
    by (auto simp: checkRetrospectiveContent_def Let_def split: if_splits)
  assume "worktreeBacked"
  with assms show "\<exists>d. checkMergeStillResolves git (v_work v) i (case oget (v_work v) i of Some w \<Rightarrow> w | None \<Rightarrow> []) = Some (True, d)"
    by (auto simp: assessCleanupReadiness_def Let_def split: if_splits)
qed

section \<open>The next item\<close>

lemma by_time_min:
  "\<forall>x\<in>set xs. snd x \<noteq> None \<Longrightarrow> js_sort by_time xs = y # ys \<Longrightarrow> x \<in> set xs \<Longrightarrow> the (snd y) \<le> the (snd x)"
proof (induction xs arbitrary: y ys x)
  case (Cons a xs)
  show ?case
  proof (cases "js_sort by_time xs")
    case Nil
    then have "xs = []" by (metis length_0_conv length_js_sort)
    with Cons.prems show ?thesis by simp
  next
    case (Cons z zs)
    have z: "z \<in> set xs" by (metis Cons list.set_intros(1) set_js_sort)
    have le: "the (snd z) \<le> the (snd x)" if "x \<in> set xs" for x
      using Cons.IH [OF _ Cons that] Cons.prems(1) by simp
    have "by_time a z = the (snd a) - the (snd z)"
      using Cons.prems(1) z by (auto simp: by_time_def split: option.splits)
    then have "if the (snd a) \<le> the (snd z) then y = a else y = z"
      using Cons Cons.prems(2) by (auto split: if_splits)
    moreover have "x = a \<or> the (snd z) \<le> the (snd x)" using Cons.prems(3) le [of x] by (metis set_ConsD)
    ultimately show ?thesis by (auto split: if_splits)
  qed
qed simp

definition waits_for_cleanup :: "(jval \<Rightarrow> int option) \<Rightarrow> works \<Rightarrow> event list \<Rightarrow> int \<Rightarrow> int option \<Rightarrow> int \<Rightarrow> string \<Rightarrow> int \<Rightarrow> bool" where
  "waits_for_cleanup time_of work rawEvents ttlDays leafTtlDays now i t =
     (i \<in> set (at_status ''cleanup'' work)
      \<and> (\<exists>e. latest_entry rawEvents i ''delivered'' = Some e \<and> time_of (e_ts e) = Some t)
      \<and> t + resolveTtlDaysForItem work i ttlDays leafTtlDays * DAY \<le> now)"

lemma in_map_filter: "y \<in> set (List.map_filter f xs) \<longleftrightarrow> (\<exists>x\<in>set xs. f x = Some y)"
  by (force simp: List.map_filter_def)

lemma cleanup_candidates_set:
  "(i, t) \<in> set (cleanup_candidates time_of work rawEvents ttlDays leafTtlDays now)
    \<longleftrightarrow> (\<exists>s. t = Some s \<and> waits_for_cleanup time_of work rawEvents ttlDays leafTtlDays now i s)"
  by (auto simp: cleanup_candidates_def in_map_filter ttl_ok_iff waits_for_cleanup_def split: if_splits)

text \<open>
  C34: The cleanup sweep takes an item that waits in cleanup past its time to live, none of the others was delivered
  earlier, and it takes none only when none is due.
\<close>

theorem cleanup_takes_oldest:
  "case pickNextCleanupItem time_of work rawEvents ttlDays leafTtlDays now of
     None \<Rightarrow> \<nexists>i t. waits_for_cleanup time_of work rawEvents ttlDays leafTtlDays now i t
   | Some i \<Rightarrow> \<exists>t. waits_for_cleanup time_of work rawEvents ttlDays leafTtlDays now i t
       \<and> (\<nexists>j s. waits_for_cleanup time_of work rawEvents ttlDays leafTtlDays now j s \<and> s < t)"
proof -
  let ?cs = "cleanup_candidates time_of work rawEvents ttlDays leafTtlDays now"
  note cand = cleanup_candidates_set [of _ _ time_of work rawEvents ttlDays leafTtlDays now]
  have some: "\<forall>x\<in>set ?cs. snd x \<noteq> None" by (auto simp: cand)
  show ?thesis
  proof (cases "js_sort by_time ?cs")
    case Nil
    then have "?cs = []" by (metis length_0_conv length_js_sort)
    then have "\<nexists>i t. waits_for_cleanup time_of work rawEvents ttlDays leafTtlDays now i t"
      using cand by (metis empty_iff list.set(1))
    moreover have "pickNextCleanupItem time_of work rawEvents ttlDays leafTtlDays now = None"
      by (simp add: pickNextCleanupItem_def next_of_def Nil)
    ultimately show ?thesis by simp
  next
    case (Cons y ys)
    obtain i t where y: "y = (i, t)" by fastforce
    have "y \<in> set ?cs" by (metis Cons list.set_intros(1) set_js_sort)
    with y obtain s where s: "t = Some s" "waits_for_cleanup time_of work rawEvents ttlDays leafTtlDays now i s"
      using cand by blast
    have "s \<le> s'" if "waits_for_cleanup time_of work rawEvents ttlDays leafTtlDays now j s'" for j s'
    proof -
      have "(j, Some s') \<in> set ?cs" using that cleanup_candidates_set by blast
      from by_time_min [OF some Cons this] y s show ?thesis by simp
    qed
    then have "\<nexists>j s'. waits_for_cleanup time_of work rawEvents ttlDays leafTtlDays now j s' \<and> s' < s" by (meson not_less)
    moreover have p: "pickNextCleanupItem time_of work rawEvents ttlDays leafTtlDays now = Some i"
      by (simp add: pickNextCleanupItem_def next_of_def Cons y)
    ultimately show ?thesis using s(2) unfolding p option.case by blast
  qed
qed

section \<open>Paths of documents\<close>


text \<open>
  Whatever a path resolves to is a live document of an active topic, the path of a dead document included.
\<close>

theorem path_resolves_to_live:
  assumes "topics_named k" "d \<in> set (resolveDocPath k p)"
  shows "isLiveDocLifecycle (kd_life d) \<and> (\<exists>t. oget (k_topics k) (kd_topic d) = Some t \<and> tp_status t = ''active'')"
  using resolved_live [OF assms] by (auto simp: isLive_def)

section \<open>Witnesses\<close>

definition tree_work :: works where
  "tree_work = [(''r'', [(''id'', JStr ''r''), (''status'', JStr ''cleanup'')]),
     (''c'', [(''id'', JStr ''c''), (''parent'', JStr ''r''), (''status'', JStr ''done''), (''headAtReturn'', JStr ''s1'')]),
     (''x'', [(''id'', JStr ''x''), (''parent'', JStr ''r''), (''status'', JStr ''wontfix''), (''headAtReturn'', JStr ''lost'')])]"

definition tree_git :: git_port where
  "tree_git = \<lparr>gp_resolve = (\<lambda>n. if n \<in> {''HEAD'', ''fgw/r'', ''s1''} then Some n else None),
     gp_ancestry = (\<lambda>a d. a = ''s1'' \<or> d = ''HEAD''), gp_unmatched = (\<lambda>_ _. None)\<rparr>"

lemma tree_children: "kept_children tree_work p = (if p = ''r'' then [(''c'', the (oget tree_work ''c''))] else [])"
  by (simp add: kept_children_def tree_work_def isCanceledStatus_def tail_resolved_def TAIL_RESOLVED_STATUSES_def LEGACY_CANCELED_STATUS_def)

theorem merge_check_exact_witness:
  "\<exists>d. checkMergeStillResolves tree_git tree_work ''r'' (the (oget tree_work ''r'')) = Some (True, d) \<and> lineage_ok tree_git tree_work ''r''"
proof -
  have "kept_edges tree_work = {(''r'', ''c'')}" by (auto simp: kept_edges_def tree_children okeys_def)
  then have a: "acyclic (kept_edges tree_work)" by (simp add: acyclic_def trancl_insert)
  have "oget tree_work ''r'' = Some (the (oget tree_work ''r''))" by (simp add: tree_work_def)
  moreover have "distinct (okeys tree_work)" by (simp add: tree_work_def okeys_def)
  ultimately obtain ok d where "checkMergeStillResolves tree_git tree_work ''r'' (the (oget tree_work ''r'')) = Some (ok, d)"
    "ok \<longleftrightarrow> lineage_ok tree_git tree_work ''r''"
    using merge_check_exact [OF a, of "''r''" "the (oget tree_work ''r'')" tree_git] by blast
  moreover have "map_option fst (checkMergeStillResolves tree_git tree_work ''r'' (the (oget tree_work ''r''))) = Some True"
    by code_simp
  ultimately show ?thesis by simp
qed

definition tree_log :: "event list" where
  "tree_log = [\<lparr>e_type = ''work.move'', e_payload = [(''id'', JStr ''r''), (''to'', JStr ''delivered'')], e_ts = JNum 100,
     e_v = None, e_origin = None, e_stream = None, e_seq = None, e_seen = [], e_h = None\<rparr>]"

definition tree_view :: view where
  "tree_view = \<lparr>v_work = tree_work, v_decisions = [], v_streamHeads = None, v_gates = None, v_settlements = None, v_learnings = None,
     v_outcomes = Some [(''r'', [(''docType'', JStr ''how-to''), (''docPath'', JStr ''docs/a.md'')])], v_discovery = None,
     v_decisionsById = None, v_callThreads = None, v_parkResolutions = None, v_focus = None, v_preconditionHeads = None,
     v_conflicts = None, v_knowledge = None\<rparr>"

definition num_time :: "jval \<Rightarrow> int option" where
  "num_time v = (case v of JNum n \<Rightarrow> Some n | _ \<Rightarrow> None)"

definition one_file :: "string \<Rightarrow> bool" where "one_file p = (p = ''docs/a.md'')"

theorem cleanup_ready_means_witness:
  "content_ok (checkRetrospectiveContentForId one_file tree_view ''r'') \<or> content_ok (checkRetrospectiveContentForId one_file tree_view (resolveRoot tree_work ''r''))"
proof -
  define r where "r = the (assessCleanupReadiness num_time one_file tree_git tree_view tree_log ''r'' True 2 None (100 + 2 * DAY))"
  have a: "assessCleanupReadiness num_time one_file tree_git tree_view tree_log ''r'' True 2 None (100 + 2 * DAY) = Some r"
    unfolding r_def by code_simp
  have "rd_ready r" unfolding r_def by code_simp
  from cleanup_ready_means [OF a this] show ?thesis by (simp add: tree_view_def)
qed

definition path_log :: "kevent list" where
  "path_log = [\<lparr>ke_type = ''topic.register'', ke_payload = [(''topicId'', JStr ''t''), (''purposeSlug'', JStr ''use'')], ke_ts = JNum 1\<rparr>,
     \<lparr>ke_type = ''doc.reserve'', ke_payload = [(''docId'', JStr ''d''), (''topicId'', JStr ''t''), (''role'', JStr ''guide''),
        (''framework'', JStr ''diataxis''), (''mode'', JStr ''how-to''), (''currentPath'', JStr ''docs/a.md'')], ke_ts = JNum 2\<rparr>]"

definition path_registry :: kstate where
  "path_registry = (case foldKnowledgeEvents empty_registry path_log of Inr k \<Rightarrow> k | Inl _ \<Rightarrow> empty_registry)"

lemma path_registry: "foldKnowledgeEvents empty_registry path_log = Inr path_registry"
  unfolding path_registry_def by code_simp


theorem path_resolves_to_live_witness:
  "isLiveDocLifecycle (kd_life (the (oget (k_docs path_registry) ''d'')))"
proof -
  have "topics_named path_registry" by code_simp
  moreover have "the (oget (k_docs path_registry) ''d'') \<in> set (resolveDocPath path_registry ''docs/a.md'')" by code_simp
  ultimately show ?thesis using path_resolves_to_live by blast
qed

end
