(* ===== verification/Spec2Isabelle.thy ===== *)
theory Spec2Isabelle
  imports Store_Properties Team_Properties Log_Properties Lifecycle_Properties Graph_Properties
  Write_Scope Run_Control Guide_Schema Runner_Loop Case_Properties Runner_Properties
  Ranking_Properties Lock_Properties Planner_Properties Capacity_Properties Cleanup_Properties
begin

text \<open>
  \<^bold>\<open>forgent: the state of work, verified.\<close> The program keeps the work of a team of agents and humans as
  an append-only log of events. A write goes through one door (\<open>src/state/store.mjs\<close>): under the state
  lock the door folds the log to a view, decides, and appends a batch of events, each with the precondition
  it was decided on. Every reader works on the fold (\<open>src/state/replay.mjs\<close>); readiness, order, schedules
  and merge sets are pure functions of the view. Claims (who works on what right now) live beside the log
  and are overlaid on the view.

  \<^bold>\<open>Parts and theories.\<close>
  \<^item> \<open>Prelude\<close>: the values of the language (\<open>jval\<close>, objects as insertion-ordered association
    lists), truthiness, strings, checks of which the first error wins (\<open>first_err\<close>, \<open>guarded\<close>,
    \<open>e_bind\<close>), the stable sort and its locale \<open>js_comparator\<close>, interpreted for every comparator
    of the model.
  \<^item> \<open>Workflow_Steps\<close> (\<open>src/workflow/steps.mjs\<close>), \<open>Domain_Registry\<close>
    (\<open>src/state/domain-registry.mjs\<close>, \<open>domains/coding/compiled.json\<close>): Workflows, domains, and
    the resolution of an item's step. The registry \<open>DOMAINS\<close> is an argument everywhere.
  \<^item> \<open>Work_Schema\<close> (\<open>src/state/work.mjs\<close>): the validator of items, field by field.
  \<^item> \<open>Status_Fsm\<close> (\<open>src/state/status-fsm.mjs\<close>, \<open>step-fsm.mjs\<close>): the transition table,
    the decisions, and the table as the step relation \<open>status_step\<close>.
  \<^item> \<open>Knowledge_Registry\<close>, \<open>Knowledge_Invariants\<close> (\<open>src/state/knowledge-registry.mjs\<close>):
    the reducer of topics and documents and its invariant \<open>registry_ok\<close>.
  \<^item> \<open>Replay\<close>, \<open>Replay_Facts\<close> (\<open>src/state/replay.mjs\<close>): the fold of every event type,
    preconditions and conflicts, and what holds of all logs.
  \<^item> \<open>Dep_Graph\<close>, \<open>Frontier\<close>, \<open>Graph_Metrics\<close>, \<open>Merge_Order\<close>
    (\<open>src/state/dep-graph.mjs\<close>, \<open>frontier.mjs\<close>, \<open>plan-pool.mjs\<close>, \<open>graph-metrics.mjs\<close>,
    \<open>impact.mjs\<close>, \<open>discover-pool.mjs\<close>, \<open>graph-harness.mjs\<close>, \<open>src/runner/root-affinity.mjs\<close>):
    the graph of items, its cycle search, readiness, schedules, components and merge readiness. The locale
    \<open>guarded_graph\<close> states what a write guard promises its graph; both guards of the code interpret it.
  \<^item> \<open>Team\<close> (\<open>src/state/handoff.mjs\<close>, \<open>worker-slots.mjs\<close>, the call doors of the store),
    \<open>Claims\<close> (\<open>src/state/runtime-coordination.mjs\<close>): calls between roles, worker slots, claims.
  \<^item> \<open>Store\<close>, \<open>Store_Facts\<close>, \<open>Store_Door\<close>, \<open>Store_Batches\<close> (\<open>src/state/store.mjs\<close>,
    \<open>work-event-store.mjs\<close>, \<open>consumer-event-gate.mjs\<close>): the doors, the batch they commit, and the
    transition system \<open>store_step\<close> of all doors, with reachability and runs.
  \<^item> \<open>Graph_Rankings\<close> (\<open>src/state/graph-metrics.mjs\<close>): the critical path, the scope of a goal, the greedy
    ranking of what unblocks most, and the frame of the metrics.
  \<^item> \<open>Hot_Lock\<close>, \<open>State_Tx\<close> (\<open>src/state/hot-lock.mjs\<close>): the mutex of the state store, as functions of its
    record and as the protocol \<open>hot_step\<close> of any number of processes with crashes; the transaction object, its
    staging and its commit, with the specification \<open>spec_prog\<close> of calls that take effect at once. The locale
    \<open>exclusive_section\<close> is what a transaction asks of the mutex; the protocol interprets it.
  \<^item> \<open>Write_Scope\<close> (\<open>src/runner/dispatch/write-scope.mjs\<close>): canonical write entries, the glob
    matcher with its memo, coverage and overlap of scopes; the language a pattern denotes (\<open>glob_denotes\<close>) is
    its specification.
  \<^item> \<open>Run_Control\<close> (\<open>src/run-supervisor/run-lock.mjs\<close>): the generations of a run's controller. A
    call is a read of the directory, a decision, and an exclusive creation of the next name;
    \<open>control_step\<close> interleaves those of any number of processes.
  \<^item> \<open>Recovery\<close>, \<open>Runner_Loop\<close> (\<open>src/runner/anti-loop.mjs\<close>, \<open>recovery.mjs\<close>,
    \<open>loop.mjs\<close>): visits, the miss breaker, the recovery matrix, the attempts of one dispatch; the startup
    reap, the waves and one poll of the drain.
  \<^item> \<open>Capacity_Inventory\<close>, \<open>Account_Pools\<close>, \<open>Capacity_State\<close>, \<open>Capacity_Facts\<close>
    (\<open>src/runner/dispatch/provider-capacity.mjs\<close>, \<open>llm-accounts.mjs\<close>): the accounts a config declares, and the
    shared state of leases, quarantines and probes. Each operation is one step under the state lock;
    \<open>capacity_ops\<close> is a run of operations of any processes, and \<open>keeps\<close> what one of them leaves alone.
  \<^item> \<open>Recovery_Planner\<close> (\<open>src/runner/dispatch/recovery-planner.mjs\<close>): the recommendation that recovers a
    run, and the re-check before it is applied.
  \<^item> \<open>Doc_Resolver\<close>, \<open>Cleanup_Gate\<close> (\<open>src/report/knowledge-resolver.mjs\<close>,
    \<open>src/state/cleanup-harness.mjs\<close>, \<open>cleanup-pool.mjs\<close>, \<open>retro-pool.mjs\<close>): which live document a path stands
    for, what an item must show before it leaves cleanup, and which item a sweep takes next.
  \<^item> \<open>Guide_Schema\<close>, \<open>Workflow_State\<close>, \<open>Case_Projection\<close>
    (\<open>src/workflow/guide-schema.mjs\<close>, \<open>store.mjs\<close>, \<open>case-projection.mjs\<close>): the guide of a Workflow, the
    fold of its steps, and the fold of its case (milestones, reservations, what is left of the frame).
  \<^item> \<open>Case_Admission\<close>, \<open>Case_Ledger\<close>, \<open>Case_Safety\<close>
    (\<open>src/workflow/case-admission.mjs\<close>, \<open>case-frame.mjs\<close>, \<open>case-runtime.mjs\<close>, \<open>case-close.mjs\<close>,
    \<open>case-start.mjs\<close>): admission and recheck of a proposal, reservations in a parent's frame, settles, closing;
    \<open>case_step\<close> is the transition system of all doors of one ledger, with the invariants of what it reaches.
  \<^item> \<open>Case_Bindings\<close> (\<open>src/workflow/case-bindings.mjs\<close>): the records that bind a worktree to a case, and
    \<open>bind_step\<close>, the protocol of their durable writes with crashes between any two.
  \<^item> \<open>Sample_Log\<close>: the small log the properties are instantiated on. The theories
    \<open>Store_Properties\<close>, \<open>Team_Properties\<close>, \<open>Log_Properties\<close>, \<open>Lifecycle_Properties\<close>,
    \<open>Graph_Properties\<close>, \<open>Ranking_Properties\<close>, \<open>Case_Properties\<close>, \<open>Runner_Properties\<close>,
    \<open>Lock_Properties\<close>, \<open>Capacity_Properties\<close>, \<open>Planner_Properties\<close> and \<open>Cleanup_Properties\<close> state the properties C1 to C40 and
    further ones without a number.

  \<^bold>\<open>How state corresponds.\<close> \<open>view\<close> is the object the fold builds (\<open>view.work\<close> is
  \<open>v_work\<close>, and so on); a key the source creates lazily is an option. \<open>event\<close> is a log line after
  parsing; \<open>raw_event\<close> is what a door hands to \<open>commitEvents\<close>; \<open>envelope\<close> is what the event
  store adds (origin, sequence, what was seen, hash). \<open>claims\<close> is the directory of claim records. The
  record \<open>ports\<close> is all a door asks of the outside: the question template check, evidence on disk, the
  digest of an item, the tip of a branch, the writer and the clock. An operation that throws returns
  \<open>Inl\<close> of the error, and changes nothing.

  \<^bold>\<open>What is shown.\<close> Of the store: every reachable view is sound, one operation moves an item along
  at most one edge, terminal statuses are final, own batches always apply, deliveries carry their evidence,
  questions can be answered, and some open item is always free. Of the claims: mutual exclusion, and settles by
  owners only. Of the log: conflicted events leave no trace, capacities hold under every interleaving,
  consent is fresh, folds compose. Of the mutex: one holder
  under every interleaving, staged calls as good as direct ones, transactions all or nothing and within their
  roots. Of the graph: guards and finders are exact, the critical path is a longest one and the greedy ranking near the best, the frontier and the merge
  buckets are what they should be, schedules are conflict-free. Of the knowledge registry: live documents
  never share a slot or a path, dead ones stay dead. Of a case: its frame is never overspent, live reservations
  write apart, consent and delivery stand on recorded answers and receipts, settles are folded in once. Of the
  bindings: exclusive under every interleaving and crash. Of the runner: one controller per run, a settled run
  is final, dispatches end, polls stay within their limits, and the glob search decides its language.
  Of provider accounts: a fault keeps an account out for its window, receipts and live leases stand whatever
  other processes do, a dead login is tried once per cooldown; a recommendation applies exactly on its facts and
  in its time. Of the cleanup: the merge check speaks for the whole lineage, an item leaves only with what the gate
  asks, the sweep takes the oldest, and the path of a live document resolves to it.

  \<^bold>\<open>Bounds and fuel.\<close> The depth-first search, the lineage walks, the breadth-first search, the stack loop
  and the union-find take fuel: one more than the number of keys of the map they walk (each step marks a key;
  the stack loop pops at most one entry per edge), shown to be enough where a property rests on it
  (\<open>dfs_fuel\<close>, \<open>open_below_fuel\<close>, \<open>root_walk_fuel\<close>, \<open>bfs_fuel\<close>). The loop that closes
  calls takes the number of open calls (\<open>close_calls_ends\<close>). The retry of an exclusive creation is a
  partial function, shown to return when nobody races it; the walk over the ancestors of an activity ends on
  every guide, by the activities not yet seen.
  The merge check takes one more than the number of items, enough on a lineage without cycles
  (\<open>merge_total\<close>); on an item that is below itself the code would not return.

  \<^bold>\<open>Not modelled.\<close> Reading and writing the log, locks, recovery, projections and caches
  (\<open>src/event-store\<close>): the model starts at the parsed events, and a transaction is atomic. Git, the file
  system and the clock: ports. The command line (\<open>bin/fgos.mjs\<close>, \<open>src/cli\<close>), setup
  (\<open>src/setup\<close>), and the runner's processes, worktrees, provider sessions and the renewal of
  credentials (\<open>src/runner/dispatch\<close>): glue around the store. The account lock is not modelled, nor the clock
  changes of a time zone. Of a case: the authority checks on the process
  environment, the rounds of gate answers as files, and torn lines of its ledger. Prototype chains
  of objects, code units above 255 and floating-point arithmetic beyond comparison are outside the values.
\<close>

end
